(* ===== verification/Prelude.thy ===== *)
theory Prelude
  imports Main "HOL-Library.Word" "HOL-Library.Monad_Syntax"
begin

text \<open>
  Shared vocabulary of the development: the C integer types as words, the error codes of
  \<^verbatim>\<open>include/error.h\<close>, the rounding macros of \<^verbatim>\<open>include/types.h\<close>, the collections of
  rewrite rules the component proofs use, and the generic facts about words, options and
  lists that several components need.

  A kernel panic (\<^verbatim>\<open>panic\<close>, \<^verbatim>\<open>panic_on\<close>, a failed \<^verbatim>\<open>assert\<close>) stops the machine; it is the
  value \<^term>\<open>None\<close> of the \<open>option\<close> type every operation that can panic returns.  A C
  function returning an error code returns it as an \<open>int\<close> (0 or a negated error code).
\<close>

unbundle bit_operations_syntax

section \<open>C integer types\<close>

type_synonym u8 = "8 word"
type_synonym u16 = "16 word"
type_synonym u32 = "32 word"
type_synonym u64 = "64 word"

section \<open>Error codes (\<^verbatim>\<open>include/error.h\<close>)\<close>

definition E_UNSPECIFIED :: int where "E_UNSPECIFIED = 1"
definition E_BAD_ENV :: int where "E_BAD_ENV = 2"
definition E_INVAL :: int where "E_INVAL = 3"
definition E_NO_MEM :: int where "E_NO_MEM = 4"
definition E_NO_SYS :: int where "E_NO_SYS = 5"
definition E_NO_FREE_ENV :: int where "E_NO_FREE_ENV = 6"
definition E_IPC_NOT_RECV :: int where "E_IPC_NOT_RECV = 7"
definition E_NO_DISK :: int where "E_NO_DISK = 8"
definition E_MAX_OPEN :: int where "E_MAX_OPEN = 9"
definition E_NOT_FOUND :: int where "E_NOT_FOUND = 10"
definition E_BAD_PATH :: int where "E_BAD_PATH = 11"
definition E_FILE_EXISTS :: int where "E_FILE_EXISTS = 12"
definition E_NOT_EXEC :: int where "E_NOT_EXEC = 13"
definition E_INTR :: int where "E_INTR = 14"
definition E_NO_DEV :: int where "E_NO_DEV = 15"

named_theorems errno "the error codes, unfolded"

declare E_UNSPECIFIED_def [errno] E_BAD_ENV_def [errno] E_INVAL_def [errno]
  E_NO_MEM_def [errno] E_NO_SYS_def [errno] E_NO_FREE_ENV_def [errno]
  E_IPC_NOT_RECV_def [errno] E_NO_DISK_def [errno] E_MAX_OPEN_def [errno]
  E_NOT_FOUND_def [errno] E_BAD_PATH_def [errno] E_FILE_EXISTS_def [errno]
  E_NOT_EXEC_def [errno] E_INTR_def [errno] E_NO_DEV_def [errno]

section \<open>Rounding and masks (\<^verbatim>\<open>include/types.h\<close>, \<^verbatim>\<open>include/bitops.h\<close>)\<close>

definition ROUND :: "u64 \<Rightarrow> u64 \<Rightarrow> u64" where
  "ROUND a n = (a + n - 1) AND NOT (n - 1)"

definition ROUNDDOWN :: "u64 \<Rightarrow> u64 \<Rightarrow> u64" where
  "ROUNDDOWN a n = a AND NOT (n - 1)"

definition GENMASK :: "nat \<Rightarrow> nat \<Rightarrow> u64" where
  "GENMASK h l = push_bit l (NOT 0) AND drop_bit (64 - 1 - h) (NOT 0)"

section \<open>Generic facts\<close>

lemma bind_Some_iff [simp]:
  "Option.bind m f = Some y \<longleftrightarrow> (\<exists>x. m = Some x \<and> f x = Some y)"
  by (cases m) auto

lemma unat_mask_eq: "unat (w AND mask n :: 'a::len word) = unat w mod 2 ^ n"
  by (metis take_bit_eq_mask take_bit_eq_mod unsigned_take_bit_eq)

lemma unat_of_nat32: "n < 4294967296 \<Longrightarrow> unat (of_nat n :: u32) = n"
  by (simp add: unsigned_of_nat take_bit_nat_eq_self)

lemma unat_of_nat64 [simp]: "n < 18446744073709551616 \<Longrightarrow> unat (of_nat n :: u64) = n"
  by (simp add: unsigned_of_nat take_bit_nat_eq_self)

lemma unat64_less [simp]: "unat (x :: u64) < 18446744073709551616"
proof -
  have "unat x < 2 ^ LENGTH(64)" by (rule unsigned_less)
  then show ?thesis by simp
qed

lemma unat64_minus1 [simp]: "unat (- 1 :: u64) = 18446744073709551615"
  by (simp add: unsigned_minus_1_eq_mask mask_eq_exp_minus_1)

section \<open>Loops\<close>

text \<open>A counting loop whose body may panic: the body runs for each element in turn.\<close>

primrec for_each :: "'a list \<Rightarrow> ('a \<Rightarrow> 's \<Rightarrow> 's option) \<Rightarrow> 's \<Rightarrow> 's option" where
  "for_each [] f s = Some s"
| "for_each (x # xs) f s = Option.bind (f x s) (for_each xs f)"

lemma for_each_append: "for_each (xs @ ys) f s = Option.bind (for_each xs f s) (for_each ys f)"
proof (induction xs arbitrary: s)
  case (Cons x xs)
  then show ?case by (cases "f x s") simp_all
qed simp

lemma for_each_single [simp]: "for_each [x] f = f x"
proof
  show "for_each [x] f s = f x s" for s by (cases "f x s") simp_all
qed

text \<open>A relation every iteration keeps holds at the end.\<close>

lemma for_each_inv:
  assumes "for_each xs f s = Some s'" "I s"
    and "\<And>x s s'. x \<in> set xs \<Longrightarrow> I s \<Longrightarrow> f x s = Some s' \<Longrightarrow> I s'"
  shows "I s'"
  using assms
proof (induction xs arbitrary: s)
  case (Cons x xs)
  from Cons.prems(1) obtain t where t: "f x s = Some t" "for_each xs f t = Some s'" by auto
  show ?case
    by (rule Cons.IH [OF t(2)]) (use Cons.prems t(1) in auto)
qed simp

end
