(* ===== verification/Queue.thy ===== *)
theory Queue
  imports Prelude
begin

text \<open>
  The intrusive lists of \<^verbatim>\<open>include/queue.h\<close>, at the level of their link fields.

  An element is identified by its index ('a).  A pointer to an element is an \<open>'a option\<close>
  (\<^term>\<open>None\<close> is \<^verbatim>\<open>NULL\<close>).  \<^verbatim>\<open>le_prev\<close> and \<^verbatim>\<open>tqe_prev\<close> are addresses of a pointer field: the
  head's first pointer, the next pointer of an element, or \<^verbatim>\<open>NULL\<close> in an entry that was never
  linked.  Storing through a null address faults, which in the kernel is a panic
  (\<^term>\<open>None\<close>).

  The theorems: both families of macros implement operations on HOL lists
  (\<^verbatim>\<open>LIST_rep\<close>, \<^verbatim>\<open>TAILQ_rep\<close>), stated as the locales \<open>intrusive_list\<close> and
  \<open>intrusive_queue\<close> that the page allocator, the process table and the scheduler use.
\<close>

section \<open>Definitions\<close>

subsection \<open>References to a pointer field\<close>

datatype 'a qref = RNull | RHead | RNext 'a

subsection \<open>LIST\<close>

record 'a LIST =
  lh_first :: "'a option"
  le_next :: "'a \<Rightarrow> 'a option"
  le_prev :: "'a \<Rightarrow> 'a qref"

definition LIST_EMPTY :: "'a LIST \<Rightarrow> bool" where
  "LIST_EMPTY h = (lh_first h = None)"

definition LIST_FIRST :: "'a LIST \<Rightarrow> 'a option" where
  "LIST_FIRST h = lh_first h"

definition LIST_NEXT :: "'a LIST \<Rightarrow> 'a \<Rightarrow> 'a option" where
  "LIST_NEXT h x = le_next h x"

definition LIST_INIT :: "'a LIST \<Rightarrow> 'a LIST" where
  "LIST_INIT h = h\<lparr>lh_first := None\<rparr>"

text \<open>The store \<^verbatim>\<open>*ref = v\<close> through the address of a pointer field.\<close>

fun LIST_store :: "'a LIST \<Rightarrow> 'a qref \<Rightarrow> 'a option \<Rightarrow> 'a LIST option" where
  "LIST_store h RNull v = None"
| "LIST_store h RHead v = Some (h\<lparr>lh_first := v\<rparr>)"
| "LIST_store h (RNext y) v = Some (h\<lparr>le_next := (le_next h)(y := v)\<rparr>)"

definition LIST_set_prev :: "'a LIST \<Rightarrow> 'a \<Rightarrow> 'a qref \<Rightarrow> 'a LIST" where
  "LIST_set_prev h x r = h\<lparr>le_prev := (le_prev h)(x := r)\<rparr>"

definition LIST_set_next :: "'a LIST \<Rightarrow> 'a \<Rightarrow> 'a option \<Rightarrow> 'a LIST" where
  "LIST_set_next h x v = h\<lparr>le_next := (le_next h)(x := v)\<rparr>"

definition LIST_INSERT_HEAD :: "'a LIST \<Rightarrow> 'a \<Rightarrow> 'a LIST" where
  "LIST_INSERT_HEAD h elm =
     (let h1 = LIST_set_next h elm (lh_first h);
          h2 = (case lh_first h1 of None \<Rightarrow> h1 | Some f \<Rightarrow> LIST_set_prev h1 f (RNext elm));
          h3 = h2\<lparr>lh_first := Some elm\<rparr>
      in LIST_set_prev h3 elm RHead)"

definition LIST_INSERT_AFTER :: "'a LIST \<Rightarrow> 'a \<Rightarrow> 'a \<Rightarrow> 'a LIST" where
  "LIST_INSERT_AFTER h listelm elm =
     (let h1 = LIST_set_next h elm (le_next h listelm);
          h2 = LIST_set_prev h1 elm (RNext listelm);
          h3 = (case le_next h2 listelm of None \<Rightarrow> h2
                | Some n \<Rightarrow> LIST_set_prev h2 n (RNext elm))
      in LIST_set_next h3 listelm (Some elm))"

definition LIST_INSERT_BEFORE :: "'a LIST \<Rightarrow> 'a \<Rightarrow> 'a \<Rightarrow> 'a LIST option" where
  "LIST_INSERT_BEFORE h listelm elm =
     (let h1 = LIST_set_next h elm (Some listelm);
          h2 = LIST_set_prev h1 elm (le_prev h1 listelm)
      in map_option (\<lambda>h3. LIST_set_prev h3 listelm (RNext elm))
           (LIST_store h2 (le_prev h2 listelm) (Some elm)))"

definition LIST_REMOVE :: "'a LIST \<Rightarrow> 'a \<Rightarrow> 'a LIST option" where
  "LIST_REMOVE h elm =
     (let h1 = (case le_next h elm of None \<Rightarrow> h
                | Some n \<Rightarrow> LIST_set_prev h n (le_prev h elm))
      in LIST_store h1 (le_prev h1 elm) (le_next h1 elm))"

subsection \<open>TAILQ\<close>

record 'a TAILQ =
  tqh_first :: "'a option"
  tqh_last :: "'a qref"
  tqe_next :: "'a \<Rightarrow> 'a option"
  tqe_prev :: "'a \<Rightarrow> 'a qref"

definition TAILQ_EMPTY :: "'a TAILQ \<Rightarrow> bool" where
  "TAILQ_EMPTY h = (tqh_first h = None)"

definition TAILQ_FIRST :: "'a TAILQ \<Rightarrow> 'a option" where
  "TAILQ_FIRST h = tqh_first h"

definition TAILQ_NEXT :: "'a TAILQ \<Rightarrow> 'a \<Rightarrow> 'a option" where
  "TAILQ_NEXT h x = tqe_next h x"

definition TAILQ_INIT :: "'a TAILQ \<Rightarrow> 'a TAILQ" where
  "TAILQ_INIT h = h\<lparr>tqh_first := None, tqh_last := RHead\<rparr>"

fun TAILQ_store :: "'a TAILQ \<Rightarrow> 'a qref \<Rightarrow> 'a option \<Rightarrow> 'a TAILQ option" where
  "TAILQ_store h RNull v = None"
| "TAILQ_store h RHead v = Some (h\<lparr>tqh_first := v\<rparr>)"
| "TAILQ_store h (RNext y) v = Some (h\<lparr>tqe_next := (tqe_next h)(y := v)\<rparr>)"

definition TAILQ_set_prev :: "'a TAILQ \<Rightarrow> 'a \<Rightarrow> 'a qref \<Rightarrow> 'a TAILQ" where
  "TAILQ_set_prev h x r = h\<lparr>tqe_prev := (tqe_prev h)(x := r)\<rparr>"

definition TAILQ_set_next :: "'a TAILQ \<Rightarrow> 'a \<Rightarrow> 'a option \<Rightarrow> 'a TAILQ" where
  "TAILQ_set_next h x v = h\<lparr>tqe_next := (tqe_next h)(x := v)\<rparr>"

definition TAILQ_INSERT_HEAD :: "'a TAILQ \<Rightarrow> 'a \<Rightarrow> 'a TAILQ" where
  "TAILQ_INSERT_HEAD h elm =
     (let h1 = TAILQ_set_next h elm (tqh_first h);
          h2 = (case tqh_first h1 of None \<Rightarrow> h1\<lparr>tqh_last := RNext elm\<rparr>
                | Some f \<Rightarrow> TAILQ_set_prev h1 f (RNext elm));
          h3 = h2\<lparr>tqh_first := Some elm\<rparr>
      in TAILQ_set_prev h3 elm RHead)"

definition TAILQ_INSERT_TAIL :: "'a TAILQ \<Rightarrow> 'a \<Rightarrow> 'a TAILQ option" where
  "TAILQ_INSERT_TAIL h elm =
     (let h1 = TAILQ_set_next h elm None;
          h2 = TAILQ_set_prev h1 elm (tqh_last h1)
      in map_option (\<lambda>h3. h3\<lparr>tqh_last := RNext elm\<rparr>)
           (TAILQ_store h2 (tqh_last h2) (Some elm)))"

definition TAILQ_INSERT_AFTER :: "'a TAILQ \<Rightarrow> 'a \<Rightarrow> 'a \<Rightarrow> 'a TAILQ" where
  "TAILQ_INSERT_AFTER h listelm elm =
     (let h1 = TAILQ_set_next h elm (tqe_next h listelm);
          h2 = (case tqe_next h1 elm of None \<Rightarrow> h1\<lparr>tqh_last := RNext elm\<rparr>
                | Some n \<Rightarrow> TAILQ_set_prev h1 n (RNext elm));
          h3 = TAILQ_set_next h2 listelm (Some elm)
      in TAILQ_set_prev h3 elm (RNext listelm))"

definition TAILQ_REMOVE :: "'a TAILQ \<Rightarrow> 'a \<Rightarrow> 'a TAILQ option" where
  "TAILQ_REMOVE h elm =
     (let h1 = (case tqe_next h elm of None \<Rightarrow> h\<lparr>tqh_last := tqe_prev h elm\<rparr>
                | Some n \<Rightarrow> TAILQ_set_prev h n (tqe_prev h elm))
      in TAILQ_store h1 (tqe_prev h1 elm) (tqe_next h1 elm))"


subsection \<open>What the links represent\<close>

text \<open>
  \<open>lseg nx pv r p xs\<close>: starting from the pointer \<open>p\<close>, stored in the field at address \<open>r\<close>,
  the next pointers \<open>nx\<close> run through exactly \<open>xs\<close> and every back reference \<open>pv\<close> is the
  address of the field that points to the element.
\<close>

fun lseg :: "('a \<Rightarrow> 'a option) \<Rightarrow> ('a \<Rightarrow> 'a qref) \<Rightarrow> 'a qref \<Rightarrow> 'a option \<Rightarrow> 'a list \<Rightarrow> bool" where
  "lseg nx pv r p [] = (p = None)"
| "lseg nx pv r p (x # xs) = (p = Some x \<and> pv x = r \<and> lseg nx pv (RNext x) (nx x) xs)"

definition LIST_rep :: "'a LIST \<Rightarrow> 'a list \<Rightarrow> bool" where
  "LIST_rep h xs \<longleftrightarrow> distinct xs \<and> lseg (le_next h) (le_prev h) RHead (lh_first h) xs"

definition TAILQ_rep :: "'a TAILQ \<Rightarrow> 'a list \<Rightarrow> bool" where
  "TAILQ_rep h xs \<longleftrightarrow> distinct xs \<and> lseg (tqe_next h) (tqe_prev h) RHead (tqh_first h) xs
     \<and> tqh_last h = (if xs = [] then RHead else RNext (last xs))"

section \<open>Segments\<close>

lemmas LIST_defs = LIST_set_prev_def LIST_set_next_def LIST_FIRST_def LIST_NEXT_def
  LIST_INIT_def LIST_EMPTY_def Let_def
lemmas TAILQ_defs = TAILQ_set_prev_def TAILQ_set_next_def TAILQ_FIRST_def TAILQ_NEXT_def
  TAILQ_INIT_def TAILQ_EMPTY_def Let_def

text \<open>The reference to the field that follows a segment.\<close>

definition end_ref :: "'a qref \<Rightarrow> 'a list \<Rightarrow> 'a qref" where
  "end_ref r xs = (if xs = [] then r else RNext (last xs))"

lemma end_ref_simps [simp]:
  "end_ref r [] = r" "end_ref r (x # xs) = end_ref (RNext x) xs"
  "end_ref r (xs @ [y]) = RNext y"
  by (auto simp: end_ref_def)

lemma lseg_cong:
  "lseg nx pv r p xs \<Longrightarrow> (\<And>x. x \<in> set xs \<Longrightarrow> nx' x = nx x) \<Longrightarrow> (\<And>x. x \<in> set xs \<Longrightarrow> pv' x = pv x)
   \<Longrightarrow> lseg nx' pv' r p xs"
  by (induction xs arbitrary: r p) auto

lemma lseg_first: "lseg nx pv r p xs \<Longrightarrow> p = (case xs of [] \<Rightarrow> None | x # _ \<Rightarrow> Some x)"
  by (cases xs) auto

text \<open>A partial segment, from one pointer to another.\<close>

fun pseg :: "('a \<Rightarrow> 'a option) \<Rightarrow> ('a \<Rightarrow> 'a qref) \<Rightarrow> 'a qref \<Rightarrow> 'a option \<Rightarrow> 'a list \<Rightarrow> 'a option \<Rightarrow> bool"
where
  "pseg nx pv r p [] q = (p = q)"
| "pseg nx pv r p (x # xs) q = (p = Some x \<and> pv x = r \<and> pseg nx pv (RNext x) (nx x) xs q)"

lemma lseg_append:
  "lseg nx pv r p (xs @ ys) \<longleftrightarrow>
     (\<exists>q. pseg nx pv r p xs q \<and> lseg nx pv (end_ref r xs) q ys)"
  by (induction xs arbitrary: r p) auto

lemma pseg_snoc:
  "pseg nx pv r p (xs @ [y]) q \<longleftrightarrow>
     pseg nx pv r p xs (Some y) \<and> pv y = end_ref r xs \<and> nx y = q"
  by (induction xs arbitrary: r p) auto

lemma pseg_cong:
  "pseg nx pv r p xs q \<Longrightarrow> (\<And>x. x \<in> set xs \<Longrightarrow> nx' x = nx x) \<Longrightarrow> (\<And>x. x \<in> set xs \<Longrightarrow> pv' x = pv x)
   \<Longrightarrow> pseg nx' pv' r p xs q"
  by (induction xs arbitrary: r p) auto

text \<open>
  Redirecting the field at the end of a partial segment: the first pointer of the head when
  the segment is empty, the next pointer of its last element otherwise.
\<close>

lemma pseg_redirect:
  assumes "pseg nx pv r p xs q" "xs \<noteq> []" "distinct xs"
  shows "pseg (nx(last xs := q')) pv r p xs q'"
proof -
  from assms(2) obtain ys y where xs: "xs = ys @ [y]" by (metis rev_exhaust)
  with assms(1) have 1: "pseg nx pv r p ys (Some y)" "pv y = end_ref r ys"
    by (auto simp: pseg_snoc)
  from assms(3) xs have "y \<notin> set ys" by auto
  with 1(1) have "pseg (nx(y := q')) pv r p ys (Some y)"
    by (auto intro: pseg_cong)
  with 1(2) show ?thesis by (simp add: xs pseg_snoc)
qed

section \<open>The macros on represented lists\<close>

subsection \<open>LIST\<close>

lemma LIST_rep_distinct: "LIST_rep h xs \<Longrightarrow> distinct xs"
  by (simp add: LIST_rep_def)

lemma LIST_INIT_rep: "LIST_rep (LIST_INIT h) []"
  by (simp add: LIST_rep_def LIST_defs)

lemma LIST_FIRST_rep: "LIST_rep h xs \<Longrightarrow> LIST_FIRST h = (case xs of [] \<Rightarrow> None | x # _ \<Rightarrow> Some x)"
  by (auto simp: LIST_rep_def LIST_defs dest: lseg_first)

lemma LIST_INSERT_HEAD_rep:
  assumes "LIST_rep h xs" "x \<notin> set xs"
  shows "LIST_rep (LIST_INSERT_HEAD h x) (x # xs)"
proof (cases xs)
  case Nil
  with assms show ?thesis
    by (simp add: LIST_rep_def LIST_INSERT_HEAD_def LIST_defs)
next
  case (Cons y ys)
  with assms have seg: "lseg (le_next h) (le_prev h) (RNext y) (le_next h y) ys"
    and f: "lh_first h = Some y" and d: "y \<noteq> x" "y \<notin> set ys" "x \<notin> set ys" "distinct ys"
    by (auto simp: LIST_rep_def)
  have "lseg ((le_next h)(x := Some y)) ((le_prev h)(y := RNext x, x := RHead))
          (RNext y) (le_next h y) ys"
    by (rule lseg_cong [OF seg]) (use d in auto)
  with Cons f d show ?thesis
    by (auto simp: LIST_rep_def LIST_INSERT_HEAD_def LIST_defs)
qed

text \<open>
  The effect of unlinking an element, shared by \<^verbatim>\<open>LIST_REMOVE\<close> and \<^verbatim>\<open>TAILQ_REMOVE\<close>: the
  segment before it is redirected to the one behind it.
\<close>

lemma lseg_unlink:
  assumes seg: "lseg nx pv RHead p (as @ x # bs)" and d: "distinct (as @ x # bs)"
  defines "pv' \<equiv> (case bs of [] \<Rightarrow> pv | b # _ \<Rightarrow> pv(b := pv x))"
  shows "as = [] \<Longrightarrow> lseg nx pv' RHead (nx x) bs"
    and "as \<noteq> [] \<Longrightarrow> lseg (nx(last as := nx x)) pv' RHead p (as @ bs)"
    and "pv x = end_ref RHead as"
    and "nx x = (case bs of [] \<Rightarrow> None | b # _ \<Rightarrow> Some b)"
proof -
  from seg have a: "pseg nx pv RHead p as (Some x)" and px: "pv x = end_ref RHead as"
    and b: "lseg nx pv (RNext x) (nx x) bs"
    by (auto simp: lseg_append)
  show "pv x = end_ref RHead as" by (rule px)
  from b show nxx: "nx x = (case bs of [] \<Rightarrow> None | b # _ \<Rightarrow> Some b)" by (rule lseg_first)
  have b': "lseg f pv' r (nx x) bs" if "\<And>y. y \<in> set bs \<Longrightarrow> f y = nx y" "r = end_ref RHead as" for f r
  proof (cases bs)
    case Nil
    then show ?thesis using nxx by simp
  next
    case (Cons c cs)
    with b have "lseg nx pv (RNext c) (nx c) cs" by simp
    then have "lseg f pv' (RNext c) (nx c) cs"
      by (rule lseg_cong) (use that d Cons in \<open>auto simp: pv'_def\<close>)
    then show ?thesis using Cons nxx that px by (simp add: pv'_def)
  qed
  show "lseg nx pv' RHead (nx x) bs" if "as = []"
    using b' [of nx RHead] that by simp
  show "lseg (nx(last as := nx x)) pv' RHead p (as @ bs)" if ne: "as \<noteq> []"
  proof -
    have pv'_as: "pv' y = pv y" if "y \<in> set as" for y
      using that d by (auto simp: pv'_def split: list.splits)
    have "pseg (nx(last as := nx x)) pv RHead p as (nx x)"
      by (rule pseg_redirect [OF a ne]) (use d in simp)
    then have "pseg (nx(last as := nx x)) pv' RHead p as (nx x)"
      by (rule pseg_cong) (use pv'_as in auto)
    moreover have "last as \<notin> set bs" using last_in_set [OF ne] d by auto
    then have "lseg (nx(last as := nx x)) pv' (end_ref RHead as) (nx x) bs"
      by (intro b') auto
    ultimately show ?thesis by (auto simp: lseg_append)
  qed
qed

lemma remove1_split: "distinct (as @ x # bs) \<Longrightarrow> remove1 x (as @ x # bs) = as @ bs"
  by (simp add: remove1_append)

lemma LIST_REMOVE_rep:
  assumes "LIST_rep h xs" "x \<in> set xs"
  shows "\<exists>h'. LIST_REMOVE h x = Some h' \<and> LIST_rep h' (remove1 x xs)"
proof -
  from assms(2) obtain as bs where xs: "xs = as @ x # bs" by (meson split_list)
  from assms(1) have seg: "lseg (le_next h) (le_prev h) RHead (lh_first h) (as @ x # bs)"
    and d: "distinct (as @ x # bs)" by (auto simp: LIST_rep_def xs)
  note u = lseg_unlink [OF seg d]
  have dd: "distinct (as @ bs)" using d by auto
  show ?thesis
  proof (cases "as = []")
    case True
    with u(1,3,4) d dd show ?thesis
      by (cases bs) (auto simp: xs LIST_REMOVE_def LIST_defs LIST_rep_def)
  next
    case False
    with u(2,3,4) d dd show ?thesis
      by (cases bs) (auto simp: xs remove1_split LIST_REMOVE_def LIST_defs LIST_rep_def end_ref_def)
  qed
qed


lemma LIST_INSERT_AFTER_rep:
  assumes "LIST_rep h (as @ l # bs)" "x \<notin> set (as @ l # bs)"
  shows "LIST_rep (LIST_INSERT_AFTER h l x) (as @ l # x # bs)"
proof -
  have d: "distinct (as @ l # bs)" using assms(1) by (simp add: LIST_rep_def)
  have a: "pseg (le_next h) (le_prev h) RHead (lh_first h) as (Some l)"
    and pl: "le_prev h l = end_ref RHead as"
    and b: "lseg (le_next h) (le_prev h) (RNext l) (le_next h l) bs"
    using assms(1) by (auto simp: LIST_rep_def lseg_append)
  define h' where "h' = LIST_INSERT_AFTER h l x"
  have f [simp]: "lh_first h' = lh_first h"
    by (simp add: h'_def LIST_INSERT_AFTER_def LIST_defs split: option.split)
  have "pseg (le_next h') (le_prev h') RHead (lh_first h') as (Some l)"
    unfolding f by (rule pseg_cong [OF a])
      (use d assms(2) lseg_first [OF b] in
        \<open>auto simp: h'_def LIST_INSERT_AFTER_def LIST_defs split: option.split list.splits\<close>)
  moreover have "lseg (le_next h') (le_prev h') (RNext l) (Some x) (x # bs)"
  proof (cases bs)
    case Nil
    with b assms(2) show ?thesis
      by (auto simp: h'_def LIST_INSERT_AFTER_def LIST_defs)
  next
    case (Cons c cs)
    with b have "lseg (le_next h) (le_prev h) (RNext c) (le_next h c) cs" by simp
    then have "lseg (le_next h') (le_prev h') (RNext c) (le_next h c) cs"
      by (rule lseg_cong)
        (use Cons b d assms(2) in \<open>auto simp: h'_def LIST_INSERT_AFTER_def LIST_defs\<close>)
    with Cons b d assms(2) show ?thesis
      by (auto simp: h'_def LIST_INSERT_AFTER_def LIST_defs)
  qed
  moreover have "le_next h' l = Some x"
    by (simp add: h'_def LIST_INSERT_AFTER_def LIST_defs split: option.split)
  moreover have "le_prev h' l = end_ref RHead as"
    using pl d assms(2) lseg_first [OF b]
    by (auto simp: h'_def LIST_INSERT_AFTER_def LIST_defs split: option.split list.splits)
  ultimately show ?thesis
    using d assms(2) by (auto simp: LIST_rep_def lseg_append h'_def [symmetric])
qed

subsection \<open>TAILQ\<close>

lemma TAILQ_rep_distinct: "TAILQ_rep h xs \<Longrightarrow> distinct xs"
  by (simp add: TAILQ_rep_def)

lemma TAILQ_INIT_rep: "TAILQ_rep (TAILQ_INIT h) []"
  by (simp add: TAILQ_rep_def TAILQ_defs)

lemma TAILQ_FIRST_rep:
  "TAILQ_rep h xs \<Longrightarrow> TAILQ_FIRST h = (case xs of [] \<Rightarrow> None | x # _ \<Rightarrow> Some x)"
  by (auto simp: TAILQ_rep_def TAILQ_defs dest: lseg_first)

lemma TAILQ_INSERT_HEAD_rep:
  assumes "TAILQ_rep h xs" "x \<notin> set xs"
  shows "TAILQ_rep (TAILQ_INSERT_HEAD h x) (x # xs)"
proof (cases xs)
  case Nil
  with assms show ?thesis
    by (simp add: TAILQ_rep_def TAILQ_INSERT_HEAD_def TAILQ_defs)
next
  case (Cons y ys)
  with assms have seg: "lseg (tqe_next h) (tqe_prev h) (RNext y) (tqe_next h y) ys"
    and f: "tqh_first h = Some y" and d: "y \<noteq> x" "y \<notin> set ys" "x \<notin> set ys" "distinct ys"
    and l: "tqh_last h = RNext (last xs)"
    by (auto simp: TAILQ_rep_def)
  have "lseg ((tqe_next h)(x := Some y)) ((tqe_prev h)(y := RNext x, x := RHead))
          (RNext y) (tqe_next h y) ys"
    by (rule lseg_cong [OF seg]) (use d in auto)
  with Cons f d l show ?thesis
    by (auto simp: TAILQ_rep_def TAILQ_INSERT_HEAD_def TAILQ_defs)
qed

lemma TAILQ_INSERT_TAIL_rep:
  assumes "TAILQ_rep h xs" "x \<notin> set xs"
  shows "\<exists>h'. TAILQ_INSERT_TAIL h x = Some h' \<and> TAILQ_rep h' (xs @ [x])"
proof (cases "xs = []")
  case True
  with assms show ?thesis
    by (simp add: TAILQ_rep_def TAILQ_INSERT_TAIL_def TAILQ_defs)
next
  case False
  from assms False have l: "tqh_last h = RNext (last xs)" and d: "distinct xs"
    and seg: "pseg (tqe_next h) (tqe_prev h) RHead (tqh_first h) xs None"
    using lseg_append [of "tqe_next h" "tqe_prev h" RHead "tqh_first h" xs "[]"]
    by (auto simp: TAILQ_rep_def)
  have ne: "last xs \<noteq> x" using False assms(2) last_in_set by blast
  have "pseg ((tqe_next h)(x := None)) ((tqe_prev h)(x := RNext (last xs))) RHead (tqh_first h) xs None"
    by (rule pseg_cong [OF seg]) (use assms(2) in auto)
  from pseg_redirect [OF this False d, of "Some x"]
  have "lseg ((tqe_next h)(x := None, last xs := Some x)) ((tqe_prev h)(x := RNext (last xs)))
          RHead (tqh_first h) (xs @ [x])"
    using False ne by (auto simp: lseg_append end_ref_def)
  with False l d ne assms(2) show ?thesis
    by (simp add: TAILQ_rep_def TAILQ_INSERT_TAIL_def TAILQ_defs)
qed

lemma TAILQ_REMOVE_rep:
  assumes "TAILQ_rep h xs" "x \<in> set xs"
  shows "\<exists>h'. TAILQ_REMOVE h x = Some h' \<and> TAILQ_rep h' (remove1 x xs)"
proof -
  from assms(2) obtain as bs where xs: "xs = as @ x # bs" by (meson split_list)
  from assms(1) have seg: "lseg (tqe_next h) (tqe_prev h) RHead (tqh_first h) (as @ x # bs)"
    and d: "distinct (as @ x # bs)" and l: "tqh_last h = RNext (last (x # bs))"
    by (auto simp: TAILQ_rep_def xs)
  note u = lseg_unlink [OF seg d]
  have dd: "distinct (as @ bs)" using d by auto
  show ?thesis
  proof (cases "as = []")
    case True
    with u(1,3,4) d dd l show ?thesis
      by (cases bs) (auto simp: xs TAILQ_REMOVE_def TAILQ_defs TAILQ_rep_def)
  next
    case False
    with u(2,3,4) d dd l show ?thesis
      by (cases bs)
        (auto simp: xs remove1_split TAILQ_REMOVE_def TAILQ_defs TAILQ_rep_def end_ref_def)
  qed
qed

section \<open>The interfaces the kernel uses\<close>

text \<open>
  What a client of an intrusive list relies on: a representation relation to HOL lists and
  the effect of the four operations on it.
\<close>

locale intrusive_list =
  fixes rep :: "'h \<Rightarrow> 'a list \<Rightarrow> bool"
    and init :: "'h \<Rightarrow> 'h"
    and first :: "'h \<Rightarrow> 'a option"
    and insert_head :: "'h \<Rightarrow> 'a \<Rightarrow> 'h"
    and remove :: "'h \<Rightarrow> 'a \<Rightarrow> 'h option"
  assumes rep_distinct: "rep h xs \<Longrightarrow> distinct xs"
    and rep_init: "rep (init h) []"
    and rep_first: "rep h xs \<Longrightarrow> first h = (case xs of [] \<Rightarrow> None | x # _ \<Rightarrow> Some x)"
    and rep_insert_head: "rep h xs \<Longrightarrow> x \<notin> set xs \<Longrightarrow> rep (insert_head h x) (x # xs)"
    and rep_remove: "rep h xs \<Longrightarrow> x \<in> set xs \<Longrightarrow> \<exists>h'. remove h x = Some h' \<and> rep h' (remove1 x xs)"
begin

lemma first_NoneD: "rep h xs \<Longrightarrow> first h = None \<Longrightarrow> xs = []"
  by (drule rep_first) (auto split: list.splits)

lemma first_SomeD: "rep h xs \<Longrightarrow> first h = Some x \<Longrightarrow> \<exists>ys. xs = x # ys \<and> x \<notin> set ys"
  by (frule rep_first, drule rep_distinct) (auto split: list.splits)

text \<open>Taking the first element off succeeds and leaves the tail.\<close>

lemma take_first:
  assumes "rep h xs" "first h = Some x"
  obtains ys h' where "xs = x # ys" "remove h x = Some h'" "rep h' ys" "x \<notin> set ys"
proof -
  from first_SomeD [OF assms] obtain ys where ys: "xs = x # ys" "x \<notin> set ys" by blast
  with rep_remove [OF assms(1), of x] obtain h' where "remove h x = Some h'" "rep h' ys" by auto
  with ys that show ?thesis by blast
qed

text \<open>An inserted element can be removed again, leaving the same list.\<close>

lemma insert_remove:
  assumes "rep h xs" "x \<notin> set xs"
  shows "\<exists>h'. remove (insert_head h x) x = Some h' \<and> rep h' xs"
  using rep_remove [OF rep_insert_head [OF assms], of x] by simp

text \<open>Inserting a sequence of new elements at the head, one by one.\<close>

lemma rep_insert_heads:
  "rep h xs \<Longrightarrow> distinct ys \<Longrightarrow> set ys \<inter> set xs = {} \<Longrightarrow>
     rep (fold (\<lambda>y g. insert_head g y) ys h) (rev ys @ xs)"
proof (induction ys arbitrary: h xs)
  case (Cons y ys)
  from Cons.prems have "rep (insert_head h y) (y # xs)" by (auto intro: rep_insert_head)
  with Cons.prems Cons.IH [of "insert_head h y" "y # xs"] show ?case by auto
qed simp

end

locale intrusive_queue = intrusive_list rep init first insert_head remove
  for rep :: "'h \<Rightarrow> 'a list \<Rightarrow> bool" and init first insert_head remove +
  fixes insert_tail :: "'h \<Rightarrow> 'a \<Rightarrow> 'h option"
  assumes rep_insert_tail:
    "rep h xs \<Longrightarrow> x \<notin> set xs \<Longrightarrow> \<exists>h'. insert_tail h x = Some h' \<and> rep h' (xs @ [x])"
begin

text \<open>Moving a member to the tail (what the scheduler does with a preempted process).\<close>

lemma rep_rotate:
  assumes "rep h xs" "x \<in> set xs"
  shows "\<exists>h1 h2. remove h x = Some h1 \<and> insert_tail h1 x = Some h2 \<and> rep h2 (remove1 x xs @ [x])"
proof -
  from rep_remove [OF assms] obtain h1 where h1: "remove h x = Some h1" "rep h1 (remove1 x xs)"
    by blast
  have "x \<notin> set (remove1 x xs)" using rep_distinct [OF assms(1)] by simp
  from rep_insert_tail [OF h1(2) this] h1(1) show ?thesis by blast
qed

end

interpretation lq: intrusive_list LIST_rep LIST_INIT LIST_FIRST LIST_INSERT_HEAD LIST_REMOVE
  by unfold_locales
    (auto intro: LIST_rep_distinct LIST_INIT_rep LIST_FIRST_rep LIST_INSERT_HEAD_rep LIST_REMOVE_rep)

interpretation tq: intrusive_queue TAILQ_rep TAILQ_INIT TAILQ_FIRST TAILQ_INSERT_HEAD
  TAILQ_REMOVE TAILQ_INSERT_TAIL
  by unfold_locales
    (auto intro: TAILQ_rep_distinct TAILQ_INIT_rep TAILQ_FIRST_rep TAILQ_INSERT_HEAD_rep
      TAILQ_REMOVE_rep TAILQ_INSERT_TAIL_rep)

end
