(* ===== verification/CString.thy ===== *)
theory CString
  imports Prelude
begin

text \<open>
  Byte-addressed memory and the routines of \<^verbatim>\<open>lib/string.c\<close> and \<^verbatim>\<open>kern/endian.c\<close>.

  Memory is a function from 64-bit addresses to bytes; wider accesses are little-endian, as
  on the target.  \<^verbatim>\<open>memcpy\<close> and \<^verbatim>\<open>memset\<close> are modelled with their alignment prologues and
  their 8/4/2-byte loops and shown equal to the byte-by-byte copy and fill; the string
  routines work on NUL-terminated bytes in memory.  Pointer comparisons of the C code
  (\<^verbatim>\<open>dst < max\<close>) are comparisons of the distance left in the object.
\<close>

section \<open>Memory\<close>

type_synonym memory = "u64 \<Rightarrow> u8"

definition byte_of :: "nat \<Rightarrow> u64 \<Rightarrow> u8" where
  "byte_of i v = ucast (drop_bit (8 * i) v)"

text \<open>A little-endian access of \<open>k\<close> bytes at address \<open>a\<close>.\<close>

primrec load_le :: "nat \<Rightarrow> memory \<Rightarrow> u64 \<Rightarrow> u64" where
  "load_le 0 m a = 0"
| "load_le (Suc k) m a = ucast (m a) OR push_bit 8 (load_le k m (a + 1))"

primrec store_le :: "nat \<Rightarrow> memory \<Rightarrow> u64 \<Rightarrow> u64 \<Rightarrow> memory" where
  "store_le 0 m a v = m"
| "store_le (Suc k) m a v = store_le k (m(a := ucast v)) (a + 1) (drop_bit 8 v)"

definition load16 :: "memory \<Rightarrow> u64 \<Rightarrow> u64" where "load16 = load_le 2"
definition load32 :: "memory \<Rightarrow> u64 \<Rightarrow> u64" where "load32 = load_le 4"
definition load64 :: "memory \<Rightarrow> u64 \<Rightarrow> u64" where "load64 = load_le 8"
definition store16 :: "memory \<Rightarrow> u64 \<Rightarrow> u64 \<Rightarrow> memory" where "store16 = store_le 2"
definition store32 :: "memory \<Rightarrow> u64 \<Rightarrow> u64 \<Rightarrow> memory" where "store32 = store_le 4"
definition store64 :: "memory \<Rightarrow> u64 \<Rightarrow> u64 \<Rightarrow> memory" where "store64 = store_le 8"

section \<open>memcpy\<close>

text \<open>A copy loop carries the memory, the two cursors and the count left.\<close>

type_synonym copy_state = "memory \<times> u64 \<times> u64 \<times> nat"

text \<open>\<^verbatim>\<open>while (n > 0 && ((uintptr_t)s & k)) { *d++ = *s++; n--; }\<close>\<close>

fun copy_align :: "u64 \<Rightarrow> memory \<Rightarrow> u64 \<Rightarrow> u64 \<Rightarrow> nat \<Rightarrow> copy_state" where
  "copy_align k m d s 0 = (m, d, s, 0)"
| "copy_align k m d s (Suc n) =
     (if s AND k \<noteq> 0 then copy_align k (m(d := m s)) (d + 1) (s + 1) n else (m, d, s, Suc n))"

fun copy_loop64 :: "memory \<Rightarrow> u64 \<Rightarrow> u64 \<Rightarrow> nat \<Rightarrow> copy_state" where
  "copy_loop64 m d s n =
     (if 8 \<le> n then copy_loop64 (store64 m d (load64 m s)) (d + 8) (s + 8) (n - 8)
      else (m, d, s, n))"

fun copy_loop32 :: "memory \<Rightarrow> u64 \<Rightarrow> u64 \<Rightarrow> nat \<Rightarrow> copy_state" where
  "copy_loop32 m d s n =
     (if 4 \<le> n then copy_loop32 (store32 m d (load32 m s)) (d + 4) (s + 4) (n - 4)
      else (m, d, s, n))"

fun copy_loop16 :: "memory \<Rightarrow> u64 \<Rightarrow> u64 \<Rightarrow> nat \<Rightarrow> copy_state" where
  "copy_loop16 m d s n =
     (if 2 \<le> n then copy_loop16 (store16 m d (load16 m s)) (d + 2) (s + 2) (n - 2)
      else (m, d, s, n))"

fun copy_tail :: "memory \<Rightarrow> u64 \<Rightarrow> u64 \<Rightarrow> nat \<Rightarrow> memory" where
  "copy_tail m d s 0 = m"
| "copy_tail m d s (Suc n) = copy_tail (m(d := m s)) (d + 1) (s + 1) n"

declare copy_loop64.simps [simp del] copy_loop32.simps [simp del] copy_loop16.simps [simp del]

text \<open>The three alignment attempts of the function body, in order.\<close>

definition copy_phase8 :: "memory \<Rightarrow> u64 \<Rightarrow> u64 \<Rightarrow> nat \<Rightarrow> copy_state" where
  "copy_phase8 m d s n =
     (if s AND 7 = d AND 7
      then (case copy_align 7 m d s n of (m, d, s, n) \<Rightarrow> copy_loop64 m d s n)
      else (m, d, s, n))"

definition copy_phase4 :: "memory \<Rightarrow> u64 \<Rightarrow> u64 \<Rightarrow> nat \<Rightarrow> copy_state" where
  "copy_phase4 m d s n =
     (if 4 \<le> n \<and> s AND 3 = d AND 3
      then (case copy_align 3 m d s n of (m, d, s, n) \<Rightarrow> copy_loop32 m d s n)
      else (m, d, s, n))"

definition copy_phase2 :: "memory \<Rightarrow> u64 \<Rightarrow> u64 \<Rightarrow> nat \<Rightarrow> copy_state" where
  "copy_phase2 m d s n =
     (if 2 \<le> n \<and> s AND 1 = d AND 1
      then (case (if s AND 1 \<noteq> 0 \<and> 0 < n then (m(d := m s), d + 1, s + 1, n - 1)
                  else (m, d, s, n)) of (m, d, s, n) \<Rightarrow> copy_loop16 m d s n)
      else (m, d, s, n))"

definition memcpy :: "memory \<Rightarrow> u64 \<Rightarrow> u64 \<Rightarrow> nat \<Rightarrow> memory" where
  "memcpy m dest src n0 =
     (let (m, d, s, n) = copy_phase8 m dest src n0;
          (m, d, s, n) = copy_phase4 m d s n;
          (m, d, s, n) = copy_phase2 m d s n
      in copy_tail m d s n)"

section \<open>memset\<close>

definition memset_word :: "u8 \<Rightarrow> u64" where
  "memset_word b = push_bit 56 (ucast b) OR push_bit 48 (ucast b) OR push_bit 40 (ucast b)
     OR push_bit 32 (ucast b) OR push_bit 24 (ucast b) OR push_bit 16 (ucast b)
     OR push_bit 8 (ucast b) OR ucast b"

fun fill_align :: "memory \<Rightarrow> u64 \<Rightarrow> u8 \<Rightarrow> nat \<Rightarrow> memory \<times> u64 \<times> nat" where
  "fill_align m dst b 0 = (m, dst, 0)"
| "fill_align m dst b (Suc r) =
     (if dst mod 8 \<noteq> 0 then fill_align (m(dst := b)) (dst + 1) b r else (m, dst, Suc r))"

fun fill_loop64 :: "memory \<Rightarrow> u64 \<Rightarrow> u8 \<Rightarrow> nat \<Rightarrow> memory \<times> u64 \<times> nat" where
  "fill_loop64 m dst b r =
     (if 8 \<le> r then fill_loop64 (store64 m dst (memset_word b)) (dst + 8) b (r - 8)
      else (m, dst, r))"

fun fill_tail :: "memory \<Rightarrow> u64 \<Rightarrow> u8 \<Rightarrow> nat \<Rightarrow> memory" where
  "fill_tail m dst b 0 = m"
| "fill_tail m dst b (Suc r) = fill_tail (m(dst := b)) (dst + 1) b r"

declare fill_loop64.simps [simp del]

definition memset :: "memory \<Rightarrow> u64 \<Rightarrow> int \<Rightarrow> nat \<Rightarrow> memory" where
  "memset m dst c n =
     (let b = (word_of_int c :: u8);
          (m1, dst1, r1) = fill_align m dst b n;
          (m2, dst2, r2) = fill_loop64 m1 dst1 b r1
      in fill_tail m2 dst2 b r2)"

section \<open>String routines\<close>

partial_function (option) strlen_from :: "memory \<Rightarrow> u64 \<Rightarrow> nat \<Rightarrow> nat option" where
  "strlen_from m s n = (if m s = 0 then Some n else strlen_from m (s + 1) (n + 1))"

definition strlen :: "memory \<Rightarrow> u64 \<Rightarrow> nat option" where
  "strlen m s = strlen_from m s 0"

partial_function (option) strcpy :: "memory \<Rightarrow> u64 \<Rightarrow> u64 \<Rightarrow> memory option" where
  "strcpy m dst src =
     (let m' = m(dst := m src) in
      if m' dst \<noteq> 0 then strcpy m' (dst + 1) (src + 1) else Some m')"

partial_function (option) strchr :: "memory \<Rightarrow> u64 \<Rightarrow> int \<Rightarrow> u64 option option" where
  "strchr m s c =
     (if m s = 0 then Some None
      else if uint (m s) = c then Some (Some s)
      else strchr m (s + 1) c)"

partial_function (option) strcmp :: "memory \<Rightarrow> u64 \<Rightarrow> u64 \<Rightarrow> int option" where
  "strcmp m p q =
     (if m p \<noteq> 0 \<and> m p = m q then strcmp m (p + 1) (q + 1)
      else Some (if m p < m q then -1 else if m p > m q then 1 else 0))"

text \<open>
  \<^verbatim>\<open>parse_number\<close> on the bytes of a string: the digits accepted, and the number they denote
  (the C type is \<^verbatim>\<open>int\<close>; its overflow is undefined and the model keeps the exact value).
  The second component is the rest of the string, \<^verbatim>\<open>*next_token\<close>.
\<close>

definition digit_value :: "u8 \<Rightarrow> int option" where
  "digit_value c =
     (if 48 \<le> c \<and> c \<le> 57 then Some (uint c - 48)
      else if 97 \<le> c \<and> c \<le> 122 then Some (uint c - 97 + 10)
      else if 65 \<le> c \<and> c \<le> 90 then Some (uint c - 65 + 10)
      else None)"

fun parse_digits :: "int \<Rightarrow> int \<Rightarrow> u8 list \<Rightarrow> int \<times> u8 list" where
  "parse_digits base result [] = (result, [])"
| "parse_digits base result (c # cs) =
     (case digit_value c of
        None \<Rightarrow> (result, c # cs)
      | Some d \<Rightarrow> if base \<le> d then (result, c # cs)
                  else parse_digits base (result * base + d) cs)"

definition parse_number :: "u8 list \<Rightarrow> int \<Rightarrow> int \<times> u8 list" where
  "parse_number str base = parse_digits base 0 str"

section \<open>Byte order (\<^verbatim>\<open>kern/endian.c\<close>)\<close>

definition swap_uint32 :: "u32 \<Rightarrow> u32" where
  "swap_uint32 val =
     (let val = (push_bit 8 val AND 0xFF00FF00) OR (drop_bit 8 val AND 0xFF00FF)
      in push_bit 16 val OR drop_bit 16 val)"

definition swap_uint64 :: "u64 \<Rightarrow> u64" where
  "swap_uint64 val =
     (let val = (push_bit 8 val AND 0xFF00FF00FF00FF00) OR (drop_bit 8 val AND 0x00FF00FF00FF00FF);
          val = (push_bit 16 val AND 0xFFFF0000FFFF0000) OR (drop_bit 16 val AND 0x0000FFFF0000FFFF)
      in push_bit 32 val OR drop_bit 32 val)"

section \<open>Wide accesses\<close>

lemma unat_diff_one:
  fixes x a :: u64
  assumes "x \<noteq> a"
  shows "unat (x - a) = Suc (unat (x - (a + 1)))"
proof -
  have "x - a \<noteq> 0" using assms by simp
  then have "unat (x - a - 1) = unat (x - a) - 1" and "unat (x - a) \<noteq> 0"
    by (simp_all add: unat_minus_one unat_eq_zero)
  then show ?thesis by (simp add: diff_diff_eq [symmetric])
qed

lemma byte_of_simps [simp]:
  "byte_of 0 v = ucast v" "byte_of i (drop_bit 8 v) = byte_of (Suc i) v"
  by (simp_all add: byte_of_def add.commute)

lemma store_le_apply:
  "k < 2 ^ 64 \<Longrightarrow> store_le k m a v x =
     (if unat (x - a) < k then byte_of (unat (x - a)) v else m x)"
proof (induction k arbitrary: m a v)
  case (Suc k)
  show ?case
  proof (cases "x = a")
    case True
    have "unat (a - (a + 1)) = 2 ^ 64 - 1" by simp
    with Suc show ?thesis by (simp add: True)
  next
    case False
    with Suc show ?thesis by (simp add: unat_diff_one)
  qed
qed simp

lemma bit_load_le:
  "bit (load_le k m a) n \<longleftrightarrow> n < 64 \<and> n < 8 * k \<and> bit (m (a + of_nat (n div 8))) (n mod 8)"
proof (induction k arbitrary: a n)
  case (Suc k)
  show ?case
  proof (cases "n < 8")
    case True
    then show ?thesis by (simp add: bit_simps)
  next
    case False
    then have n: "(n - 8) div 8 = n div 8 - 1" "(n - 8) mod 8 = n mod 8" "1 \<le> n div 8"
      by (auto simp: div_if le_mod_geq)
    have "a + 1 + of_nat ((n - 8) div 8) = a + of_nat (n div 8)"
      using n by (simp add: of_nat_diff)
    moreover have "\<not> bit (m a) n" using False bit_imp_le_length [of "m a" n] by auto
    moreover have "n - 8 < 8 * k \<longleftrightarrow> n < 8 * Suc k" using False by auto
    moreover have "n < 64 \<Longrightarrow> n - 8 < 64" by simp
    ultimately show ?thesis using False n
      by (auto simp: bit_simps Suc.IH)
  qed
qed simp

lemma byte_of_load_le:
  assumes "i < k" "k \<le> 8"
  shows "byte_of i (load_le k m a) = m (a + of_nat i)"
proof (rule bit_word_eqI)
  fix n assume "n < LENGTH(8)"
  then have n: "n < 8" by simp
  then have "(8 * i + n) div 8 = i" "(8 * i + n) mod 8 = n" "8 * i + n < 64" "8 * i + n < 8 * k"
    using assms by auto
  then show "bit (byte_of i (load_le k m a)) n = bit (m (a + of_nat i)) n"
    using n by (simp add: byte_of_def bit_simps bit_load_le)
qed

lemma load_le_store_le_same:
  assumes "k \<le> 8"
  shows "load_le k (store_le k m a v) a = take_bit (8 * k) v"
proof (rule bit_word_eqI)
  fix n assume "n < LENGTH(64)"
  then have n: "n < 64" "n div 8 < 8" by auto
  then have "unat (of_nat (n div 8) :: u64) = n div 8" by simp
  then show "bit (load_le k (store_le k m a v) a) n = bit (take_bit (8 * k) v) n"
    using n assms
    by (auto simp: bit_load_le store_le_apply byte_of_def bit_simps)
qed

lemma load4_byte:
  assumes "m (a + 1) = 0" "m (a + 2) = 0" "m (a + 3) = 0"
  shows "load_le 4 m a = ucast (m a)"
proof -
  have "load_le (Suc (Suc (Suc (Suc 0)))) m a = ucast (m a)"
    using assms by (simp only: load_le.simps add.assoc) simp
  moreover have "Suc (Suc (Suc (Suc 0))) = 4" by simp
  ultimately show ?thesis by (simp only:)
qed

lemma load_le_cong:
  assumes "\<And>i. i < k \<Longrightarrow> m' (a + of_nat i) = m (a + of_nat i)"
  shows "load_le k m' a = load_le k m a"
proof (rule bit_word_eqI)
  fix n assume "n < LENGTH(64)"
  show "bit (load_le k m' a) n = bit (load_le k m a) n"
    using assms [of "n div 8"] by (auto simp: bit_load_le)
qed

section \<open>memcpy and memset against the byte-wise reference\<close>

text \<open>Reference: the destination bytes change to the source bytes, or to \<open>b\<close>; nothing else does.\<close>

definition copy_bytes :: "memory \<Rightarrow> u64 \<Rightarrow> u64 \<Rightarrow> nat \<Rightarrow> memory" where
  "copy_bytes m d s n = (\<lambda>x. if unat (x - d) < n then m (s + (x - d)) else m x)"

definition fill_bytes :: "memory \<Rightarrow> u64 \<Rightarrow> u8 \<Rightarrow> nat \<Rightarrow> memory" where
  "fill_bytes m d b n = (\<lambda>x. if unat (x - d) < n then b else m x)"

text \<open>The two objects do not overlap (\<^verbatim>\<open>restrict\<close>).\<close>

definition apart :: "u64 \<Rightarrow> u64 \<Rightarrow> nat \<Rightarrow> bool" where
  "apart d s n \<longleftrightarrow> n < 2 ^ 64 \<and> (\<forall>i<n. \<forall>j<n. d + of_nat i \<noteq> s + of_nat j)"

lemma unat_sub_of_nat:
  fixes x d :: u64
  assumes "k \<le> unat (x - d)"
  shows "unat (x - (d + of_nat k)) = unat (x - d) - k"
proof -
  have k: "k < 2 ^ 64" using le_less_trans [OF assms unat64_less] by simp
  then have "unat (of_nat k :: u64) = k" by simp
  moreover have "of_nat k \<le> x - d" using assms k by (simp add: word_le_nat_alt)
  ultimately have "unat (x - d - of_nat k) = unat (x - d) - k" by (simp add: unat_sub)
  then show ?thesis by (simp add: diff_diff_eq)
qed

lemma unat_sub_of_nat_wrap:
  fixes x d :: u64
  assumes "unat (x - d) < k" "k < 2 ^ 64"
  shows "unat (x - (d + of_nat k)) = 2 ^ 64 + unat (x - d) - k"
proof -
  have "unat (x - d) + 2 ^ 64 - k < 2 ^ 64" using assms by arith
  moreover have "x - (d + of_nat k) = of_nat (unat (x - d) + 2 ^ 64 - k)"
  proof -
    have "(of_nat (unat (x - d) + 2 ^ 64 - k) :: u64) = of_nat (unat (x - d)) + of_nat (2 ^ 64) - of_nat k"
      using assms by (simp add: of_nat_diff)
    also have "(of_nat (2 ^ 64) :: u64) = 0" by simp
    finally show ?thesis by simp
  qed
  ultimately show ?thesis by (simp add: add.commute)
qed

lemma copy_bytes_0 [simp]: "copy_bytes m d s 0 = m"
  by (simp add: copy_bytes_def)

lemma copy_bytes_1: "m(d := m s) = copy_bytes m d s (Suc 0)"
proof
  fix x
  have "unat (x - d) < Suc 0 \<longleftrightarrow> x = d"
    by (metis eq_iff_diff_eq_0 less_Suc0 unsigned_0 unat_eq_zero)
  then show "(m(d := m s)) x = copy_bytes m d s (Suc 0) x"
    by (auto simp: copy_bytes_def)
qed

lemma copy_bytes_add:
  assumes "apart d s (k + n)"
  shows "copy_bytes (copy_bytes m d s k) (d + of_nat k) (s + of_nat k) n = copy_bytes m d s (k + n)"
proof
  fix x
  have kn: "k + n < 2 ^ 64" using assms by (simp add: apart_def)
  let ?i = "unat (x - d)"
  have x: "x = d + of_nat ?i" by simp
  show "copy_bytes (copy_bytes m d s k) (d + of_nat k) (s + of_nat k) n x = copy_bytes m d s (k + n) x"
  proof (cases "?i < k")
    case True
    with unat_sub_of_nat_wrap [OF True] kn have "\<not> unat (x - (d + of_nat k)) < n" by simp
    with True show ?thesis by (simp add: copy_bytes_def)
  next
    case False
    then have u: "unat (x - (d + of_nat k)) = ?i - k" by (simp add: unat_sub_of_nat)
    have src: "\<not> unat (s + (x - d) - d) < k" if "?i < k + n"
    proof
      assume "unat (s + (x - d) - d) < k"
      moreover have "d + of_nat (unat (s + (x - d) - d)) = s + of_nat ?i" by simp
      ultimately show False using assms that unfolding apart_def by (metis trans_less_add1)
    qed
    have "s + of_nat k + (x - (d + of_nat k)) = s + (x - d)" by simp
    with False u src show ?thesis by (auto simp: copy_bytes_def)
  qed
qed

lemma store_le_load_le:
  assumes "k \<le> 8"
  shows "store_le k m d (load_le k m s) = copy_bytes m d s k"
proof
  fix x
  show "store_le k m d (load_le k m s) x = copy_bytes m d s k x"
    using assms by (simp add: store_le_apply copy_bytes_def byte_of_load_le)
qed

text \<open>The state after copying a prefix: the loops differ only in how they cut it.\<close>

definition copied :: "memory \<Rightarrow> u64 \<Rightarrow> u64 \<Rightarrow> nat \<Rightarrow> copy_state \<Rightarrow> bool" where
  "copied m d s n c = (case c of (m', d', s', n') \<Rightarrow>
     n' \<le> n \<and> m' = copy_bytes m d s (n - n') \<and> d' = d + of_nat (n - n') \<and> s' = s + of_nat (n - n'))"

lemma copied_refl: "copied m d s n (m, d, s, n)"
  by (simp add: copied_def)

lemma copied_trans:
  assumes "apart d s n" "copied m d s n (m1, d1, s1, n1)" "copied m1 d1 s1 n1 c"
  shows "copied m d s n c"
proof -
  obtain m2 d2 s2 n2 where c: "c = (m2, d2, s2, n2)" by (cases c)
  have le: "n1 \<le> n" "n2 \<le> n1" using assms by (auto simp: copied_def c)
  have "apart d s ((n - n1) + (n1 - n2))" using assms(1) le by (auto simp: apart_def)
  from copy_bytes_add [OF this, of m] show ?thesis
    using assms le by (auto simp: copied_def c of_nat_diff)
qed

lemma apart_shift:
  assumes "apart d s n" "k \<le> n"
  shows "apart (d + of_nat k) (s + of_nat k) (n - k)"
  unfolding apart_def
proof (intro conjI allI impI)
  show "n - k < 2 ^ 64" using assms le_less_trans [OF diff_le_self] by (auto simp: apart_def)
  fix i j assume "i < n - k" "j < n - k"
  then have "d + of_nat (k + i) \<noteq> s + of_nat (k + j)"
    using assms unfolding apart_def by (metis add.commute less_diff_conv)
  then show "d + of_nat k + of_nat i \<noteq> s + of_nat k + of_nat j" by (simp add: add.assoc)
qed

lemma copied_apart: "apart d s n \<Longrightarrow> copied m d s n (m', d', s', n') \<Longrightarrow> apart d' s' n'"
  using apart_shift [of d s n "n - n'"] by (auto simp: copied_def)

text \<open>One step of any of the loops: \<open>k\<close> bytes at once.\<close>

lemma copied_step:
  assumes "apart d s n" "k \<le> n" "copied (copy_bytes m d s k) (d + of_nat k) (s + of_nat k) (n - k) c"
  shows "copied m d s n c"
  by (rule copied_trans [OF assms(1) _ assms(3)]) (use assms(2) in \<open>simp add: copied_def\<close>)

lemma copied_align: "apart d s n \<Longrightarrow> copied m d s n (copy_align k m d s n)"
proof (induction n arbitrary: m d s)
  case (Suc n)
  have "copied m d s (Suc n) (copy_align k (m(d := m s)) (d + 1) (s + 1) n)"
    using copied_step [of d s "Suc n" 1 m] Suc.IH [of "d + 1" "s + 1" "m(d := m s)"]
      apart_shift [of d s "Suc n" 1] Suc.prems by (simp add: copy_bytes_1)
  then show ?case by (simp add: copied_refl)
qed (simp add: copied_refl)

lemma copied_loop64: "apart d s n \<Longrightarrow> copied m d s n (copy_loop64 m d s n)"
proof (induction m d s n rule: copy_loop64.induct)
  case (1 m d s n)
  show ?case
  proof (cases "8 \<le> n")
    case True
    have "store64 m d (load64 m s) = copy_bytes m d s 8"
      by (simp add: store64_def load64_def store_le_load_le)
    with 1 True copied_step [of d s n 8 m] apart_shift [of d s n 8] show ?thesis
      by (simp add: copy_loop64.simps [of m d s n])
  qed (simp add: copy_loop64.simps [of m d s n] copied_refl)
qed

lemma copied_loop32: "apart d s n \<Longrightarrow> copied m d s n (copy_loop32 m d s n)"
proof (induction m d s n rule: copy_loop32.induct)
  case (1 m d s n)
  show ?case
  proof (cases "4 \<le> n")
    case True
    have "store32 m d (load32 m s) = copy_bytes m d s 4"
      by (simp add: store32_def load32_def store_le_load_le)
    with 1 True copied_step [of d s n 4 m] apart_shift [of d s n 4] show ?thesis
      by (simp add: copy_loop32.simps [of m d s n])
  qed (simp add: copy_loop32.simps [of m d s n] copied_refl)
qed

lemma copied_loop16: "apart d s n \<Longrightarrow> copied m d s n (copy_loop16 m d s n)"
proof (induction m d s n rule: copy_loop16.induct)
  case (1 m d s n)
  show ?case
  proof (cases "2 \<le> n")
    case True
    have "store16 m d (load16 m s) = copy_bytes m d s 2"
      by (simp add: store16_def load16_def store_le_load_le)
    with 1 True copied_step [of d s n 2 m] apart_shift [of d s n 2] show ?thesis
      by (simp add: copy_loop16.simps [of m d s n])
  qed (simp add: copy_loop16.simps [of m d s n] copied_refl)
qed

lemma copy_tail_copied: "apart d s n \<Longrightarrow> copy_tail m d s n = copy_bytes m d s n"
proof (induction n arbitrary: m d s)
  case (Suc n)
  from Suc.IH [OF apart_shift [OF Suc.prems, of 1, simplified]] show ?case
    using copy_bytes_add [of d s 1 n m] Suc.prems by (simp add: copy_bytes_1)
qed simp

lemma copied_then:
  assumes "apart d s n" "copied m d s n c"
    and "\<And>m' d' s' n'. c = (m', d', s', n') \<Longrightarrow> apart d' s' n' \<Longrightarrow> copied m' d' s' n' (f m' d' s' n')"
  shows "copied m d s n (case c of (m', d', s', n') \<Rightarrow> f m' d' s' n')"
proof -
  obtain m' d' s' n' where c: "c = (m', d', s', n')" by (cases c)
  note m = assms(2) [unfolded c]
  from copied_trans [OF assms(1) m assms(3) [OF c copied_apart [OF assms(1) m]]]
  show ?thesis by (simp add: c)
qed


lemma copied_phases:
  assumes "apart d s n"
  shows "copied m d s n (copy_phase8 m d s n)" "copied m d s n (copy_phase4 m d s n)"
    "copied m d s n (copy_phase2 m d s n)"
proof -
  show "copied m d s n (copy_phase8 m d s n)"
    unfolding copy_phase8_def using assms copied_then [OF assms copied_align, of 7 _ copy_loop64]
      copied_loop64 by (simp add: copied_refl)
  show "copied m d s n (copy_phase4 m d s n)"
    unfolding copy_phase4_def using assms copied_then [OF assms copied_align, of 3 _ copy_loop32]
      copied_loop32 by (simp add: copied_refl)
  have "copied m d s n (if s AND 1 \<noteq> 0 \<and> 0 < n then (m(d := m s), d + 1, s + 1, n - 1)
      else (m, d, s, n))"
    using assms by (auto simp: copied_def copy_bytes_1 Suc_le_eq)
  from copied_then [OF assms this, of copy_loop16] copied_loop16
  have "copied m d s n (case (if s AND 1 \<noteq> 0 \<and> 0 < n then (m(d := m s), d + 1, s + 1, n - 1)
      else (m, d, s, n)) of (m, d, s, n) \<Rightarrow> copy_loop16 m d s n)" by blast
  then show "copied m d s n (copy_phase2 m d s n)"
    unfolding copy_phase2_def by (simp only: copied_refl split: if_split) simp
qed

lemma memcpy_copy_bytes:
  assumes "apart d s n"
  shows "memcpy m d s n = copy_bytes m d s n"
proof -
  obtain m1 d1 s1 n1 where e1: "copy_phase8 m d s n = (m1, d1, s1, n1)"
    by (cases "copy_phase8 m d s n")
  obtain m2 d2 s2 n2 where e2: "copy_phase4 m1 d1 s1 n1 = (m2, d2, s2, n2)"
    by (cases "copy_phase4 m1 d1 s1 n1")
  obtain m3 d3 s3 n3 where e3: "copy_phase2 m2 d2 s2 n2 = (m3, d3, s3, n3)"
    by (cases "copy_phase2 m2 d2 s2 n2")
  have k1: "copied m d s n (m1, d1, s1, n1)" using copied_phases(1) [OF assms, of m] e1 by simp
  have k2: "copied m d s n (m2, d2, s2, n2)"
    using copied_trans [OF assms k1 copied_phases(2) [OF copied_apart [OF assms k1]]] e2 by simp
  have k3: "copied m d s n (m3, d3, s3, n3)"
    using copied_trans [OF assms k2 copied_phases(3) [OF copied_apart [OF assms k2]]] e3 by simp
  have "copied m3 d3 s3 n3 (copy_tail m3 d3 s3 n3, d3 + of_nat n3, s3 + of_nat n3, 0)"
    using copy_tail_copied [OF copied_apart [OF assms k3]] by (simp add: copied_def)
  from copied_trans [OF assms k3 this] show ?thesis
    by (simp add: copied_def memcpy_def e1 e2 e3)
qed

lemma fill_bytes_0 [simp]: "fill_bytes m d b 0 = m"
  by (simp add: fill_bytes_def)

lemma fill_bytes_1: "m(d := b) = fill_bytes m d b (Suc 0)"
proof
  fix x
  have "unat (x - d) < Suc 0 \<longleftrightarrow> x = d"
    by (metis eq_iff_diff_eq_0 less_Suc0 unsigned_0 unat_eq_zero)
  then show "(m(d := b)) x = fill_bytes m d b (Suc 0) x"
    by (auto simp: fill_bytes_def)
qed

lemma fill_bytes_add:
  assumes "k + n < 2 ^ 64"
  shows "fill_bytes (fill_bytes m d b k) (d + of_nat k) b n = fill_bytes m d b (k + n)"
proof
  fix x
  show "fill_bytes (fill_bytes m d b k) (d + of_nat k) b n x = fill_bytes m d b (k + n) x"
  proof (cases "unat (x - d) < k")
    case False
    then have "unat (x - (d + of_nat k)) = unat (x - d) - k" by (simp add: unat_sub_of_nat)
    with False show ?thesis by (auto simp: fill_bytes_def)
  qed (simp add: fill_bytes_def)
qed

lemma byte_of_memset_word: "i < 8 \<Longrightarrow> byte_of i (memset_word b) = b"
proof -
  have w: "memset_word b = load_le 8 (\<lambda>_. b) 0"
    by (simp add: memset_word_def numeral_eq_Suc push_bit_or ac_simps)
  assume "i < 8"
  then show ?thesis by (simp add: w byte_of_load_le)
qed

lemma store64_memset_word: "store64 m d (memset_word b) = fill_bytes m d b 8"
  by (rule ext) (simp add: store64_def store_le_apply fill_bytes_def byte_of_memset_word)

lemma fill_align_fill:
  "n < 2 ^ 64 \<Longrightarrow> \<exists>k\<le>n. fill_align m d b n = (fill_bytes m d b k, d + of_nat k, n - k)"
proof (induction n arbitrary: m d)
  case (Suc n)
  from Suc obtain k where k: "k \<le> n"
    "fill_align (m(d := b)) (d + 1) b n = (fill_bytes (m(d := b)) (d + 1) b k, d + 1 + of_nat k, n - k)"
    by fastforce
  show ?case
  proof (cases "d mod 8 \<noteq> 0")
    case True
    with k Suc.prems fill_bytes_add [of 1 k m d b] show ?thesis
      by (intro exI [of _ "Suc k"]) (simp add: fill_bytes_1 add.assoc)
  qed (auto intro: exI [of _ 0])
qed simp

lemma fill_loop64_fill:
  "n < 2 ^ 64 \<Longrightarrow> \<exists>k\<le>n. fill_loop64 m d b n = (fill_bytes m d b k, d + of_nat k, n - k)"
proof (induction m d b n rule: fill_loop64.induct)
  case (1 m d b n)
  show ?case
  proof (cases "8 \<le> n")
    case True
    have "n - 8 < 2 ^ 64" using "1.prems" by linarith
    with 1 True obtain k where k: "k \<le> n - 8"
      "fill_loop64 (store64 m d (memset_word b)) (d + 8) b (n - 8) =
         (fill_bytes (fill_bytes m d b 8) (d + 8) b k, d + 8 + of_nat k, n - 8 - k)"
      by (auto simp: store64_memset_word)
    with True "1.prems" fill_bytes_add [of 8 k m d b] show ?thesis
      by (intro exI [of _ "8 + k"]) (simp add: fill_loop64.simps [of m d b n] add.assoc)
  qed (auto simp: fill_loop64.simps [of m d b n] intro: exI [of _ 0])
qed

lemma fill_tail_fill: "n < 2 ^ 64 \<Longrightarrow> fill_tail m d b n = fill_bytes m d b n"
proof (induction n arbitrary: m d)
  case (Suc n)
  with fill_bytes_add [of 1 n m d b] show ?case by (simp add: fill_bytes_1)
qed simp

lemma memset_fill_bytes:
  assumes "n < 2 ^ 64"
  shows "memset m d c n = fill_bytes m d (word_of_int c) n"
proof -
  let ?b = "word_of_int c :: u8"
  from fill_align_fill [OF assms] obtain k where k: "k \<le> n"
    "fill_align m d ?b n = (fill_bytes m d ?b k, d + of_nat k, n - k)" by blast
  have "n - k < 2 ^ 64" using assms by linarith
  from fill_loop64_fill [OF this] obtain j where j: "j \<le> n - k"
    "fill_loop64 (fill_bytes m d ?b k) (d + of_nat k) ?b (n - k) =
       (fill_bytes (fill_bytes m d ?b k) (d + of_nat k) ?b j, d + of_nat k + of_nat j, n - k - j)"
    by blast
  have kj: "fill_bytes (fill_bytes m d ?b k) (d + of_nat k) ?b j = fill_bytes m d ?b (k + j)"
    using fill_bytes_add k(1) j(1) assms by simp
  have "fill_tail (fill_bytes m d ?b (k + j)) (d + of_nat (k + j)) ?b (n - k - j) = fill_bytes m d ?b n"
    using fill_tail_fill [of "n - k - j"] fill_bytes_add [of "k + j" "n - k - j" m d ?b] k(1) j(1) assms
    by simp
  then show ?thesis by (simp add: memset_def k(2) j(2) kj add.assoc)
qed


section \<open>NUL-terminated strings\<close>

text \<open>\<open>cstr m s xs\<close>: the bytes \<open>xs\<close>, none of them NUL, lie at \<open>s\<close>, followed by a NUL.\<close>

primrec cstr :: "memory \<Rightarrow> u64 \<Rightarrow> u8 list \<Rightarrow> bool" where
  "cstr m s [] = (m s = 0)"
| "cstr m s (x # xs) = (m s = x \<and> x \<noteq> 0 \<and> cstr m (s + 1) xs)"

lemma strlen_from_cstr: "cstr m s xs \<Longrightarrow> strlen_from m s n = Some (n + length xs)"
  by (induction xs arbitrary: s n) (simp_all add: strlen_from.simps)

lemma strlen_cstr: "cstr m s xs \<Longrightarrow> strlen m s = Some (length xs)"
  by (simp add: strlen_def strlen_from_cstr)

lemma cstr_iff: "cstr m s xs \<longleftrightarrow>
    (\<forall>i<length xs. m (s + of_nat i) = xs ! i \<and> xs ! i \<noteq> 0) \<and> m (s + of_nat (length xs)) = 0"
  by (induction xs arbitrary: s) (auto simp: All_less_Suc2 add.assoc)

lemma cstr_cong:
  "(\<And>i. i \<le> length xs \<Longrightarrow> m' (s + of_nat i) = m (s + of_nat i)) \<Longrightarrow> cstr m' s xs = cstr m s xs"
  by (auto simp: cstr_iff)

lemma strchr_cstr:
  "cstr m s xs \<Longrightarrow> strchr m s c =
     Some (if \<exists>x\<in>set xs. uint x = c
           then Some (s + of_nat (length (takeWhile (\<lambda>x. uint x \<noteq> c) xs))) else None)"
  by (induction xs arbitrary: s) (auto simp: strchr.simps add.assoc)

text \<open>\<^verbatim>\<open>strcmp\<close> is the lexicographic comparison of the bytes.\<close>

fun byte_compare :: "u8 list \<Rightarrow> u8 list \<Rightarrow> int" where
  "byte_compare [] [] = 0"
| "byte_compare [] (y # ys) = -1"
| "byte_compare (x # xs) [] = 1"
| "byte_compare (x # xs) (y # ys) =
     (if x = y then byte_compare xs ys else if x < y then -1 else 1)"

lemma strcmp_cstr:
  "cstr m p xs \<Longrightarrow> cstr m q ys \<Longrightarrow> strcmp m p q = Some (byte_compare xs ys)"
proof (induction xs ys arbitrary: p q rule: byte_compare.induct)
  case 1
  then show ?case by (simp add: strcmp.simps [of m p q])
next
  case (2 y ys)
  then show ?case by (simp add: strcmp.simps [of m p q] word_neq_0_conv)
next
  case (3 x xs)
  then show ?case by (auto simp: strcmp.simps [of m p q] word_neq_0_conv)
next
  case (4 x xs y ys)
  then show ?case by (auto simp: strcmp.simps [of m p q])
qed

lemma byte_compare_0: "byte_compare xs ys = 0 \<longleftrightarrow> xs = ys"
  by (induction xs ys rule: byte_compare.induct) auto

text \<open>
  \<^verbatim>\<open>strcpy\<close> copies the string and its terminator and nothing else, when source and
  destination do not overlap.
\<close>

lemma strcpy_cstr:
  "cstr m src xs \<Longrightarrow> apart dst src (Suc (length xs)) \<Longrightarrow>
     strcpy m dst src = Some (copy_bytes m dst src (Suc (length xs)))"
proof (induction xs arbitrary: m dst src)
  case Nil
  then show ?case by (simp add: strcpy.simps Let_def copy_bytes_1 [symmetric] fun_upd_def)
next
  case (Cons x xs)
  let ?m = "m(dst := m src)"
  have ap: "apart (dst + 1) (src + 1) (Suc (length xs))"
    using apart_shift [OF Cons.prems(2), of 1] by simp
  have "cstr ?m (src + 1) xs"
  proof -
    have "dst \<noteq> src + 1 + of_nat i" if "i < Suc (length xs)" for i
    proof -
      have "dst + of_nat 0 \<noteq> src + of_nat (Suc i)"
        using Cons.prems(2) that unfolding apart_def by (metis Suc_less_eq length_Cons zero_less_Suc)
      then show ?thesis by (simp add: add.assoc)
    qed
    then have "\<And>i. i \<le> length xs \<Longrightarrow> ?m (src + 1 + of_nat i) = m (src + 1 + of_nat i)"
      by (metis fun_upd_apply less_Suc_eq_le)
    then have "cstr ?m (src + 1) xs = cstr m (src + 1) xs" by (intro cstr_cong) auto
    with Cons.prems(1) show ?thesis by simp
  qed
  from Cons.IH [OF this ap]
  have "strcpy ?m (dst + 1) (src + 1) = Some (copy_bytes m dst src (Suc (Suc (length xs))))"
    using copy_bytes_add [of dst src 1 "Suc (length xs)" m] Cons.prems(2)
    by (simp add: copy_bytes_1)
  with Cons.prems show ?case by (simp add: strcpy.simps [of m] Let_def)
qed

section \<open>parse\_number and byte order\<close>

text \<open>Decimal digits of a number, most significant first, as ASCII bytes.\<close>

fun decimal :: "nat \<Rightarrow> u8 list" where
  "decimal n = (if n < 10 then [of_nat (48 + n)] else decimal (n div 10) @ [of_nat (48 + n mod 10)])"

declare decimal.simps [simp del]

lemma digit_value_decimal: "d < 10 \<Longrightarrow> digit_value (of_nat (48 + d)) = Some (int d)"
proof -
  assume "d < 10"
  then have "d \<in> {0,1,2,3,4,5,6,7,8,9}" by auto
  then show ?thesis by (auto simp: digit_value_def)
qed

lemma parse_digits_decimal:
  "parse_digits 10 r (decimal n @ cs) =
     parse_digits 10 (r * 10 ^ length (decimal n) + int n) cs"
proof (induction n arbitrary: cs r rule: decimal.induct)
  case (1 n)
  show ?case
  proof (cases "n < 10")
    case True
    then show ?thesis by (simp add: decimal.simps [of n] digit_value_decimal del: of_nat_add)
  next
    case False
    have "int n = int (n div 10) * 10 + int (n mod 10)"
      by (metis div_mult_mod_eq of_nat_add of_nat_mult of_nat_numeral)
    moreover have "(10 \<le> n mod 10) = False" by (simp add: not_le)
    ultimately show ?thesis using 1 False
      by (simp add: decimal.simps [of n] digit_value_decimal algebra_simps del: of_nat_add)
  qed
qed

lemma swap_uint32_twice: "swap_uint32 (swap_uint32 v) = v"
proof (rule bit_word_eqI)
  fix n assume "n < LENGTH(32)"
  then have "n \<in> set [0..<32]" by simp
  then show "bit (swap_uint32 (swap_uint32 v)) n = bit v n"
    by (simp add: upt_rec, elim disjE) (simp_all add: swap_uint32_def Let_def bit_simps, simp_all add: numeral_eq_Suc)
qed

end
