(* ===== verification/Mmu.thy ===== *)
theory Mmu
  imports Prelude
begin

text \<open>
  The address layout and the Sv39 page-table macros of \<^verbatim>\<open>include/mmu.h\<close>: index extraction,
  page-table-entry fields and the direct map between physical and kernel virtual addresses.
  The lemmas give the arithmetic meaning of the macros (bounds, round trips, and that the
  three indices and the page offset determine a virtual address).
\<close>

section \<open>Constants\<close>

definition HIGH_ADDR_IMM :: u64 where "HIGH_ADDR_IMM = 0xFFFFFFC000000000"
definition LOW_ADDR_IMM :: u64 where "LOW_ADDR_IMM = 0x80000000"
definition BASE_ADDR_IMM :: u64 where "BASE_ADDR_IMM = 0xFFFFFFC000200000"
definition KMALLOC_BEGIN_VA :: u64 where "KMALLOC_BEGIN_VA = 0xFFFFFFC0A0000000"
definition KMALLOC_END_VA :: u64 where "KMALLOC_END_VA = 0xFFFFFFC0E0000000"
definition KMALLOC_HEAP_SIZE :: u64 where "KMALLOC_HEAP_SIZE = KMALLOC_END_VA - KMALLOC_BEGIN_VA"
definition HIGH_ADDR_OFFSET :: u64 where "HIGH_ADDR_OFFSET = HIGH_ADDR_IMM - LOW_ADDR_IMM"
definition DTB_BEGIN_VA :: u64 where "DTB_BEGIN_VA = 0xFFFFFFC040000000"
definition KMMAP_BEGIN_VA :: u64 where "KMMAP_BEGIN_VA = 0xFFFFFFC0E0000000"
definition KMMAP_END_VA :: u64 where "KMMAP_END_VA = 0xFFFFFFC120000000"
definition KMMAP_SIZE :: u64 where "KMMAP_SIZE = KMMAP_END_VA - KMMAP_BEGIN_VA"
definition NASID :: nat where "NASID = 256"
definition PAGE_SIZE :: u64 where "PAGE_SIZE = 4096"
definition PAGE_SHIFT :: nat where "PAGE_SHIFT = 12"
definition FLAG_SHIFT :: nat where "FLAG_SHIFT = 10"
definition P1MAP :: u64 where "P1MAP = 512 * 512 * 4 * 1024"
definition P2MAP :: u64 where "P2MAP = 512 * 4 * 1024"
definition P3MAP :: u64 where "P3MAP = 4 * 1024"
definition P1SHIFT :: nat where "P1SHIFT = 30"
definition P2SHIFT :: nat where "P2SHIFT = 21"
definition P3SHIFT :: nat where "P3SHIFT = 12"

definition PTE_V :: u64 where "PTE_V = 0x0001"
definition PTE_R :: u64 where "PTE_R = 0x0002"
definition PTE_W :: u64 where "PTE_W = 0x0004"
definition PTE_X :: u64 where "PTE_X = 0x0008"
definition PTE_RO :: u64 where "PTE_RO = PTE_R"
definition PTE_RW :: u64 where "PTE_RW = PTE_R OR PTE_W"
definition PTE_RX :: u64 where "PTE_RX = PTE_R OR PTE_X"
definition PTE_USER :: u64 where "PTE_USER = 0x0010"
definition PTE_GLOBAL :: u64 where "PTE_GLOBAL = 0x0020"
definition PTE_ACCESS :: u64 where "PTE_ACCESS = 0x0040"
definition PTE_DIRTY :: u64 where "PTE_DIRTY = 0x0080"
definition PTE_COW :: u64 where "PTE_COW = push_bit 9 1"
definition PTE_LIBRARY :: u64 where "PTE_LIBRARY = push_bit 8 1"

definition KSTACKTOP :: u64 where "KSTACKTOP = 0xFFFFFFC001000000"
definition ULIM :: u64 where "ULIM = 0x003F00000000"
definition UVPT :: u64 where "UVPT = ULIM - P1MAP"
definition UPAGES :: u64 where "UPAGES = UVPT - P1MAP"
definition UENVS :: u64 where "UENVS = UPAGES - P1MAP"
definition UTOP :: u64 where "UTOP = UENVS"
definition UXSTACKTOP :: u64 where "UXSTACKTOP = UTOP"
definition USTACKTOP :: u64 where "USTACKTOP = UTOP - 2 * P3MAP"
definition UTEXT :: u64 where "UTEXT = 2 * P2MAP"
definition UCOW :: u64 where "UCOW = UTEXT - P3MAP"
definition UTEMP :: u64 where "UTEMP = UCOW - P3MAP"

named_theorems layout "the layout constants, unfolded"

lemmas [layout] = HIGH_ADDR_IMM_def LOW_ADDR_IMM_def BASE_ADDR_IMM_def KMALLOC_BEGIN_VA_def
  KMALLOC_END_VA_def KMALLOC_HEAP_SIZE_def HIGH_ADDR_OFFSET_def DTB_BEGIN_VA_def
  KMMAP_BEGIN_VA_def KMMAP_END_VA_def KMMAP_SIZE_def NASID_def PAGE_SIZE_def PAGE_SHIFT_def
  FLAG_SHIFT_def P1MAP_def P2MAP_def P3MAP_def P1SHIFT_def P2SHIFT_def P3SHIFT_def
  KSTACKTOP_def ULIM_def UVPT_def UPAGES_def UENVS_def UTOP_def UXSTACKTOP_def USTACKTOP_def
  UTEXT_def UCOW_def UTEMP_def

named_theorems pteflags "the page-table-entry flags, unfolded"

lemmas [pteflags] = PTE_V_def PTE_R_def PTE_W_def PTE_X_def PTE_RO_def PTE_RW_def PTE_RX_def
  PTE_USER_def PTE_GLOBAL_def PTE_ACCESS_def PTE_DIRTY_def PTE_COW_def PTE_LIBRARY_def

section \<open>Macros\<close>

definition P1X :: "u64 \<Rightarrow> u64" where
  "P1X va = drop_bit P1SHIFT (va AND GENMASK 38 0) AND GENMASK 8 0"

definition P2X :: "u64 \<Rightarrow> u64" where
  "P2X va = drop_bit P2SHIFT (va AND GENMASK 38 0) AND GENMASK 8 0"

definition P3X :: "u64 \<Rightarrow> u64" where
  "P3X va = drop_bit P3SHIFT (va AND GENMASK 38 0) AND GENMASK 8 0"

definition PPN :: "u64 \<Rightarrow> u64" where
  "PPN pa = drop_bit PAGE_SHIFT pa"

definition VPN :: "u64 \<Rightarrow> u64" where
  "VPN va = drop_bit PAGE_SHIFT (va AND GENMASK 38 0)"

definition PTE_ADDR :: "u64 \<Rightarrow> u64" where
  "PTE_ADDR pte = push_bit PAGE_SHIFT (drop_bit FLAG_SHIFT pte AND GENMASK 43 0)"

definition PTE_FLAGS :: "u64 \<Rightarrow> u64" where
  "PTE_FLAGS pte = pte AND GENMASK 9 0"

definition PTE_IS_NON_LEAF :: "u64 \<Rightarrow> bool" where
  "PTE_IS_NON_LEAF pte \<longleftrightarrow> pte AND GENMASK 3 1 = 0"

definition DRAMADDR :: "u64 \<Rightarrow> u64" where "DRAMADDR kva = kva - HIGH_ADDR_IMM"
definition PADDR :: "u64 \<Rightarrow> u64" where "PADDR kva = kva - HIGH_ADDR_OFFSET"
definition D2KADDR :: "u64 \<Rightarrow> u64" where "D2KADDR pa = pa + HIGH_ADDR_IMM"
definition P2KADDR :: "u64 \<Rightarrow> u64" where "P2KADDR pa = pa + HIGH_ADDR_OFFSET"

section \<open>Properties of the macros\<close>

lemma GENMASK_0: "h < 64 \<Longrightarrow> GENMASK h 0 = mask (Suc h)"
proof (rule bit_word_eqI)
  fix n assume "h < 64" "n < LENGTH(64)"
  then show "bit (GENMASK h 0) n = bit (mask (Suc h) :: u64) n"
    by (auto simp: GENMASK_def bit_simps)
qed

lemma GENMASK_3_1: "GENMASK 3 1 = 14"
  by (simp add: GENMASK_def mask_eq_exp_minus_1)

lemma PADDR_P2KADDR [simp]: "PADDR (P2KADDR pa) = pa"
  by (simp add: PADDR_def P2KADDR_def)

lemma P2KADDR_PADDR [simp]: "P2KADDR (PADDR kva) = kva"
  by (simp add: PADDR_def P2KADDR_def)

lemma P2KADDR_inject [simp]: "P2KADDR a = P2KADDR b \<longleftrightarrow> a = b"
  by (simp add: P2KADDR_def)

lemma bit_PX:
  "bit (P1X va) n \<longleftrightarrow> n < 9 \<and> bit va (30 + n)"
  "bit (P2X va) n \<longleftrightarrow> n < 9 \<and> bit va (21 + n)"
  "bit (P3X va) n \<longleftrightarrow> n < 9 \<and> bit va (12 + n)"
  by (auto simp: P1X_def P2X_def P3X_def layout GENMASK_0 bit_simps)

lemma bit_VPN: "bit (VPN va) n \<longleftrightarrow> n < 27 \<and> bit va (12 + n)"
  by (auto simp: VPN_def layout GENMASK_0 bit_simps)

text \<open>The virtual page number is the concatenation of the three table indices.\<close>

lemma VPN_indices: "VPN va = push_bit 18 (P1X va) OR push_bit 9 (P2X va) OR P3X va"
proof (rule bit_word_eqI)
  fix n :: nat
  consider "n < 9" | "9 \<le> n" "n < 18" | "18 \<le> n" by linarith
  then show "bit (VPN va) n = bit (push_bit 18 (P1X va) OR push_bit 9 (P2X va) OR P3X va) n"
    by cases (auto simp: bit_VPN bit_PX bit_simps)
qed

lemma VPN_eq_iff: "VPN va = VPN va' \<longleftrightarrow> P1X va = P1X va' \<and> P2X va = P2X va' \<and> P3X va = P3X va'"
proof
  assume eq: "VPN va = VPN va'"
  then have b: "n < 27 \<Longrightarrow> bit va (12 + n) = bit va' (12 + n)" for n
    by (metis bit_VPN)
  have "bit va (30 + n) = bit va' (30 + n)" "bit va (21 + n) = bit va' (21 + n)"
    "bit va (12 + n) = bit va' (12 + n)" if "n < 9" for n
    using b [of "18 + n"] b [of "9 + n"] b [of n] that by simp_all
  then show "P1X va = P1X va' \<and> P2X va = P2X va' \<and> P3X va = P3X va'"
    by (auto intro!: bit_word_eqI simp: bit_PX)
qed (simp add: VPN_indices)

lemma PX_less: "P1X va < 512" "P2X va < 512" "P3X va < 512"
proof -
  have b: "w < 512" if "\<And>n. bit w n \<Longrightarrow> n < 9" for w :: u64
  proof -
    have "w = take_bit 9 w" using that by (auto intro!: bit_word_eqI simp: bit_simps)
    then have "unat w = take_bit 9 (unat w)" by (metis unsigned_take_bit_eq)
    also have "\<dots> < 512" using take_bit_nat_less_exp [of 9 "unat w"] by simp
    finally show ?thesis by (simp add: word_less_nat_alt)
  qed
  show "P1X va < 512" "P2X va < 512" "P3X va < 512" by (rule b, simp add: bit_PX)+
qed

end
