(* ===== verification/Pmap.thy ===== *)
theory Pmap
  imports Queue CString Mmu
begin

text \<open>
  Physical pages and page tables: \<^verbatim>\<open>kern/pmap.c\<close>, the inline functions of
  \<^verbatim>\<open>include/pmap.h\<close>, and the page-fault allocators of \<^verbatim>\<open>kern/tlbex.c\<close>.

  A \<^verbatim>\<open>struct Page *\<close> is its index in the array \<^verbatim>\<open>pages\<close>; the fields of the array are the
  functions \<open>pp_ref\<close> and, inside \<open>page_free_list\<close>, the links.  Page tables live in byte memory
  and are read and written through kernel virtual addresses of the direct map.  A \<^verbatim>\<open>Pte *\<close> is
  an address, \<^term>\<open>None\<close> standing for \<^verbatim>\<open>NULL\<close>.  Flag arguments (\<^verbatim>\<open>uint32_t perm\<close>) are
  kept zero-extended to 64 bits, the width at which the code combines them with entries.
  The TLB and \<^verbatim>\<open>satp\<close> instructions of \<^verbatim>\<open>kern/tlb_asm.S\<close> are recorded in a log.
\<close>

section \<open>State\<close>

datatype tlb_op =
    Tlb_invalidate u16 u16
  | Tlb_flush_asid u64
  | Tlb_flush_all
  | Set_satp u64 u64

record pstate =
  memsize :: u64
  npage :: u64
  freemem :: u64
  pages :: u64
  pp_ref :: "nat \<Rightarrow> u16"
  page_free_list :: "nat LIST"
  mem :: memory
  tlb_log :: "tlb_op list"

definition kernel_boot_pgdir :: u64 where "kernel_boot_pgdir = 0xFFFFFFC001000000"

definition sizeof_Page :: u64 where "sizeof_Page = 24"

definition set_ref :: "pstate \<Rightarrow> nat \<Rightarrow> u16 \<Rightarrow> pstate" where
  "set_ref p pp r = p\<lparr>pp_ref := (pp_ref p)(pp := r)\<rparr>"

definition load_pte :: "pstate \<Rightarrow> u64 \<Rightarrow> u64" where
  "load_pte p a = load64 (mem p) a"

definition store_pte :: "pstate \<Rightarrow> u64 \<Rightarrow> u64 \<Rightarrow> pstate" where
  "store_pte p a v = p\<lparr>mem := store64 (mem p) a v\<rparr>"

definition tlb :: "tlb_op \<Rightarrow> pstate \<Rightarrow> pstate" where
  "tlb t p = p\<lparr>tlb_log := t # tlb_log p\<rparr>"

text \<open>
  The prototype is \<^verbatim>\<open>tlb_invalidate(uint16_t asid, uint16_t va)\<close>: a call converts the address
  to 16 bits.
\<close>

definition tlb_invalidate :: "u64 \<Rightarrow> u64 \<Rightarrow> pstate \<Rightarrow> pstate" where
  "tlb_invalidate asid va = tlb (Tlb_invalidate (ucast asid) (ucast va))"

section \<open>Boot-time allocation\<close>

definition riscv64_detect_memory :: "pstate \<Rightarrow> pstate" where
  "riscv64_detect_memory p =
     (let m = 0x80000000 in p\<lparr>memsize := m, npage := drop_bit PAGE_SHIFT m\<rparr>)"

text \<open>\<open>kernel_end\<close> is the linker symbol \<^verbatim>\<open>_kernel_end\<close>.\<close>

definition alloc :: "u64 \<Rightarrow> u32 \<Rightarrow> u32 \<Rightarrow> bool \<Rightarrow> pstate \<Rightarrow> (u64 \<times> pstate) option" where
  "alloc kernel_end n align clear p =
     (let f0 = (if freemem p = 0 then kernel_end + PAGE_SIZE else freemem p);
          alloced_mem = ROUND f0 (ucast align);
          f = alloced_mem + ucast n;
          p = p\<lparr>freemem := f\<rparr>
      in if DRAMADDR f \<ge> memsize p then None
         else Some (alloced_mem,
           if clear then p\<lparr>mem := memset (mem p) alloced_mem 0 (unat n)\<rparr> else p))"

definition riscv64_vm_init :: "u64 \<Rightarrow> pstate \<Rightarrow> pstate option" where
  "riscv64_vm_init kernel_end p =
     do { (a, p) \<leftarrow> alloc kernel_end (ucast (npage p * sizeof_Page)) (ucast PAGE_SIZE) True p;
          Some (p\<lparr>pages := a\<rparr>) }"

primrec page_init_used :: "nat \<Rightarrow> pstate \<Rightarrow> pstate" where
  "page_init_used 0 p = p"
| "page_init_used (Suc i) p = set_ref (page_init_used i p) i 1"

text \<open>
  The second loop of \<^verbatim>\<open>page_init\<close>, \<^verbatim>\<open>for (i = npage - 1; i >= used; i--)\<close>; the argument is
  \<open>i + 1\<close>.
\<close>

primrec page_init_free :: "nat \<Rightarrow> nat \<Rightarrow> pstate \<Rightarrow> pstate" where
  "page_init_free used 0 p = p"
| "page_init_free used (Suc i) p =
     (if used \<le> i
      then page_init_free used i
        ((set_ref p i 0)\<lparr>page_free_list := LIST_INSERT_HEAD (page_free_list p) i\<rparr>)
      else p)"

text \<open>
  With no used page or no page at all the unsigned counter of that loop wraps around and the
  loop never ends; the model is \<^term>\<open>None\<close> there.
\<close>

definition page_init :: "pstate \<Rightarrow> pstate option" where
  "page_init p =
     (let p = p\<lparr>page_free_list := LIST_INIT (page_free_list p)\<rparr>;
          p = p\<lparr>freemem := ROUND (freemem p) PAGE_SIZE\<rparr>;
          used = unat (DRAMADDR (freemem p) div PAGE_SIZE)
      in if used = 0 \<or> npage p = 0 then None
         else Some (page_init_free used (unat (npage p)) (page_init_used used p)))"

section \<open>Pages\<close>

definition page2ppn :: "nat \<Rightarrow> u64" where
  "page2ppn pp = of_nat pp + PPN 0x80000000"

definition page2pa :: "nat \<Rightarrow> u64" where
  "page2pa pp = push_bit PAGE_SHIFT (page2ppn pp)"

definition pa2page :: "pstate \<Rightarrow> u64 \<Rightarrow> nat option" where
  "pa2page p pa =
     (if pa < LOW_ADDR_IMM then None
      else if PPN (pa - LOW_ADDR_IMM) \<ge> npage p then None
      else Some (unat (PPN (pa - LOW_ADDR_IMM))))"

definition page2kva :: "nat \<Rightarrow> u64" where
  "page2kva pp = P2KADDR (page2pa pp)"

definition page_alloc :: "pstate \<Rightarrow> ((int + nat) \<times> pstate) option" where
  "page_alloc p =
     (case LIST_FIRST (page_free_list p) of
        None \<Rightarrow> Some (Inl (- E_NO_MEM), p)
      | Some pp \<Rightarrow>
          do { fl \<leftarrow> LIST_REMOVE (page_free_list p) pp;
               Some (Inr pp, p\<lparr>page_free_list := fl, mem := memset (mem p) (page2kva pp) 0 4096\<rparr>) })"

definition page_free :: "pstate \<Rightarrow> nat \<Rightarrow> pstate option" where
  "page_free p pp =
     (if pp_ref p pp \<noteq> 0 then None
      else Some (p\<lparr>page_free_list := LIST_INSERT_HEAD (page_free_list p) pp\<rparr>))"

definition page_decref :: "pstate \<Rightarrow> nat \<Rightarrow> pstate option" where
  "page_decref p pp =
     (if pp_ref p pp = 0 then None
      else (let p = set_ref p pp (pp_ref p pp - 1)
            in if pp_ref p pp = 0 then page_free p pp else Some p))"

section \<open>Page tables\<close>

definition non_leaf_pte :: "nat \<Rightarrow> u64" where
  "non_leaf_pte pp = push_bit FLAG_SHIFT (page2ppn pp) OR PTE_V"

text \<open>The result is \<^verbatim>\<open>(return value, *ppte)\<close>.\<close>

definition pgdir_walk ::
  "pstate \<Rightarrow> u64 \<Rightarrow> u64 \<Rightarrow> int \<Rightarrow> ((int \<times> u64 option) \<times> pstate) option" where
  "pgdir_walk p pgdir va create =
     (let p1_entry = pgdir + 8 * P1X va in
      if load_pte p p1_entry AND PTE_V = 0 then
        (if create = 0 then Some ((0, None), p)
         else
           do { (r2, p) \<leftarrow> page_alloc p;
                (case r2 of
                   Inl ret \<Rightarrow> Some ((ret, None), p)
                 | Inr p2_page \<Rightarrow>
                     do { (r3, p) \<leftarrow> page_alloc p;
                          (case r3 of
                             Inl ret \<Rightarrow> do { p \<leftarrow> page_free p p2_page; Some ((ret, None), p) }
                           | Inr p3_page \<Rightarrow>
                               (let p = set_ref p p2_page (pp_ref p p2_page + 1);
                                    p = set_ref p p3_page (pp_ref p p3_page + 1);
                                    p = store_pte p p1_entry (non_leaf_pte p2_page);
                                    p2_entry = P2KADDR (page2pa p2_page) + 8 * P2X va;
                                    p = store_pte p p2_entry (non_leaf_pte p3_page);
                                    p3_entry = P2KADDR (page2pa p3_page) + 8 * P3X va
                                in Some ((0, Some p3_entry), p))) }) })
      else if \<not> PTE_IS_NON_LEAF (load_pte p p1_entry) then Some ((0, Some p1_entry), p)
      else
        (let p2_entry = P2KADDR (PTE_ADDR (load_pte p p1_entry)) + 8 * P2X va in
         if load_pte p p2_entry AND PTE_V = 0 then
           do { (r, p) \<leftarrow> page_alloc p;
                (case r of
                   Inl ret \<Rightarrow> Some ((ret, None), p)
                 | Inr new \<Rightarrow>
                     (let p = set_ref p new (pp_ref p new + 1);
                          p = store_pte p p2_entry (non_leaf_pte new);
                          p3_entry = P2KADDR (page2pa new) + 8 * P3X va
                      in Some ((0, Some p3_entry), p))) }
         else if \<not> PTE_IS_NON_LEAF (load_pte p p2_entry) then Some ((0, Some p2_entry), p)
         else Some ((0, Some (P2KADDR (PTE_ADDR (load_pte p p2_entry)) + 8 * P3X va)), p)))"

text \<open>The result is the page and \<^verbatim>\<open>*ppte\<close>, or \<^verbatim>\<open>NULL\<close>.\<close>

definition page_lookup :: "pstate \<Rightarrow> u64 \<Rightarrow> u64 \<Rightarrow> ((nat \<times> u64) option \<times> pstate) option" where
  "page_lookup p pgdir va =
     do { ((_, pte), p) \<leftarrow> pgdir_walk p pgdir va 0;
          (case pte of
             None \<Rightarrow> Some (None, p)
           | Some a \<Rightarrow>
               if load_pte p a AND PTE_V = 0 then Some (None, p)
               else do { pp \<leftarrow> pa2page p (PTE_ADDR (load_pte p a)); Some (Some (pp, a), p) }) }"

definition page_remove :: "pstate \<Rightarrow> u64 \<Rightarrow> u64 \<Rightarrow> u64 \<Rightarrow> pstate option" where
  "page_remove p pgdir asid va =
     do { (r, p) \<leftarrow> page_lookup p pgdir va;
          (case r of
             None \<Rightarrow> Some p
           | Some (pp, pte) \<Rightarrow>
               do { p \<leftarrow> page_decref p pp;
                    Some (tlb_invalidate asid va (store_pte p pte 0)) }) }"

definition leaf_pte :: "nat \<Rightarrow> u64 \<Rightarrow> u64" where
  "leaf_pte pp perm = push_bit FLAG_SHIFT (page2ppn pp) OR perm OR PTE_V"

text \<open>From \<^verbatim>\<open>/* Step 2 */\<close> on: flush, walk with creation, fill in the entry, count the reference.\<close>

definition page_insert_new :: "pstate \<Rightarrow> u64 \<Rightarrow> u64 \<Rightarrow> nat \<Rightarrow> u64 \<Rightarrow> u64 \<Rightarrow> (int \<times> pstate) option" where
  "page_insert_new p pgdir asid pp va perm =
     do { let p = tlb_invalidate asid va p;
          ((ret, pte), p) \<leftarrow> pgdir_walk p pgdir va 1;
          if ret \<noteq> 0 then Some (ret, p)
          else (case pte of
              None \<Rightarrow> None
            | Some a \<Rightarrow>
                (let p = store_pte p a (leaf_pte pp perm);
                     p = set_ref p pp (pp_ref p pp + 1)
                 in Some (0, p))) }"

definition page_insert :: "pstate \<Rightarrow> u64 \<Rightarrow> u64 \<Rightarrow> nat \<Rightarrow> u64 \<Rightarrow> u64 \<Rightarrow> (int \<times> pstate) option" where
  "page_insert p pgdir asid pp va perm =
     do { ((_, pte), p) \<leftarrow> pgdir_walk p pgdir va 0;
          (case pte of
             None \<Rightarrow> page_insert_new p pgdir asid pp va perm
           | Some a \<Rightarrow>
               if load_pte p a AND PTE_V = 0 then page_insert_new p pgdir asid pp va perm
               else
                 do { old \<leftarrow> pa2page p (PTE_ADDR (load_pte p a));
                      if old \<noteq> pp
                      then do { p \<leftarrow> page_remove p pgdir asid va;
                                page_insert_new p pgdir asid pp va perm }
                      else (let p = tlb_invalidate asid va p
                            in Some (0, store_pte p a (leaf_pte pp perm))) }) }"

definition va2pa :: "pstate \<Rightarrow> u64 \<Rightarrow> u64 \<Rightarrow> u64" where
  "va2pa p pgdir va =
     (let p1Entry = load_pte p (pgdir + 8 * P1X va) in
      if p1Entry AND PTE_V = 0 then NOT 0
      else if \<not> PTE_IS_NON_LEAF p1Entry then PTE_ADDR p1Entry OR (va AND GENMASK 29 0)
      else
        (let p2Entry = load_pte p (P2KADDR (PTE_ADDR p1Entry) + 8 * P2X va) in
         if p2Entry AND PTE_V = 0 then NOT 0
         else if \<not> PTE_IS_NON_LEAF p2Entry then PTE_ADDR p1Entry OR (va AND GENMASK 20 0)
         else
           (let p3Entry = load_pte p (P2KADDR (PTE_ADDR p2Entry) + 8 * P3X va) in
            if p3Entry AND PTE_V = 0 then NOT 0
            else PTE_ADDR p3Entry OR (va AND GENMASK 11 0))))"

text \<open>
  The mapping loops step \<^verbatim>\<open>offset\<close> by a page up to the rounded length; the recursion counts the
  pages left.
\<close>

fun map_mem_loop :: "nat \<Rightarrow> pstate \<Rightarrow> u64 \<Rightarrow> u64 \<Rightarrow> u64 \<Rightarrow> u64 \<Rightarrow> u64 \<Rightarrow> pstate option" where
  "map_mem_loop 0 p pgdir va pa perm offset = Some p"
| "map_mem_loop (Suc n) p pgdir va pa perm offset =
     do { ((_, pte), p) \<leftarrow> pgdir_walk p pgdir (va + offset) 1;
          (case pte of
             None \<Rightarrow> None
           | Some a \<Rightarrow>
               map_mem_loop n (store_pte p a (push_bit 10 (PPN (pa + offset)) OR perm))
                 pgdir va pa perm (offset + PAGE_SIZE)) }"

definition map_mem :: "pstate \<Rightarrow> u64 \<Rightarrow> u64 \<Rightarrow> u64 \<Rightarrow> u64 \<Rightarrow> u64 \<Rightarrow> pstate option" where
  "map_mem p pgdir va pa len perm =
     (let len = ROUND len PAGE_SIZE in
      if va mod PAGE_SIZE \<noteq> 0 then None
      else if pa mod PAGE_SIZE \<noteq> 0 then None
      else map_option (tlb Tlb_flush_all)
             (map_mem_loop (unat (len div PAGE_SIZE)) p pgdir va pa perm 0))"

fun unmap_mem_loop :: "nat \<Rightarrow> pstate \<Rightarrow> u64 \<Rightarrow> u64 \<Rightarrow> u64 \<Rightarrow> pstate option" where
  "unmap_mem_loop 0 p pgdir va offset = Some p"
| "unmap_mem_loop (Suc n) p pgdir va offset =
     do { ((_, pte), p) \<leftarrow> pgdir_walk p pgdir (va + offset) 0;
          unmap_mem_loop n (case pte of None \<Rightarrow> p | Some a \<Rightarrow> store_pte p a 0)
            pgdir va (offset + PAGE_SIZE) }"

definition unmap_mem :: "pstate \<Rightarrow> u64 \<Rightarrow> u64 \<Rightarrow> u64 \<Rightarrow> pstate option" where
  "unmap_mem p pgdir va len =
     (let len = ROUND len PAGE_SIZE in
      if va mod PAGE_SIZE \<noteq> 0 then None
      else map_option (tlb Tlb_flush_all)
             (unmap_mem_loop (unat (len div PAGE_SIZE)) p pgdir va 0))"

definition set_page_table :: "pstate \<Rightarrow> u64 \<Rightarrow> u64 \<Rightarrow> pstate" where
  "set_page_table p asid p1 = tlb Tlb_flush_all (tlb (Set_satp asid (PPN (PADDR p1))) p)"

section \<open>Allocation on a page fault (\<^verbatim>\<open>kern/tlbex.c\<close>)\<close>

definition passive_alloc :: "pstate \<Rightarrow> u64 \<Rightarrow> u64 \<Rightarrow> u64 \<Rightarrow> pstate option" where
  "passive_alloc p va pgdir asid =
     (if va < UTEMP then None
      else if va \<ge> USTACKTOP \<and> va < USTACKTOP + PAGE_SIZE then None
      else if va \<ge> UENVS \<and> va < UPAGES then None
      else if va \<ge> UPAGES \<and> va < UVPT then None
      else if va \<ge> UVPT \<and> va < ULIM then None
      else if va \<ge> ULIM then None
      else
        do { (r, p) \<leftarrow> page_alloc p;
             (case r of
                Inl _ \<Rightarrow> None
              | Inr pp \<Rightarrow>
                  do { (ret, p) \<leftarrow> page_insert p pgdir asid pp va
                         ((if va \<ge> UTOP then PTE_RO else PTE_RW) OR PTE_USER);
                       if ret \<noteq> 0 then None else Some p }) })"

definition kernel_passive_alloc :: "pstate \<Rightarrow> u64 \<Rightarrow> pstate option" where
  "kernel_passive_alloc p va =
     (if va < KMALLOC_BEGIN_VA \<or> va \<ge> KMALLOC_END_VA then None
      else
        do { (r, p) \<leftarrow> page_alloc p;
             (case r of
                Inl _ \<Rightarrow> None
              | Inr pp \<Rightarrow>
                  do { (ret, p) \<leftarrow> page_insert p kernel_boot_pgdir 0 pp va (PTE_RW OR PTE_GLOBAL);
                       if ret \<noteq> 0 then None else Some p }) })"

end
