(* ===== verification/PageEntry.thy ===== *)
theory PageEntry
  imports Pmap
begin

text \<open>
  Facts about single page-table entries: reading an entry of a page-aligned table after a
  64-bit store or after clearing a page, the physical and kernel virtual addresses of pages,
  and the fields of the entries the kernel writes (\<open>non_leaf_pte\<close>, \<open>leaf_pte\<close>).
\<close>

section \<open>Entries of page tables\<close>

lemma unat_add_offset:
  fixes w :: u64
  assumes "2 ^ k dvd unat w" "n < 2 ^ k" "k \<le> 64"
  shows "unat (w + of_nat n) = unat w + n"
proof -
  obtain c where c: "unat w = 2 ^ k * c" using assms(1) by blast
  have s: "(2::nat) ^ 64 = 2 ^ k * 2 ^ (64 - k)" using assms(3) by (simp add: power_add [symmetric])
  have "2 ^ k * c < (2::nat) ^ 64" using unat64_less [of w] c by simp
  then have "c < 2 ^ (64 - k)" unfolding s by simp
  then have "2 ^ k * c + 2 ^ k \<le> (2::nat) ^ 64"
    unfolding s using mult_le_mono2 [of "Suc c" "2 ^ (64 - k)" "2 ^ k"] by simp
  then have b: "unat w + n < 2 ^ 64" using assms(2) c by linarith
  then have "unat (of_nat (unat w + n) :: u64) = unat w + n" by (intro unat_of_nat64) simp
  then show ?thesis by simp
qed

lemma dvd_unat_diff:
  fixes a b :: u64
  assumes "2 ^ k dvd unat a" "2 ^ k dvd unat b" "k \<le> 64"
  shows "2 ^ k dvd unat (a - b)"
proof -
  have s: "(2::nat) ^ k dvd 2 ^ 64" using assms(3) by (rule le_imp_power_dvd)
  show ?thesis
  proof (cases "b \<le> a")
    case True
    then show ?thesis using assms by (simp add: unat_sub word_le_nat_alt dvd_diff_nat)
  next
    case False
    then have "unat (a - b) = unat a + 2 ^ 64 - unat b"
      by (simp add: unat_sub_if' word_le_nat_alt)
    with s assms show ?thesis by (simp only: dvd_diff_nat dvd_add)
  qed
qed

lemma unat_eq_0_diff: "unat (a - b :: u64) = 0 \<longleftrightarrow> a = b"
  by (simp add: unat_eq_zero)

lemma load64_store64_same [simp]: "load64 (store64 m a v) a = v"
  by (simp add: load64_def store64_def load_le_store_le_same take_bit_word_eq_self)

lemma load64_store64_other:
  assumes "8 dvd unat a" "8 dvd unat b" "a \<noteq> b"
  shows "load64 (store64 m a v) b = load64 m b"
  unfolding load64_def store64_def
proof (rule load_le_cong)
  fix i :: nat assume i: "i < 8"
  have d: "2 ^ 3 dvd unat (b - a)" using assms dvd_unat_diff [of 3 b a] by simp
  have "unat (b - a) \<noteq> 0" using assms(3) by (simp only: unat_eq_0_diff)
  with d have "8 \<le> unat (b - a)" by (auto dest: dvd_imp_le)
  moreover have "unat (b + of_nat i - a) = unat (b - a) + i"
    using unat_add_offset [OF d, of i] i by (simp add: algebra_simps)
  ultimately show "store_le 8 m a v (b + of_nat i) = m (b + of_nat i)"
    by (simp add: store_le_apply)
qed

text \<open>The address of entry \<open>i\<close> of the table at \<open>t\<close>, and its arithmetic on page-aligned tables.\<close>

definition slot :: "u64 \<Rightarrow> u64 \<Rightarrow> u64" where
  "slot t i = t + 8 * i"

definition page_aligned :: "u64 \<Rightarrow> bool" where
  "page_aligned t \<longleftrightarrow> 4096 dvd unat t"

lemma unat_slot:
  assumes "page_aligned t" "i < 512"
  shows "unat (slot t i) = unat t + 8 * unat i"
proof -
  have i: "unat i < 512" using assms(2) by (simp add: word_less_nat_alt)
  then have "unat (t + of_nat (8 * unat i)) = unat t + 8 * unat i"
    using assms(1) by (intro unat_add_offset [where k = 12]) (auto simp: page_aligned_def)
  then show ?thesis by (simp add: slot_def)
qed

lemma slot_inject:
  assumes "page_aligned t" "page_aligned t'" "i < 512" "i' < 512"
  shows "slot t i = slot t' i' \<longleftrightarrow> t = t' \<and> i = i'"
proof
  assume eq: "slot t i = slot t' i'"
  obtain a b where ab: "unat t = 4096 * a" "unat t' = 4096 * b"
    using assms(1,2) unfolding page_aligned_def by (metis dvdE)
  have "unat i < 512" "unat i' < 512" using assms(3,4) by (simp_all add: word_less_nat_alt)
  moreover have "unat (slot t i) = unat (slot t' i')" by (simp only: eq)
  then have e: "4096 * a + 8 * unat i = 4096 * b + 8 * unat i'"
    using ab by (simp only: unat_slot [OF assms(1,3)] unat_slot [OF assms(2,4)])
  moreover from e have "(4096 * a + 8 * unat i) div 4096 = (4096 * b + 8 * unat i') div 4096" by simp
  ultimately have "a = b" by simp
  with e have "unat i = unat i'" by simp
  with \<open>a = b\<close> have "unat t = unat t'" "unat i = unat i'" using ab by simp_all
  then show "t = t' \<and> i = i'" by (simp only: word_unat_eq_iff)
qed simp

lemma slot_dvd: "page_aligned t \<Longrightarrow> i < 512 \<Longrightarrow> 8 dvd unat (slot t i)"
  by (simp add: unat_slot) (auto simp: page_aligned_def elim: dvd_trans [rotated])

lemma load_slot_store:
  assumes "page_aligned t" "page_aligned t'" "i < 512" "i' < 512"
  shows "load64 (store64 m (slot t i) v) (slot t' i') =
    (if t = t' \<and> i = i' then v else load64 m (slot t' i'))"
  using assms by (auto simp: slot_inject load64_store64_other slot_dvd)

lemma load_le_zero: "(\<And>i. i < k \<Longrightarrow> m (a + of_nat i) = 0) \<Longrightarrow> load_le k m a = 0"
  by (rule bit_word_eqI) (auto simp: bit_load_le)

lemma load_slot_zeroed:
  assumes "page_aligned t" "page_aligned t'" "i' < 512"
  shows "load64 (fill_bytes m t 0 4096) (slot t' i') = (if t = t' then 0 else load64 m (slot t' i'))"
proof -
  have i: "unat i' < 512" using assms(3) by (simp add: word_less_nat_alt)
  have u: "unat (slot t' i' + of_nat j - t) = unat (t' - t) + (8 * unat i' + j)" if "j < 8" for j
  proof -
    have d: "2 ^ 12 dvd unat (t' - t)"
      using assms dvd_unat_diff [of 12 t' t] by (simp add: page_aligned_def)
    have e: "slot t' i' + of_nat j - t = t' - t + of_nat (8 * unat i' + j)"
      by (simp add: slot_def algebra_simps)
    show ?thesis unfolding e by (rule unat_add_offset [OF d]) (use i that in simp_all)
  qed
  show ?thesis
  proof (cases "t = t'")
    case True
    with u i show ?thesis
      by (auto simp: load64_def fill_bytes_def intro!: load_le_zero)
  next
    case False
    have "4096 dvd unat (t' - t)"
      using assms dvd_unat_diff [of 12 t' t] by (simp add: page_aligned_def)
    moreover have "unat (t' - t) \<noteq> 0" using False by (metis unat_eq_0_diff)
    ultimately have "4096 \<le> unat (t' - t)" by (auto dest: dvd_imp_le)
    with False u show ?thesis
      by (auto simp: load64_def fill_bytes_def intro!: load_le_cong)
  qed
qed

section \<open>Pages, addresses and entries\<close>

text \<open>
  Page indices are below \<open>2 ^ 32\<close> (16 TB of memory), so that page numbers fit the 44-bit field
  of an entry.
\<close>

definition max_pages :: nat where "max_pages = 2 ^ 32"

lemma unat_page2ppn:
  assumes "pp < max_pages"
  shows "unat (page2ppn pp) = pp + 524288"
proof -
  have "page2ppn pp = of_nat (pp + 524288)"
    by (simp add: page2ppn_def PPN_def layout)
  moreover have "unat (of_nat (pp + 524288) :: u64) = pp + 524288"
    using assms by (intro unat_of_nat64) (simp add: max_pages_def)
  ultimately show ?thesis by (simp only:)
qed

lemma unat_page2pa:
  assumes "pp < max_pages"
  shows "unat (page2pa pp) = 4096 * (pp + 524288)"
proof -
  have "page2pa pp = of_nat (4096 * (pp + 524288))"
    by (simp add: page2pa_def page2ppn_def PPN_def layout push_bit_eq_mult)
  moreover have "unat (of_nat (4096 * (pp + 524288)) :: u64) = 4096 * (pp + 524288)"
    using assms by (intro unat_of_nat64) (simp add: max_pages_def)
  ultimately show ?thesis by (simp only:)
qed

lemma page2kva_eq: "page2kva pp = of_nat (4096 * pp) + HIGH_ADDR_IMM"
  by (simp add: page2kva_def P2KADDR_def page2pa_def page2ppn_def PPN_def layout push_bit_eq_mult)

lemma page_aligned_page2kva [simp]: "page_aligned (page2kva pp)"
proof -
  have "page2kva pp = of_nat (4096 * (pp + 0xFFFFFFC000000))"
    by (simp add: page2kva_eq layout algebra_simps)
  then have "unat (page2kva pp) = 4096 * (pp + 0xFFFFFFC000000) mod 2 ^ 64"
    by (simp only: unsigned_of_nat take_bit_eq_mod) simp
  then show ?thesis
    unfolding page_aligned_def by (simp only: dvd_mod_iff) (simp add: dvd_mod_iff)
qed

lemma page2pa_inject:
  "pp < max_pages \<Longrightarrow> q < max_pages \<Longrightarrow> page2pa pp = page2pa q \<longleftrightarrow> pp = q"
  by (simp add: word_unat_eq_iff unat_page2pa)

lemma page2kva_inject:
  "pp < max_pages \<Longrightarrow> q < max_pages \<Longrightarrow> page2kva pp = page2kva q \<longleftrightarrow> pp = q"
  by (simp add: page2kva_def page2pa_inject)

lemma pa2page_page2pa:
  assumes "pp < unat (npage p)" "npage p \<le> of_nat max_pages"
  shows "pa2page p (page2pa pp) = Some pp"
proof -
  have m: "unat (npage p) \<le> max_pages"
    using assms(2) by (simp add: word_le_nat_alt max_pages_def)
  then have pp: "pp < max_pages" using assms(1) by simp
  have e: "page2pa pp - LOW_ADDR_IMM = of_nat (4096 * pp)"
    by (simp add: page2pa_def page2ppn_def PPN_def layout push_bit_eq_mult)
  have "unat (of_nat (4096 * pp) :: u64) = 4096 * pp"
    using pp by (intro unat_of_nat64) (simp add: max_pages_def)
  then have "unat (PPN (page2pa pp - LOW_ADDR_IMM)) = pp"
    unfolding e by (simp del: of_nat_mult add: PPN_def layout drop_bit_eq_div unat_div)
  moreover have "\<not> page2pa pp < LOW_ADDR_IMM"
    using pp by (simp add: word_less_nat_alt unat_page2pa layout)
  ultimately show ?thesis
    using assms by (simp add: pa2page_def word_le_nat_alt)
qed

lemma bit_page2ppn: "pp < max_pages \<Longrightarrow> bit (page2ppn pp) n \<Longrightarrow> n < 44"
proof (rule ccontr)
  assume a: "pp < max_pages" "bit (page2ppn pp) n" "\<not> n < 44"
  have "unat (page2ppn pp) < 2 ^ n"
    using a(1,3) power_increasing [of 44 n "2::nat"]
    by (simp add: unat_page2ppn max_pages_def)
  then have "\<not> bit (unat (page2ppn pp)) n" by (simp add: bit_iff_odd)
  with a(2) show False by (simp add: bit_unsigned_iff)
qed

text \<open>Any flags in the low ten bits leave the address of an entry alone.\<close>

lemma PTE_ADDR_entry:
  assumes "pp < max_pages" "PTE_FLAGS f = f"
  shows "PTE_ADDR (push_bit FLAG_SHIFT (page2ppn pp) OR f) = page2pa pp"
proof -
  have f: "\<not> bit f (10 + n)" for n
  proof -
    have "bit f (10 + n) = bit (PTE_FLAGS f) (10 + n)" by (simp only: assms(2))
    then show ?thesis by (simp add: PTE_FLAGS_def GENMASK_0 bit_simps)
  qed
  have "drop_bit FLAG_SHIFT (push_bit FLAG_SHIFT (page2ppn pp) OR f) AND GENMASK 43 0 = page2ppn pp"
    using f bit_page2ppn [OF assms(1)]
    by (intro bit_word_eqI) (fastforce simp: bit_simps layout GENMASK_0)
  then show ?thesis by (simp add: PTE_ADDR_def page2pa_def)
qed

lemma PTE_FLAGS_or: "PTE_FLAGS (a OR b) = PTE_FLAGS a OR PTE_FLAGS b"
  by (simp add: PTE_FLAGS_def bit.conj_disj_distrib2)

lemma PTE_FLAGS_idem [simp]: "PTE_FLAGS (PTE_FLAGS a) = PTE_FLAGS a"
  by (simp add: PTE_FLAGS_def and.assoc)

lemma PTE_FLAGS_V [simp]: "PTE_FLAGS PTE_V = PTE_V"
  by (simp add: PTE_FLAGS_def PTE_V_def GENMASK_0 mask_eq_exp_minus_1)

definition pte_valid :: "u64 \<Rightarrow> bool" where
  "pte_valid e \<longleftrightarrow> e AND PTE_V \<noteq> 0"

lemma pte_valid_bit: "pte_valid e \<longleftrightarrow> bit e 0"
  by (simp add: pte_valid_def PTE_V_def and_one_eq bit_0 odd_iff_mod_2_eq_one)

lemma leaf_pte_addr [simp]: "pp < max_pages \<Longrightarrow> PTE_FLAGS f = f \<Longrightarrow> PTE_ADDR (leaf_pte pp f) = page2pa pp"
  unfolding leaf_pte_def or.assoc by (rule PTE_ADDR_entry) (simp_all add: PTE_FLAGS_or)

lemma leaf_pte_valid [simp]: "pte_valid (leaf_pte pp f)"
  by (simp add: pte_valid_bit leaf_pte_def bit_simps PTE_V_def)

lemma leaf_pte_flags: "PTE_FLAGS (leaf_pte pp f) = PTE_FLAGS f OR PTE_V"
proof -
  have "PTE_FLAGS (push_bit FLAG_SHIFT (page2ppn pp)) = 0"
    by (rule bit_word_eqI) (auto simp: PTE_FLAGS_def GENMASK_0 bit_simps layout)
  then show ?thesis by (simp add: leaf_pte_def PTE_FLAGS_or)
qed

lemma non_leaf_pte_addr [simp]: "pp < max_pages \<Longrightarrow> PTE_ADDR (non_leaf_pte pp) = page2pa pp"
  unfolding non_leaf_pte_def by (rule PTE_ADDR_entry) simp_all

lemma non_leaf_pte_valid [simp]: "pte_valid (non_leaf_pte pp)"
  by (simp add: pte_valid_bit non_leaf_pte_def bit_simps PTE_V_def)

lemma non_leaf_pte_non_leaf [simp]: "PTE_IS_NON_LEAF (non_leaf_pte pp)"
proof -
  have "non_leaf_pte pp AND 14 = 0"
  proof (rule bit_word_eqI)
    fix n
    have "bit (14::u64) n \<longleftrightarrow> n = 1 \<or> n = 2 \<or> n = 3"
    proof (cases "n < 4")
      case True
      then have "n = 0 \<or> n = 1 \<or> n = 2 \<or> n = 3" by auto
      then show ?thesis by (auto simp: bit_iff_odd)
    next
      case False
      have "(14::u64) = take_bit 4 14" by (simp add: take_bit_eq_mask mask_eq_exp_minus_1)
      then have "\<not> bit (14::u64) n" using False by (metis bit_take_bit_iff)
      with False show ?thesis by auto
    qed
    then show "bit (non_leaf_pte pp AND 14) n = bit (0::u64) n"
      by (auto simp: non_leaf_pte_def bit_simps layout PTE_V_def)
  qed
  then show ?thesis unfolding PTE_IS_NON_LEAF_def GENMASK_3_1 .
qed

lemma pte_valid_0 [simp]: "\<not> pte_valid 0"
  by (simp add: pte_valid_def)

end
