(* ===== verification/Pool.thy ===== *)
theory Pool
  imports PageEntry
begin

text \<open>
  The invariant of the free-page pool and its preservation by \<^verbatim>\<open>page_alloc\<close>, \<^verbatim>\<open>page_free\<close>,
  \<^verbatim>\<open>page_decref\<close>, and its establishment by \<^verbatim>\<open>page_init\<close>.
\<close>

section \<open>The pool of free pages\<close>

text \<open>
  The free list is a well-formed list of distinct page indices, every free page is one of the
  \<^verbatim>\<open>npage\<close> pages and has no reference.
\<close>

definition pool :: "pstate \<Rightarrow> nat list \<Rightarrow> bool" where
  "pool p fs \<longleftrightarrow> LIST_rep (page_free_list p) fs \<and> npage p \<le> of_nat max_pages
     \<and> (\<forall>x \<in> set fs. x < unat (npage p) \<and> pp_ref p x = 0)"

lemma pool_bound: "pool p fs \<Longrightarrow> x < unat (npage p) \<Longrightarrow> x < max_pages"
  by (simp add: pool_def word_le_nat_alt max_pages_def)

lemma pool_free_less: "pool p fs \<Longrightarrow> x \<in> set fs \<Longrightarrow> x < max_pages"
  by (meson pool_bound pool_def)

lemma pool_distinct: "pool p fs \<Longrightarrow> distinct fs"
  by (auto simp: pool_def dest: LIST_rep_distinct)

definition zero_page :: "pstate \<Rightarrow> nat \<Rightarrow> pstate" where
  "zero_page p n = p\<lparr>mem := fill_bytes (mem p) (page2kva n) 0 4096\<rparr>"

lemma page_alloc_Nil: "pool p [] \<Longrightarrow> page_alloc p = Some (Inl (- E_NO_MEM), p)"
  by (auto simp: page_alloc_def pool_def dest: LIST_FIRST_rep)

lemma page_alloc_Cons:
  assumes "pool p (n # fs)"
  obtains fl where
    "page_alloc p = Some (Inr n, (zero_page p n)\<lparr>page_free_list := fl\<rparr>)"
    "pool ((zero_page p n)\<lparr>page_free_list := fl\<rparr>) fs"
proof -
  have rep: "LIST_rep (page_free_list p) (n # fs)" using assms by (simp add: pool_def)
  have f: "LIST_FIRST (page_free_list p) = Some n" using LIST_FIRST_rep [OF rep] by simp
  from lq.take_first [OF rep f] obtain fl
    where "LIST_REMOVE (page_free_list p) n = Some fl" "LIST_rep fl fs" by auto
  with f assms show ?thesis
    by (intro that [of fl])
      (auto simp: page_alloc_def zero_page_def pool_def memset_fill_bytes)
qed

lemma page_free_pool:
  assumes "pool p fs" "n \<notin> set fs" "n < unat (npage p)" "pp_ref p n = 0"
  obtains fl where "page_free p n = Some (p\<lparr>page_free_list := fl\<rparr>)"
    "pool (p\<lparr>page_free_list := fl\<rparr>) (n # fs)"
  using assms by (intro that [of "LIST_INSERT_HEAD (page_free_list p) n"])
    (auto simp: page_free_def pool_def LIST_INSERT_HEAD_rep)

lemma page_free_referenced: "pp_ref p n \<noteq> 0 \<Longrightarrow> page_free p n = None"
  by (simp add: page_free_def)

text \<open>Dropping a reference: the count goes down by one, and the page is freed at zero.\<close>

lemma page_decref_pool:
  assumes "pool p fs" "n < unat (npage p)" "pp_ref p n \<noteq> 0"
  obtains fl where
    "page_decref p n = Some (p\<lparr>pp_ref := (pp_ref p)(n := pp_ref p n - 1), page_free_list := fl\<rparr>)"
    "pool (p\<lparr>pp_ref := (pp_ref p)(n := pp_ref p n - 1), page_free_list := fl\<rparr>)
       (if pp_ref p n = 1 then n # fs else fs)"
proof -
  have n: "n \<notin> set fs" using assms by (auto simp: pool_def)
  have z: "pp_ref p n - 1 = 0 \<longleftrightarrow> pp_ref p n = 1" by auto
  have s: "pool (set_ref p n r) fs" for r using assms(1) n by (auto simp: pool_def set_ref_def)
  show ?thesis
  proof (cases "pp_ref p n = 1")
    case True
    then have z0: "pp_ref (set_ref p n 0) n = 0" by (simp add: set_ref_def)
    obtain fl where "page_free (set_ref p n 0) n = Some ((set_ref p n 0)\<lparr>page_free_list := fl\<rparr>)"
      "pool ((set_ref p n 0)\<lparr>page_free_list := fl\<rparr>) (n # fs)"
      by (rule page_free_pool [OF s n _ z0]) (use assms(2) in \<open>simp add: set_ref_def\<close>)
    then show ?thesis using True
      by (intro that [of fl]) (simp_all add: page_decref_def set_ref_def)
  next
    case False
    then show ?thesis using s [of "pp_ref p n - 1"] assms(3) z
      by (intro that [of "page_free_list p"]) (simp_all add: page_decref_def set_ref_def)
  qed
qed

text \<open>Boot: \<^verbatim>\<open>page_init\<close> puts exactly the unused pages on the free list, lowest first.\<close>

lemma page_init_used_eq:
  "page_init_used k p = p\<lparr>pp_ref := (\<lambda>x. if x < k then 1 else pp_ref p x)\<rparr>"
  by (induction k) (auto simp: set_ref_def fun_eq_iff less_Suc_eq)

lemma page_init_free_eq:
  assumes "LIST_rep (page_free_list p) fs" "\<forall>x \<in> set fs. k \<le> x"
  shows "\<exists>fl. page_init_free used k p = p\<lparr>page_free_list := fl,
           pp_ref := (\<lambda>x. if used \<le> x \<and> x < k then 0 else pp_ref p x)\<rparr>
         \<and> LIST_rep fl ([used..<k] @ fs)"
  using assms
proof (induction k arbitrary: p fs)
  case 0
  then show ?case by (intro exI [of _ "page_free_list p"]) simp
next
  case (Suc k)
  show ?case
  proof (cases "used \<le> k")
    case True
    let ?q = "(set_ref p k 0)\<lparr>page_free_list := LIST_INSERT_HEAD (page_free_list p) k\<rparr>"
    have "LIST_rep (page_free_list ?q) (k # fs)"
      using Suc.prems by (auto intro!: LIST_INSERT_HEAD_rep)
    moreover have "\<forall>x \<in> set (k # fs). k \<le> x" using Suc.prems(2) by auto
    ultimately obtain fl where fl: "page_init_free used k ?q = ?q\<lparr>page_free_list := fl,
        pp_ref := (\<lambda>x. if used \<le> x \<and> x < k then 0 else pp_ref ?q x)\<rparr>"
      "LIST_rep fl ([used..<k] @ k # fs)"
      using Suc.IH [of ?q "k # fs"] by blast
    have "(\<lambda>x. if used \<le> x \<and> x < k then 0 else pp_ref ?q x) =
        (\<lambda>x. if used \<le> x \<and> x < Suc k then 0 else pp_ref p x)"
      using True by (auto simp: set_ref_def fun_eq_iff less_Suc_eq)
    with fl True show ?thesis by (intro exI [of _ fl]) (simp add: set_ref_def)
  next
    case False
    then have "(\<lambda>x. if used \<le> x \<and> x < Suc k then 0 else pp_ref p x) = pp_ref p"
      by (auto simp: fun_eq_iff)
    with False Suc.prems show ?thesis
      by (intro exI [of _ "page_free_list p"]) simp
  qed
qed

lemma page_init_pool:
  assumes "npage p \<le> of_nat max_pages" "npage p \<noteq> 0"
    and "used = unat (DRAMADDR (ROUND (freemem p) PAGE_SIZE) div PAGE_SIZE)" "used \<noteq> 0"
  shows "\<exists>p'. page_init p = Some p' \<and> pool p' [used..<unat (npage p)]
    \<and> (\<forall>x < used. pp_ref p' x = 1) \<and> npage p' = npage p \<and> mem p' = mem p"
proof -
  let ?p = "p\<lparr>page_free_list := LIST_INIT (page_free_list p), freemem := ROUND (freemem p) PAGE_SIZE\<rparr>"
  let ?q = "page_init_used used ?p"
  have r: "LIST_rep (page_free_list ?q) []"
    by (simp add: page_init_used_eq LIST_INIT_rep)
  have e: "page_init p = Some (page_init_free used (unat (npage p)) ?q)"
    using assms by (simp add: page_init_def Let_def)
  from page_init_free_eq [OF r, of "unat (npage p)" used]
  obtain fl where fl: "page_init_free used (unat (npage p)) ?q = ?q\<lparr>page_free_list := fl,
      pp_ref := (\<lambda>x. if used \<le> x \<and> x < unat (npage p) then 0 else pp_ref ?q x)\<rparr>"
    "LIST_rep fl [used..<unat (npage p)]" by auto
  show ?thesis
    unfolding e fl(1) using assms(1) fl(2)
    by (auto simp: pool_def page_init_used_eq)
qed

end
