(* ===== verification/PageTable.thy ===== *)
theory PageTable
  imports Pool
begin

text \<open>
  The three-level page tables as trees in memory.  \<open>tab\<close> follows non-leaf entries from the
  root, \<open>wf_pt\<close> says that the tables form a tree of pages outside the free pool, and
  \<open>translate\<close> is the abstract address space: which leaf entry translates an address.
  The lemmas describe the two memory updates the kernel makes: linking a cleared page as a
  new table, and storing a leaf entry.
\<close>

section \<open>Page tables as trees\<close>

definition entry :: "memory \<Rightarrow> u64 \<Rightarrow> u64 \<Rightarrow> u64" where
  "entry m t i = load64 m (slot t i)"

lemma load_pte_entry: "load_pte p (t + 8 * i) = entry (mem p) t i"
  by (simp add: load_pte_def entry_def slot_def)

text \<open>The table an entry points to, if it points to one.\<close>

definition next_table :: "memory \<Rightarrow> u64 \<Rightarrow> u64 \<Rightarrow> u64 option" where
  "next_table m t i =
     (let e = entry m t i in
      if pte_valid e \<and> PTE_IS_NON_LEAF e then Some (P2KADDR (PTE_ADDR e)) else None)"

primrec tab :: "memory \<Rightarrow> u64 \<Rightarrow> u64 list \<Rightarrow> u64 option" where
  "tab m t [] = Some t"
| "tab m t (i # is) = Option.bind (next_table m t i) (\<lambda>u. tab m u is)"

definition leaf_val :: "u64 \<Rightarrow> u64 option" where
  "leaf_val e = (if pte_valid e then Some e else None)"

text \<open>The abstract content of an address space: the leaf entry that translates an address.\<close>

fun resolve :: "memory \<Rightarrow> u64 \<Rightarrow> u64 list \<Rightarrow> u64 option" where
  "resolve m t [] = None"
| "resolve m t [k] = leaf_val (entry m t k)"
| "resolve m t (i # is) =
     (case next_table m t i of None \<Rightarrow> leaf_val (entry m t i) | Some u \<Rightarrow> resolve m u is)"

definition indices :: "u64 \<Rightarrow> u64 list" where
  "indices va = [P1X va, P2X va, P3X va]"

definition translate :: "memory \<Rightarrow> u64 \<Rightarrow> u64 \<Rightarrow> u64 option" where
  "translate m g va = resolve m g (indices va)"

definition path :: "u64 list \<Rightarrow> bool" where
  "path xs \<longleftrightarrow> length xs \<le> 2 \<and> (\<forall>x \<in> set xs. x < 512)"

lemma path_simps [simp]:
  "path []" "path [P1X va]" "path [P1X va, P2X va]"
  by (simp_all add: path_def PX_less)

lemma path_snocD: "path (xs @ [i]) \<Longrightarrow> path xs \<and> i < 512 \<and> length xs \<le> 1"
  by (auto simp: path_def)

lemma tab_append: "tab m t (xs @ ys) = Option.bind (tab m t xs) (\<lambda>u. tab m u ys)"
  by (induction xs arbitrary: t) (simp_all add: Option.bind_assoc)

lemma tab_snoc: "tab m t (xs @ [i]) = Option.bind (tab m t xs) (\<lambda>u. next_table m u i)"
  by (simp add: tab_append)

definition tables :: "memory \<Rightarrow> u64 \<Rightarrow> u64 set" where
  "tables m g = {t. \<exists>xs. path xs \<and> tab m g xs = Some t}"

lemma root_table [simp]: "g \<in> tables m g"
  unfolding tables_def by (auto intro!: exI [of _ "[]"])

text \<open>
  Well-formedness: the tables form a tree (no table is reached twice), the tables below the
  root are pages below \<open>n\<close>, and none is in the set \<open>fs\<close> of free pages.
\<close>

definition wf_pt :: "memory \<Rightarrow> u64 \<Rightarrow> nat \<Rightarrow> nat set \<Rightarrow> bool" where
  "wf_pt m g n fs \<longleftrightarrow> page_aligned g \<and> g \<notin> page2kva ` fs
     \<and> (\<forall>xs t. path xs \<longrightarrow> xs \<noteq> [] \<longrightarrow> tab m g xs = Some t \<longrightarrow> t \<in> page2kva ` ({..<n} - fs))
     \<and> (\<forall>xs ys t. path xs \<longrightarrow> path ys \<longrightarrow> tab m g xs = Some t \<longrightarrow> tab m g ys = Some t \<longrightarrow> xs = ys)"

lemma wf_pt_inj:
  "wf_pt m g n fs \<Longrightarrow> path xs \<Longrightarrow> path ys \<Longrightarrow> tab m g xs = Some t \<Longrightarrow> tab m g ys = Some t \<Longrightarrow> xs = ys"
  unfolding wf_pt_def by blast

lemma wf_pt_root: "wf_pt m g n fs \<Longrightarrow> page_aligned g \<and> g \<notin> page2kva ` fs"
  by (simp add: wf_pt_def)

lemma wf_pt_page: "wf_pt m g n fs \<Longrightarrow> path xs \<Longrightarrow> xs \<noteq> [] \<Longrightarrow> tab m g xs = Some t
    \<Longrightarrow> t \<in> page2kva ` ({..<n} - fs)"
  unfolding wf_pt_def by blast

lemma wf_pt_aligned: "wf_pt m g n fs \<Longrightarrow> t \<in> tables m g \<Longrightarrow> page_aligned t"
  unfolding tables_def
  by (cases "t = g") (auto dest: wf_pt_root wf_pt_page)

lemma wf_pt_not_free:
  assumes "wf_pt m g n fs" "t \<in> tables m g" "fs \<subseteq> {..<n}" "n \<le> max_pages"
  shows "t \<notin> page2kva ` fs"
proof -
  from assms(2) obtain xs where xs: "path xs" "tab m g xs = Some t" by (auto simp: tables_def)
  show ?thesis
  proof (cases "xs = []")
    case True
    with xs wf_pt_root [OF assms(1)] show ?thesis by simp
  next
    case False
    from wf_pt_page [OF assms(1) xs(1) False xs(2)] obtain q where "q < n" "q \<notin> fs" "t = page2kva q"
      by blast
    with assms(3,4) show ?thesis by (auto simp: page2kva_inject subset_iff)
  qed
qed

subsection \<open>Changes outside the tables\<close>

definition same_tables :: "memory \<Rightarrow> memory \<Rightarrow> u64 \<Rightarrow> bool" where
  "same_tables m m' g \<longleftrightarrow> (\<forall>t \<in> tables m g. \<forall>i < 512. entry m' t i = entry m t i)"

lemma tab_same:
  assumes "same_tables m m' g" "path xs"
  shows "tab m' g xs = tab m g xs"
  using assms(2)
proof (induction xs rule: rev_induct)
  case (snoc i xs)
  have p: "path xs" "i < 512" using path_snocD [OF snoc.prems] by auto
  show ?case
  proof (cases "tab m g xs")
    case (Some u)
    then have "u \<in> tables m g" using p by (auto simp: tables_def)
    with assms(1) p have "entry m' u i = entry m u i" by (simp add: same_tables_def)
    with snoc.IH [OF p(1)] Some show ?thesis by (simp add: tab_snoc next_table_def)
  qed (use snoc.IH [OF p(1)] in \<open>simp add: tab_snoc\<close>)
qed simp

lemma tables_same: "same_tables m m' g \<Longrightarrow> tables m' g = tables m g"
  by (auto simp: tables_def tab_same)

lemma wf_pt_same: "same_tables m m' g \<Longrightarrow> wf_pt m' g n fs = wf_pt m g n fs"
  by (simp add: wf_pt_def tab_same cong: conj_cong imp_cong)

lemma resolve3:
  "resolve m g [i, j, k] =
     (case tab m g [i] of None \<Rightarrow> leaf_val (entry m g i)
      | Some t \<Rightarrow> (case tab m g [i, j] of None \<Rightarrow> leaf_val (entry m t j)
                   | Some u \<Rightarrow> leaf_val (entry m u k)))"
  by (simp split: option.split)

lemma tables_tab: "path xs \<Longrightarrow> tab m g xs = Some t \<Longrightarrow> t \<in> tables m g"
  by (auto simp: tables_def)

lemma translate_same:
  assumes "same_tables m m' g"
  shows "translate m' g va = translate m g va"
proof -
  have s: "entry m' t i = entry m t i" if "t \<in> tables m g" "i < 512" for t i
    using assms that by (simp add: same_tables_def)
  show ?thesis
    unfolding translate_def indices_def resolve3
    using tab_same [OF assms, of "[P1X va]"] tab_same [OF assms, of "[P1X va, P2X va]"]
      tables_tab [of "[P1X va]" m g] tables_tab [of "[P1X va, P2X va]" m g]
    by (auto simp: s PX_less split: option.splits)
qed

subsection \<open>Linking a new table\<close>

text \<open>Storing a non-leaf entry for a zeroed page into an invalid entry adds one empty table.\<close>

definition links :: "memory \<Rightarrow> memory \<Rightarrow> u64 \<Rightarrow> u64 list \<Rightarrow> u64 \<Rightarrow> u64 \<Rightarrow> nat \<Rightarrow> bool" where
  "links m m' g xs t i n \<longleftrightarrow>
     tab m g xs = Some t \<and> path (xs @ [i]) \<and> \<not> pte_valid (entry m t i)
     \<and> page2kva n \<notin> tables m g \<and> n < max_pages
     \<and> (\<forall>j < 512. entry m' (page2kva n) j = 0)
     \<and> (\<forall>u \<in> tables m g. \<forall>j < 512.
           entry m' u j = (if u = t \<and> j = i then non_leaf_pte n else entry m u j))"

lemma linksD:
  assumes "links m m' g xs t i n"
  shows "tab m g xs = Some t" "path (xs @ [i])" "path xs" "length xs \<le> 1" "i < 512"
    "\<not> pte_valid (entry m t i)" "page2kva n \<notin> tables m g"
    "tab m g (xs @ [i]) = None" "leaf_val (entry m t i) = None"
    "j < 512 \<Longrightarrow> entry m' (page2kva n) j = 0"
    "u \<in> tables m g \<Longrightarrow> j < 512 \<Longrightarrow>
       entry m' u j = (if u = t \<and> j = i then non_leaf_pte n else entry m u j)"
    "u \<in> tables m g \<Longrightarrow> j < 512 \<Longrightarrow>
       next_table m' u j = (if u = t \<and> j = i then Some (page2kva n) else next_table m u j)"
    "j < 512 \<Longrightarrow> next_table m' (page2kva n) j = None"
  using assms path_snocD [of xs i]
  by (auto simp: links_def next_table_def tab_snoc leaf_val_def page2kva_def)

lemma tab_links:
  assumes wf: "wf_pt m g N fs" and l: "links m m' g xs t i n" and "path ys"
  shows "tab m' g ys = (if ys = xs @ [i] then Some (page2kva n) else tab m g ys)"
  using assms(3)
proof (induction ys rule: rev_induct)
  case (snoc j zs)
  note at = linksD(1) [OF l] and px = linksD(3) [OF l] and none = linksD(8) [OF l]
  have p: "path zs" "j < 512" using path_snocD [OF snoc.prems] by auto
  show ?case
  proof (cases "zs = xs @ [i]")
    case True
    with snoc.IH [OF p(1)] p none linksD(13) [OF l] show ?thesis
      by (simp only: tab_snoc [of _ _ "xs @ [i]"]) simp
  next
    case False
    with snoc.IH [OF p(1)] have e: "tab m' g zs = tab m g zs" by simp
    show ?thesis
    proof (cases "tab m g zs")
      case None
      then show ?thesis using e at by (auto simp: tab_snoc)
    next
      case (Some u)
      have "u = t \<longleftrightarrow> zs = xs" using wf_pt_inj [OF wf p(1) px Some] at Some by auto
      with Some e linksD(12) [OF l tables_tab [OF p(1) Some] p(2)] show ?thesis
        by (auto simp: tab_snoc)
    qed
  qed
qed simp

lemma tables_links:
  assumes wf: "wf_pt m g N fs" and l: "links m m' g xs t i n"
  shows "tables m' g = insert (page2kva n) (tables m g)"
proof -
  note tl = tab_links [OF wf l]
  have "tab m' g ys = tab m g ys" if "path ys" "tab m g ys = Some u" for ys u
    using that linksD(8) [OF l] by (auto simp: tl)
  then have "tables m g \<subseteq> tables m' g" by (fastforce simp: tables_def)
  moreover have "page2kva n \<in> tables m' g"
    using tl [OF linksD(2) [OF l]] linksD(2) [OF l] by (auto simp: tables_def)
  moreover have "tables m' g \<subseteq> insert (page2kva n) (tables m g)"
    by (auto simp: tables_def tl split: if_splits)
  ultimately show ?thesis by blast
qed

lemma wf_pt_links:
  assumes wf: "wf_pt m g N fs" and l: "links m m' g xs t i n" and "n < N" "n \<notin> fs"
  shows "wf_pt m' g N fs"
  unfolding wf_pt_def
proof (intro conjI allI impI)
  show "page_aligned g" "g \<notin> page2kva ` fs" using wf_pt_root [OF wf] by auto
next
  fix ys u assume y: "path ys" "ys \<noteq> []" "tab m' g ys = Some u"
  then show "u \<in> page2kva ` ({..<N} - fs)"
    using wf_pt_page [OF wf y(1,2)] assms(3,4) by (auto simp: tab_links [OF wf l] split: if_splits)
next
  fix ys zs u assume y: "path ys" "path zs" "tab m' g ys = Some u" "tab m' g zs = Some u"
  then show "ys = zs"
    using wf_pt_inj [OF wf y(1,2)] linksD(7) [OF l] tables_tab [of _ m g]
    by (auto simp: tab_links [OF wf l] split: if_splits)
qed

lemma translate_links:
  assumes wf: "wf_pt m g N fs" and l: "links m m' g xs t i n"
  shows "translate m' g va = translate m g va"
proof -
  let ?a = "P1X va" and ?b = "P2X va" and ?c = "P3X va"
  note at = linksD(1) [OF l] and none = linksD(8,9) [OF l]
  have e: "entry m' u j = entry m u j"
    if "path ys" "tab m g ys = Some u" "j < 512" "ys \<noteq> xs \<or> j \<noteq> i" for ys u j
    using linksD(11) [OF l tables_tab [OF that(1,2)] that(3)]
      wf_pt_inj [OF wf that(1) linksD(3) [OF l] that(2)] at that(4) by auto
  have z: "leaf_val (entry m' (page2kva n) j) = None" if "j < 512" for j
    using linksD(10) [OF l that] by (simp add: leaf_val_def)
  have t1: "tab m' g [?a] = (if [?a] = xs @ [i] then Some (page2kva n) else tab m g [?a])"
    and t2: "tab m' g [?a, ?b] = (if [?a, ?b] = xs @ [i] then Some (page2kva n) else tab m g [?a, ?b])"
    by (rule tab_links [OF wf l], simp)+
  consider "xs = []" "?a = i" | "xs = [?a]" "?b = i" | "[?a] \<noteq> xs @ [i]" "[?a, ?b] \<noteq> xs @ [i]"
    by (cases xs) auto
  then show ?thesis
  proof cases
    case 1
    then have "tab m g [?a, ?b] = None" using none by simp
    with 1 none at t1 t2 show ?thesis
      unfolding translate_def indices_def resolve3 by (simp add: z PX_less)
  next
    case 2
    with none at t1 t2 show ?thesis
      unfolding translate_def indices_def resolve3 by (simp add: z PX_less)
  next
    case 3
    have "[?a, ?b] \<noteq> xs" using linksD(4) [OF l] by auto
    then have "entry m' u ?c = entry m u ?c" if "tab m g [?a, ?b] = Some u" for u
      using e [of "[?a, ?b]" u ?c] that by (simp add: PX_less)
    moreover have "entry m' g ?a = entry m g ?a" using e [of "[]" g ?a] 3 by (auto simp: PX_less)
    moreover have "entry m' u ?b = entry m u ?b" if "tab m g [?a] = Some u" for u
      using e [of "[?a]" u ?b] 3 that by (auto simp: PX_less)
    ultimately show ?thesis
      unfolding translate_def indices_def resolve3 using 3 t1 t2
      by (auto simp del: tab.simps split: option.splits)
  qed
qed

subsection \<open>Storing a leaf entry\<close>

lemma leaf_store:
  assumes wf: "wf_pt m g N fs" and at: "tab m g [P1X va, P2X va] = Some t"
    and m': "m' = store64 m (slot t (P3X va)) e"
  shows "path xs \<Longrightarrow> tab m' g xs = tab m g xs" "wf_pt m' g N fs" "tables m' g = tables m g"
    and "translate m' g va' = (if VPN va' = VPN va then leaf_val e else translate m g va')"
proof -
  have t: "page_aligned t" using wf_pt_aligned [OF wf] at tables_tab [of "[P1X va, P2X va]"] by simp
  have e: "entry m' u j = (if u = t \<and> j = P3X va then e else entry m u j)"
    if "u \<in> tables m g" "j < 512" for u j
    using wf_pt_aligned [OF wf that(1)] that(2) t
    by (auto simp: entry_def m' load_slot_store PX_less)
  have inj: "ys = [P1X va, P2X va]" if "path ys" "tab m g ys = Some t" for ys
    using wf_pt_inj [OF wf that(1) _ that(2) at] by simp
  have ts: "tab m' g xs = tab m g xs" if "path xs" for xs
    using that
  proof (induction xs rule: rev_induct)
    case (snoc i xs)
    have p: "path xs" "i < 512" "length xs \<le> 1" using path_snocD [OF snoc.prems] by auto
    show ?case
    proof (cases "tab m g xs")
      case (Some u)
      then have "u \<noteq> t" using inj [OF p(1)] p(3) by auto
      with snoc.IH [OF p(1)] Some e [OF tables_tab [OF p(1) Some] p(2)] show ?thesis
        by (simp add: tab_snoc next_table_def)
    qed (use snoc.IH [OF p(1)] in \<open>simp add: tab_snoc\<close>)
  qed simp
  show "path xs \<Longrightarrow> tab m' g xs = tab m g xs" by (rule ts)
  show "wf_pt m' g N fs" using wf by (simp add: wf_pt_def ts cong: conj_cong imp_cong)
  show "tables m' g = tables m g" by (auto simp: tables_def ts)
  let ?a = "P1X va'" and ?b = "P2X va'" and ?c = "P3X va'"
  have ent: "entry m' u j = entry m u j" if "path ys" "tab m g ys = Some u" "j < 512"
      "ys \<noteq> [P1X va, P2X va] \<or> j \<noteq> P3X va" for ys u j
    using e [OF tables_tab [OF that(1,2)] that(3)] inj [OF that(1)] that(2,4) by auto
  show "translate m' g va' = (if VPN va' = VPN va then leaf_val e else translate m g va')"
  proof (cases "VPN va' = VPN va")
    case True
    with at ts [of "[?a]"] ts [of "[?a, ?b]"] e [OF tables_tab [OF _ at]] show ?thesis
      unfolding translate_def indices_def resolve3
      by (auto simp: VPN_eq_iff PX_less split: option.splits)
  next
    case False
    have "entry m' u ?c = entry m u ?c" if "tab m g [?a, ?b] = Some u" for u
      using ent [of "[?a, ?b]" u ?c] False that by (auto simp: PX_less VPN_eq_iff)
    moreover have "entry m' g ?a = entry m g ?a" using ent [of "[]" g ?a] by (auto simp: PX_less)
    moreover have "entry m' u ?b = entry m u ?b" if "tab m g [?a] = Some u" for u
      using ent [of "[?a]" u ?b] that by (auto simp: PX_less)
    ultimately show ?thesis
      unfolding translate_def indices_def resolve3
      using False ts [of "[?a]"] ts [of "[?a, ?b]"]
      by (auto simp del: tab.simps split: option.splits)
  qed
qed

end
