(* ===== verification/Walk.thy ===== *)
theory Walk
  imports PageTable
begin

text \<open>
  \<^verbatim>\<open>pgdir_walk\<close> on well-formed tables: what each branch returns, the tables it adds, what it
  leaves alone, and its behaviour when the pool is exhausted.
\<close>

section \<open>Walking the tables\<close>

text \<open>No huge page on the way to \<open>va\<close>.\<close>

definition no_huge :: "memory \<Rightarrow> u64 \<Rightarrow> u64 \<Rightarrow> bool" where
  "no_huge m g va \<longleftrightarrow>
     (tab m g [P1X va] = None \<longrightarrow> \<not> pte_valid (entry m g (P1X va)))
     \<and> (\<forall>t. tab m g [P1X va] = Some t \<longrightarrow> tab m g [P1X va, P2X va] = None
          \<longrightarrow> \<not> pte_valid (entry m t (P2X va)))"

text \<open>
  What a walk may do to memory: take pages from the pool \<open>F\<close> for tables, without changing any
  translation, and leave everything outside the tables and the pool alone.
\<close>

definition mem_grows :: "nat \<Rightarrow> u64 \<Rightarrow> memory \<Rightarrow> nat set \<Rightarrow> memory \<Rightarrow> nat set \<Rightarrow> bool" where
  "mem_grows N g m F m' F' \<longleftrightarrow>
     F' \<subseteq> F \<and> wf_pt m' g N F' \<and> (\<forall>va. translate m' g va = translate m g va)
     \<and> (\<forall>t i. page_aligned t \<longrightarrow> t \<notin> tables m g \<longrightarrow> t \<notin> page2kva ` F \<longrightarrow> i < 512 \<longrightarrow>
           entry m' t i = entry m t i)
     \<and> tables m g \<subseteq> tables m' g \<and> tables m' g \<subseteq> tables m g \<union> page2kva ` F"

lemma mem_grows_refl: "wf_pt m g N F \<Longrightarrow> mem_grows N g m F m F"
  by (auto simp: mem_grows_def)

lemma wf_pt_mono: "wf_pt m g N F \<Longrightarrow> F' \<subseteq> F \<Longrightarrow> wf_pt m g N F'"
  unfolding wf_pt_def by (blast intro: rev_image_eqI)

lemma entry_zeroed:
  "page_aligned t \<Longrightarrow> i < 512 \<Longrightarrow>
     entry (fill_bytes m (page2kva n) 0 4096) t i = (if t = page2kva n then 0 else entry m t i)"
  by (auto simp: entry_def load_slot_zeroed)

lemma same_tables_zero:
  assumes "wf_pt m g N F" "F \<subseteq> {..<N}" "N \<le> max_pages" "n \<in> F"
  shows "same_tables m (fill_bytes m (page2kva n) 0 4096) g"
  unfolding same_tables_def
  using wf_pt_aligned [OF assms(1)] wf_pt_not_free [OF assms(1) _ assms(2,3)] assms(4)
  by (auto simp: entry_zeroed)

lemma mem_grows_zero:
  assumes g: "mem_grows N g m F m1 F1" and "F \<subseteq> {..<N}" "N \<le> max_pages" "n \<in> F1"
  shows "mem_grows N g m F (fill_bytes m1 (page2kva n) 0 4096) (F1 - {n})"
    and "page2kva n \<notin> tables (fill_bytes m1 (page2kva n) 0 4096) g"
proof -
  let ?m = "fill_bytes m1 (page2kva n) 0 4096"
  have w: "wf_pt m1 g N F1" "F1 \<subseteq> F" using g by (auto simp: mem_grows_def)
  then have F1: "F1 \<subseteq> {..<N}" using assms(2) by blast
  note s = same_tables_zero [OF w(1) F1 assms(3,4)]
  have "wf_pt ?m g N (F1 - {n})"
    using w(1) wf_pt_same [OF s] by (auto intro: wf_pt_mono)
  moreover have "entry ?m t i = entry m t i"
    if "page_aligned t" "t \<notin> tables m g" "t \<notin> page2kva ` F" "i < 512" for t i
  proof -
    have "t \<noteq> page2kva n" using that(3) w(2) assms(4) by blast
    with that g show ?thesis by (simp add: entry_zeroed mem_grows_def)
  qed
  ultimately show "mem_grows N g m F ?m (F1 - {n})"
    using g w(2) by (auto simp: mem_grows_def tables_same [OF s] translate_same [OF s])
  show "page2kva n \<notin> tables ?m g"
    using wf_pt_not_free [OF w(1) _ F1 assms(3), of "page2kva n"] assms(4)
    by (auto simp: tables_same [OF s])
qed

lemma mem_grows_link:
  assumes g: "mem_grows N g m F m1 F1" and l: "links m1 m2 g xs t i n"
    and n: "n \<in> F" "n \<notin> F1" "n < N"
    and fr: "\<And>u j. page_aligned u \<Longrightarrow> j < 512 \<Longrightarrow> u \<noteq> t \<Longrightarrow> entry m2 u j = entry m1 u j"
  shows "mem_grows N g m F m2 F1"
proof -
  have w: "wf_pt m1 g N F1" using g by (simp add: mem_grows_def)
  have t: "t \<in> tables m1 g" using linksD(1,3) [OF l] by (auto intro: tables_tab)
  have "entry m2 u j = entry m u j"
    if "page_aligned u" "u \<notin> tables m g" "u \<notin> page2kva ` F" "j < 512" for u j
  proof -
    have "u \<noteq> t" using that t g by (auto simp: mem_grows_def)
    with that fr g show ?thesis by (simp add: mem_grows_def)
  qed
  with g n show ?thesis
    using wf_pt_links [OF w l n(3,2)]
    by (auto simp: mem_grows_def tables_links [OF w l] translate_links [OF w l])
qed

text \<open>The stores that link a new table.\<close>

lemma store_links:
  assumes w: "wf_pt m g N F" and at: "tab m g xs = Some t" and p: "path (xs @ [i])"
    and inv: "\<not> pte_valid (entry m t i)"
    and n: "page2kva n \<notin> tables m g" "n < max_pages" "\<And>j. j < 512 \<Longrightarrow> entry m (page2kva n) j = 0"
  shows "links m (store64 m (slot t i) (non_leaf_pte n)) g xs t i n"
    and "page_aligned u \<Longrightarrow> j < 512 \<Longrightarrow> u \<noteq> t \<Longrightarrow>
      entry (store64 m (slot t i) (non_leaf_pte n)) u j = entry m u j"
proof -
  have i: "i < 512" and px: "path xs" using path_snocD [OF p] by auto
  have t: "t \<in> tables m g" by (rule tables_tab [OF px at])
  have al: "page_aligned u" if "u \<in> tables m g" for u by (rule wf_pt_aligned [OF w that])
  have ne: "page2kva n \<noteq> t" using n(1) t by auto
  show "links m (store64 m (slot t i) (non_leaf_pte n)) g xs t i n"
    using at p inv n al t i ne by (auto simp: links_def entry_def load_slot_store)
  show "page_aligned u \<Longrightarrow> j < 512 \<Longrightarrow> u \<noteq> t \<Longrightarrow>
      entry (store64 m (slot t i) (non_leaf_pte n)) u j = entry m u j"
    using al [OF t] i by (auto simp: entry_def load_slot_store)
qed

subsection \<open>The walk, case by case\<close>

lemma next_table_Some:
  "next_table m t i = Some u \<longleftrightarrow>
     pte_valid (entry m t i) \<and> PTE_IS_NON_LEAF (entry m t i) \<and> u = P2KADDR (PTE_ADDR (entry m t i))"
  by (auto simp: next_table_def Let_def)

lemma pte_invalid_iff: "e AND PTE_V = 0 \<longleftrightarrow> \<not> pte_valid e"
  by (simp add: pte_valid_def)

lemma pgdir_walk_found:
  assumes "tab (mem p) g [P1X va, P2X va] = Some t"
  shows "pgdir_walk p g va create = Some ((0, Some (slot t (P3X va))), p)"
  using assms
  by (auto simp: pgdir_walk_def load_pte_entry next_table_Some pte_invalid_iff slot_def)

lemma pgdir_walk_absent:
  assumes "tab (mem p) g [P1X va] = None" "no_huge (mem p) g va"
  shows "pgdir_walk p g va 0 = Some ((0, None), p)"
  using assms
  by (auto simp: pgdir_walk_def load_pte_entry pte_invalid_iff no_huge_def)

text \<open>What a caller may rely on after a walk.\<close>

definition walked ::
  "u64 \<Rightarrow> pstate \<Rightarrow> nat list \<Rightarrow> pstate \<Rightarrow> nat list \<Rightarrow> bool" where
  "walked g p fs p' fs' \<longleftrightarrow>
     pool p' fs' \<and> mem_grows (unat (npage p)) g (mem p) (set fs) (mem p') (set fs')
     \<and> npage p' = npage p \<and> (\<forall>q. q \<notin> set fs \<longrightarrow> pp_ref p' q = pp_ref p q)"

definition walk_pre :: "u64 \<Rightarrow> pstate \<Rightarrow> nat list \<Rightarrow> bool" where
  "walk_pre g p fs \<longleftrightarrow> pool p fs \<and> wf_pt (mem p) g (unat (npage p)) (set fs)"

lemma walk_preD:
  assumes "walk_pre g p fs"
  shows "pool p fs" "wf_pt (mem p) g (unat (npage p)) (set fs)"
    "set fs \<subseteq> {..<unat (npage p)}" "unat (npage p) \<le> max_pages" "distinct fs"
  using assms pool_distinct [of p fs]
  by (auto simp: walk_pre_def pool_def word_le_nat_alt max_pages_def)

lemma walked_refl: "walk_pre g p fs \<Longrightarrow> walked g p fs p fs"
  by (simp add: walked_def walk_pre_def mem_grows_refl)

lemma walked_pre: "walked g p fs p' fs' \<Longrightarrow> walk_pre g p' fs'"
  by (simp add: walked_def walk_pre_def mem_grows_def)

lemma pgdir_walk_level2:
  assumes pre: "walk_pre g p (n # fs)"
    and t: "tab (mem p) g [P1X va] = Some t" "tab (mem p) g [P1X va, P2X va] = None"
    and nh: "no_huge (mem p) g va"
  shows "\<exists>p'. pgdir_walk p g va create = Some ((0, Some (slot (page2kva n) (P3X va))), p')
    \<and> walked g p (n # fs) p' fs \<and> tab (mem p') g [P1X va, P2X va] = Some (page2kva n)"
proof -
  note d = walk_preD [OF pre]
  let ?m1 = "fill_bytes (mem p) (page2kva n) 0 4096"
  let ?m2 = "store64 ?m1 (slot t (P2X va)) (non_leaf_pte n)"
  have n: "n \<notin> set fs" "n < unat (npage p)" "n < max_pages" using d(3,4,5) by auto
  note z = mem_grows_zero [OF mem_grows_refl [OF d(2)] d(3,4), of n]
  have g1: "mem_grows (unat (npage p)) g (mem p) (set (n # fs)) ?m1 (set fs)" using z(1) n(1) by simp
  have same: "same_tables (mem p) ?m1 g" by (rule same_tables_zero [OF d(2,3,4)]) simp
  have tt: "tab ?m1 g [P1X va] = Some t" using tab_same [OF same, of "[P1X va]"] t by simp
  have inv: "\<not> pte_valid (entry (mem p) t (P2X va))" using nh t by (auto simp: no_huge_def)
  have "t \<in> tables (mem p) g" by (rule tables_tab [of "[P1X va]"]) (simp, fact)
  then have inv1: "\<not> pte_valid (entry ?m1 t (P2X va))"
    using inv same by (simp add: same_tables_def PX_less)
  have w1: "wf_pt ?m1 g (unat (npage p)) (set fs)" using g1 by (simp add: mem_grows_def)
  have fresh: "page2kva n \<notin> tables ?m1 g" using z(2) by simp
  note sl = store_links [OF w1 tt _ inv1 fresh n(3)]
  have l: "links ?m1 ?m2 g [P1X va] t (P2X va) n"
    by (rule sl(1)) (simp_all add: entry_zeroed)
  have g2: "mem_grows (unat (npage p)) g (mem p) (set (n # fs)) ?m2 (set fs)"
    by (rule mem_grows_link [OF g1 l _ _ _ sl(2)]) (use n in \<open>simp_all add: entry_zeroed\<close>)
  obtain fl where fl: "page_alloc p = Some (Inr n, (zero_page p n)\<lparr>page_free_list := fl\<rparr>)"
    "pool ((zero_page p n)\<lparr>page_free_list := fl\<rparr>) fs"
    by (rule page_alloc_Cons [OF d(1)])
  have rn: "pp_ref p n = 0" using d(1) by (simp add: pool_def)
  let ?p' = "p\<lparr>page_free_list := fl, mem := ?m2, pp_ref := (pp_ref p)(n := 1)\<rparr>"
  have "pgdir_walk p g va create = Some ((0, Some (slot (page2kva n) (P3X va))), ?p')"
    using t(1) inv fl(1) rn
    by (auto simp: pgdir_walk_def load_pte_entry next_table_Some pte_invalid_iff zero_page_def
        store_pte_def set_ref_def slot_def page2kva_def)
  moreover have "pool ?p' fs" using fl(2) n(1) by (auto simp: pool_def zero_page_def)
  moreover have "tab ?m2 g [P1X va, P2X va] = Some (page2kva n)"
    using tab_links [OF w1 l, of "[P1X va, P2X va]"] by simp
  ultimately show ?thesis using g2 by (auto simp: walked_def)
qed

lemma no_huge_invalid1: "no_huge m g va \<Longrightarrow> tab m g [P1X va] = None \<Longrightarrow> \<not> pte_valid (entry m g (P1X va))"
  by (simp add: no_huge_def)

lemma pgdir_walk_level1:
  assumes pre: "walk_pre g p (a # b # fs)" and c: "create \<noteq> 0"
    and t: "tab (mem p) g [P1X va] = None" and nh: "no_huge (mem p) g va"
  shows "\<exists>p'. pgdir_walk p g va create = Some ((0, Some (slot (page2kva b) (P3X va))), p')
    \<and> walked g p (a # b # fs) p' fs \<and> tab (mem p') g [P1X va, P2X va] = Some (page2kva b)"
proof -
  note d = walk_preD [OF pre]
  let ?N = "unat (npage p)" and ?F = "set (a # b # fs)"
  let ?m1 = "fill_bytes (mem p) (page2kva a) 0 4096"
  let ?m2 = "fill_bytes ?m1 (page2kva b) 0 4096"
  let ?m3 = "store64 ?m2 (slot g (P1X va)) (non_leaf_pte a)"
  let ?m4 = "store64 ?m3 (slot (page2kva a) (P2X va)) (non_leaf_pte b)"
  have ab: "a \<notin> set (b # fs)" "b \<notin> set fs" "a < ?N" "b < ?N" "a < max_pages" "b < max_pages"
    using d(3,4,5) by auto
  then have k: "page2kva a \<noteq> page2kva b" by (auto simp: page2kva_inject)
  note z1 = mem_grows_zero [OF mem_grows_refl [OF d(2)] d(3,4), of a]
  have g1: "mem_grows ?N g (mem p) ?F ?m1 (set (b # fs))" using z1(1) ab(1) by simp
  note z2 = mem_grows_zero [OF g1 d(3,4), of b]
  have g2: "mem_grows ?N g (mem p) ?F ?m2 (set fs)" using z2(1) ab(2) by simp
  have w1: "wf_pt ?m1 g ?N (set (b # fs))" and w2: "wf_pt ?m2 g ?N (set fs)"
    using g1 g2 by (simp_all add: mem_grows_def)
  have s1: "same_tables (mem p) ?m1 g" by (rule same_tables_zero [OF d(2,3,4)]) simp
  have s2: "same_tables ?m1 ?m2 g"
    by (rule same_tables_zero [OF w1 _ d(4)]) (use ab d(3) in auto)
  have inv: "\<not> pte_valid (entry ?m2 g (P1X va))"
    using no_huge_invalid1 [OF nh t] s1 s2 tables_same [OF s1]
    by (simp add: same_tables_def PX_less)
  have fresh: "page2kva a \<notin> tables ?m2 g" "page2kva b \<notin> tables ?m2 g"
    using z1(2) z2(2) tables_same [OF s2] by simp_all
  note sl1 = store_links [OF w2 _ _ inv fresh(1) ab(5), of "[]"]
  have l1: "links ?m2 ?m3 g [] g (P1X va) a"
    by (rule sl1(1)) (use k in \<open>simp_all add: entry_zeroed\<close>)
  have fr1: "page_aligned u \<Longrightarrow> j < 512 \<Longrightarrow> u \<noteq> g \<Longrightarrow> entry ?m3 u j = entry ?m2 u j" for u j
    by (rule sl1(2)) (use k in \<open>simp_all add: entry_zeroed\<close>)
  have g3: "mem_grows ?N g (mem p) ?F ?m3 (set fs)"
    by (rule mem_grows_link [OF g2 l1 _ _ _ fr1]) (use ab in simp_all)
  then have w3: "wf_pt ?m3 g ?N (set fs)" by (simp add: mem_grows_def)
  have t3: "tab ?m3 g [P1X va] = Some (page2kva a)"
    using tab_links [OF w2 l1, of "[P1X va]"] by simp
  have fresh3: "page2kva b \<notin> tables ?m3 g" using tables_links [OF w2 l1] fresh(2) k by simp
  have ga: "page2kva a \<noteq> g" "page2kva b \<noteq> g" using fresh by auto
  have e3: "entry ?m3 (page2kva a) j = 0" "entry ?m3 (page2kva b) j = 0" if "j < 512" for j
    using that fr1 k ga by (simp_all add: entry_zeroed)
  note sl2 = store_links [OF w3 t3 _ _ fresh3 ab(6)]
  have l2: "links ?m3 ?m4 g [P1X va] (page2kva a) (P2X va) b"
    by (rule sl2(1)) (simp_all add: e3 PX_less)
  have g4: "mem_grows ?N g (mem p) ?F ?m4 (set fs)"
    by (rule mem_grows_link [OF g3 l2 _ _ _ sl2(2)]) (use ab in \<open>simp_all add: e3 PX_less\<close>)
  obtain f1 where f1: "page_alloc p = Some (Inr a, (zero_page p a)\<lparr>page_free_list := f1\<rparr>)"
    "pool ((zero_page p a)\<lparr>page_free_list := f1\<rparr>) (b # fs)"
    by (rule page_alloc_Cons [OF d(1)])
  obtain f2 where f2: "page_alloc ((zero_page p a)\<lparr>page_free_list := f1\<rparr>) =
      Some (Inr b, (zero_page ((zero_page p a)\<lparr>page_free_list := f1\<rparr>) b)\<lparr>page_free_list := f2\<rparr>)"
    "pool ((zero_page ((zero_page p a)\<lparr>page_free_list := f1\<rparr>) b)\<lparr>page_free_list := f2\<rparr>) fs"
    by (rule page_alloc_Cons [OF f1(2)])
  have r0: "pp_ref p a = 0" "pp_ref p b = 0" using d(1) by (auto simp: pool_def)
  let ?p' = "p\<lparr>page_free_list := f2, mem := ?m4, pp_ref := (pp_ref p)(a := 1, b := 1)\<rparr>"
  have "pgdir_walk p g va create = Some ((0, Some (slot (page2kva b) (P3X va))), ?p')"
    using no_huge_invalid1 [OF nh t] c f1(1) f2(1) r0 ab(1)
    by (auto simp: pgdir_walk_def load_pte_entry pte_invalid_iff zero_page_def
        store_pte_def set_ref_def slot_def page2kva_def)
  moreover have "pool ?p' fs" using f2(2) ab(1,2) by (auto simp: pool_def zero_page_def)
  moreover have "tab ?m4 g [P1X va, P2X va] = Some (page2kva b)"
    using tab_links [OF w3 l2, of "[P1X va, P2X va]"] by simp
  ultimately show ?thesis using g4 by (auto simp: walked_def)
qed

text \<open>Running out of pages: nothing is linked, the pages taken are given back.\<close>

lemma pgdir_walk_no_mem:
  assumes pre: "walk_pre g p fs" and nh: "no_huge (mem p) g va"
    and none: "tab (mem p) g [P1X va, P2X va] = None"
    and short: "fs = [] \<and> (create \<noteq> 0 \<or> tab (mem p) g [P1X va] \<noteq> None)
      \<or> length fs = 1 \<and> create \<noteq> 0 \<and> tab (mem p) g [P1X va] = None"
  shows "\<exists>p'. pgdir_walk p g va create = Some ((- E_NO_MEM, None), p') \<and> walked g p fs p' fs"
proof -
  note d = walk_preD [OF pre]
  consider "fs = []" | a where "fs = [a]" "create \<noteq> 0" "tab (mem p) g [P1X va] = None"
    using short by (cases fs) auto
  then show ?thesis
  proof cases
    case 1
    then have "page_alloc p = Some (Inl (- E_NO_MEM), p)" using d(1) page_alloc_Nil by simp
    moreover have "tab (mem p) g [P1X va] = Some t \<Longrightarrow> \<not> pte_valid (entry (mem p) t (P2X va))" for t
      using nh none by (simp add: no_huge_def)
    ultimately have "pgdir_walk p g va create = Some ((- E_NO_MEM, None), p)"
      using short none no_huge_invalid1 [OF nh] 1
      by (cases "tab (mem p) g [P1X va]")
        (auto simp: pgdir_walk_def load_pte_entry pte_invalid_iff next_table_Some)
    with walked_refl [OF pre] show ?thesis by blast
  next
    case 2
    obtain f1 where f1: "page_alloc p = Some (Inr a, (zero_page p a)\<lparr>page_free_list := f1\<rparr>)"
      "pool ((zero_page p a)\<lparr>page_free_list := f1\<rparr>) []"
      using page_alloc_Cons [of p a "[]"] d(1) 2(1) by auto
    have f2: "page_alloc ((zero_page p a)\<lparr>page_free_list := f1\<rparr>) =
        Some (Inl (- E_NO_MEM), (zero_page p a)\<lparr>page_free_list := f1\<rparr>)"
      using f1(2) page_alloc_Nil by simp
    have a: "a < unat (npage p)" "pp_ref p a = 0" using d(1) 2(1) by (auto simp: pool_def)
    obtain f3 where f3: "page_free ((zero_page p a)\<lparr>page_free_list := f1\<rparr>) a =
        Some ((zero_page p a)\<lparr>page_free_list := f3\<rparr>)"
      "pool ((zero_page p a)\<lparr>page_free_list := f3\<rparr>) [a]"
      by (rule page_free_pool [OF f1(2), of a]) (use a in \<open>auto simp: zero_page_def\<close>)
    have "pgdir_walk p g va create = Some ((- E_NO_MEM, None), (zero_page p a)\<lparr>page_free_list := f3\<rparr>)"
      using no_huge_invalid1 [OF nh 2(3)] 2(2) f1(1) f2 f3(1)
      by (simp add: pgdir_walk_def load_pte_entry pte_invalid_iff)
    moreover have "mem_grows (unat (npage p)) g (mem p) (set fs) (fill_bytes (mem p) (page2kva a) 0 4096) (set fs)"
    proof -
      have s: "same_tables (mem p) (fill_bytes (mem p) (page2kva a) 0 4096) g"
        by (rule same_tables_zero [OF d(2,3,4)]) (simp add: 2(1))
      show ?thesis
        using d(2) wf_pt_same [OF s] 2(1)
        by (auto simp: mem_grows_def tables_same [OF s] translate_same [OF s] entry_zeroed)
    qed
    ultimately show ?thesis using f3(2) 2(1) by (auto simp: walked_def zero_page_def)
  qed
qed

text \<open>The walk as its callers see it.\<close>

lemma pgdir_walk_cases:
  assumes pre: "walk_pre g p fs" and nh: "no_huge (mem p) g va"
  obtains (absent) "create = 0" "tab (mem p) g [P1X va] = None"
      "pgdir_walk p g va create = Some ((0, None), p)"
  | (no_mem) p' where "pgdir_walk p g va create = Some ((- E_NO_MEM, None), p')" "walked g p fs p' fs"
      "length fs \<le> 1" "tab (mem p) g [P1X va, P2X va] = None"
  | (found) p' fs' t where "pgdir_walk p g va create = Some ((0, Some (slot t (P3X va))), p')"
      "walked g p fs p' fs'" "tab (mem p') g [P1X va, P2X va] = Some t"
proof (cases "tab (mem p) g [P1X va, P2X va]")
  case (Some t)
  from pgdir_walk_found [OF Some] walked_refl [OF pre] Some show ?thesis by (rule found)
next
  case None
  note n2 = None
  show ?thesis
  proof (cases "tab (mem p) g [P1X va]")
    case None
    show ?thesis
    proof (cases "create = 0")
      case True
      with None pgdir_walk_absent [OF None nh] show ?thesis by (intro absent) simp_all
    next
      case False
      consider "fs = []" | "length fs = 1" | a b xs where "fs = a # b # xs"
        by (cases fs; cases "tl fs") auto
      then show ?thesis
      proof cases
        case 1
        then show ?thesis using pgdir_walk_no_mem [OF pre nh n2, of create] False n2 no_mem by auto
      next
        case 2
        then show ?thesis using pgdir_walk_no_mem [OF pre nh n2, of create] False None n2 no_mem by auto
      next
        case 3
        then show ?thesis using pgdir_walk_level1 [of g p a b xs create va] pre False None nh found by auto
      qed
    qed
  next
    case (Some t)
    show ?thesis
    proof (cases fs)
      case Nil
      then show ?thesis using pgdir_walk_no_mem [OF pre nh n2, of create] Some n2 no_mem by auto
    next
      case (Cons a xs)
      then show ?thesis using pgdir_walk_level2 [of g p a xs va t create] pre Some n2 nh found by auto
    qed
  qed
qed

end
