(* ===== verification/PageMap.thy ===== *)
theory PageMap
  imports Walk
begin

text \<open>
  \<^verbatim>\<open>page_lookup\<close>, \<^verbatim>\<open>page_remove\<close> and \<^verbatim>\<open>page_insert\<close> refine lookup, deletion and update of the
  abstract address space \<open>translate\<close>, with the reference counts and the frame.
\<close>

section \<open>Lookup, removal and insertion\<close>

lemma translate_no_huge:
  assumes "no_huge m g va"
  shows "translate m g va =
    (case tab m g [P1X va, P2X va] of None \<Rightarrow> None | Some t \<Rightarrow> leaf_val (entry m t (P3X va)))"
proof (cases "tab m g [P1X va]")
  case None
  with assms have "\<not> pte_valid (entry m g (P1X va))" by (simp add: no_huge_def)
  with None show ?thesis
    unfolding translate_def indices_def resolve3 by (simp add: leaf_val_def)
next
  case (Some t)
  with assms have "tab m g [P1X va, P2X va] = None \<Longrightarrow> \<not> pte_valid (entry m t (P2X va))"
    by (simp add: no_huge_def)
  with Some show ?thesis
    unfolding translate_def indices_def resolve3
    by (auto simp: leaf_val_def simp del: tab.simps split: option.split)
qed

lemma no_huge_iff:
  "no_huge m g va \<longleftrightarrow> tab m g [P1X va, P2X va] \<noteq> None \<or> translate m g va = None"
proof
  assume "no_huge m g va"
  then show "tab m g [P1X va, P2X va] \<noteq> None \<or> translate m g va = None"
    by (auto simp: translate_no_huge split: option.split)
next
  assume "tab m g [P1X va, P2X va] \<noteq> None \<or> translate m g va = None"
  then show "no_huge m g va"
    unfolding translate_def indices_def resolve3 no_huge_def leaf_val_def
    by (auto split: option.splits if_splits)
qed

lemma walked_translate: "walked g p fs p' fs' \<Longrightarrow> translate (mem p') g va = translate (mem p) g va"
  by (simp add: walked_def mem_grows_def)

lemma walked_npage: "walked g p fs p' fs' \<Longrightarrow> npage p' = npage p"
  by (simp add: walked_def)

lemma walked_subset: "walked g p fs p' fs' \<Longrightarrow> set fs' \<subseteq> set fs"
  by (simp add: walked_def mem_grows_def)

lemma walked_ref: "walked g p fs p' fs' \<Longrightarrow> q \<notin> set fs \<Longrightarrow> pp_ref p' q = pp_ref p q"
  by (simp add: walked_def)

lemma mem_grows_trans:
  assumes a: "mem_grows N g m F m1 F1" and b: "mem_grows N g m1 F1 m2 F2"
  shows "mem_grows N g m F m2 F2"
proof -
  have sub: "F1 \<subseteq> F" "tables m1 g \<subseteq> tables m g \<union> page2kva ` F" using a by (auto simp: mem_grows_def)
  have "entry m2 t i = entry m t i"
    if "page_aligned t" "t \<notin> tables m g" "t \<notin> page2kva ` F" "i < 512" for t i
  proof -
    have "t \<notin> tables m1 g" "t \<notin> page2kva ` F1" using that sub by blast+
    then have "entry m2 t i = entry m1 t i" using b that by (simp add: mem_grows_def)
    also have "\<dots> = entry m t i" using a that by (simp add: mem_grows_def)
    finally show ?thesis .
  qed
  moreover have "tables m2 g \<subseteq> tables m g \<union> page2kva ` F"
    using b sub unfolding mem_grows_def by blast
  moreover have "tables m g \<subseteq> tables m2 g" "F2 \<subseteq> F" using a b unfolding mem_grows_def by blast+
  ultimately show ?thesis using a b by (simp add: mem_grows_def)
qed

lemma walked_trans:
  assumes "walked g p fs p1 fs1" "walked g p1 fs1 p2 fs2"
  shows "walked g p fs p2 fs2"
  using assms mem_grows_trans walked_subset [OF assms(1)] unfolding walked_def
  by (metis subsetD)

text \<open>The page an address is mapped to.\<close>

definition mapped_page :: "pstate \<Rightarrow> u64 \<Rightarrow> u64 \<Rightarrow> nat option" where
  "mapped_page p g va = Option.bind (translate (mem p) g va) (\<lambda>e. pa2page p (PTE_ADDR e))"

lemma page_lookup_unmapped:
  assumes pre: "walk_pre g p fs" and tr: "translate (mem p) g va = None"
  shows "\<exists>p' fs'. page_lookup p g va = Some (None, p') \<and> walked g p fs p' fs'"
proof -
  have nh: "no_huge (mem p) g va" using tr by (simp add: no_huge_iff)
  show ?thesis
  proof (cases rule: pgdir_walk_cases [OF pre nh, where create = 0, case_names absent no_mem found])
    case absent
    then show ?thesis using walked_refl [OF pre] by (auto simp: page_lookup_def)
  next
    case no_mem
    then show ?thesis by (auto simp: page_lookup_def)
  next
    case (found p' fs' t)
    have "no_huge (mem p') g va" using found(3) by (simp add: no_huge_iff del: tab.simps)
    then have "leaf_val (entry (mem p') t (P3X va)) = None"
      using walked_translate [OF found(2), of va] tr found(3) by (simp add: translate_no_huge del: tab.simps)
    then have "\<not> pte_valid (entry (mem p') t (P3X va))" by (simp add: leaf_val_def split: if_splits)
    with found show ?thesis
      by (auto simp: page_lookup_def load_pte_def entry_def pte_invalid_iff)
  qed
qed

lemma mapped_tab:
  assumes "no_huge (mem p) g va" "translate (mem p) g va = Some e"
  obtains t where "tab (mem p) g [P1X va, P2X va] = Some t" "entry (mem p) t (P3X va) = e" "pte_valid e"
  using assms by (auto simp: translate_no_huge leaf_val_def split: option.splits if_splits)

lemma page_lookup_mapped:
  assumes "tab (mem p) g [P1X va, P2X va] = Some t" "pte_valid (entry (mem p) t (P3X va))"
    "pa2page p (PTE_ADDR (entry (mem p) t (P3X va))) = Some pp"
  shows "page_lookup p g va = Some (Some (pp, slot t (P3X va)), p)"
  using assms(2,3) pgdir_walk_found [OF assms(1), of 0]
  by (simp add: page_lookup_def load_pte_def entry_def pte_invalid_iff)

text \<open>
  \<^verbatim>\<open>page_remove\<close> of a mapped page: exactly the translation of that page disappears, the page
  loses one reference and returns to the pool with its last one.
\<close>

lemma tlb_simps [simp]:
  "mem (tlb_invalidate asid va p) = mem p" "npage (tlb_invalidate asid va p) = npage p"
  "pp_ref (tlb_invalidate asid va p) = pp_ref p"
  "page_free_list (tlb_invalidate asid va p) = page_free_list p"
  by (simp_all add: tlb_invalidate_def tlb_def)

lemma walk_pre_tlb [simp]: "walk_pre g (tlb_invalidate asid va p) fs = walk_pre g p fs"
  by (simp add: walk_pre_def pool_def)

lemma wf_pt_insert_free:
  assumes "wf_pt m g N F" "page2kva n \<notin> tables m g"
  shows "wf_pt m g N (insert n F)"
proof -
  have "t \<in> page2kva ` ({..<N} - insert n F)" if "path xs" "xs \<noteq> []" "tab m g xs = Some t" for xs t
    using assms(2) tables_tab [OF that(1,3)] wf_pt_page [OF assms(1) that] by blast
  moreover have "g \<notin> page2kva ` insert n F" using assms(2) wf_pt_root [OF assms(1)] by auto
  ultimately show ?thesis
    using wf_pt_root [OF assms(1)] wf_pt_inj [OF assms(1)] unfolding wf_pt_def by blast
qed

lemma page_remove_mapped:
  assumes pre: "walk_pre g p fs" and at: "tab (mem p) g [P1X va, P2X va] = Some t"
    and v: "pte_valid (entry (mem p) t (P3X va))"
    and pp: "pa2page p (PTE_ADDR (entry (mem p) t (P3X va))) = Some pp"
    and r: "pp_ref p pp \<noteq> 0" and nt: "page2kva pp \<notin> tables (mem p) g"
  shows "\<exists>p'. page_remove p g asid va = Some p'
    \<and> walk_pre g p' (if pp_ref p pp = 1 then pp # fs else fs)
    \<and> mem p' = store64 (mem p) (slot t (P3X va)) 0 \<and> npage p' = npage p
    \<and> pp_ref p' = (pp_ref p)(pp := pp_ref p pp - 1)"
proof -
  note d = walk_preD [OF pre]
  have n: "pp < unat (npage p)"
    using pp by (auto simp: pa2page_def word_le_nat_alt split: if_splits)
  obtain fl where fl:
    "page_decref p pp = Some (p\<lparr>pp_ref := (pp_ref p)(pp := pp_ref p pp - 1), page_free_list := fl\<rparr>)"
    "pool (p\<lparr>pp_ref := (pp_ref p)(pp := pp_ref p pp - 1), page_free_list := fl\<rparr>)
       (if pp_ref p pp = 1 then pp # fs else fs)"
    by (rule page_decref_pool [OF d(1) n r])
  let ?m = "store64 (mem p) (slot t (P3X va)) 0"
  note ls = leaf_store [OF d(2) at refl, where e = 0]
  have "wf_pt ?m g (unat (npage p)) (set (if pp_ref p pp = 1 then pp # fs else fs))"
    using ls(2) wf_pt_insert_free [OF ls(2)] nt ls(3) by auto
  with fl page_lookup_mapped [OF at v pp] show ?thesis
    by (auto simp: page_remove_def walk_pre_def store_pte_def pool_def tlb_invalidate_def tlb_def)
qed

subsection \<open>Insertion\<close>

lemma page_insert_new_spec:
  assumes pre: "walk_pre g p fs" and nh: "no_huge (mem p) g va" and pp: "pp \<notin> set fs"
  obtains (no_mem) p' where "page_insert_new p g asid pp va perm = Some (- E_NO_MEM, p')"
      "walked g p fs p' fs" "length fs \<le> 1" "tab (mem p) g [P1X va, P2X va] = None"
  | (stored) p1 p' fs' t where "page_insert_new p g asid pp va perm = Some (0, p')"
      "walked g p fs p1 fs'" "tab (mem p1) g [P1X va, P2X va] = Some t" "walk_pre g p' fs'"
      "mem p' = store64 (mem p1) (slot t (P3X va)) (leaf_pte pp perm)" "npage p' = npage p"
      "pp_ref p' = (pp_ref p1)(pp := pp_ref p1 pp + 1)"
proof -
  let ?p = "tlb_invalidate asid va p"
  have pre': "walk_pre g ?p fs" and nh': "no_huge (mem ?p) g va" using pre nh by simp_all
  have w: "walked g ?p fs q qs = walked g p fs q qs" for q qs by (simp add: walked_def)
  show ?thesis
  proof (cases rule: pgdir_walk_cases [OF pre' nh', where create = 1, case_names absent no_mem found])
    case absent
    then show ?thesis by simp
  next
    case no_mem': (no_mem p')
    then show ?thesis using that(1) [of p'] by (simp add: page_insert_new_def w errno del: tab.simps)
  next
    case (found p1 fs' t)
    then have w1: "walked g p fs p1 fs'" by (simp add: w)
    let ?p' = "set_ref (store_pte p1 (slot t (P3X va)) (leaf_pte pp perm)) pp (pp_ref p1 pp + 1)"
    have r: "page_insert_new p g asid pp va perm = Some (0, ?p')"
      using found(1) by (simp add: page_insert_new_def Let_def store_pte_def set_ref_def)
    have pre1: "walk_pre g p1 fs'" using walked_pre [OF w1] .
    have "walk_pre g ?p' fs'"
      using pre1 leaf_store(2) [OF walk_preD(2) [OF pre1] found(3) refl] pp walked_subset [OF w1]
      by (auto simp: walk_pre_def pool_def store_pte_def set_ref_def)
    with r w1 found(3) show ?thesis
      by (intro that(2) [of ?p' p1 fs' t])
        (simp_all add: store_pte_def set_ref_def walked_npage [OF w1] del: tab.simps)
  qed
qed

text \<open>
  The effect of a successful insertion on the address space and on the reference counts, and
  its frame: everything outside the tables and the pool keeps its content.
\<close>

definition inserted ::
  "u64 \<Rightarrow> u64 \<Rightarrow> nat \<Rightarrow> u64 \<Rightarrow> pstate \<Rightarrow> nat list \<Rightarrow> pstate \<Rightarrow> nat list \<Rightarrow> bool" where
  "inserted g va pp perm p fs p' fs' \<longleftrightarrow>
     walk_pre g p' fs' \<and> npage p' = npage p \<and> no_huge (mem p') g va
     \<and> (\<forall>va'. translate (mem p') g va' =
           (if VPN va' = VPN va then Some (leaf_pte pp perm) else translate (mem p) g va'))
     \<and> (\<forall>q. q \<notin> set fs \<longrightarrow> pp_ref p' q =
           (if mapped_page p g va = Some pp then pp_ref p q
            else pp_ref p q - (if mapped_page p g va = Some q then 1 else 0) + (if q = pp then 1 else 0)))
     \<and> (\<forall>t i. page_aligned t \<longrightarrow> t \<notin> tables (mem p) g \<longrightarrow> t \<notin> page2kva ` set fs \<longrightarrow> i < 512 \<longrightarrow>
           entry (mem p') t i = entry (mem p) t i)
     \<and> tables (mem p') g \<subseteq> tables (mem p) g \<union> page2kva ` set fs"

text \<open>The page that is replaced, if any, is referenced and is not one of the tables.\<close>

definition replaceable :: "u64 \<Rightarrow> u64 \<Rightarrow> nat \<Rightarrow> pstate \<Rightarrow> bool" where
  "replaceable g va pp p \<longleftrightarrow>
     (translate (mem p) g va \<noteq> None \<longrightarrow>
        (\<exists>old. mapped_page p g va = Some old
           \<and> (old \<noteq> pp \<longrightarrow> pp_ref p old \<noteq> 0 \<and> page2kva old \<notin> tables (mem p) g)))"

lemma store_frame:
  assumes "wf_pt m g N F" "u \<in> tables m g" "i < 512"
    "page_aligned t" "t \<notin> tables m g" "j < 512"
  shows "entry (store64 m (slot u i) v) t j = entry m t j"
proof -
  have "page_aligned u" "t \<noteq> u" using assms wf_pt_aligned by auto
  with assms show ?thesis by (simp add: entry_def load_slot_store)
qed

lemma leaf_val_leaf_pte [simp]: "leaf_val (leaf_pte pp perm) = Some (leaf_pte pp perm)"
  by (simp add: leaf_val_def)

lemma inserted_new:
  assumes w: "walked g p fs p1 fs'" and at: "tab (mem p1) g [P1X va, P2X va] = Some t"
    and p': "walk_pre g p' fs'" "npage p' = npage p"
      "mem p' = store64 (mem p1) (slot t (P3X va)) (leaf_pte pp perm)"
      "pp_ref p' = (pp_ref p1)(pp := pp_ref p1 pp + 1)"
    and un: "mapped_page p g va = None" and pp: "pp \<notin> set fs"
  shows "inserted g va pp perm p fs p' fs'"
proof -
  have wf: "wf_pt (mem p1) g (unat (npage p)) (set fs')" using w by (simp add: walked_def mem_grows_def)
  have t: "t \<in> tables (mem p1) g" by (rule tables_tab [OF _ at]) simp
  have "translate (mem p') g va' = (if VPN va' = VPN va then Some (leaf_pte pp perm)
      else translate (mem p) g va')" for va'
    using leaf_store(4) [OF wf at p'(3)] walked_translate [OF w] by simp
  moreover have "entry (mem p') u i = entry (mem p) u i"
    if "page_aligned u" "u \<notin> tables (mem p) g" "u \<notin> page2kva ` set fs" "i < 512" for u i
  proof -
    have "tables (mem p1) g \<subseteq> tables (mem p) g \<union> page2kva ` set fs"
      using w by (simp add: walked_def mem_grows_def)
    then have "u \<notin> tables (mem p1) g" using that(2,3) by blast
    then have "entry (mem p') u i = entry (mem p1) u i"
      unfolding p'(3) by (intro store_frame [OF wf t PX_less(3) that(1) _ that(4)])
    also have "\<dots> = entry (mem p) u i" using w that by (simp add: walked_def mem_grows_def)
    finally show ?thesis .
  qed
  moreover have "pp_ref p' q = pp_ref p q + (if q = pp then 1 else 0)" if "q \<notin> set fs" for q
    using walked_ref [OF w] pp that by (simp add: p'(4))
  moreover have "tables (mem p') g \<subseteq> tables (mem p) g \<union> page2kva ` set fs"
    using leaf_store(3) [OF wf at p'(3)] w by (simp add: walked_def mem_grows_def)
  moreover have "no_huge (mem p') g va"
    using leaf_store(1) [OF wf at p'(3)] at by (simp add: no_huge_iff del: tab.simps)
  ultimately show ?thesis using p'(1,2) un by (simp add: inserted_def)
qed

lemma page_insert_unmapped:
  assumes pre: "walk_pre g p fs" and tr: "translate (mem p) g va = None" and pp: "pp \<notin> set fs"
  shows "(\<exists>p' fs'. page_insert p g asid pp va perm = Some (0, p') \<and> inserted g va pp perm p fs p' fs')
    \<or> (\<exists>p'. page_insert p g asid pp va perm = Some (- E_NO_MEM, p') \<and> walked g p fs p' fs \<and> length fs \<le> 1)"
proof -
  have nh: "no_huge (mem p) g va" using tr by (simp add: no_huge_iff del: tab.simps)
  have un: "mapped_page p g va = None" by (simp add: mapped_page_def tr)
  obtain p0 fs0 where w0: "walked g p fs p0 fs0"
    and e: "page_insert p g asid pp va perm = page_insert_new p0 g asid pp va perm"
    and l0: "tab (mem p0) g [P1X va, P2X va] = None \<Longrightarrow> fs0 = fs"
  proof (cases rule: pgdir_walk_cases [OF pre nh, where create = 0, case_names absent no_mem found])
    case absent
    then show ?thesis using walked_refl [OF pre] by (intro that) (auto simp: page_insert_def)
  next
    case (no_mem p0)
    then show ?thesis by (intro that [of p0 fs]) (simp_all add: page_insert_def)
  next
    case (found p0 fs0 t)
    have "no_huge (mem p0) g va" using found(3) by (simp add: no_huge_iff del: tab.simps)
    then have "leaf_val (entry (mem p0) t (P3X va)) = None"
      using walked_translate [OF found(2), of va] tr found(3) by (simp add: translate_no_huge del: tab.simps)
    then have "\<not> pte_valid (entry (mem p0) t (P3X va))" by (simp add: leaf_val_def split: if_splits)
    with found show ?thesis
      by (intro that [of p0 fs0])
        (simp_all add: page_insert_def load_pte_def entry_def pte_invalid_iff del: tab.simps)
  qed
  have pre0: "walk_pre g p0 fs0" by (rule walked_pre [OF w0])
  have nh0: "no_huge (mem p0) g va" using walked_translate [OF w0] tr by (simp add: no_huge_iff del: tab.simps)
  have pp0: "pp \<notin> set fs0" using pp walked_subset [OF w0] by blast
  show ?thesis
  proof (cases rule: page_insert_new_spec [OF pre0 nh0 pp0, of asid perm, case_names no_mem stored])
    case (no_mem p')
    with l0 have "fs0 = fs" by blast
    with walked_trans [OF w0 no_mem(2)] no_mem(1,3) e show ?thesis by auto
  next
    case (stored p1 p' fs' t)
    have "inserted g va pp perm p fs p' fs'"
      by (rule inserted_new [OF walked_trans [OF w0 stored(2)] stored(3,4) _ stored(5,7) un pp])
        (simp add: stored(6) walked_npage [OF w0])
    with stored(1) e show ?thesis by auto
  qed
qed

lemma page_insert_same:
  assumes pre: "walk_pre g p fs" and at: "tab (mem p) g [P1X va, P2X va] = Some t"
    and v: "pte_valid (entry (mem p) t (P3X va))"
    and pa: "pa2page p (PTE_ADDR (entry (mem p) t (P3X va))) = Some pp"
    and m: "mapped_page p g va = Some pp"
  shows "\<exists>p'. page_insert p g asid pp va perm = Some (0, p') \<and> inserted g va pp perm p fs p' fs"
proof -
  note d = walk_preD [OF pre]
  have t: "t \<in> tables (mem p) g" by (rule tables_tab [OF _ at]) simp
  have fr: "entry (store64 (mem p) (slot t (P3X va)) v) u i = entry (mem p) u i"
    if "page_aligned u" "u \<notin> tables (mem p) g" "i < 512" for u i v
    by (rule store_frame [OF d(2) t PX_less(3) that])
  let ?p' = "store_pte (tlb_invalidate asid va p) (slot t (P3X va)) (leaf_pte pp perm)"
  have "page_insert p g asid pp va perm = Some (0, ?p')"
    using pgdir_walk_found [OF at, of 0] v pa
    by (simp add: page_insert_def load_pte_def entry_def pte_invalid_iff Let_def del: tab.simps)
  moreover have "inserted g va pp perm p fs ?p' fs"
    using pre leaf_store [OF d(2) at refl, where e = "leaf_pte pp perm"] fr m at
    by (simp add: inserted_def store_pte_def walk_pre_def pool_def no_huge_iff del: tab.simps)
  ultimately show ?thesis by blast
qed

lemma page_insert_replace:
  assumes pre: "walk_pre g p fs" and at: "tab (mem p) g [P1X va, P2X va] = Some t"
    and v: "pte_valid (entry (mem p) t (P3X va))"
    and pa: "pa2page p (PTE_ADDR (entry (mem p) t (P3X va))) = Some old"
    and m: "mapped_page p g va = Some old" and ne: "old \<noteq> pp" and pp: "pp \<notin> set fs"
    and o: "pp_ref p old \<noteq> 0" "page2kva old \<notin> tables (mem p) g"
  shows "\<exists>p' fs'. page_insert p g asid pp va perm = Some (0, p') \<and> inserted g va pp perm p fs p' fs'"
proof -
  note d = walk_preD [OF pre]
  let ?fs = "if pp_ref p old = 1 then old # fs else fs"
  have t: "t \<in> tables (mem p) g" by (rule tables_tab [OF _ at]) simp
  from page_remove_mapped [OF pre at v pa o, of asid]
  obtain p1 where p1: "page_remove p g asid va = Some p1" "walk_pre g p1 ?fs"
    "mem p1 = store64 (mem p) (slot t (P3X va)) 0" "npage p1 = npage p"
    "pp_ref p1 = (pp_ref p)(old := pp_ref p old - 1)" by auto
  note ls = leaf_store [OF d(2) at p1(3)]
  have at1: "tab (mem p1) g [P1X va, P2X va] = Some t" using ls(1) at by (simp del: tab.simps)
  let ?q = "tlb_invalidate asid va p1"
  let ?p' = "set_ref (store_pte ?q (slot t (P3X va)) (leaf_pte pp perm)) pp (pp_ref p1 pp + 1)"
  have at1': "tab (mem ?q) g [P1X va, P2X va] = Some t" using at1 by (simp del: tab.simps)
  have i: "page_insert p g asid pp va perm = Some (0, ?p')"
    using pgdir_walk_found [OF at, of 0] pgdir_walk_found [OF at1', of 1] v pa ne p1(1)
    by (simp add: page_insert_def page_insert_new_def load_pte_def entry_def pte_invalid_iff Let_def
        store_pte_def set_ref_def del: tab.simps)
  note ls' = leaf_store [OF walk_preD(2) [OF p1(2)] at1 refl, where e = "leaf_pte pp perm"]
  have "walk_pre g ?p' ?fs"
    using p1(2) ls'(2) pp ne by (auto simp: walk_pre_def pool_def store_pte_def set_ref_def)
  moreover have "entry (mem ?p') u j = entry (mem p) u j"
    if "page_aligned u" "u \<notin> tables (mem p) g" "j < 512" for u j
    using store_frame [OF walk_preD(2) [OF p1(2)] _ PX_less(3) that(1) _ that(3), of t] t that(2) ls(3)
      store_frame [OF d(2) t PX_less(3) that] p1(3)
    by (simp add: store_pte_def set_ref_def)
  moreover have "translate (mem ?p') g va' =
      (if VPN va' = VPN va then Some (leaf_pte pp perm) else translate (mem p) g va')" for va'
    using ls'(4) ls(4) by (simp add: store_pte_def set_ref_def)
  ultimately have "inserted g va pp perm p fs ?p' ?fs"
    using p1(4,5) m ne ls(3) ls'(1,3) at1
    by (simp add: inserted_def store_pte_def set_ref_def no_huge_iff del: tab.simps)
  with i show ?thesis by blast
qed

lemma page_insert_mapped:
  assumes pre: "walk_pre g p fs" and nh: "no_huge (mem p) g va"
    and tr: "translate (mem p) g va \<noteq> None" and rep: "replaceable g va pp p" and pp: "pp \<notin> set fs"
  shows "\<exists>p' fs'. page_insert p g asid pp va perm = Some (0, p') \<and> inserted g va pp perm p fs p' fs'"
proof -
  obtain e where e: "translate (mem p) g va = Some e" using tr by blast
  from mapped_tab [OF nh e] obtain t where at: "tab (mem p) g [P1X va, P2X va] = Some t"
    and en: "entry (mem p) t (P3X va) = e" "pte_valid e" by blast
  from rep tr obtain old where old: "mapped_page p g va = Some old"
    "old \<noteq> pp \<Longrightarrow> pp_ref p old \<noteq> 0 \<and> page2kva old \<notin> tables (mem p) g"
    by (auto simp: replaceable_def)
  then have "pa2page p (PTE_ADDR e) = Some old" by (simp add: mapped_page_def e)
  with old en pp show ?thesis
    using page_insert_same [OF pre at, of pp asid perm] page_insert_replace [OF pre at, of old pp asid perm]
    by (cases "old = pp") auto
qed

section \<open>Other address spaces\<close>

text \<open>The tables visited when \<open>va\<close> is translated.\<close>

definition on_path :: "memory \<Rightarrow> u64 \<Rightarrow> u64 \<Rightarrow> u64 set" where
  "on_path m g va = {t. \<exists>n \<le> 2. tab m g (take n [P1X va, P2X va]) = Some t}"

lemma on_path_memb:
  "g \<in> on_path m g va"
  "tab m g [P1X va] = Some t \<Longrightarrow> t \<in> on_path m g va"
  "tab m g [P1X va, P2X va] = Some t \<Longrightarrow> t \<in> on_path m g va"
proof -
  show "g \<in> on_path m g va" unfolding on_path_def by (auto intro: exI [of _ 0])
  show "tab m g [P1X va] = Some t \<Longrightarrow> t \<in> on_path m g va"
    unfolding on_path_def by (auto intro!: exI [of _ 1])
  show "tab m g [P1X va, P2X va] = Some t \<Longrightarrow> t \<in> on_path m g va"
    unfolding on_path_def by (auto intro!: exI [of _ 2])
qed

lemma translate_on_path:
  assumes "\<And>t i. t \<in> on_path m g va \<Longrightarrow> i < 512 \<Longrightarrow> entry m' t i = entry m t i"
  shows "translate m' g va = translate m g va"
proof -
  have e: "entry m' t i = entry m t i" if "t \<in> on_path m g va" "i < 512" for t i
    using assms that by blast
  have n: "next_table m' t i = next_table m t i" if "t \<in> on_path m g va" "i < 512" for t i
    using e [OF that] by (simp add: next_table_def)
  have t1: "tab m' g [P1X va] = tab m g [P1X va]"
    using n [OF on_path_memb(1)] by (simp add: PX_less)
  have t2: "tab m' g [P1X va, P2X va] = tab m g [P1X va, P2X va]"
    using n [OF on_path_memb(1)] n [OF on_path_memb(2)]
    by (cases "next_table m g (P1X va)") (simp_all add: PX_less)
  show ?thesis
    unfolding translate_def indices_def resolve3 t1 t2
    using e [OF on_path_memb(1)] e [OF on_path_memb(2)] e [OF on_path_memb(3)]
    by (auto simp: PX_less simp del: tab.simps split: option.split)
qed

lemma va2pa_translate:
  assumes "no_huge (mem p) g va"
  shows "va2pa p g va = (case translate (mem p) g va of None \<Rightarrow> NOT 0
           | Some e \<Rightarrow> PTE_ADDR e OR (va AND GENMASK 11 0))"
proof (cases "tab (mem p) g [P1X va]")
  case None
  with assms show ?thesis
    by (auto simp: va2pa_def Let_def load_pte_entry translate_def indices_def leaf_val_def
        pte_invalid_iff no_huge_def)
next
  case (Some t)
  then have 1: "pte_valid (entry (mem p) g (P1X va))" "PTE_IS_NON_LEAF (entry (mem p) g (P1X va))"
      "t = P2KADDR (PTE_ADDR (entry (mem p) g (P1X va)))"
    by (auto simp: next_table_Some)
  show ?thesis
  proof (cases "tab (mem p) g [P1X va, P2X va]")
    case None
    with Some assms have "\<not> pte_valid (entry (mem p) t (P2X va))" by (simp add: no_huge_def)
    with None Some 1 assms show ?thesis
      by (simp add: va2pa_def Let_def load_pte_entry pte_invalid_iff translate_no_huge del: tab.simps)
  next
    case (Some u)
    then have "pte_valid (entry (mem p) t (P2X va))" "PTE_IS_NON_LEAF (entry (mem p) t (P2X va))"
        "u = P2KADDR (PTE_ADDR (entry (mem p) t (P2X va)))"
      using \<open>tab (mem p) g [P1X va] = Some t\<close> by (auto simp: next_table_Some)
    with Some 1 assms show ?thesis
      by (simp add: va2pa_def Let_def load_pte_entry pte_invalid_iff translate_no_huge leaf_val_def
          del: tab.simps)
  qed
qed

end
