(* ===== verification/MemProps.thy ===== *)
theory MemProps
  imports PageMap
begin

text \<open>
  The properties of memory management: the string routines, the intrusive lists as the page
  allocator uses them, the page pool and the address spaces.  Each property is followed by a
  witness on a small concrete machine.
\<close>

section \<open>A concrete machine\<close>

text \<open>
  Eight pages; page 0 is a page directory, page 5 a data page, pages 1 to 4 are free; all of
  memory is zero.
\<close>

definition sample_free :: "nat list" where "sample_free = [1, 2, 3, 4]"

definition sample_pstate :: pstate where
  "sample_pstate = \<lparr>memsize = 0x8000, npage = 8, freemem = 0, pages = 0,
     pp_ref = (\<lambda>x. if x = 0 \<or> x = 6 \<or> x = 7 then 1 else 0),
     page_free_list = fold (\<lambda>x h. LIST_INSERT_HEAD h x) (rev sample_free)
       \<lparr>lh_first = None, le_next = (\<lambda>_. None), le_prev = (\<lambda>_. RNull)\<rparr>,
     mem = (\<lambda>_. 0), tlb_log = []\<rparr>"

definition sample_pgdir :: u64 where "sample_pgdir = page2kva 0"

lemma sample_pool: "pool sample_pstate sample_free"
proof -
  have "LIST_rep \<lparr>lh_first = None, le_next = (\<lambda>_. None), le_prev = (\<lambda>_. RNull)\<rparr> ([] :: nat list)"
    by (simp add: LIST_rep_def)
  from lq.rep_insert_heads [OF this, of "rev sample_free"]
  have "LIST_rep (page_free_list sample_pstate) sample_free"
    by (simp add: sample_pstate_def sample_free_def)
  moreover have "npage sample_pstate \<le> of_nat max_pages" by (simp add: sample_pstate_def max_pages_def)
  ultimately show ?thesis
    by (auto simp: pool_def sample_pstate_def sample_free_def)
qed

lemma entry_zero [simp]: "entry (\<lambda>_. 0) t i = 0"
  by (simp add: entry_def load64_def load_le_zero)

lemma tab_zero: "tab (\<lambda>_. 0) g xs = (if xs = [] then Some g else None)"
  by (cases xs) (simp_all add: next_table_def)

lemma translate_zero [simp]: "translate (\<lambda>_. 0) g va = None"
  unfolding translate_def indices_def resolve3 by (simp add: tab_zero leaf_val_def del: tab.simps)

lemma tables_zero: "tables (\<lambda>_. 0) g = {g}"
  by (auto simp: tables_def tab_zero intro!: exI [of _ "[]"] split: if_splits)

lemma sample_mem [simp]: "mem sample_pstate = (\<lambda>_. 0)"
  by (simp add: sample_pstate_def)

lemma sample_pre: "walk_pre sample_pgdir sample_pstate sample_free"
proof -
  have "0 \<notin> set sample_free" "set sample_free \<subseteq> {..<max_pages}"
    by (auto simp: sample_free_def max_pages_def)
  moreover have "(0::nat) < max_pages" by (simp add: max_pages_def)
  ultimately have "page2kva 0 \<notin> page2kva ` set sample_free"
    by (auto simp: page2kva_inject subset_iff)
  then show ?thesis
    using sample_pool
    by (auto simp: walk_pre_def wf_pt_def tab_zero sample_pgdir_def split: if_splits)
qed

text \<open>The state after mapping page 5 at the start of the program text.\<close>

lemma sample_insert:
  obtains p fs where "page_insert sample_pstate sample_pgdir 7 5 UTEXT PTE_R = Some (0, p)"
    "inserted sample_pgdir UTEXT 5 PTE_R sample_pstate sample_free p fs"
proof -
  have "5 \<notin> set sample_free" by (simp add: sample_free_def)
  from page_insert_unmapped [OF sample_pre _ this, of UTEXT 7 PTE_R] that
  show ?thesis by (auto simp: sample_free_def)
qed

section \<open>Memory and strings\<close>

text \<open>C6: \<^verbatim>\<open>memcpy\<close>, with its alignment prologue and its 8-, 4- and 2-byte loops, copies \<open>n\<close> bytes
  between objects that do not overlap and changes nothing else.\<close>

theorem memcpy_correct:
  assumes "apart d s n"
  shows "memcpy m d s n = (\<lambda>x. if unat (x - d) < n then m (s + (x - d)) else m x)"
  using memcpy_copy_bytes [OF assms] by (simp add: copy_bytes_def)

theorem memcpy_correct_witness:
  "memcpy (\<lambda>x. ucast x) 0x1003 0x2003 3 = (\<lambda>x. if unat (x - 0x1003) < 3 then ucast (0x2003 + (x - 0x1003)) else ucast x)"
proof -
  have "apart 0x1003 0x2003 3" by (auto simp: apart_def less_Suc_eq numeral_3_eq_3)
  from memcpy_correct [OF this] show ?thesis by simp
qed

text \<open>\<^verbatim>\<open>memset\<close> fills exactly the \<open>n\<close> bytes at \<open>d\<close> with the low byte of \<open>c\<close>.\<close>

theorem memset_correct:
  assumes "n < 2 ^ 64"
  shows "memset m d c n = (\<lambda>x. if unat (x - d) < n then word_of_int c else m x)"
  using memset_fill_bytes [OF assms] by (simp add: fill_bytes_def)

theorem memset_correct_witness:
  "memset (\<lambda>_. 1) 0x1005 (- 1) 20 = (\<lambda>x. if unat (x - 0x1005) < 20 then - 1 else 1)"
  using memset_correct [of 20 "\<lambda>_. 1" "0x1005" "- 1"]
  by (simp cong: if_cong)

text \<open>\<^verbatim>\<open>strcmp\<close> returns on two NUL-terminated strings, with the sign of their lexicographic
  comparison as unsigned bytes, and 0 exactly when they are equal.\<close>

theorem strcmp_correct:
  assumes "cstr m p xs" "cstr m q ys"
  shows "strcmp m p q = Some (byte_compare xs ys) \<and> (strcmp m p q = Some 0 \<longleftrightarrow> xs = ys)"
  using strcmp_cstr [OF assms] by (simp add: byte_compare_0)

theorem strcmp_correct_witness:
  "strcmp ((\<lambda>_. 0)(0 := 97, 1 := 98, 16 := 97)) 0 16 = Some 1"
proof -
  have "cstr ((\<lambda>_. 0)(0 := 97, 1 := 98, 16 := 97)) 0 [97, 98]"
    "cstr ((\<lambda>_. 0)(0 := 97, 1 := 98, 16 := 97)) 16 [97]"
    by simp_all
  from strcmp_correct [OF this] show ?thesis by simp
qed

section \<open>The page pool\<close>

text \<open>\<^verbatim>\<open>page_init\<close> puts exactly the pages above the kernel on the free list, in ascending order,
  gives every page below one reference, and establishes the pool invariant.\<close>

theorem page_init_establishes_pool:
  assumes "npage p \<le> of_nat max_pages" "npage p \<noteq> 0"
    and "used = unat (DRAMADDR (ROUND (freemem p) PAGE_SIZE) div PAGE_SIZE)" "used \<noteq> 0"
  shows "\<exists>p'. page_init p = Some p' \<and> pool p' [used..<unat (npage p)]
    \<and> (\<forall>x < used. pp_ref p' x = 1) \<and> mem p' = mem p"
  using page_init_pool [OF assms] by blast

theorem page_init_establishes_pool_witness:
  "\<exists>p'. page_init (sample_pstate\<lparr>freemem := 0xFFFFFFC000002800\<rparr>) = Some p' \<and> pool p' [3..<8]"
  using page_init_establishes_pool [of "sample_pstate\<lparr>freemem := 0xFFFFFFC000002800\<rparr>" 3]
  by (auto simp: sample_pstate_def max_pages_def ROUND_def DRAMADDR_def layout)

text \<open>C4: On a pool, \<^verbatim>\<open>page_alloc\<close> fails with \<^verbatim>\<open>-E_NO_MEM\<close> exactly when the pool is empty and changes
  nothing then; otherwise it takes the first free page, whose content is zero afterwards, and no
  other byte of memory changes.\<close>

theorem page_alloc_correct:
  assumes "pool p fs"
  shows "case fs of
      [] \<Rightarrow> page_alloc p = Some (Inl (- E_NO_MEM), p)
    | n # ns \<Rightarrow> \<exists>p'. page_alloc p = Some (Inr n, p') \<and> pool p' ns \<and> pp_ref p' = pp_ref p
        \<and> (\<forall>x. mem p' x = (if unat (x - page2kva n) < 4096 then 0 else mem p x))"
proof (cases fs)
  case Nil
  with assms show ?thesis by (simp add: page_alloc_Nil)
next
  case (Cons n ns)
  with assms have "pool p (n # ns)" by simp
  then obtain fl where "page_alloc p = Some (Inr n, (zero_page p n)\<lparr>page_free_list := fl\<rparr>)"
    "pool ((zero_page p n)\<lparr>page_free_list := fl\<rparr>) ns" by (rule page_alloc_Cons)
  with Cons show ?thesis by (auto simp: zero_page_def fill_bytes_def)
qed

theorem page_alloc_correct_witness:
  "\<exists>p'. page_alloc sample_pstate = Some (Inr 1, p') \<and> pool p' [2, 3, 4]"
  using page_alloc_correct [OF sample_pool] by (auto simp: sample_free_def)

text \<open>C5: \<^verbatim>\<open>page_decref\<close> of a referenced page lowers its count by one and returns it to the pool exactly
  when the count reaches zero; of an unreferenced page it panics.  The pool invariant is kept.\<close>

theorem page_decref_correct:
  assumes "pool p fs" "n < unat (npage p)"
  shows "if pp_ref p n = 0 then page_decref p n = None
    else \<exists>p'. page_decref p n = Some p' \<and> pool p' (if pp_ref p n = 1 then n # fs else fs)
      \<and> pp_ref p' = (pp_ref p)(n := pp_ref p n - 1) \<and> mem p' = mem p"
proof (cases "pp_ref p n = 0")
  case False
  then obtain fl where
    "page_decref p n = Some (p\<lparr>pp_ref := (pp_ref p)(n := pp_ref p n - 1), page_free_list := fl\<rparr>)"
    "pool (p\<lparr>pp_ref := (pp_ref p)(n := pp_ref p n - 1), page_free_list := fl\<rparr>)
       (if pp_ref p n = 1 then n # fs else fs)"
    by (rule page_decref_pool [OF assms])
  with False show ?thesis by auto
qed (simp add: page_decref_def)

theorem page_decref_correct_witness:
  "(\<exists>p'. page_decref sample_pstate 6 = Some p' \<and> pool p' [6, 1, 2, 3, 4]) \<and> page_decref sample_pstate 1 = None"
  using page_decref_correct [OF sample_pool, of 6] page_decref_correct [OF sample_pool, of 1]
  by (auto simp: sample_pstate_def sample_free_def)

section \<open>Address spaces\<close>

text \<open>C1: \<^verbatim>\<open>page_insert\<close> refines the update of the abstract address space.  On well-formed tables with
  no huge page at \<open>va\<close> it always returns; it returns 0 and then \<open>va\<close>'s page is translated by
  the new entry, every other page keeps its translation, the new page gains and the replaced page
  loses one reference, the tables and the pool stay well-formed and memory outside the tables and
  the pool is unchanged; or it returns \<^verbatim>\<open>-E_NO_MEM\<close>, only when \<open>va\<close> was unmapped and at most one
  free page was left, and then no translation has changed.\<close>

theorem page_insert_refines:
  assumes "walk_pre g p fs" "no_huge (mem p) g va" "replaceable g va pp p" "pp \<notin> set fs"
  shows "(\<exists>p' fs'. page_insert p g asid pp va perm = Some (0, p') \<and> inserted g va pp perm p fs p' fs')
    \<or> (\<exists>p'. page_insert p g asid pp va perm = Some (- E_NO_MEM, p')
        \<and> translate (mem p) g va = None \<and> length fs \<le> 1 \<and> walk_pre g p' fs
        \<and> (\<forall>va'. translate (mem p') g va' = translate (mem p) g va'))"
proof (cases "translate (mem p) g va = None")
  case True
  from page_insert_unmapped [OF assms(1) True assms(4), of asid perm] True
  show ?thesis by (auto dest: walked_pre walked_translate)
next
  case False
  from page_insert_mapped [OF assms(1,2) False assms(3,4), of asid perm] show ?thesis by blast
qed

theorem page_insert_refines_witness:
  "\<exists>p' fs'. page_insert sample_pstate sample_pgdir 7 5 UTEXT PTE_R = Some (0, p')
     \<and> inserted sample_pgdir UTEXT 5 PTE_R sample_pstate sample_free p' fs'"
proof -
  have "no_huge (mem sample_pstate) sample_pgdir UTEXT" "replaceable sample_pgdir UTEXT 5 sample_pstate"
    "5 \<notin> set sample_free"
    by (simp_all add: no_huge_iff replaceable_def sample_free_def del: tab.simps)
  from page_insert_refines [OF sample_pre this, of 7 PTE_R] show ?thesis
    by (auto simp: sample_free_def)
qed

text \<open>C3: \<^verbatim>\<open>page_remove\<close> of a mapped page deletes exactly that page from the address space, drops one
  reference, and gives the page back to the pool when it was the last.\<close>

theorem page_remove_refines:
  assumes pre: "walk_pre g p fs" and nh: "no_huge (mem p) g va"
    and pp: "mapped_page p g va = Some pp" "pp_ref p pp \<noteq> 0" "page2kva pp \<notin> tables (mem p) g"
  shows "\<exists>p'. page_remove p g asid va = Some p'
    \<and> walk_pre g p' (if pp_ref p pp = 1 then pp # fs else fs)
    \<and> (\<forall>va'. translate (mem p') g va' = (if VPN va' = VPN va then None else translate (mem p) g va'))
    \<and> pp_ref p' = (pp_ref p)(pp := pp_ref p pp - 1)"
proof -
  from pp(1) obtain e where e: "translate (mem p) g va = Some e" "pa2page p (PTE_ADDR e) = Some pp"
    by (auto simp: mapped_page_def)
  from mapped_tab [OF nh e(1)] obtain t where t: "tab (mem p) g [P1X va, P2X va] = Some t"
    "entry (mem p) t (P3X va) = e" "pte_valid e" by blast
  from page_remove_mapped [OF pre t(1) _ _ pp(2,3), of asid] e(2) t(2,3) obtain p' where
    p': "page_remove p g asid va = Some p'" "walk_pre g p' (if pp_ref p pp = 1 then pp # fs else fs)"
      "mem p' = store64 (mem p) (slot t (P3X va)) 0" "pp_ref p' = (pp_ref p)(pp := pp_ref p pp - 1)" by auto
  from leaf_store(4) [OF walk_preD(2) [OF pre] t(1) p'(3)] p'(1,2,4) show ?thesis
    by (auto simp: leaf_val_def)
qed

lemma sample_mapped:
  assumes i: "inserted sample_pgdir UTEXT 5 PTE_R sample_pstate sample_free p fs"
  shows "walk_pre sample_pgdir p fs" "no_huge (mem p) sample_pgdir UTEXT"
    "mapped_page p sample_pgdir UTEXT = Some 5" "pp_ref p 5 = 1"
    "page2kva 5 \<notin> tables (mem p) sample_pgdir"
    "translate (mem p) sample_pgdir UTEXT = Some (leaf_pte 5 PTE_R)"
proof -
  have n: "npage p = 8" "npage p \<le> of_nat max_pages" "(5::nat) < max_pages"
    using i by (simp_all add: inserted_def sample_pstate_def max_pages_def)
  show pre: "walk_pre sample_pgdir p fs" using i by (simp add: inserted_def)
  show tr: "translate (mem p) sample_pgdir UTEXT = Some (leaf_pte 5 PTE_R)"
    using i by (simp add: inserted_def)
  have sub: "tables (mem p) sample_pgdir \<subseteq> page2kva ` {0, 1, 2, 3, 4}"
    using i by (auto simp: inserted_def tables_zero sample_pgdir_def sample_free_def)
  have "page2kva 5 \<noteq> page2kva q" if "q \<in> {0, 1, 2, 3, 4}" for q
    using that n(3) page2kva_inject [of 5 q] by auto
  with sub show "page2kva 5 \<notin> tables (mem p) sample_pgdir" by blast
  show "pp_ref p 5 = 1" using i by (simp add: inserted_def sample_free_def mapped_page_def sample_pstate_def)
  have "PTE_FLAGS PTE_R = PTE_R"
    by (simp add: PTE_FLAGS_def PTE_R_def GENMASK_0 mask_eq_exp_minus_1)
  then show "mapped_page p sample_pgdir UTEXT = Some 5"
    using pa2page_page2pa [of 5 p] n by (simp add: mapped_page_def tr)
  show "no_huge (mem p) sample_pgdir UTEXT" using i by (simp add: inserted_def)
qed

theorem page_remove_refines_witness:
  "\<exists>p p'. page_insert sample_pstate sample_pgdir 7 5 UTEXT PTE_R = Some (0, p)
     \<and> page_remove p sample_pgdir 7 UTEXT = Some p' \<and> translate (mem p') sample_pgdir UTEXT = None"
proof -
  obtain p fs where p: "page_insert sample_pstate sample_pgdir 7 5 UTEXT PTE_R = Some (0, p)"
    and i: "inserted sample_pgdir UTEXT 5 PTE_R sample_pstate sample_free p fs" by (rule sample_insert)
  note m = sample_mapped [OF i]
  have "pp_ref p 5 \<noteq> 0" using m(4) by simp
  from page_remove_refines [OF m(1,2,3) this m(5), of 7] p show ?thesis by auto
qed

text \<open>\<^verbatim>\<open>page_lookup\<close> finds exactly what the address space translates: the mapped page and the
  address of its entry without changing the state, and \<^verbatim>\<open>NULL\<close> for an unmapped address, changing no
  translation.\<close>

theorem page_lookup_correct:
  assumes pre: "walk_pre g p fs" and nh: "no_huge (mem p) g va"
  shows "case translate (mem p) g va of
      None \<Rightarrow> \<exists>p'. page_lookup p g va = Some (None, p')
        \<and> (\<forall>va'. translate (mem p') g va' = translate (mem p) g va')
    | Some e \<Rightarrow> \<exists>a. load_pte p a = e
        \<and> page_lookup p g va = map_option (\<lambda>pp. (Some (pp, a), p)) (pa2page p (PTE_ADDR e))"
proof (cases "translate (mem p) g va")
  case None
  from page_lookup_unmapped [OF pre None] None show ?thesis by (auto dest: walked_translate)
next
  case (Some e)
  from mapped_tab [OF nh Some] obtain t where t: "tab (mem p) g [P1X va, P2X va] = Some t"
    "entry (mem p) t (P3X va) = e" "pte_valid e" by blast
  from t(2,3) pgdir_walk_found [OF t(1), of 0]
  have "page_lookup p g va = map_option (\<lambda>pp. (Some (pp, slot t (P3X va)), p)) (pa2page p (PTE_ADDR e))"
    by (cases "pa2page p (PTE_ADDR e)")
      (simp_all add: page_lookup_def load_pte_def entry_def pte_invalid_iff)
  moreover have "load_pte p (slot t (P3X va)) = e" using t(2) by (simp add: load_pte_def entry_def)
  ultimately show ?thesis using Some by auto
qed

theorem page_lookup_correct_witness:
  "\<exists>p a. page_insert sample_pstate sample_pgdir 7 5 UTEXT PTE_R = Some (0, p)
     \<and> page_lookup p sample_pgdir UTEXT = Some (Some (5, a), p)"
proof -
  obtain p fs where p: "page_insert sample_pstate sample_pgdir 7 5 UTEXT PTE_R = Some (0, p)"
    and i: "inserted sample_pgdir UTEXT 5 PTE_R sample_pstate sample_free p fs" by (rule sample_insert)
  note m = sample_mapped [OF i]
  have "pa2page p (PTE_ADDR (leaf_pte 5 PTE_R)) = Some 5" using m(3,6) by (simp add: mapped_page_def)
  with page_lookup_correct [OF m(1,2)] m(6) p show ?thesis by auto
qed

text \<open>C2: Isolation.  A successful \<^verbatim>\<open>page_insert\<close> into one page directory changes no translation of any
  other page directory whose tables on the way are neither tables of the first nor free pages.\<close>

theorem page_insert_isolation:
  assumes pre: "walk_pre g p fs" "no_huge (mem p) g va" "replaceable g va pp p" "pp \<notin> set fs"
    and other: "\<forall>t \<in> on_path (mem p) g' va'. page_aligned t \<and> t \<notin> tables (mem p) g \<and> t \<notin> page2kva ` set fs"
    and ok: "page_insert p g asid pp va perm = Some (0, p')"
  shows "translate (mem p') g' va' = translate (mem p) g' va'"
proof -
  have "\<exists>fs'. inserted g va pp perm p fs p' fs'"
  proof (cases "translate (mem p) g va = None")
    case True
    from page_insert_unmapped [OF pre(1) True pre(4), of asid perm] ok show ?thesis by (auto simp: errno)
  next
    case False
    from page_insert_mapped [OF pre(1,2) False pre(3,4), of asid perm] ok show ?thesis by auto
  qed
  with other show ?thesis by (intro translate_on_path) (auto simp: inserted_def)
qed

theorem page_insert_isolation_witness:
  "\<exists>p'. page_insert sample_pstate sample_pgdir 7 5 UTEXT PTE_R = Some (0, p')
     \<and> translate (mem p') (page2kva 6) UTEXT = None"
proof -
  obtain p fs where p: "page_insert sample_pstate sample_pgdir 7 5 UTEXT PTE_R = Some (0, p)"
    by (rule sample_insert)
  have m: "(q::nat) < 7 \<Longrightarrow> q < max_pages" for q by (simp add: max_pages_def)
  have "page2kva 6 \<noteq> page2kva q" if "q < 6" for q using that m page2kva_inject [of 6 q] by auto
  then have "\<forall>t \<in> on_path (mem sample_pstate) (page2kva 6) UTEXT. page_aligned t
      \<and> t \<notin> tables (mem sample_pstate) sample_pgdir \<and> t \<notin> page2kva ` set sample_free"
    by (auto simp: on_path_def tab_zero tables_zero sample_pgdir_def sample_free_def split: if_splits)
  moreover have "no_huge (mem sample_pstate) sample_pgdir UTEXT" "replaceable sample_pgdir UTEXT 5 sample_pstate"
    "5 \<notin> set sample_free"
    by (simp_all add: no_huge_iff replaceable_def sample_free_def del: tab.simps)
  ultimately show ?thesis using page_insert_isolation [OF sample_pre _ _ _ _ p] p by auto
qed

text \<open>\<^verbatim>\<open>va2pa\<close> agrees with the address space on 4 KiB pages: the physical address of the entry
  joined with the page offset, or all ones when the address is not mapped.\<close>

theorem va2pa_correct:
  assumes "no_huge (mem p) g va"
  shows "va2pa p g va = (case translate (mem p) g va of None \<Rightarrow> NOT 0
           | Some e \<Rightarrow> PTE_ADDR e OR (va AND GENMASK 11 0))"
  by (rule va2pa_translate [OF assms])

theorem va2pa_correct_witness:
  "\<exists>p. page_insert sample_pstate sample_pgdir 7 5 UTEXT PTE_R = Some (0, p)
     \<and> va2pa p sample_pgdir UTEXT = page2pa 5"
proof -
  obtain p fs where p: "page_insert sample_pstate sample_pgdir 7 5 UTEXT PTE_R = Some (0, p)"
    and i: "inserted sample_pgdir UTEXT 5 PTE_R sample_pstate sample_free p fs" by (rule sample_insert)
  note m = sample_mapped [OF i]
  have "PTE_ADDR (leaf_pte 5 PTE_R) = page2pa 5"
    by (rule leaf_pte_addr) (simp_all add: max_pages_def PTE_FLAGS_def PTE_R_def GENMASK_0 mask_eq_exp_minus_1)
  moreover have "UTEXT AND GENMASK 11 0 = 0" by (simp add: layout GENMASK_0 mask_eq_exp_minus_1)
  ultimately show ?thesis using va2pa_correct [OF m(2)] m(6) p by auto
qed

text \<open>The walk ignores its \<^verbatim>\<open>create\<close> argument below the first level: even with \<^verbatim>\<open>create = 0\<close>, when
  the first-level entry is valid and the second-level entry is not, it takes a page from the pool,
  links it as a table and returns an entry of it.\<close>

theorem pgdir_walk_allocates_without_create:
  assumes "walk_pre g p (n # fs)" "tab (mem p) g [P1X va] = Some t"
    and "tab (mem p) g [P1X va, P2X va] = None" "no_huge (mem p) g va"
  shows "\<exists>p'. pgdir_walk p g va 0 = Some ((0, Some (slot (page2kva n) (P3X va))), p')
    \<and> pool p' fs \<and> tab (mem p') g [P1X va, P2X va] = Some (page2kva n)"
  using pgdir_walk_level2 [OF assms, of 0] by (auto simp: walked_def)

text \<open>The machine with page 6 linked as the second-level table of address 0.\<close>

definition sample_linked :: pstate where
  "sample_linked = sample_pstate\<lparr>mem := store64 (\<lambda>_. 0) (slot sample_pgdir (P1X 0)) (non_leaf_pte 6)\<rparr>"

lemma sample_linked_pre:
  "walk_pre sample_pgdir sample_linked sample_free"
  "tab (mem sample_linked) sample_pgdir [P1X 0] = Some (page2kva 6)"
  "tab (mem sample_linked) sample_pgdir [P1X 0, P2X 0] = None"
  "no_huge (mem sample_linked) sample_pgdir 0"
proof -
  let ?m = "store64 (\<lambda>_. 0) (slot sample_pgdir (P1X 0)) (non_leaf_pte 6)"
  have w: "wf_pt (\<lambda>_. 0) sample_pgdir 8 (set sample_free)"
    using walk_preD(2) [OF sample_pre] by (simp add: sample_pstate_def)
  have k: "page2kva 6 \<noteq> page2kva 0" using page2kva_inject [of 6 0] by (simp add: max_pages_def)
  have l: "links (\<lambda>_. 0) ?m sample_pgdir [] sample_pgdir (P1X 0) 6"
    by (rule store_links(1) [OF w])
      (use k in \<open>simp_all add: tables_zero sample_pgdir_def max_pages_def\<close>)
  have m: "mem sample_linked = ?m" by (simp add: sample_linked_def)
  have "wf_pt ?m sample_pgdir 8 (set sample_free)"
    by (rule wf_pt_links [OF w l]) (simp_all add: sample_free_def)
  then show "walk_pre sample_pgdir sample_linked sample_free"
    using sample_pool by (simp add: walk_pre_def pool_def sample_linked_def sample_pstate_def)
  show "tab (mem sample_linked) sample_pgdir [P1X 0] = Some (page2kva 6)"
    using tab_links [OF w l, of "[P1X 0]"] by (simp add: m del: tab.simps)
  show "tab (mem sample_linked) sample_pgdir [P1X 0, P2X 0] = None"
    using tab_links [OF w l, of "[P1X 0, P2X 0]"] by (simp add: m tab_zero del: tab.simps)
  show "no_huge (mem sample_linked) sample_pgdir 0"
    using translate_links [OF w l] by (simp add: no_huge_iff m del: tab.simps)
qed

theorem pgdir_walk_allocates_without_create_witness:
  "\<exists>p'. pgdir_walk sample_linked sample_pgdir 0 0 = Some ((0, Some (slot (page2kva 1) (P3X 0))), p')
     \<and> pool p' [2, 3, 4]"
  using pgdir_walk_allocates_without_create [of sample_pgdir sample_linked 1 "[2, 3, 4]" 0]
    sample_linked_pre by (auto simp: sample_free_def simp del: tab.simps)

end
