(* ===== verification/Elf.thy ===== *)
theory Elf
  imports CString Mmu
begin

text \<open>
  The ELF loader of \<^verbatim>\<open>lib/elfloader.c\<close>: header check and segment loading through a page-mapping
  callback.  Headers are read from byte memory at the offsets of \<^verbatim>\<open>Elf64_Ehdr\<close> and
  \<^verbatim>\<open>Elf64_Phdr\<close> (\<^verbatim>\<open>include/elf.h\<close>).  The callback and its context are the parameters
  \<open>map_page\<close> and \<open>s\<close>: the callback gets \<^verbatim>\<open>va\<close>, \<^verbatim>\<open>offset\<close>, \<^verbatim>\<open>perm\<close>, \<^verbatim>\<open>src\<close>
  (\<^term>\<open>None\<close> is \<^verbatim>\<open>NULL\<close>) and \<^verbatim>\<open>len\<close>.
\<close>

section \<open>Headers\<close>

record Elf64_Ehdr =
  e_ident :: "u8 list"
  e_type :: u64
  e_entry :: u64
  e_phoff :: u64
  e_phentsize :: u64
  e_phnum :: u64

definition sizeof_Ehdr :: u64 where "sizeof_Ehdr = 64"

definition read_Ehdr :: "memory \<Rightarrow> u64 \<Rightarrow> Elf64_Ehdr" where
  "read_Ehdr m b = \<lparr>e_ident = [m b, m (b + 1), m (b + 2), m (b + 3)],
     e_type = load16 m (b + 16), e_entry = load64 m (b + 24), e_phoff = load64 m (b + 32),
     e_phentsize = load16 m (b + 54), e_phnum = load16 m (b + 56)\<rparr>"

record Elf64_Phdr =
  p_type :: u64
  p_flags :: u64
  p_offset :: u64
  p_vaddr :: u64
  p_filesz :: u64
  p_memsz :: u64

definition read_Phdr :: "memory \<Rightarrow> u64 \<Rightarrow> Elf64_Phdr" where
  "read_Phdr m b = \<lparr>p_type = load32 m b, p_flags = load32 m (b + 4), p_offset = load64 m (b + 8),
     p_vaddr = load64 m (b + 16), p_filesz = load64 m (b + 32), p_memsz = load64 m (b + 40)\<rparr>"

definition PT_LOAD :: u64 where "PT_LOAD = 1"
definition PF_X :: u64 where "PF_X = 1"
definition PF_W :: u64 where "PF_W = 2"

definition elf_from :: "memory \<Rightarrow> u64 \<Rightarrow> u64 \<Rightarrow> Elf64_Ehdr option" where
  "elf_from m binary sz =
     (let ehdr = read_Ehdr m binary in
      if sz \<ge> sizeof_Ehdr \<and> e_ident ehdr ! 0 = 0x7f \<and> e_ident ehdr ! 1 = 0x45
         \<and> e_ident ehdr ! 2 = 0x4c \<and> e_ident ehdr ! 3 = 0x46 \<and> e_type ehdr = 2
      then Some ehdr else None)"

section \<open>Loading a segment\<close>

type_synonym 's elf_mapper = "'s \<Rightarrow> u64 \<Rightarrow> u64 \<Rightarrow> u64 \<Rightarrow> u64 option \<Rightarrow> u64 \<Rightarrow> (int \<times> 's) option"

definition elf_perm :: "Elf64_Phdr \<Rightarrow> u64" where
  "elf_perm ph =
     (let perm = PTE_V OR PTE_R OR PTE_USER;
          perm = (if p_flags ph AND PF_W \<noteq> 0 then perm OR PTE_W else perm)
      in if p_flags ph AND PF_X \<noteq> 0 then perm OR PTE_X else perm)"

text \<open>The two loops return the error code of a failing callback, or 0 and the offset reached.\<close>

partial_function (option) elf_load_file ::
  "'s elf_mapper \<Rightarrow> 's \<Rightarrow> u64 \<Rightarrow> u64 \<Rightarrow> u64 \<Rightarrow> u64 \<Rightarrow> u64 \<Rightarrow> ((int \<times> u64) \<times> 's) option" where
  "elf_load_file map_page s va bin bin_size perm i =
     (if i < bin_size
      then do { (r, s) \<leftarrow> map_page s (va + i) 0 perm (Some (bin + i)) (min (bin_size - i) PAGE_SIZE);
                if r \<noteq> 0 then Some ((r, i), s)
                else elf_load_file map_page s va bin bin_size perm (i + PAGE_SIZE) }
      else Some ((0, i), s))"

partial_function (option) elf_load_zero ::
  "'s elf_mapper \<Rightarrow> 's \<Rightarrow> u64 \<Rightarrow> u64 \<Rightarrow> u64 \<Rightarrow> u64 \<Rightarrow> (int \<times> 's) option" where
  "elf_load_zero map_page s va sgsize perm i =
     (if i < sgsize
      then do { (r, s) \<leftarrow> map_page s (va + i) 0 perm None (min (sgsize - i) PAGE_SIZE);
                if r \<noteq> 0 then Some (r, s)
                else elf_load_zero map_page s va sgsize perm (i + PAGE_SIZE) }
      else Some (0, s))"

definition elf_load_seg :: "'s elf_mapper \<Rightarrow> 's \<Rightarrow> Elf64_Phdr \<Rightarrow> u64 \<Rightarrow> (int \<times> 's) option" where
  "elf_load_seg map_page s ph bin =
     (let va = p_vaddr ph; bin_size = p_filesz ph; sgsize = p_memsz ph; perm = elf_perm ph;
          offset = va - ROUNDDOWN va PAGE_SIZE
      in do { (r, s) \<leftarrow> (if offset \<noteq> 0
                then map_page s va offset perm (Some bin) (min bin_size (PAGE_SIZE - offset))
                else Some (0, s));
              if r \<noteq> 0 then Some (r, s)
              else do { ((r, i), s) \<leftarrow> elf_load_file map_page s va bin bin_size perm
                          (if offset = 0 then 0 else PAGE_SIZE - offset);
                        if r \<noteq> 0 then Some (r, s)
                        else elf_load_zero map_page s va sgsize perm i } })"

end
