(* ===== verification/Env.thy ===== *)
theory Env
  imports PageMap Elf
begin

text \<open>
  Processes: \<^verbatim>\<open>kern/env.c\<close> and the structures of \<^verbatim>\<open>include/env.h\<close> and \<^verbatim>\<open>include/trap.h\<close>.

  A \<^verbatim>\<open>struct Env *\<close> is its index in \<^verbatim>\<open>envs\<close>; the link fields of the free list and of the
  scheduling queue are inside \<open>env_free_list\<close> and \<open>env_sched_list\<close>.  The kernel state holds
  the page state \<open>pm\<close> (see \<open>Pmap\<close>), the process table and the file-static variables of the
  C code: \<open>asid_bitmap\<close>, \<open>mkenvid_i\<close>, \<open>schedule_count\<close>.  \<open>kstack_tf\<close> is the trap frame at
  the top of the kernel stack, \<open>envs_va\<close> the link address of \<^verbatim>\<open>envs\<close>, and \<open>cpu\<close> the user
  context loaded by the last \<^verbatim>\<open>env_pop_tf\<close> (which never returns).  \<open>console\<close> collects the
  bytes the console system calls print, and \<open>kernel_buffer\<close> and \<open>kernel_buffer_size\<close> are the
  linker symbols behind \<^verbatim>\<open>KERNEL_BUFFER\<close>.
\<close>

section \<open>State\<close>

record Trapframe =
  regs :: "nat \<Rightarrow> u64"
  sstatus :: u64
  badvaddr :: u64
  scause :: u64
  sepc :: u64
  sip :: u64
  sie :: u64

definition LOG2NENV :: nat where "LOG2NENV = 10"
definition NENV :: nat where "NENV = 1024"

definition ENVX :: "u32 \<Rightarrow> nat" where
  "ENVX envid = unat (envid AND (of_nat NENV - 1))"

definition ENV_FREE :: u32 where "ENV_FREE = 0"
definition ENV_RUNNABLE :: u32 where "ENV_RUNNABLE = 1"
definition ENV_NOT_RUNNABLE :: u32 where "ENV_NOT_RUNNABLE = 2"

named_theorems envstatus "the process states, unfolded"

declare ENV_FREE_def [envstatus] ENV_RUNNABLE_def [envstatus] ENV_NOT_RUNNABLE_def [envstatus]

record Env =
  env_tf :: Trapframe
  env_id :: u32
  env_asid :: u16
  env_parent_id :: u32
  env_status :: u32
  env_pgdir :: u64
  env_pri :: u32
  env_in_syscall :: u32
  handler_function_va :: u64
  env_ipc_value :: u64
  env_ipc_from :: u32
  env_ipc_recving :: u32
  env_ipc_dstva :: u64
  env_ipc_perm :: u32
  env_ipc_recv_from :: u32
  env_user_tlb_mod_entry :: u64
  env_runs :: u64
  env_name :: "u8 list"

definition sizeof_Env :: u64 where "sizeof_Env = 456"

record kstate =
  pm :: pstate
  envs :: "nat \<Rightarrow> Env"
  envs_va :: u64
  curenv :: "nat option"
  env_free_list :: "nat LIST"
  env_sched_list :: "nat TAILQ"
  base_pgdir :: u64
  asid_bitmap :: "nat \<Rightarrow> u32"
  mkenvid_i :: u32
  cur_pgdir :: u64
  schedule_count :: int
  kstack_tf :: Trapframe
  cpu :: "(Trapframe \<times> u16 \<times> u64) option"
  console :: "u8 list"
  kernel_buffer :: u64
  kernel_buffer_size :: u64

definition upd_env :: "kstate \<Rightarrow> nat \<Rightarrow> (Env \<Rightarrow> Env) \<Rightarrow> kstate" where
  "upd_env k e f = k\<lparr>envs := (envs k)(e := f (envs k e))\<rparr>"

definition SSTATUS_SPIE :: u64 where "SSTATUS_SPIE = GENMASK 5 5"
definition SIE_STIE :: u64 where "SIE_STIE = GENMASK 5 5"
definition SIE_SEIE :: u64 where "SIE_SEIE = GENMASK 9 9"

section \<open>Address-space identifiers\<close>

fun asid_scan :: "nat list \<Rightarrow> (nat \<Rightarrow> u32) \<Rightarrow> nat option" where
  "asid_scan [] bm = None"
| "asid_scan (i # is) bm =
     (let index = i div 32; inner = i mod 32 in
      if bm index AND push_bit inner 1 = 0 then Some i else asid_scan is bm)"

definition asid_alloc :: "kstate \<Rightarrow> (int + u16) \<times> kstate" where
  "asid_alloc k =
     (case asid_scan [0..<NASID] (asid_bitmap k) of
        None \<Rightarrow> (Inl (- E_NO_FREE_ENV), k)
      | Some i \<Rightarrow>
          (Inr (of_nat i),
           k\<lparr>asid_bitmap := (asid_bitmap k)(i div 32 := asid_bitmap k (i div 32) OR push_bit (i mod 32) 1)\<rparr>))"

definition asid_free :: "u16 \<Rightarrow> kstate \<Rightarrow> kstate" where
  "asid_free asid k =
     (let index = unat (drop_bit 5 asid); inner = unat (asid AND 31)
      in k\<lparr>asid_bitmap := (asid_bitmap k)(index := asid_bitmap k index AND NOT (push_bit inner 1))\<rparr>)"

section \<open>Identifiers\<close>

definition mkenvid :: "nat \<Rightarrow> kstate \<Rightarrow> u32 \<times> kstate" where
  "mkenvid e k =
     (let i = mkenvid_i k + 1
      in (push_bit (1 + LOG2NENV) i OR of_nat e, k\<lparr>mkenvid_i := i\<rparr>))"

text \<open>The result is the error code or \<^verbatim>\<open>*penv\<close>; for \<^verbatim>\<open>envid = 0\<close> the latter may be \<^verbatim>\<open>NULL\<close>.\<close>

definition envid2env :: "kstate \<Rightarrow> u32 \<Rightarrow> int \<Rightarrow> (int + nat option) option" where
  "envid2env k envid checkperm =
     (if envid = 0 then Some (Inr (curenv k))
      else
        (let e = ENVX envid in
         if env_status (envs k e) = ENV_FREE \<or> env_id (envs k e) \<noteq> envid
         then Some (Inl (- E_BAD_ENV))
         else if checkperm \<noteq> 0
         then (case curenv k of
                 None \<Rightarrow> None
               | Some c \<Rightarrow>
                   if e \<noteq> c \<and> env_parent_id (envs k e) \<noteq> env_id (envs k c)
                   then Some (Inl (- E_BAD_ENV)) else Some (Inr (Some e)))
         else Some (Inr (Some e))))"

section \<open>Initialisation\<close>

partial_function (option) map_segment_loop ::
  "pstate \<Rightarrow> u64 \<Rightarrow> u64 \<Rightarrow> u64 \<Rightarrow> u64 \<Rightarrow> u64 \<Rightarrow> u64 \<Rightarrow> u32 \<Rightarrow> pstate option" where
  "map_segment_loop p pgdir asid pa va sz perm i =
     (if ucast i < sz
      then do { pp \<leftarrow> pa2page p (pa + ucast i);
                (_, p) \<leftarrow> page_insert p pgdir asid pp (va + ucast i) perm;
                map_segment_loop p pgdir asid pa va sz perm (i + 4096) }
      else Some p)"

definition map_segment :: "pstate \<Rightarrow> u64 \<Rightarrow> u64 \<Rightarrow> u64 \<Rightarrow> u64 \<Rightarrow> u64 \<Rightarrow> u64 \<Rightarrow> pstate option" where
  "map_segment p pgdir asid pa va sz perm =
     (if pa mod PAGE_SIZE \<noteq> 0 then None
      else if va mod PAGE_SIZE \<noteq> 0 then None
      else if sz mod PAGE_SIZE \<noteq> 0 then None
      else map_segment_loop p pgdir asid pa va sz perm 0)"

text \<open>The loop of \<^verbatim>\<open>env_init\<close> over \<^verbatim>\<open>envs\<close>, last index first.\<close>

definition env_init_free :: "kstate \<Rightarrow> kstate" where
  "env_init_free k =
     fold (\<lambda>i k. let idx = NENV - i - 1;
                    k = upd_env k idx (env_status_update (\<lambda>_. ENV_FREE))
                in k\<lparr>env_free_list := LIST_INSERT_HEAD (env_free_list k) idx\<rparr>) [0..<NENV] k"

definition env_init :: "kstate \<Rightarrow> kstate option" where
  "env_init k =
     do { let k = k\<lparr>env_free_list := LIST_INIT (env_free_list k),
                    env_sched_list := TAILQ_INIT (env_sched_list k)\<rparr>;
          let k = env_init_free k;
          (r, p) \<leftarrow> page_alloc (pm k);
          (case r of
             Inl _ \<Rightarrow> None
           | Inr pp \<Rightarrow>
               do { let p = set_ref p pp (pp_ref p pp + 1);
                    let base = page2kva pp;
                    let p = p\<lparr>mem := memcpy (mem p) (base + 8 * P1X HIGH_ADDR_IMM)
                                 (kernel_boot_pgdir + 8 * P1X HIGH_ADDR_IMM)
                                 (unat (0x1FF - P1X HIGH_ADDR_IMM + 1))\<rparr>;
                    p \<leftarrow> map_segment p base 0 (PADDR (pages p)) UPAGES
                           (ROUND (npage p * sizeof_Page) PAGE_SIZE) (PTE_USER OR PTE_RO OR PTE_GLOBAL);
                    p \<leftarrow> map_segment p base 0 (PADDR (envs_va k)) UENVS
                           (ROUND (of_nat NENV * sizeof_Env) PAGE_SIZE) (PTE_USER OR PTE_RO OR PTE_GLOBAL);
                    Some (k\<lparr>pm := p, base_pgdir := base\<rparr>) }) }"

section \<open>Creation\<close>

text \<open>The result is 0 or an error code.\<close>

definition env_setup_vm :: "nat \<Rightarrow> kstate \<Rightarrow> (int \<times> kstate) option" where
  "env_setup_vm e k =
     do { (r, p) \<leftarrow> page_alloc (pm k);
          (case r of
             Inl err \<Rightarrow> Some (err, k\<lparr>pm := p\<rparr>)
           | Inr pp \<Rightarrow>
               (let p = set_ref p pp (pp_ref p pp + 1);
                    pgdir = page2kva pp;
                    m = memcpy (mem p) (pgdir + 8 * P1X UTOP) (base_pgdir k + 8 * P1X UTOP)
                          (unat (8 * (P1X UVPT - P1X UTOP)));
                    m = memcpy m (pgdir + 8 * P1X HIGH_ADDR_IMM)
                          (kernel_boot_pgdir + 8 * P1X HIGH_ADDR_IMM)
                          (unat (0x1FF - P1X HIGH_ADDR_IMM + 1))
                in Some (0, upd_env (k\<lparr>pm := p\<lparr>mem := m\<rparr>\<rparr>) e (env_pgdir_update (\<lambda>_. pgdir))))) }"

definition env_alloc :: "u32 \<Rightarrow> kstate \<Rightarrow> ((int + nat) \<times> kstate) option" where
  "env_alloc parent_id k =
     (case LIST_FIRST (env_free_list k) of
        None \<Rightarrow> Some (Inl (- E_NO_FREE_ENV), k)
      | Some e \<Rightarrow>
          do { (r, k) \<leftarrow> env_setup_vm e k;
               if r \<noteq> 0 then Some (Inl r, k)
               else
                 do { let k = upd_env k e (\<lambda>v. v\<lparr>env_user_tlb_mod_entry := 0, env_runs := 0\<rparr>);
                      let (newid, k) = mkenvid e k;
                      let k = upd_env k e (env_id_update (\<lambda>_. newid));
                      let (r, k) = asid_alloc k;
                      (case r of
                         Inl err \<Rightarrow> Some (Inl err, k)
                       | Inr asid \<Rightarrow>
                           do { let k = upd_env k e (\<lambda>v. v\<lparr>env_asid := asid, env_parent_id := parent_id,
                                  env_in_syscall := 0, handler_function_va := 0, env_ipc_recv_from := 0,
                                  env_tf := (env_tf v)\<lparr>sstatus := SSTATUS_SPIE, sie := SIE_STIE OR SIE_SEIE,
                                    regs := (regs (env_tf v))(2 := USTACKTOP - 4 - 8)\<rparr>\<rparr>);
                                fl \<leftarrow> LIST_REMOVE (env_free_list k) e;
                                Some (Inr e, k\<lparr>env_free_list := fl\<rparr>) }) } })"

definition load_icode_mapper :: "nat \<Rightarrow> kstate elf_mapper" where
  "load_icode_mapper e k va offset perm src len =
     do { (r, p) \<leftarrow> page_alloc (pm k);
          (case r of
             Inl err \<Rightarrow> Some (err, k\<lparr>pm := p\<rparr>)
           | Inr pp \<Rightarrow>
               do { let p = (case src of
                        None \<Rightarrow> p
                      | Some a \<Rightarrow> p\<lparr>mem := memcpy (mem p) (page2kva pp + offset) a (unat len)\<rparr>);
                    (ret, p) \<leftarrow> page_insert p (env_pgdir (envs k e)) (ucast (env_asid (envs k e))) pp va perm;
                    Some (ret, k\<lparr>pm := p\<rparr>) }) }"

primrec load_icode_loop :: "nat \<Rightarrow> nat \<Rightarrow> u64 \<Rightarrow> u64 \<Rightarrow> u64 \<Rightarrow> kstate \<Rightarrow> kstate option" where
  "load_icode_loop 0 e binary phentsize ph_off k = Some k"
| "load_icode_loop (Suc n) e binary phentsize ph_off k =
     (let ph = read_Phdr (mem (pm k)) (binary + ph_off) in
      if p_type ph = PT_LOAD
      then do { (r, k) \<leftarrow> elf_load_seg (load_icode_mapper e) k ph (binary + p_offset ph);
                if r \<noteq> 0 then None
                else load_icode_loop n e binary phentsize (ph_off + phentsize) k }
      else load_icode_loop n e binary phentsize (ph_off + phentsize) k)"

definition load_icode :: "nat \<Rightarrow> u64 \<Rightarrow> u64 \<Rightarrow> kstate \<Rightarrow> kstate option" where
  "load_icode e binary sz k =
     (case elf_from (mem (pm k)) binary sz of
        None \<Rightarrow> None
      | Some ehdr \<Rightarrow>
          do { k \<leftarrow> load_icode_loop (unat (e_phnum ehdr)) e binary (e_phentsize ehdr) (e_phoff ehdr) k;
               Some (upd_env k e (env_tf_update (sepc_update (\<lambda>_. e_entry ehdr)))) })"

text \<open>\<open>name\<close> holds the bytes of \<^verbatim>\<open>env_name\<close> before its NUL; the result \<^term>\<open>None\<close> inside is \<^verbatim>\<open>NULL\<close>.\<close>

definition env_create :: "u8 list \<Rightarrow> u64 \<Rightarrow> u64 \<Rightarrow> u32 \<Rightarrow> kstate \<Rightarrow> (nat option \<times> kstate) option" where
  "env_create name binary sz priority k =
     do { (r, k) \<leftarrow> env_alloc 0 k;
          (case r of
             Inl _ \<Rightarrow> Some (None, k)
           | Inr e \<Rightarrow>
               do { let k = upd_env k e (\<lambda>v. v\<lparr>env_pri := priority, env_status := ENV_RUNNABLE, env_name := name\<rparr>);
                    k \<leftarrow> load_icode e binary sz k;
                    Some (Some e, k\<lparr>env_sched_list := TAILQ_INSERT_HEAD (env_sched_list k) e\<rparr>) }) }"

section \<open>Destruction\<close>

definition env_free_p3 :: "u64 \<Rightarrow> u64 \<Rightarrow> nat \<Rightarrow> nat \<Rightarrow> u64 \<Rightarrow> nat \<Rightarrow> pstate \<Rightarrow> pstate option" where
  "env_free_p3 pgdir asid p1no p2no p3 p3no p =
     (if load_pte p (p3 + 8 * of_nat p3no) AND PTE_V = 0 then Some p
      else page_remove p pgdir asid
             (push_bit P1SHIFT (of_nat p1no) OR push_bit P2SHIFT (of_nat p2no) OR push_bit P3SHIFT (of_nat p3no)))"

definition env_free_p2 :: "u64 \<Rightarrow> u64 \<Rightarrow> nat \<Rightarrow> u64 \<Rightarrow> nat \<Rightarrow> pstate \<Rightarrow> pstate option" where
  "env_free_p2 pgdir asid p1no p2 p2no p =
     (let p2_entry = p2 + 8 * of_nat p2no in
      if load_pte p p2_entry AND PTE_V = 0 then Some p
      else if \<not> PTE_IS_NON_LEAF (load_pte p p2_entry) then None
      else
        do { let p2pa = PTE_ADDR (load_pte p p2_entry);
             p \<leftarrow> for_each [0..<512] (env_free_p3 pgdir asid p1no p2no (P2KADDR p2pa)) p;
             let p = store_pte p p2_entry 0;
             pp \<leftarrow> pa2page p p2pa;
             page_decref p pp })"

definition env_free_p1 :: "u64 \<Rightarrow> u64 \<Rightarrow> nat \<Rightarrow> pstate \<Rightarrow> pstate option" where
  "env_free_p1 pgdir asid p1no p =
     (let p1_entry = pgdir + 8 * of_nat p1no in
      if load_pte p p1_entry AND PTE_V = 0 then Some p
      else if \<not> PTE_IS_NON_LEAF (load_pte p p1_entry) then None
      else
        do { let p1pa = PTE_ADDR (load_pte p p1_entry);
             p \<leftarrow> for_each [0..<512] (env_free_p2 pgdir asid p1no (P2KADDR p1pa)) p;
             let p = store_pte p p1_entry 0;
             pp \<leftarrow> pa2page p p1pa;
             page_decref p pp })"

definition env_free :: "nat \<Rightarrow> kstate \<Rightarrow> kstate option" where
  "env_free e k =
     (let pgdir = env_pgdir (envs k e); asid = ucast (env_asid (envs k e)) in
      do { p \<leftarrow> for_each [0..<unat (P1X UTOP)] (env_free_p1 pgdir asid) (pm k);
           pp \<leftarrow> pa2page p (PADDR pgdir);
           p \<leftarrow> page_decref p pp;
           let k = asid_free (env_asid (envs k e)) (k\<lparr>pm := p\<rparr>);
           let k = k\<lparr>pm := tlb (Tlb_flush_asid asid) (pm k)\<rparr>;
           let k = upd_env k e (env_status_update (\<lambda>_. ENV_FREE));
           let k = k\<lparr>env_free_list := LIST_INSERT_HEAD (env_free_list k) e\<rparr>;
           q \<leftarrow> TAILQ_REMOVE (env_sched_list k) e;
           Some (k\<lparr>env_sched_list := q\<rparr>) })"

section \<open>Context switch\<close>

text \<open>\<^verbatim>\<open>env_pop_tf\<close> (assembly) loads the context, the ASID and the page table, and enters user mode.\<close>

definition env_pop_tf :: "Trapframe \<Rightarrow> u16 \<Rightarrow> u64 \<Rightarrow> kstate \<Rightarrow> kstate" where
  "env_pop_tf tf asid p1_ppn k = k\<lparr>cpu := Some (tf, asid, p1_ppn)\<rparr>"

text \<open>Steps 1 to 4 of \<^verbatim>\<open>env_run\<close>.\<close>

definition env_switch :: "nat \<Rightarrow> kstate \<Rightarrow> kstate" where
  "env_switch e k =
     (let k = (case curenv k of
                 None \<Rightarrow> k
               | Some c \<Rightarrow> upd_env k c (env_tf_update (\<lambda>_. kstack_tf k)));
          k = upd_env (k\<lparr>curenv := Some e\<rparr>) e (\<lambda>v. v\<lparr>env_runs := env_runs v + 1\<rparr>);
          k = k\<lparr>cur_pgdir := env_pgdir (envs k e)\<rparr>
      in env_pop_tf (env_tf (envs k e)) (env_asid (envs k e))
           (drop_bit PAGE_SHIFT (PADDR (cur_pgdir k))) k)"

definition env_run :: "nat \<Rightarrow> kstate \<Rightarrow> kstate option" where
  "env_run e k = (if env_status (envs k e) \<noteq> ENV_RUNNABLE then None else Some (env_switch e k))"

section \<open>Mapping into every address space (\<^verbatim>\<open>kern/pmap.c\<close>)\<close>

definition kmap :: "u64 \<Rightarrow> u64 \<Rightarrow> u64 \<Rightarrow> u64 \<Rightarrow> kstate \<Rightarrow> kstate option" where
  "kmap va pa len perm k =
     do { p \<leftarrow> map_mem (pm k) kernel_boot_pgdir va pa len perm;
          p \<leftarrow> for_each [0..<NENV] (\<lambda>i p.
                 if env_status (envs k i) \<noteq> ENV_FREE
                 then map_mem p (env_pgdir (envs k i)) va pa len perm else Some p) p;
          Some (k\<lparr>pm := p\<rparr>) }"

definition kunmap :: "u64 \<Rightarrow> u64 \<Rightarrow> kstate \<Rightarrow> kstate option" where
  "kunmap va len k =
     do { p \<leftarrow> unmap_mem (pm k) kernel_boot_pgdir va len;
          p \<leftarrow> for_each [0..<NENV] (\<lambda>i p.
                 if env_status (envs k i) \<noteq> ENV_FREE
                 then unmap_mem p (env_pgdir (envs k i)) va len else Some p) p;
          Some (k\<lparr>pm := p\<rparr>) }"

end
