(* ===== verification/Sched.thy ===== *)
theory Sched
  imports Env
begin

text \<open>
  The round-robin scheduler (\<^verbatim>\<open>kern/sched.c\<close>) and \<^verbatim>\<open>env_destroy\<close>, which ends in it.  Both hand
  the CPU to a process and do not return; the result is the kernel state at that moment
  (\<^term>\<open>None\<close> is a panic).

  \<open>sched_inv\<close> is the invariant written above \<^verbatim>\<open>env_sched_list\<close> in \<^verbatim>\<open>kern/env.c\<close>: the queue
  holds exactly the runnable processes, each once, and the free list exactly the free ones.
\<close>

section \<open>Definitions\<close>

definition schedule :: "int \<Rightarrow> kstate \<Rightarrow> kstate option" where
  "schedule yield k =
     (let switch = (yield = 1 \<or> schedule_count k = 0
          \<or> (case curenv k of None \<Rightarrow> True | Some e \<Rightarrow> env_status (envs k e) \<noteq> ENV_RUNNABLE))
      in if switch
         then do { q \<leftarrow> (case curenv k of
                       None \<Rightarrow> Some (env_sched_list k)
                     | Some e \<Rightarrow>
                         if env_status (envs k e) = ENV_RUNNABLE
                         then do { q \<leftarrow> TAILQ_REMOVE (env_sched_list k) e; TAILQ_INSERT_TAIL q e }
                         else Some (env_sched_list k));
                   let k = k\<lparr>env_sched_list := q\<rparr>;
                   nextenv \<leftarrow> TAILQ_FIRST (env_sched_list k);
                   let k = k\<lparr>schedule_count := sint (env_pri (envs k nextenv)) - 1\<rparr>;
                   env_run nextenv k }
         else do { e \<leftarrow> curenv k; env_run e (k\<lparr>schedule_count := schedule_count k - 1\<rparr>) })"

text \<open>
  \<^verbatim>\<open>env_destroy\<close> returns to its caller unless the destroyed process is the current one; the
  flag tells whether it did.
\<close>

definition env_destroy :: "nat \<Rightarrow> kstate \<Rightarrow> (bool \<times> kstate) option" where
  "env_destroy e k =
     do { k \<leftarrow> env_free e k;
          if curenv k = Some e
          then map_option (Pair False) (schedule 1 (k\<lparr>curenv := None\<rparr>))
          else Some (True, k) }"

section \<open>The scheduling invariant\<close>

definition runnable :: "kstate \<Rightarrow> nat set" where
  "runnable k = {e. e < NENV \<and> env_status (envs k e) = ENV_RUNNABLE}"

definition sched_inv :: "kstate \<Rightarrow> nat list \<Rightarrow> bool" where
  "sched_inv k qs \<longleftrightarrow> TAILQ_rep (env_sched_list k) qs \<and> set qs = runnable k
     \<and> (\<forall>e. curenv k = Some e \<longrightarrow> e < NENV)"

lemma sched_inv_runnable: "sched_inv k qs \<Longrightarrow> e \<in> set qs \<longleftrightarrow> e < NENV \<and> env_status (envs k e) = ENV_RUNNABLE"
  by (auto simp: sched_inv_def runnable_def)

lemma sched_inv_rep: "sched_inv k qs \<Longrightarrow> TAILQ_rep (env_sched_list k) qs"
  by (simp add: sched_inv_def)

text \<open>Switching to a process makes it current and changes no status and no queue.\<close>

lemma env_switch_simps [simp]:
  "curenv (env_switch e k) = Some e"
  "env_sched_list (env_switch e k) = env_sched_list k"
  "env_free_list (env_switch e k) = env_free_list k"
  "pm (env_switch e k) = pm k"
  "schedule_count (env_switch e k) = schedule_count k"
  "env_status (envs (env_switch e k) x) = env_status (envs k x)"
  "env_pri (envs (env_switch e k) x) = env_pri (envs k x)"
  "env_pgdir (envs (env_switch e k) x) = env_pgdir (envs k x)"
  "env_id (envs (env_switch e k) x) = env_id (envs k x)"
  "cur_pgdir (env_switch e k) = env_pgdir (envs k e)"
  by (auto simp: env_switch_def env_pop_tf_def upd_env_def Let_def split: option.split)

lemma env_switch_context:
  "cpu (env_switch e k) =
     Some (if curenv k = Some e then kstack_tf k else env_tf (envs k e), env_asid (envs k e),
           drop_bit PAGE_SHIFT (PADDR (env_pgdir (envs k e))))"
  "env_runs (envs (env_switch e k) e) = env_runs (envs k e) + 1"
  "curenv k = Some c \<Longrightarrow> env_tf (envs (env_switch e k) c) = kstack_tf k"
  "curenv k \<noteq> Some x \<Longrightarrow> env_tf (envs (env_switch e k) x) = env_tf (envs k x)"
  by (auto simp: env_switch_def env_pop_tf_def upd_env_def Let_def split: option.split)

text \<open>Two versions of a process that differ at most in the saved context and the run count.\<close>

definition same_env :: "Env \<Rightarrow> Env \<Rightarrow> bool" where
  "same_env v w \<longleftrightarrow> w = v\<lparr>env_tf := env_tf w, env_runs := env_runs w\<rparr>"

lemma same_envD:
  assumes "same_env v w"
  shows "env_status w = env_status v" "env_id w = env_id v" "env_asid w = env_asid v"
    "env_parent_id w = env_parent_id v" "env_pgdir w = env_pgdir v" "env_pri w = env_pri v"
    "env_ipc_recving w = env_ipc_recving v" "env_ipc_dstva w = env_ipc_dstva v"
    "env_ipc_recv_from w = env_ipc_recv_from v" "env_ipc_value w = env_ipc_value v"
    "env_ipc_from w = env_ipc_from v"
proof -
  from assms have w: "w = v\<lparr>env_tf := env_tf w, env_runs := env_runs w\<rparr>" by (simp add: same_env_def)
  show "env_status w = env_status v" "env_id w = env_id v" "env_asid w = env_asid v"
    "env_parent_id w = env_parent_id v" "env_pgdir w = env_pgdir v" "env_pri w = env_pri v"
    "env_ipc_recving w = env_ipc_recving v" "env_ipc_dstva w = env_ipc_dstva v"
    "env_ipc_recv_from w = env_ipc_recv_from v" "env_ipc_value w = env_ipc_value v"
    "env_ipc_from w = env_ipc_from v"
    by (subst w, simp)+
qed

lemma env_switch_same: "same_env (envs k x) (envs (env_switch e k) x)"
  by (auto simp: same_env_def env_switch_def env_pop_tf_def upd_env_def Let_def split: option.split)

lemma schedule_same:
  assumes "schedule yield k = Some k'"
  shows "same_env (envs k x) (envs k' x)" "pm k' = pm k"
proof -
  from assms obtain e k1 where "env_run e k1 = Some k'" "envs k1 = envs k" "pm k1 = pm k"
    by (auto simp: schedule_def Let_def split: if_splits)
  then show "same_env (envs k x) (envs k' x)" "pm k' = pm k"
    using env_switch_same [of k1 x e] by (auto simp: env_run_def split: if_splits)
qed

text \<open>
  The queue after a switch: the current process, if still runnable, has moved to the tail.
\<close>

definition rotated :: "kstate \<Rightarrow> nat list \<Rightarrow> nat list" where
  "rotated k qs =
     (case curenv k of None \<Rightarrow> qs
      | Some e \<Rightarrow> if e \<in> set qs then remove1 e qs @ [e] else qs)"

lemma set_rotated: "distinct qs \<Longrightarrow> set (rotated k qs) = set qs"
  by (auto simp: rotated_def split: option.split)

lemma rotated_eq_Nil [simp]: "rotated k qs = [] \<longleftrightarrow> qs = []"
  by (auto simp: rotated_def split: option.split)

definition must_switch :: "int \<Rightarrow> kstate \<Rightarrow> bool" where
  "must_switch yield k \<longleftrightarrow> yield = 1 \<or> schedule_count k = 0
     \<or> (case curenv k of None \<Rightarrow> True | Some e \<Rightarrow> env_status (envs k e) \<noteq> ENV_RUNNABLE)"

lemma schedule_switch:
  assumes inv: "sched_inv k qs" and sw: "must_switch yield k" and ne: "qs \<noteq> []"
  shows "\<exists>k'. schedule yield k = Some k' \<and> sched_inv k' (rotated k qs)
    \<and> curenv k' = Some (hd (rotated k qs))
    \<and> schedule_count k' = sint (env_pri (envs k (hd (rotated k qs)))) - 1
    \<and> (\<forall>x. env_status (envs k' x) = env_status (envs k x)) \<and> (\<forall>x. env_pri (envs k' x) = env_pri (envs k x))"
proof -
  note rep = sched_inv_rep [OF inv]
  have d: "distinct qs" by (rule TAILQ_rep_distinct [OF rep])
  obtain q where q: "(case curenv k of None \<Rightarrow> Some (env_sched_list k)
      | Some e \<Rightarrow> if env_status (envs k e) = ENV_RUNNABLE
                  then do { q \<leftarrow> TAILQ_REMOVE (env_sched_list k) e; TAILQ_INSERT_TAIL q e }
                  else Some (env_sched_list k)) = Some q" "TAILQ_rep q (rotated k qs)"
  proof (cases "curenv k")
    case None
    with rep show ?thesis by (intro that) (simp_all add: rotated_def)
  next
    case (Some e)
    then have e: "e \<in> set qs \<longleftrightarrow> env_status (envs k e) = ENV_RUNNABLE"
      using sched_inv_runnable [OF inv, of e] inv unfolding sched_inv_def by blast
    show ?thesis
    proof (cases "e \<in> set qs")
      case True
      from tq.rep_rotate [OF rep True] obtain h1 h2 where
        "TAILQ_REMOVE (env_sched_list k) e = Some h1" "TAILQ_INSERT_TAIL h1 e = Some h2"
        "TAILQ_rep h2 (remove1 e qs @ [e])" by blast
      with Some e True show ?thesis by (intro that [of h2]) (simp_all add: rotated_def)
    next
      case False
      with Some e rep show ?thesis by (intro that) (simp_all add: rotated_def)
    qed
  qed
  obtain n rs where r: "rotated k qs = n # rs" using ne by (cases "rotated k qs") auto
  have n: "n \<in> set qs" using r set_rotated [OF d, of k] by (metis list.set_intros(1))
  let ?k = "k\<lparr>env_sched_list := q, schedule_count := sint (env_pri (envs k n)) - 1\<rparr>"
  have st: "env_status (envs k n) = ENV_RUNNABLE" "n < NENV"
    using n sched_inv_runnable [OF inv] by simp_all
  have "TAILQ_FIRST q = Some n" using TAILQ_FIRST_rep [OF q(2)] r by simp
  with sw q(1) st(1) have "schedule yield k = Some (env_switch n ?k)"
    unfolding schedule_def must_switch_def Let_def by (simp add: env_run_def)
  moreover have "sched_inv (env_switch n ?k) (rotated k qs)"
    using inv q(2) st set_rotated [OF d, of k] by (simp add: sched_inv_def runnable_def)
  ultimately show ?thesis using r by simp
qed

lemma schedule_stay:
  assumes inv: "sched_inv k qs" and st: "\<not> must_switch yield k"
  shows "\<exists>k' e. schedule yield k = Some k' \<and> sched_inv k' qs \<and> curenv k = Some e \<and> curenv k' = Some e
    \<and> schedule_count k' = schedule_count k - 1
    \<and> (\<forall>x. env_status (envs k' x) = env_status (envs k x)) \<and> (\<forall>x. env_pri (envs k' x) = env_pri (envs k x))"
proof -
  obtain e where e: "curenv k = Some e" "env_status (envs k e) = ENV_RUNNABLE"
    using st by (auto simp: must_switch_def split: option.splits)
  let ?k = "k\<lparr>schedule_count := schedule_count k - 1\<rparr>"
  have "schedule yield k = Some (env_switch e ?k)"
    using st e unfolding schedule_def must_switch_def Let_def by (simp add: env_run_def)
  with inv e show ?thesis by (simp add: sched_inv_def runnable_def)
qed

text \<open>With no runnable process the scheduler panics.\<close>

lemma schedule_empty:
  assumes inv: "sched_inv k []"
  shows "schedule yield k = None"
proof -
  have "env_status (envs k e) \<noteq> ENV_RUNNABLE" if "curenv k = Some e" for e
    using inv that by (auto simp: sched_inv_def runnable_def)
  moreover have "TAILQ_FIRST (env_sched_list k) = None"
    using TAILQ_FIRST_rep [OF sched_inv_rep [OF inv]] by simp
  ultimately show ?thesis
    by (auto simp: schedule_def Let_def split: option.splits)
qed

section \<open>Fairness\<close>

text \<open>Repeated yields of the running process.\<close>

definition yields :: "nat \<Rightarrow> kstate \<Rightarrow> kstate option" where
  "yields n = for_each [0..<n] (\<lambda>_. schedule 1)"

lemma yields_Suc: "yields (Suc n) k = Option.bind (yields n k) (schedule 1)"
  by (simp add: yields_def for_each_append del: for_each.simps(2))

lemma rotated_head:
  assumes "curenv k = Some (hd qs)" "qs \<noteq> []"
  shows "rotated k qs = rotate1 qs"
  using assms by (cases qs) (auto simp: rotated_def)

lemma yields_rotate:
  assumes "sched_inv k qs" "curenv k = Some (hd qs)" "qs \<noteq> []"
  shows "\<exists>k'. yields n k = Some k' \<and> sched_inv k' (rotate n qs) \<and> curenv k' = Some (hd (rotate n qs))"
proof (induction n)
  case 0
  then show ?case using assms by (auto simp: yields_def)
next
  case (Suc n)
  then obtain k1 where k1: "yields n k = Some k1" "sched_inv k1 (rotate n qs)"
    "curenv k1 = Some (hd (rotate n qs))" by blast
  have ne: "rotate n qs \<noteq> []" using assms(3) by simp
  from schedule_switch [OF k1(2) _ ne, of 1] rotated_head [OF k1(3) ne] k1(1)
  show ?case by (auto simp: must_switch_def yields_Suc rotate1_rotate_swap)
qed

text \<open>Timer ticks: the running process keeps the CPU for the rest of its time slice.\<close>

definition timer_ticks :: "nat \<Rightarrow> kstate \<Rightarrow> kstate option" where
  "timer_ticks n = for_each [0..<n] (\<lambda>_. schedule 0)"

lemma timer_ticks_Suc: "timer_ticks (Suc n) k = Option.bind (timer_ticks n k) (schedule 0)"
  by (simp add: timer_ticks_def for_each_append del: for_each.simps(2))

lemma timer_ticks_slice:
  assumes "sched_inv k qs" "curenv k = Some e" "e \<in> set qs" "int n \<le> schedule_count k"
  shows "\<exists>k'. timer_ticks n k = Some k' \<and> sched_inv k' qs \<and> curenv k' = Some e
    \<and> schedule_count k' = schedule_count k - int n"
  using assms(4)
proof (induction n)
  case 0
  then show ?case using assms by (auto simp: timer_ticks_def)
next
  case (Suc n)
  then obtain k1 where k1: "timer_ticks n k = Some k1" "sched_inv k1 qs" "curenv k1 = Some e"
    "schedule_count k1 = schedule_count k - int n" by auto
  have "\<not> must_switch 0 k1"
    using k1 assms(3) Suc.prems sched_inv_runnable [OF k1(2)] by (auto simp: must_switch_def)
  from schedule_stay [OF k1(2) this] k1 show ?case by (auto simp: timer_ticks_Suc)
qed

end
