(* ===== verification/EnvVm.thy ===== *)
theory EnvVm
  imports Env
begin

text \<open>
  The address space of a new process: what \<^verbatim>\<open>env_setup_vm\<close> leaves in the page directory, and
  the effect of \<^verbatim>\<open>env_alloc\<close> on every path.
\<close>

section \<open>Copying between page directories\<close>

lemma page_offset_inject:
  fixes t u :: u64
  assumes "page_aligned t" "page_aligned u" "i < 4096" "j < 4096" "t + of_nat i = u + of_nat j"
  shows "t = u"
proof -
  obtain a b where ab: "unat t = 4096 * a" "unat u = 4096 * b"
    using assms(1,2) unfolding page_aligned_def by (metis dvdE)
  have "unat (t + of_nat i) = unat t + i" "unat (u + of_nat j) = unat u + j"
    using assms(1-4) unat_add_offset [of 12] by (simp_all add: page_aligned_def)
  with assms(5) ab have e: "4096 * a + i = 4096 * b + j" by metis
  then have "(4096 * a + i) div 4096 = (4096 * b + j) div 4096" by simp
  with assms(3,4) have "a = b" by simp
  with ab have "unat t = unat u" by simp
  then show ?thesis by (simp only: word_unat_eq_iff)
qed

lemma apart_pages:
  assumes "page_aligned t" "page_aligned u" "t \<noteq> u" "8 * unat i + n \<le> 4096"
  shows "apart (slot t i) (slot u i) n"
  unfolding apart_def
proof (intro conjI allI impI)
  show "n < 2 ^ 64" using assms(4) by simp
  fix x y assume xy: "x < n" "y < n"
  have e: "slot t i + of_nat x = t + of_nat (8 * unat i + x)"
    "slot u i + of_nat y = u + of_nat (8 * unat i + y)"
    by (simp_all add: slot_def algebra_simps)
  show "slot t i + of_nat x \<noteq> slot u i + of_nat y"
  proof
    assume "slot t i + of_nat x = slot u i + of_nat y"
    then have "t = u"
      unfolding e by (rule page_offset_inject [OF assms(1,2), rotated 2]) (use assms(4) xy in simp_all)
    with assms(3) show False by simp
  qed
qed

text \<open>An entry of the destination after a copy of \<open>n\<close> entries starting at entry \<open>a\<close>.\<close>

lemma byte_of_slot:
  assumes "page_aligned t" "i < 512" "j < 8" "a < 512"
  shows "unat (slot t i + of_nat j - slot t a) =
    (if unat a \<le> unat i then 8 * (unat i - unat a) + j else 2 ^ 64 + 8 * unat i + j - 8 * unat a)"
proof -
  have ia: "unat i < 512" "unat a < 512" using assms(2,4) by (simp_all add: word_less_nat_alt)
  show ?thesis
  proof (cases "unat a \<le> unat i")
    case True
    have "slot t i + of_nat j - slot t a = of_nat (8 * (unat i - unat a) + j)"
      using True by (simp add: slot_def of_nat_diff algebra_simps)
    moreover have "unat (of_nat (8 * (unat i - unat a) + j) :: u64) = 8 * (unat i - unat a) + j"
      using ia assms(3) by (intro unat_of_nat64) simp
    ultimately show ?thesis using True by (simp only: if_True)
  next
    case False
    have "slot t i + of_nat j - slot t a = of_nat (2 ^ 64 + 8 * unat i + j - 8 * unat a)"
    proof -
      have "(of_nat (2 ^ 64 + 8 * unat i + j - 8 * unat a) :: u64)
          = of_nat (2 ^ 64) + of_nat (8 * unat i + j) - of_nat (8 * unat a)"
        using ia by (subst of_nat_diff) simp_all
      also have "(of_nat (2 ^ 64) :: u64) = 0" by simp
      finally show ?thesis by (simp add: slot_def algebra_simps)
    qed
    moreover have "8 * unat i + 8 \<le> 8 * unat a" using False by simp
    then have "unat (of_nat (2 ^ 64 + 8 * unat i + j - 8 * unat a) :: u64) = 2 ^ 64 + 8 * unat i + j - 8 * unat a"
      using ia assms(3) by (intro unat_of_nat64) simp
    ultimately show ?thesis using False by (simp only: if_False)
  qed
qed

lemma entry_copied:
  assumes "page_aligned t" "i < 512" "a < 512" "unat a + n \<le> 512"
  shows "entry (copy_bytes m (slot t a) (slot u a) (8 * n)) t i =
    (if unat a \<le> unat i \<and> unat i < unat a + n then entry m u i else entry m t i)"
proof (cases "unat a \<le> unat i \<and> unat i < unat a + n")
  case True
  have "copy_bytes m (slot t a) (slot u a) (8 * n) (slot t i + of_nat j) = m (slot u i + of_nat j)" if "j < 8" for j
  proof -
    have "8 * (unat i - unat a) + j < 8 * n" using True that by arith
    then have lt: "unat (slot t i + of_nat j - slot t a) < 8 * n"
      using byte_of_slot [OF assms(1,2) that assms(3)] True by simp
    have e: "slot u a + (slot t i + of_nat j - slot t a) = slot u i + of_nat j"
      by (simp add: slot_def algebra_simps)
    show ?thesis unfolding copy_bytes_def e using lt by (simp only: if_True)
  qed
  then have "load_le 8 (copy_bytes m (slot t a) (slot u a) (8 * n)) (slot t i) = load_le 8 m (slot u i)"
    by (intro bit_word_eqI) (auto simp: bit_load_le)
  with True show ?thesis by (simp add: entry_def load64_def)
next
  case False
  have i: "unat i < 512" "unat a < 512" using assms(2,3) by (simp_all add: word_less_nat_alt)
  have "\<not> unat (slot t i + of_nat j - slot t a) < 8 * n" if "j < 8" for j
    using byte_of_slot [OF assms(1,2) that assms(3)] False i that assms(4) by auto
  with False show ?thesis
    unfolding entry_def load64_def by (auto intro!: load_le_cong simp: copy_bytes_def)
qed

lemma entry_copied_other:
  assumes "page_aligned t" "page_aligned v" "v \<noteq> t" "i < 512" "a < 512" "unat a + n \<le> 512"
  shows "entry (copy_bytes m (slot t a) s (8 * n)) v i = entry m v i"
  unfolding entry_def load64_def
proof (rule load_le_cong)
  fix j :: nat assume j: "j < 8"
  have i: "unat i < 512" using assms(4) by (simp add: word_less_nat_alt)
  have "\<not> unat (slot v i + of_nat j - slot t a) < 8 * n"
  proof
    let ?d = "slot v i + of_nat j - slot t a"
    assume d: "unat ?d < 8 * n"
    have "v + of_nat (8 * unat i + j) = t + of_nat (8 * unat a + unat ?d)"
      by (simp add: slot_def algebra_simps)
    then have "v = t"
      by (rule page_offset_inject [OF assms(2,1), rotated 2]) (use d i j assms(6) in simp_all)
    with assms(3) show False by simp
  qed
  then show "copy_bytes m (slot t a) s (8 * n) (slot v i + of_nat j) = m (slot v i + of_nat j)"
    by (simp add: copy_bytes_def)
qed

section \<open>The new page directory\<close>

lemma P1X_layout: "P1X UTOP = 249" "P1X UVPT = 251" "P1X HIGH_ADDR_IMM = 256"
  by (simp_all add: P1X_def layout GENMASK_0 mask_eq_exp_minus_1 drop_bit_eq_div)

text \<open>
  The two copies into the cleared directory \<open>t\<close>: entries 249 and 250 come from the template
  \<open>b\<close>, entries 256 to 287 from the boot directory \<open>c\<close>, all others are invalid.
\<close>

definition setup_copy :: "memory \<Rightarrow> u64 \<Rightarrow> u64 \<Rightarrow> u64 \<Rightarrow> memory" where
  "setup_copy m t b c =
     copy_bytes (copy_bytes m (slot t 249) (slot b 249) (8 * 2)) (slot t 256) (slot c 256) (8 * 32)"

lemma setup_copy_entry:
  assumes "page_aligned t" "page_aligned b" "page_aligned c" "t \<noteq> b" "t \<noteq> c" "i < 512"
  shows "entry (setup_copy m t b c) t i =
    (if 249 \<le> i \<and> i < 251 then entry m b i
     else if 256 \<le> i \<and> i < 288 then entry m c i else entry m t i)"
    and "page_aligned v \<Longrightarrow> v \<noteq> t \<Longrightarrow> entry (setup_copy m t b c) v i = entry m v i"
proof -
  let ?m = "copy_bytes m (slot t 249) (slot b 249) (8 * 2)"
  have "entry ?m c i = entry m c i" if "i < 512" for i
    using entry_copied_other [OF assms(1,3) assms(5) [symmetric] that, of 249 2] by simp
  then show "entry (setup_copy m t b c) t i =
    (if 249 \<le> i \<and> i < 251 then entry m b i
     else if 256 \<le> i \<and> i < 288 then entry m c i else entry m t i)"
    using entry_copied [OF assms(1,6), of 256 32] entry_copied [OF assms(1,6), of 249 2] assms(6)
    unfolding setup_copy_def by (auto simp: word_less_nat_alt word_le_nat_alt)
  show "page_aligned v \<Longrightarrow> v \<noteq> t \<Longrightarrow> entry (setup_copy m t b c) v i = entry m v i"
    using entry_copied_other [OF assms(1) _ _ assms(6), of v 256 32] entry_copied_other [OF assms(1) _ _ assms(6), of v 249 2]
    unfolding setup_copy_def by simp
qed

lemma env_setup_vm_memcpy:
  assumes "page_aligned t" "page_aligned b" "page_aligned c" "t \<noteq> b" "t \<noteq> c"
  shows "memcpy (memcpy m (t + 8 * P1X UTOP) (b + 8 * P1X UTOP) (unat (8 * (P1X UVPT - P1X UTOP))))
      (t + 8 * P1X HIGH_ADDR_IMM) (c + 8 * P1X HIGH_ADDR_IMM) (unat (0x1FF - P1X HIGH_ADDR_IMM + 1))
    = setup_copy m t b c"
proof -
  have "memcpy m (slot t 249) (slot b 249) 16 = copy_bytes m (slot t 249) (slot b 249) 16"
    by (rule memcpy_copy_bytes, rule apart_pages) (use assms in simp_all)
  moreover have "memcpy x (slot t 256) (slot c 256) 256 = copy_bytes x (slot t 256) (slot c 256) 256" for x
    by (rule memcpy_copy_bytes, rule apart_pages) (use assms in simp_all)
  ultimately show ?thesis
    unfolding P1X_layout by (simp add: setup_copy_def slot_def)
qed

section \<open>env_setup_vm\<close>

lemma page_aligned_boot: "page_aligned kernel_boot_pgdir"
  by (simp add: page_aligned_def kernel_boot_pgdir_def)

definition vm_pre :: "kstate \<Rightarrow> nat list \<Rightarrow> bool" where
  "vm_pre k ps \<longleftrightarrow> pool (pm k) ps \<and> page_aligned (base_pgdir k)
     \<and> base_pgdir k \<notin> page2kva ` set ps \<and> kernel_boot_pgdir \<notin> page2kva ` set ps"

definition new_vm :: "kstate \<Rightarrow> nat \<Rightarrow> memory" where
  "new_vm k n = setup_copy (fill_bytes (mem (pm k)) (page2kva n) 0 4096) (page2kva n) (base_pgdir k) kernel_boot_pgdir"

lemma env_setup_vm_no_mem: "pool (pm k) [] \<Longrightarrow> env_setup_vm e k = Some (- E_NO_MEM, k)"
  by (simp add: env_setup_vm_def page_alloc_Nil)

lemma env_setup_vm_ok:
  assumes "vm_pre k (n # ns)"
  obtains fl where
    "env_setup_vm e k = Some (0, upd_env (k\<lparr>pm := (pm k)\<lparr>page_free_list := fl, pp_ref := (pp_ref (pm k))(n := 1), mem := new_vm k n\<rparr>\<rparr>) e (env_pgdir_update (\<lambda>_. page2kva n)))"
    "pool ((pm k)\<lparr>page_free_list := fl, pp_ref := (pp_ref (pm k))(n := 1), mem := new_vm k n\<rparr>) ns"
proof -
  have p: "pool (pm k) (n # ns)" and b: "page_aligned (base_pgdir k)" "page2kva n \<noteq> base_pgdir k"
    "page2kva n \<noteq> kernel_boot_pgdir"
    using assms by (auto simp: vm_pre_def)
  have n: "n \<notin> set ns" "pp_ref (pm k) n = 0" using p pool_distinct [OF p] by (auto simp: pool_def)
  obtain fl where fl: "page_alloc (pm k) = Some (Inr n, (zero_page (pm k) n)\<lparr>page_free_list := fl\<rparr>)"
    "pool ((zero_page (pm k) n)\<lparr>page_free_list := fl\<rparr>) ns"
    by (rule page_alloc_Cons [OF p])
  note c = env_setup_vm_memcpy [OF page_aligned_page2kva b(1) page_aligned_boot b(2,3)]
  have "env_setup_vm e k = Some (0, upd_env (k\<lparr>pm := (pm k)\<lparr>page_free_list := fl, pp_ref := (pp_ref (pm k))(n := 1), mem := new_vm k n\<rparr>\<rparr>) e (env_pgdir_update (\<lambda>_. page2kva n)))"
    using fl(1) n(2) c by (simp add: env_setup_vm_def Let_def set_ref_def zero_page_def new_vm_def)
  moreover have "pool ((pm k)\<lparr>page_free_list := fl, pp_ref := (pp_ref (pm k))(n := 1), mem := new_vm k n\<rparr>) ns"
    using fl(2) n(1) by (auto simp: pool_def zero_page_def)
  ultimately show ?thesis by (rule that)
qed

text \<open>The user part of a new address space is empty.\<close>

lemma new_vm_user_empty:
  assumes "vm_pre k (n # ns)" "P1X va < P1X UTOP"
  shows "translate (new_vm k n) (page2kva n) va = None"
proof -
  have b: "page_aligned (base_pgdir k)" "page2kva n \<noteq> base_pgdir k" "page2kva n \<noteq> kernel_boot_pgdir"
    using assms by (auto simp: vm_pre_def)
  have l: "\<not> 249 \<le> P1X va" "\<not> 256 \<le> P1X va"
    using assms(2) unfolding P1X_layout by (simp_all add: word_less_nat_alt word_le_nat_alt)
  have "entry (new_vm k n) (page2kva n) (P1X va) = 0"
    unfolding new_vm_def
      setup_copy_entry(1) [OF page_aligned_page2kva b(1) page_aligned_boot b(2,3) PX_less(1)]
    using l by (simp add: entry_zeroed PX_less)
  then show ?thesis
    unfolding translate_def indices_def resolve3 by (simp add: next_table_def leaf_val_def)
qed

end
