(* ===== verification/ProcProps.thy ===== *)
theory ProcProps
  imports Sched EnvVm MemProps
begin

text \<open>
  The properties of processes and of the scheduler: identifiers and ASIDs, initialisation,
  creation of a process, context switch, scheduling.
\<close>

section \<open>ASIDs as a set\<close>

definition asids :: "kstate \<Rightarrow> nat set" where
  "asids k = {i. i < NASID \<and> bit (asid_bitmap k (i div 32)) (i mod 32)}"

lemma and_bit_eq_0: "w AND 2 ^ n = (0 :: u32) \<longleftrightarrow> \<not> bit w n" if "n < 32"
proof
  assume "w AND 2 ^ n = 0"
  then have "\<not> bit (w AND 2 ^ n) n" by simp
  with that show "\<not> bit w n" by (simp add: bit_simps)
next
  assume n: "\<not> bit w n"
  show "w AND 2 ^ n = 0"
    by (rule bit_word_eqI) (use n in \<open>auto simp: bit_simps\<close>)
qed

lemma asid_scan_find: "asid_scan is bm = find (\<lambda>i. \<not> bit (bm (i div 32)) (i mod 32)) is"
  by (induction "is") (simp_all add: and_bit_eq_0)

lemma div_mod_eq: "(x::nat) div 32 = i div 32 \<Longrightarrow> x mod 32 = i mod 32 \<Longrightarrow> x = i"
  by (metis div_mult_mod_eq)

lemma asids_set_bit:
  assumes "i < NASID" "bm' = (asid_bitmap k)(i div 32 := asid_bitmap k (i div 32) OR push_bit (i mod 32) 1)"
  shows "asids (k\<lparr>asid_bitmap := bm'\<rparr>) = insert i (asids k)"
  using assms by (auto simp: asids_def bit_simps dest: div_mod_eq)

lemma asids_clear_bit:
  assumes "bm' = (asid_bitmap k)(i div 32 := asid_bitmap k (i div 32) AND NOT (push_bit (i mod 32) 1))"
  shows "asids (k\<lparr>asid_bitmap := bm'\<rparr>) = asids k - {i}"
  using assms by (auto simp: asids_def bit_simps dest: div_mod_eq)

text \<open>\<^verbatim>\<open>asid_alloc\<close> returns the smallest ASID not in use and marks it, or reports
  \<^verbatim>\<open>-E_NO_FREE_ENV\<close> exactly when all 256 are in use; \<^verbatim>\<open>asid_free\<close> of it makes the set of ASIDs
  in use what it was before.\<close>

theorem asid_alloc_correct:
  "case asid_alloc k of
     (Inl r, k') \<Rightarrow> r = - E_NO_FREE_ENV \<and> k' = k \<and> asids k = {..<NASID}
   | (Inr a, k') \<Rightarrow> unat a < NASID \<and> unat a \<notin> asids k \<and> {..<unat a} \<subseteq> asids k
       \<and> asids k' = insert (unat a) (asids k) \<and> asids (asid_free a k') = asids k"
proof (cases "asid_scan [0..<NASID] (asid_bitmap k)")
  case None
  then have "\<forall>x < NASID. bit (asid_bitmap k (x div 32)) (x mod 32)"
    unfolding asid_scan_find find_None_iff by simp
  with None show ?thesis by (auto simp: asid_alloc_def asids_def)
next
  case (Some i)
  then have i: "i < NASID" and s: "\<not> bit (asid_bitmap k (i div 32)) (i mod 32)"
    "\<forall>x < i. bit (asid_bitmap k (x div 32)) (x mod 32)"
    by (auto simp: asid_scan_find find_Some_iff)
  have u: "unat (of_nat i :: u16) = i"
    using i by (simp add: NASID_def unsigned_of_nat take_bit_nat_eq_self)
  have u5: "unat (drop_bit 5 (of_nat i :: u16)) = i div 32"
    using u by (simp add: drop_bit_eq_div unat_div)
  have u31: "unat ((of_nat i :: u16) AND 31) = i mod 32"
    using u unat_mask_eq [of "of_nat i :: u16" 5] by (simp add: mask_eq_exp_minus_1)
  let ?k = "k\<lparr>asid_bitmap := (asid_bitmap k)(i div 32 := asid_bitmap k (i div 32) OR push_bit (i mod 32) 1)\<rparr>"
  have a: "asids ?k = insert i (asids k)" by (rule asids_set_bit [OF i refl])
  have "asids (asid_free (of_nat i) ?k) = asids ?k - {i}"
    unfolding asid_free_def Let_def u5 u31 by (rule asids_clear_bit [OF refl])
  moreover have "{..<i} \<subseteq> asids k" using s(2) i by (auto simp: asids_def)
  moreover have "i \<notin> asids k" using s(1) by (simp add: asids_def)
  ultimately show ?thesis
    using Some i u a by (simp add: asid_alloc_def)
qed

section \<open>Identifiers\<close>

lemma ENVX_mask: "ENVX envid = unat (take_bit 10 envid)"
  by (simp add: ENVX_def NENV_def take_bit_eq_mask mask_eq_exp_minus_1)

lemma ENVX_less: "ENVX envid < NENV"
proof -
  have "unat (take_bit 10 envid) < 2 ^ 10" unfolding unsigned_take_bit_eq by (rule take_bit_nat_less_exp)
  then show ?thesis by (simp add: ENVX_mask NENV_def)
qed





section \<open>A concrete process table\<close>

text \<open>Processes 3 and 5 are runnable, process 3 is current; 5 is a child of 3; the rest is free.\<close>

definition sample_tf :: Trapframe where
  "sample_tf = \<lparr>regs = (\<lambda>_. 0), sstatus = 0, badvaddr = 0, scause = 0, sepc = 0, sip = 0, sie = 0\<rparr>"

definition sample_env :: "u32 \<Rightarrow> u32 \<Rightarrow> u32 \<Rightarrow> Env" where
  "sample_env i parent st = \<lparr>env_tf = sample_tf, env_id = i, env_asid = 7, env_parent_id = parent,
     env_status = st, env_pgdir = sample_pgdir, env_pri = 2, env_in_syscall = 0, handler_function_va = 0,
     env_ipc_value = 0, env_ipc_from = 0, env_ipc_recving = 0, env_ipc_dstva = 0, env_ipc_perm = 0,
     env_ipc_recv_from = 0, env_user_tlb_mod_entry = 0, env_runs = 0, env_name = []\<rparr>"

definition sample_queue :: "nat TAILQ" where
  "sample_queue = TAILQ_INSERT_HEAD (TAILQ_INSERT_HEAD
     \<lparr>tqh_first = None, tqh_last = RHead, tqe_next = (\<lambda>_. None), tqe_prev = (\<lambda>_. RNull)\<rparr> 5) 3"

definition sample_kstate :: kstate where
  "sample_kstate = \<lparr>pm = sample_pstate,
     envs = (\<lambda>e. if e = 3 then sample_env 2051 0 ENV_RUNNABLE
                 else if e = 5 then sample_env 4101 2051 ENV_RUNNABLE else sample_env 0 0 ENV_FREE),
     envs_va = 0, curenv = Some 3,
     env_free_list = LIST_INSERT_HEAD \<lparr>lh_first = None, le_next = (\<lambda>_. None), le_prev = (\<lambda>_. RNull)\<rparr> 0,
     env_sched_list = sample_queue, base_pgdir = page2kva 6, asid_bitmap = (\<lambda>_. 0), mkenvid_i = 2,
     cur_pgdir = sample_pgdir, schedule_count = 1, kstack_tf = sample_tf, cpu = None, console = [],
     kernel_buffer = 0xFFFFFFC000300000, kernel_buffer_size = 4096\<rparr>"


lemma sample_sched_inv: "sched_inv sample_kstate [3, 5]"
proof -
  have "TAILQ_rep \<lparr>tqh_first = None, tqh_last = RHead, tqe_next = (\<lambda>_. None), tqe_prev = (\<lambda>_. RNull)\<rparr> ([] :: nat list)"
    by (simp add: TAILQ_rep_def)
  from TAILQ_INSERT_HEAD_rep [OF TAILQ_INSERT_HEAD_rep [OF this, of 5], of 3]
  have "TAILQ_rep (env_sched_list sample_kstate) [3, 5]"
    by (simp add: sample_kstate_def sample_queue_def)
  then show ?thesis
    by (auto simp: sched_inv_def runnable_def sample_kstate_def sample_env_def envstatus NENV_def)
qed

text \<open>For a non-zero identifier \<^verbatim>\<open>envid2env\<close> finds exactly the process that is not free and carries
  that identifier, and with \<^verbatim>\<open>checkperm\<close> only the current process and its immediate children.\<close>

theorem envid2env_correct:
  assumes "envid \<noteq> 0"
  shows "envid2env k envid checkperm = Some (Inr r) \<longleftrightarrow>
    (\<exists>e < NENV. r = Some e \<and> e = ENVX envid \<and> env_status (envs k e) \<noteq> ENV_FREE \<and> env_id (envs k e) = envid
       \<and> (checkperm \<noteq> 0 \<longrightarrow> (\<exists>c. curenv k = Some c \<and> (e = c \<or> env_parent_id (envs k e) = env_id (envs k c)))))"
  using assms ENVX_less [of envid]
  by (auto simp: envid2env_def Let_def split: option.splits)

theorem envid2env_correct_witness:
  "envid2env sample_kstate 4101 1 = Some (Inr (Some 5))"
  using envid2env_correct [of 4101 sample_kstate 1 "Some 5"]
  by (simp add: sample_kstate_def sample_env_def envstatus NENV_def ENVX_mask take_bit_eq_mod)

section \<open>Creation\<close>





section \<open>Context switch and scheduling\<close>

text \<open>\<^verbatim>\<open>env_run\<close> panics unless its argument is runnable; otherwise the trap frame on the kernel stack is
  saved in the process that was running, the new process becomes current and is counted, and the CPU
  gets its saved context, its ASID and its page table.\<close>

theorem env_run_switches_context:
  "if env_status (envs k e) = ENV_RUNNABLE
   then \<exists>k'. env_run e k = Some k' \<and> curenv k' = Some e
     \<and> env_runs (envs k' e) = env_runs (envs k e) + 1
     \<and> cpu k' = Some (if curenv k = Some e then kstack_tf k else env_tf (envs k e), env_asid (envs k e),
                      drop_bit PAGE_SHIFT (PADDR (env_pgdir (envs k e))))
     \<and> (case curenv k of None \<Rightarrow> True | Some c \<Rightarrow> env_tf (envs k' c) = kstack_tf k)
   else env_run e k = None"
  by (auto simp: env_run_def env_switch_context split: option.split)



text \<open>C10: Fairness.  Starting from the running head of the queue, after \<open>n\<close> yields the CPU is with the
  process \<open>n\<close> places down the queue, cyclically, and the queue has turned by \<open>n\<close>: every
  runnable process runs within one turn of the queue.\<close>

theorem schedule_round_robin:
  assumes "sched_inv k qs" "curenv k = Some (hd qs)" "qs \<noteq> []"
  shows "\<exists>k'. yields n k = Some k' \<and> sched_inv k' (rotate n qs) \<and> curenv k' = Some (qs ! (n mod length qs))"
proof -
  have "hd (rotate n qs) = qs ! (n mod length qs)"
    using assms(3) by (simp add: hd_rotate_conv_nth)
  with yields_rotate [OF assms, of n] show ?thesis by simp
qed

theorem schedule_round_robin_witness:
  "\<exists>k'. yields 3 sample_kstate = Some k' \<and> curenv k' = Some 5"
proof -
  have "curenv sample_kstate = Some (hd [3, 5])" by (simp add: sample_kstate_def)
  from schedule_round_robin [OF sample_sched_inv this, of 3] show ?thesis by (auto simp: numeral_3_eq_3 nth_Cons' mod_Suc)
qed



end
