(* ===== verification/Userspace.thy ===== *)
theory Userspace
  imports EnvVm
begin

text \<open>
  Kernel access to user memory and the user's view of its page tables (\<^verbatim>\<open>kern/userspace.c\<close>),
  and the duplication of an address space on fork (\<^verbatim>\<open>kern/fork.c\<close>).

  The kernel's \<^verbatim>\<open>memcpy\<close> on user addresses goes through the MMU.  \<open>hw_addr\<close> is that
  translation: the leaf entry found by the hardware walk (1 GiB, 2 MiB or 4 KiB page) must grant
  the requested access, and the byte is the one in the direct map.  A fault in kernel code
  outside the kernel heap ends in \<^verbatim>\<open>do_kernel_exception\<close>, a panic.
\<close>

section \<open>Access through the MMU\<close>

definition hw_leaf :: "memory \<Rightarrow> u64 \<Rightarrow> u64 \<Rightarrow> (u64 \<times> nat) option" where
  "hw_leaf m g va =
     (let e1 = load64 m (g + 8 * P1X va) in
      if e1 AND PTE_V = 0 then None
      else if \<not> PTE_IS_NON_LEAF e1 then Some (e1, 30)
      else
        (let e2 = load64 m (P2KADDR (PTE_ADDR e1) + 8 * P2X va) in
         if e2 AND PTE_V = 0 then None
         else if \<not> PTE_IS_NON_LEAF e2 then Some (e2, 21)
         else
           (let e3 = load64 m (P2KADDR (PTE_ADDR e2) + 8 * P3X va) in
            if e3 AND PTE_V = 0 then None else Some (e3, 12))))"

definition hw_addr :: "memory \<Rightarrow> u64 \<Rightarrow> u64 \<Rightarrow> u64 \<Rightarrow> u64 option" where
  "hw_addr m g access va =
     do { (e, bits) \<leftarrow> hw_leaf m g va;
          if e AND access = access then Some (P2KADDR (PTE_ADDR e OR (va AND mask bits))) else None }"

primrec copy_through :: "nat \<Rightarrow> memory \<Rightarrow> u64 \<Rightarrow> u64 \<Rightarrow> u64 \<Rightarrow> memory option" where
  "copy_through 0 m g dst src = Some m"
| "copy_through (Suc n) m g dst src =
     do { s \<leftarrow> hw_addr m g PTE_R src;
          d \<leftarrow> hw_addr m g PTE_W dst;
          copy_through n (m(d := m s)) g (dst + 1) (src + 1) }"

definition copy_user_space :: "u64 \<Rightarrow> u64 \<Rightarrow> u64 \<Rightarrow> kstate \<Rightarrow> kstate option" where
  "copy_user_space src dst len k =
     do { c \<leftarrow> curenv k;
          let pgdir = env_pgdir (envs k c);
          (src_pte, p) \<leftarrow> page_lookup (pm k) pgdir src;
          (dst_pte, p) \<leftarrow> page_lookup p pgdir dst;
          if src_pte = None then None
          else
            do { p \<leftarrow> (if dst_pte = None
                       then (if dst \<ge> ULIM then None
                             else passive_alloc p dst pgdir (ucast (env_asid (envs k c))))
                       else Some p);
                 m \<leftarrow> copy_through (unat len) (mem p) pgdir dst src;
                 Some (k\<lparr>pm := p\<lparr>mem := m\<rparr>\<rparr>) } }"

definition copy_user_space_to_env :: "nat \<Rightarrow> u64 \<Rightarrow> u64 \<Rightarrow> u64 \<Rightarrow> kstate \<Rightarrow> kstate option" where
  "copy_user_space_to_env env src dst len k =
     do { let c_asid = (case curenv k of None \<Rightarrow> 0 | Some c \<Rightarrow> ucast (env_asid (envs k c)));
          let c_pgdir = cur_pgdir k;
          let pgdir = env_pgdir (envs k env);
          let asid = ucast (env_asid (envs k env));
          let p = set_page_table (pm k) asid pgdir;
          (src_pte, p) \<leftarrow> page_lookup p pgdir src;
          (dst_pte, p) \<leftarrow> page_lookup p pgdir dst;
          if src_pte = None then None
          else
            do { p \<leftarrow> (if dst_pte = None
                       then (if dst \<ge> ULIM then None else passive_alloc p dst pgdir asid)
                       else Some p);
                 m \<leftarrow> copy_through (unat len) (mem p) pgdir dst src;
                 Some (k\<lparr>pm := set_page_table (p\<lparr>mem := m\<rparr>) c_asid c_pgdir\<rparr>) } }"

section \<open>The user's view of its page tables\<close>

text \<open>The results of \<^verbatim>\<open>page_insert\<close> are ignored by the code.\<close>

definition vpt_insert :: "u64 \<Rightarrow> u64 \<Rightarrow> u64 \<Rightarrow> u64 \<Rightarrow> pstate \<Rightarrow> pstate option" where
  "vpt_insert pgdir asid pa va p =
     do { pp \<leftarrow> pa2page p pa;
          (_, p) \<leftarrow> page_insert p pgdir asid pp va (PTE_RO OR PTE_USER);
          Some p }"

definition vpt_level2 :: "u64 \<Rightarrow> u64 \<Rightarrow> nat \<Rightarrow> pstate \<Rightarrow> pstate option" where
  "vpt_level2 pgdir asid p1x p =
     (let p1_entry = load_pte p (pgdir + 8 * of_nat p1x);
          uvpt_p1_begin_va = UVPT + drop_bit 9 UVPT + drop_bit 18 UVPT;
          uvpt_p2_current_va = UVPT + drop_bit 9 UVPT + of_nat p1x * PAGE_SIZE
      in if p1_entry AND PTE_V \<noteq> 0 \<and> uvpt_p2_current_va \<noteq> uvpt_p1_begin_va
         then vpt_insert pgdir asid (PTE_ADDR p1_entry) uvpt_p2_current_va p
         else Some p)"

definition vpt_level3_entry :: "u64 \<Rightarrow> u64 \<Rightarrow> nat \<Rightarrow> u64 \<Rightarrow> nat \<Rightarrow> pstate \<Rightarrow> pstate option" where
  "vpt_level3_entry pgdir asid p1x p2_base p2x p =
     (let p2_entry = load_pte p (p2_base + 8 * of_nat p2x);
          uvpt_p2_begin_va = UVPT + drop_bit 9 UVPT;
          va = (of_nat p1x * 512 + of_nat p2x) * PAGE_SIZE + UVPT
      in if p2_entry AND PTE_V \<noteq> 0
            \<and> \<not> (va \<ge> uvpt_p2_begin_va \<and> va < uvpt_p2_begin_va + 2 * 1024 * 1024)
         then vpt_insert pgdir asid (PTE_ADDR p2_entry) va p
         else Some p)"

definition vpt_level3 :: "u64 \<Rightarrow> u64 \<Rightarrow> nat \<Rightarrow> pstate \<Rightarrow> pstate option" where
  "vpt_level3 pgdir asid p1x p =
     (let p1_entry = load_pte p (pgdir + 8 * of_nat p1x)
      in if p1_entry AND PTE_V \<noteq> 0
         then for_each [0..<512] (vpt_level3_entry pgdir asid p1x (P2KADDR (PTE_ADDR p1_entry))) p
         else Some p)"

definition map_user_vpt :: "nat \<Rightarrow> kstate \<Rightarrow> kstate option" where
  "map_user_vpt env k =
     (let pgdir = env_pgdir (envs k env); asid = ucast (env_asid (envs k env));
          p1xs = [0..<Suc (unat (P1X USTACKTOP))]
      in do { p \<leftarrow> vpt_insert pgdir asid (PADDR pgdir) (UVPT + drop_bit 9 UVPT + drop_bit 18 UVPT) (pm k);
              p \<leftarrow> for_each p1xs (vpt_level2 pgdir asid) p;
              p \<leftarrow> for_each p1xs (vpt_level3 pgdir asid) p;
              Some (k\<lparr>pm := p\<rparr>) })"

definition unmap_vpt_entry :: "u64 \<Rightarrow> u64 \<Rightarrow> u64 \<Rightarrow> u64 \<Rightarrow> nat \<Rightarrow> nat \<Rightarrow> pstate \<Rightarrow> pstate option" where
  "unmap_vpt_entry pgdir asid p1x p3_base p2x p3x p =
     (let p3_entry = load_pte p (p3_base + 8 * of_nat p3x);
          vpn = push_bit 18 p1x OR push_bit 9 (of_nat p2x) OR of_nat p3x
      in if p3_entry AND PTE_V \<noteq> 0 then page_remove p pgdir asid (push_bit 12 vpn) else Some p)"

definition unmap_vpt_table :: "u64 \<Rightarrow> u64 \<Rightarrow> u64 \<Rightarrow> u64 \<Rightarrow> nat \<Rightarrow> pstate \<Rightarrow> pstate option" where
  "unmap_vpt_table pgdir asid p1x p2_base p2x p =
     (let p2_entry = load_pte p (p2_base + 8 * of_nat p2x)
      in if p2_entry AND PTE_V \<noteq> 0
         then for_each [0..<512] (unmap_vpt_entry pgdir asid p1x (P2KADDR (PTE_ADDR p2_entry)) p2x) p
         else Some p)"

definition unmap_user_vpt :: "nat \<Rightarrow> kstate \<Rightarrow> kstate option" where
  "unmap_user_vpt env k =
     (let pgdir = env_pgdir (envs k env); asid = ucast (env_asid (envs k env)); p1x = P1X UVPT;
          p1_entry = load_pte (pm k) (pgdir + 8 * p1x)
      in do { p \<leftarrow> for_each [0..<512] (unmap_vpt_table pgdir asid p1x (P2KADDR (PTE_ADDR p1_entry))) (pm k);
              Some (k\<lparr>pm := p\<rparr>) })"

section \<open>Duplicating an address space\<close>

definition dup_perm :: "u64 \<Rightarrow> u64" where
  "dup_perm perm =
     (if perm AND PTE_LIBRARY \<noteq> 0 then perm
      else if perm AND PTE_W \<noteq> 0 then (perm AND NOT PTE_W) OR PTE_COW
      else perm)"

definition duppage :: "u64 \<Rightarrow> u64 \<Rightarrow> u64 \<Rightarrow> u64 \<Rightarrow> pstate \<Rightarrow> pstate option" where
  "duppage entry_va child_pgdir child_asid vpn p =
     (let e = load_pte p entry_va; new_perm = dup_perm (PTE_FLAGS e) in
      do { pp \<leftarrow> pa2page p (PTE_ADDR e);
           (r, p) \<leftarrow> page_insert p child_pgdir child_asid pp (push_bit 12 vpn) new_perm;
           if r < 0 then None
           else Some (store_pte p entry_va ((load_pte p entry_va AND NOT (GENMASK 9 0)) OR new_perm)) })"

text \<open>The loops stop at the first page number that is not below the user stack's top (\<^verbatim>\<open>break\<close>).\<close>

primrec dup_p3 :: "nat list \<Rightarrow> u64 \<Rightarrow> u64 \<Rightarrow> u64 \<Rightarrow> nat \<Rightarrow> nat \<Rightarrow> pstate \<Rightarrow> pstate option" where
  "dup_p3 [] p3 child_pgdir child_asid p1x p2x p = Some p"
| "dup_p3 (p3x # xs) p3 child_pgdir child_asid p1x p2x p =
     (let current_vpn = push_bit 18 (of_nat p1x) OR push_bit 9 (of_nat p2x) OR of_nat p3x in
      if current_vpn \<ge> VPN USTACKTOP then Some p
      else do { p \<leftarrow> (if load_pte p (p3 + 8 * of_nat p3x) AND PTE_V \<noteq> 0
                      then duppage (p3 + 8 * of_nat p3x) child_pgdir child_asid current_vpn p
                      else Some p);
                dup_p3 xs p3 child_pgdir child_asid p1x p2x p })"

text \<open>\<^verbatim>\<open>current_vpn = (p1x << 18) || (p2x << 9)\<close> is a logical or: 0 or 1.\<close>

primrec dup_p2 :: "nat list \<Rightarrow> u64 \<Rightarrow> u64 \<Rightarrow> u64 \<Rightarrow> nat \<Rightarrow> pstate \<Rightarrow> pstate option" where
  "dup_p2 [] p2 child_pgdir child_asid p1x p = Some p"
| "dup_p2 (p2x # xs) p2 child_pgdir child_asid p1x p =
     (let current_vpn = (if push_bit 18 (of_nat p1x) \<noteq> (0 :: u64) \<or> push_bit 9 (of_nat p2x) \<noteq> (0 :: u64)
                         then 1 else 0) in
      if current_vpn \<ge> VPN USTACKTOP then Some p
      else do { let e = load_pte p (p2 + 8 * of_nat p2x);
                p \<leftarrow> (if e AND PTE_V \<noteq> 0
                      then dup_p3 [0..<512] (P2KADDR (PTE_ADDR e)) child_pgdir child_asid p1x p2x p
                      else Some p);
                dup_p2 xs p2 child_pgdir child_asid p1x p })"

definition dup_p1 :: "u64 \<Rightarrow> u64 \<Rightarrow> u64 \<Rightarrow> nat \<Rightarrow> pstate \<Rightarrow> pstate option" where
  "dup_p1 parent_pgdir child_pgdir child_asid p1x p =
     (let e = load_pte p (parent_pgdir + 8 * of_nat p1x)
      in if e AND PTE_V \<noteq> 0
         then dup_p2 [0..<512] (P2KADDR (PTE_ADDR e)) child_pgdir child_asid p1x p
         else Some p)"

definition dup_userspace :: "pstate \<Rightarrow> u64 \<Rightarrow> u64 \<Rightarrow> u64 \<Rightarrow> pstate option" where
  "dup_userspace p parent_pgdir child_pgdir child_asid =
     for_each [0..<Suc (unat (P1X USTACKTOP))] (dup_p1 parent_pgdir child_pgdir child_asid) p"

end
