(* ===== verification/Syscall.thy ===== *)
theory Syscall
  imports Userspace Sched
begin

text \<open>
  The system calls of \<^verbatim>\<open>kern/syscall_all.c\<close> on processes, memory and messages, and the
  page-fault handler of \<^verbatim>\<open>kern/traps.c\<close>.

  A system call returns an \<^verbatim>\<open>int\<close> to the caller (\<open>Ret\<close>), a full register (\<open>RetReg\<close>), or nothing
  (\<open>RetVoid\<close>), or it hands the CPU to another process and never returns (\<open>NoRet\<close>); \<^term>\<open>None\<close> is
  a kernel panic.  \<^verbatim>\<open>int\<close> results are
  mathematical integers in range.  Diagnostic \<^verbatim>\<open>printk\<close> output is not modelled; a dereference
  of a null \<^verbatim>\<open>curenv\<close> is a panic.  Local variables that \<^verbatim>\<open>copy_user_space\<close> fills are passed by
  the address \<open>local\<close> they have on the kernel stack.
\<close>

section \<open>Results\<close>

datatype sysres = Ret int | RetReg u64 | RetVoid | NoRet

type_synonym handler = "kstate \<Rightarrow> (sysres \<times> kstate) option"

definition no_return :: "kstate option \<Rightarrow> (sysres \<times> kstate) option" where
  "no_return r = map_option (Pair NoRet) r"

text \<open>
  \<^verbatim>\<open>envid2env\<close> inside a system call: an error code, or the process.  With \<^verbatim>\<open>envid = 0\<close> and no
  current process the code would go on with a null pointer.
\<close>

definition lookup_env :: "u32 \<Rightarrow> int \<Rightarrow> kstate \<Rightarrow> (int + nat) option" where
  "lookup_env envid checkperm k =
     do { r \<leftarrow> envid2env k envid checkperm;
          (case r of Inl err \<Rightarrow> Some (Inl err)
           | Inr None \<Rightarrow> None
           | Inr (Some e) \<Rightarrow> Some (Inr e)) }"

section \<open>Console and identity\<close>

definition sys_putchar :: "u64 \<Rightarrow> handler" where
  "sys_putchar c k = Some (RetVoid, k\<lparr>console := console k @ [ucast c]\<rparr>)"

definition sys_print_cons :: "u64 \<Rightarrow> u64 \<Rightarrow> handler" where
  "sys_print_cons s num k =
     (if s + num > UTOP \<or> s \<ge> UTOP \<or> s > s + num then Some (Ret (- E_INVAL), k)
      else if num \<ge> kernel_buffer_size k then Some (Ret (- E_INVAL), k)
      else do { k \<leftarrow> copy_user_space s (kernel_buffer k) num k;
                Some (Ret 0, k\<lparr>console := console k @
                  map (\<lambda>i. mem (pm k) (kernel_buffer k + of_nat i)) [0..<unat num]\<rparr>) })"

definition sys_getenvid :: handler where
  "sys_getenvid k = do { c \<leftarrow> curenv k; Some (Ret (sint (env_id (envs k c))), k) }"

section \<open>Processes\<close>

definition sys_yield :: handler where
  "sys_yield k =
     do { c \<leftarrow> curenv k;
          no_return (schedule 1 (upd_env k c (env_in_syscall_update (\<lambda>_. 0)))) }"

definition sys_env_destroy :: "u32 \<Rightarrow> handler" where
  "sys_env_destroy envid k =
     do { r \<leftarrow> lookup_env envid 1 k;
          (case r of
             Inl err \<Rightarrow> Some (Ret err, k)
           | Inr e \<Rightarrow> do { (returned, k) \<leftarrow> env_destroy e k;
                           Some (if returned then Ret 0 else NoRet, k) }) }"

definition sys_set_tlb_mod_entry :: "u32 \<Rightarrow> u64 \<Rightarrow> handler" where
  "sys_set_tlb_mod_entry envid func k =
     do { r \<leftarrow> lookup_env envid 1 k;
          (case r of
             Inl err \<Rightarrow> Some (Ret err, k)
           | Inr e \<Rightarrow> Some (Ret 0, upd_env k e (env_user_tlb_mod_entry_update (\<lambda>_. func)))) }"

definition sys_exofork :: handler where
  "sys_exofork k =
     do { c \<leftarrow> curenv k;
          (r, k) \<leftarrow> env_alloc (env_id (envs k c)) k;
          (case r of
             Inl err \<Rightarrow> Some (Ret err, k)
           | Inr e \<Rightarrow>
               do { let k = upd_env k e (\<lambda>v. v\<lparr>env_tf := kstack_tf k\<rparr>);
                    let k = upd_env k e (\<lambda>v. v\<lparr>env_tf := (env_tf v)\<lparr>regs := (regs (env_tf v))(10 := 0)\<rparr>,
                                               env_in_syscall := 0\<rparr>);
                    p \<leftarrow> dup_userspace (pm k) (env_pgdir (envs k c)) (env_pgdir (envs k e))
                           (ucast (env_asid (envs k e)));
                    let k = k\<lparr>pm := p\<rparr>;
                    let k = upd_env k e (\<lambda>v. v\<lparr>env_status := ENV_RUNNABLE, env_pri := env_pri (envs k c)\<rparr>);
                    let k = k\<lparr>env_sched_list := TAILQ_INSERT_HEAD (env_sched_list k) e\<rparr>;
                    Some (Ret (sint (env_id (envs k e))), k) }) }"

definition sys_set_env_status :: "u32 \<Rightarrow> u32 \<Rightarrow> handler" where
  "sys_set_env_status envid status k =
     (if status \<noteq> ENV_RUNNABLE \<and> status \<noteq> ENV_NOT_RUNNABLE then Some (Ret (- E_INVAL), k)
      else
        do { r \<leftarrow> lookup_env envid 1 k;
             (case r of
                Inl err \<Rightarrow> Some (Ret err, k)
              | Inr e \<Rightarrow>
                  do { let pre_status = env_status (envs k e);
                       q \<leftarrow> (if pre_status = ENV_NOT_RUNNABLE \<and> status = ENV_NOT_RUNNABLE
                             then Some (env_sched_list k)
                             else if pre_status = ENV_NOT_RUNNABLE \<and> status = ENV_RUNNABLE
                             then TAILQ_INSERT_TAIL (env_sched_list k) e
                             else if pre_status = ENV_RUNNABLE \<and> status = ENV_NOT_RUNNABLE
                             then TAILQ_REMOVE (env_sched_list k) e
                             else Some (env_sched_list k));
                       let k = upd_env (k\<lparr>env_sched_list := q\<rparr>) e (env_status_update (\<lambda>_. status));
                       if curenv k = Some e then no_return (schedule 1 k)
                       else Some (Ret 0, k) }) })"

definition read_Trapframe :: "memory \<Rightarrow> u64 \<Rightarrow> Trapframe" where
  "read_Trapframe m a =
     \<lparr>regs = (\<lambda>i. load64 m (a + 8 * of_nat i)), sstatus = load64 m (a + 256), badvaddr = load64 m (a + 264),
      scause = load64 m (a + 272), sepc = load64 m (a + 280), sip = load64 m (a + 288), sie = load64 m (a + 296)\<rparr>"

definition sizeof_Trapframe :: u64 where "sizeof_Trapframe = 304"

definition is_illegal_va :: "u64 \<Rightarrow> bool" where
  "is_illegal_va va \<longleftrightarrow> va < UTEMP \<or> va \<ge> UTOP"

definition is_illegal_va_range :: "u64 \<Rightarrow> u64 \<Rightarrow> bool" where
  "is_illegal_va_range va len \<longleftrightarrow>
     (if len = 0 then False else va + len < va \<or> va < UTEMP \<or> va + len > UTOP)"

definition sys_set_trapframe :: "u64 \<Rightarrow> u32 \<Rightarrow> u64 \<Rightarrow> handler" where
  "sys_set_trapframe local envid tf k =
     (if is_illegal_va_range tf sizeof_Trapframe then Some (Ret (- E_INVAL), k)
      else
        do { k \<leftarrow> copy_user_space tf local sizeof_Trapframe k;
             let ktf = read_Trapframe (mem (pm k)) local;
             r \<leftarrow> lookup_env envid 1 k;
             (case r of
                Inl err \<Rightarrow> Some (Ret err, k)
              | Inr e \<Rightarrow>
                  if curenv k = Some e
                  then Some (Ret (sint (ucast (regs ktf 10) :: u32)), k\<lparr>kstack_tf := ktf\<rparr>)
                  else Some (Ret 0, upd_env k e (env_tf_update (\<lambda>_. ktf)))) })"

text \<open>\<^verbatim>\<open>sys_panic\<close> ends in a panic on every path.\<close>

definition sys_panic :: "u64 \<Rightarrow> handler" where
  "sys_panic msg k = None"

definition sys_sleep :: handler where
  "sys_sleep k =
     do { c \<leftarrow> curenv k;
          let k = upd_env k c (env_status_update (\<lambda>_. ENV_NOT_RUNNABLE));
          q \<leftarrow> TAILQ_REMOVE (env_sched_list k) c;
          let k = upd_env (k\<lparr>env_sched_list := q\<rparr>) c
                    (\<lambda>v. v\<lparr>env_tf := (env_tf v)\<lparr>regs := (regs (env_tf v))(10 := 0)\<rparr>\<rparr>);
          no_return (schedule 1 k) }"

section \<open>Memory\<close>

definition user_perm :: "u32 \<Rightarrow> u64" where
  "user_perm perm =
     (let perm = ucast perm AND GENMASK 9 0; perm = perm AND NOT PTE_V in perm OR PTE_USER)"

definition sys_mem_alloc :: "u32 \<Rightarrow> u64 \<Rightarrow> u32 \<Rightarrow> handler" where
  "sys_mem_alloc envid va perm k =
     (if is_illegal_va va then Some (Ret (- E_INVAL), k)
      else
        do { r \<leftarrow> lookup_env envid 1 k;
             (case r of
                Inl _ \<Rightarrow> Some (Ret (- E_BAD_ENV), k)
              | Inr e \<Rightarrow>
                  do { (a, p) \<leftarrow> page_alloc (pm k);
                       (case a of
                          Inl err \<Rightarrow> Some (Ret err, k\<lparr>pm := p\<rparr>)
                        | Inr pp \<Rightarrow>
                            do { (ret, p) \<leftarrow> page_insert p (env_pgdir (envs k e))
                                   (ucast (env_asid (envs k e))) pp va (user_perm perm);
                                 Some (Ret ret, k\<lparr>pm := p\<rparr>) }) }) })"

definition sys_mem_map :: "u32 \<Rightarrow> u64 \<Rightarrow> u32 \<Rightarrow> u64 \<Rightarrow> u32 \<Rightarrow> handler" where
  "sys_mem_map srcid srcva dstid dstva perm k =
     (if is_illegal_va srcva \<or> is_illegal_va dstva then Some (Ret (- E_INVAL), k)
      else
        do { rs \<leftarrow> lookup_env srcid 1 k;
             (case rs of
                Inl _ \<Rightarrow> Some (Ret (- E_BAD_ENV), k)
              | Inr srcenv \<Rightarrow>
                  do { rd \<leftarrow> lookup_env dstid 1 k;
                       (case rd of
                          Inl _ \<Rightarrow> Some (Ret (- E_BAD_ENV), k)
                        | Inr dstenv \<Rightarrow>
                            do { (l, p) \<leftarrow> page_lookup (pm k) (env_pgdir (envs k srcenv)) srcva;
                                 (case l of
                                    None \<Rightarrow> Some (Ret (- E_INVAL), k\<lparr>pm := p\<rparr>)
                                  | Some (pp, _) \<Rightarrow>
                                      do { (ret, p) \<leftarrow> page_insert p (env_pgdir (envs k dstenv))
                                             (ucast (env_asid (envs k dstenv))) pp dstva (user_perm perm);
                                           Some (Ret ret, k\<lparr>pm := p\<rparr>) }) }) }) })"

definition sys_mem_unmap :: "u32 \<Rightarrow> u64 \<Rightarrow> handler" where
  "sys_mem_unmap envid va k =
     (if is_illegal_va va then Some (Ret (- E_INVAL), k)
      else
        do { r \<leftarrow> lookup_env envid 1 k;
             (case r of
                Inl _ \<Rightarrow> Some (Ret (- E_BAD_ENV), k)
              | Inr e \<Rightarrow>
                  do { p \<leftarrow> page_remove (pm k) (env_pgdir (envs k e)) (ucast (env_asid (envs k e))) va;
                       Some (Ret 0, k\<lparr>pm := p\<rparr>) }) })"

definition sys_map_user_vpt :: handler where
  "sys_map_user_vpt k = do { c \<leftarrow> curenv k; k \<leftarrow> map_user_vpt c k; Some (RetVoid, k) }"

definition sys_unmap_user_vpt :: handler where
  "sys_unmap_user_vpt k = do { c \<leftarrow> curenv k; k \<leftarrow> unmap_user_vpt c k; Some (RetVoid, k) }"

definition sys_get_physical_address :: "u64 \<Rightarrow> handler" where
  "sys_get_physical_address va k =
     do { c \<leftarrow> curenv k;
          let pa = va2pa (pm k) (env_pgdir (envs k c)) va;
          Some (RetReg (if pa = NOT 0 then 0 else pa), k) }"

definition sys_is_dirty :: "u64 \<Rightarrow> handler" where
  "sys_is_dirty va k =
     do { c \<leftarrow> curenv k;
          (l, p) \<leftarrow> page_lookup (pm k) (env_pgdir (envs k c)) va;
          (case l of
             None \<Rightarrow> Some (Ret 0, k\<lparr>pm := p\<rparr>)
           | Some (_, pte) \<Rightarrow>
               Some (Ret (if load_pte p pte AND PTE_DIRTY \<noteq> 0 then 1 else 0), k\<lparr>pm := p\<rparr>)) }"

definition sys_pageref :: "u64 \<Rightarrow> handler" where
  "sys_pageref va k =
     do { c \<leftarrow> curenv k;
          (l, p) \<leftarrow> page_lookup (pm k) (env_pgdir (envs k c)) va;
          (case l of
             None \<Rightarrow> Some (Ret 0, k\<lparr>pm := p\<rparr>)
           | Some (pp, _) \<Rightarrow> Some (Ret (uint (pp_ref p pp)), k\<lparr>pm := p\<rparr>)) }"

section \<open>Messages\<close>

text \<open>The receiving address is a \<^verbatim>\<open>uint32_t\<close>.\<close>

definition sys_ipc_recv :: "u32 \<Rightarrow> u32 \<Rightarrow> handler" where
  "sys_ipc_recv dstva from k =
     (if dstva \<noteq> 0 \<and> is_illegal_va (ucast dstva) then Some (Ret (- E_INVAL), k)
      else
        do { c \<leftarrow> curenv k;
             let k = upd_env k c (\<lambda>v. v\<lparr>env_ipc_recving := 1, env_ipc_dstva := ucast dstva,
                                        env_ipc_recv_from := from, env_status := ENV_NOT_RUNNABLE\<rparr>);
             q \<leftarrow> TAILQ_REMOVE (env_sched_list k) c;
             let k = k\<lparr>env_sched_list := q,
                       kstack_tf := (kstack_tf k)\<lparr>regs := (regs (kstack_tf k))(10 := 0)\<rparr>\<rparr>;
             no_return (schedule 1 k) })"

definition sys_ipc_try_send :: "u32 \<Rightarrow> u64 \<Rightarrow> u64 \<Rightarrow> u32 \<Rightarrow> handler" where
  "sys_ipc_try_send envid value srcva perm k =
     (if srcva \<noteq> 0 \<and> is_illegal_va srcva then Some (Ret (- E_INVAL), k)
      else
        do { r \<leftarrow> lookup_env envid 0 k;
             (case r of
                Inl _ \<Rightarrow> Some (Ret (- E_BAD_ENV), k)
              | Inr e \<Rightarrow>
                  if env_ipc_recving (envs k e) = 0 then Some (Ret (- E_IPC_NOT_RECV), k)
                  else
                    do { c \<leftarrow> curenv k;
                         if env_ipc_recv_from (envs k e) \<noteq> 0
                            \<and> env_ipc_recv_from (envs k e) \<noteq> env_id (envs k c)
                         then Some (Ret (- E_IPC_NOT_RECV), k)
                         else
                           do { let perm = (ucast perm AND GENMASK 9 0) OR PTE_USER;
                                let k = upd_env k e (\<lambda>v. v\<lparr>env_ipc_value := value,
                                          env_ipc_from := env_id (envs k c), env_ipc_perm := ucast perm,
                                          env_ipc_recving := 0, env_status := ENV_RUNNABLE,
                                          env_in_syscall := 0\<rparr>);
                                q \<leftarrow> TAILQ_INSERT_TAIL (env_sched_list k) e;
                                let k = k\<lparr>env_sched_list := q\<rparr>;
                                if srcva \<noteq> 0
                                then do { (l, p) \<leftarrow> page_lookup (pm k) (env_pgdir (envs k c)) srcva;
                                          (case l of
                                             None \<Rightarrow> Some (Ret (- E_INVAL), k\<lparr>pm := p\<rparr>)
                                           | Some (pp, _) \<Rightarrow>
                                               do { (ret, p) \<leftarrow> page_insert p (env_pgdir (envs k e))
                                                      (ucast (env_asid (envs k e))) pp
                                                      (env_ipc_dstva (envs k e)) perm;
                                                    Some (Ret ret, k\<lparr>pm := p\<rparr>) }) }
                                else Some (Ret 0, k) } }) })"

section \<open>Page faults (\<^verbatim>\<open>kern/traps.c\<close>)\<close>

definition do_cow :: "u64 \<Rightarrow> kstate \<Rightarrow> kstate option" where
  "do_cow badva k =
     do { c \<leftarrow> curenv k;
          let pgdir = env_pgdir (envs k c);
          (l, p) \<leftarrow> page_lookup (pm k) pgdir badva;
          (case l of
             None \<Rightarrow> None
           | Some (_, pte) \<Rightarrow>
               do { let perm = (PTE_FLAGS (load_pte p pte) AND NOT PTE_COW) OR PTE_W;
                    (a, p) \<leftarrow> page_alloc p;
                    (case a of
                       Inl _ \<Rightarrow> None
                     | Inr new_page \<Rightarrow>
                         do { let p = p\<lparr>mem := memcpy (mem p) (page2kva new_page)
                                          (P2KADDR (PTE_ADDR (load_pte p pte))) 4096\<rparr>;
                              (_, p) \<leftarrow> page_insert p pgdir (ucast (env_asid (envs k c))) new_page badva perm;
                              Some (k\<lparr>pm := p\<rparr>) }) }) }"

text \<open>\<open>kernel_end\<close> is the linker symbol \<^verbatim>\<open>_kernel_end\<close>.  The ASID passed for user pages is \<^verbatim>\<open>env_id\<close>, cut to 16 bits.\<close>

definition do_page_fault :: "u64 \<Rightarrow> Trapframe \<Rightarrow> kstate \<Rightarrow> kstate option" where
  "do_page_fault kernel_end tf k =
     (if sepc tf \<ge> BASE_ADDR_IMM \<and> sepc tf < kernel_end
      then (if badvaddr tf \<ge> KMALLOC_BEGIN_VA \<and> badvaddr tf < KMALLOC_END_VA
            then map_option (\<lambda>p. k\<lparr>pm := p\<rparr>) (kernel_passive_alloc (pm k) (badvaddr tf))
            else None)
      else
        do { c \<leftarrow> curenv k;
             let pgdir = env_pgdir (envs k c);
             (l, p) \<leftarrow> page_lookup (pm k) pgdir (badvaddr tf);
             (case l of
                None \<Rightarrow> map_option (\<lambda>p. k\<lparr>pm := p\<rparr>)
                  (passive_alloc p (badvaddr tf) pgdir (ucast (ucast (env_id (envs k c)) :: u16)))
              | Some (_, pte) \<Rightarrow>
                  if load_pte p pte AND PTE_COW \<noteq> 0 then do_cow (badvaddr tf) (k\<lparr>pm := p\<rparr>)
                  else None) })"

definition do_clock :: "kstate \<Rightarrow> kstate option" where
  "do_clock k = schedule 0 k"

end
