(* ===== verification/SyscallProps.thy ===== *)
theory SyscallProps
  imports Syscall ProcProps
begin

text \<open>
  Properties of the system calls: the scheduling invariant across the calls that change process
  states, message passing, permissions, memory mapping and copy-on-write.
\<close>

section \<open>Process states\<close>

text \<open>In a system call the current process is runnable and in the queue.\<close>

definition running :: "kstate \<Rightarrow> nat \<Rightarrow> nat list \<Rightarrow> bool" where
  "running k c qs \<longleftrightarrow> sched_inv k qs \<and> curenv k = Some c \<and> c \<in> set qs"

lemma runningD:
  assumes "running k c qs"
  shows "sched_inv k qs" "curenv k = Some c" "c \<in> set qs" "env_status (envs k c) = ENV_RUNNABLE" "c < NENV"
  using assms sched_inv_runnable [of k qs c] by (auto simp: running_def)

definition new_queue :: "nat \<Rightarrow> u32 \<Rightarrow> nat list \<Rightarrow> nat list" where
  "new_queue e st qs =
     (if st = ENV_RUNNABLE then (if e \<in> set qs then qs else qs @ [e]) else remove1 e qs)"

lemma sched_inv_upd_status:
  assumes inv: "sched_inv k qs" and e: "e < NENV" and q: "TAILQ_rep q (new_queue e st qs)"
    and f: "\<And>v. env_status (f v) = st"
  shows "sched_inv (upd_env (k\<lparr>env_sched_list := q\<rparr>) e f) (new_queue e st qs)"
proof -
  have d: "distinct qs" using inv by (auto simp: sched_inv_def dest: TAILQ_rep_distinct)
  have "set (new_queue e st qs) = runnable (upd_env (k\<lparr>env_sched_list := q\<rparr>) e f)"
    using inv d e f
    by (auto simp: new_queue_def sched_inv_def runnable_def upd_env_def split: if_splits)
  then show ?thesis using inv q by (simp add: sched_inv_def upd_env_def)
qed

text \<open>The queue update of \<^verbatim>\<open>sys_set_env_status\<close>.\<close>

lemma set_status_queue:
  assumes inv: "sched_inv k qs" and e: "e < NENV" and nf: "env_status (envs k e) \<in> {ENV_RUNNABLE, ENV_NOT_RUNNABLE}"
    and st: "st \<in> {ENV_RUNNABLE, ENV_NOT_RUNNABLE}"
  shows "\<exists>q. (if env_status (envs k e) = ENV_NOT_RUNNABLE \<and> st = ENV_NOT_RUNNABLE then Some (env_sched_list k)
        else if env_status (envs k e) = ENV_NOT_RUNNABLE \<and> st = ENV_RUNNABLE then TAILQ_INSERT_TAIL (env_sched_list k) e
        else if env_status (envs k e) = ENV_RUNNABLE \<and> st = ENV_NOT_RUNNABLE then TAILQ_REMOVE (env_sched_list k) e
        else Some (env_sched_list k)) = Some q \<and> TAILQ_rep q (new_queue e st qs)"
proof -
  note rep = sched_inv_rep [OF inv]
  have m: "e \<in> set qs \<longleftrightarrow> env_status (envs k e) = ENV_RUNNABLE" using sched_inv_runnable [OF inv] e by simp
  have ne: "ENV_RUNNABLE \<noteq> ENV_NOT_RUNNABLE" by (simp add: envstatus)
  consider "env_status (envs k e) = ENV_NOT_RUNNABLE" "st = ENV_NOT_RUNNABLE"
    | "env_status (envs k e) = ENV_NOT_RUNNABLE" "st = ENV_RUNNABLE"
    | "env_status (envs k e) = ENV_RUNNABLE" "st = ENV_NOT_RUNNABLE"
    | "env_status (envs k e) = ENV_RUNNABLE" "st = ENV_RUNNABLE"
    using nf st by auto
  then show ?thesis
  proof cases
    case 1
    then have "e \<notin> set qs" using m ne by auto
    with 1 rep ne show ?thesis by (simp add: new_queue_def remove1_idem)
  next
    case 2
    then have "e \<notin> set qs" using m ne by auto
    with 2 ne TAILQ_INSERT_TAIL_rep [OF rep] show ?thesis by (simp add: new_queue_def)
  next
    case 3
    then have "e \<in> set qs" using m by simp
    with 3 ne TAILQ_REMOVE_rep [OF rep] show ?thesis by (simp add: new_queue_def)
  next
    case 4
    then have "e \<in> set qs" using m by simp
    with 4 ne rep show ?thesis by (simp add: new_queue_def)
  qed
qed

lemma lookup_env_Inr: "lookup_env envid cp k = Some (Inr e) \<longleftrightarrow> envid2env k envid cp = Some (Inr (Some e))"
proof (cases "envid2env k envid cp")
  case (Some r)
  show ?thesis
  proof (cases r)
    case (Inr x)
    with Some show ?thesis by (cases x) (auto simp: lookup_env_def)
  qed (use Some in \<open>simp add: lookup_env_def\<close>)
qed (simp add: lookup_env_def)

lemma distinct_set_singleton: "distinct xs \<Longrightarrow> set xs = {c} \<Longrightarrow> xs = [c]"
  by (cases xs; cases "tl xs") auto

lemma lookup_env_running:
  assumes "running k c qs" "lookup_env envid cp k = Some (Inr e)"
  shows "e < NENV" "env_status (envs k e) \<noteq> ENV_FREE"
proof -
  note r = runningD [OF assms(1)]
  have "e < NENV \<and> env_status (envs k e) \<noteq> ENV_FREE"
  proof (cases "envid = 0")
    case True
    with assms(2) r have "e = c" by (simp add: lookup_env_def envid2env_def)
    with r show ?thesis by (simp add: envstatus)
  next
    case False
    from assms(2) have "envid2env k envid cp = Some (Inr (Some e))" by (simp add: lookup_env_Inr)
    with False ENVX_less [of envid] show ?thesis
      by (auto simp: envid2env_def Let_def split: if_splits option.splits)
  qed
  then show "e < NENV" "env_status (envs k e) \<noteq> ENV_FREE" by auto
qed

text \<open>Every status a process can have.\<close>

definition statuses_ok :: "kstate \<Rightarrow> bool" where
  "statuses_ok k \<longleftrightarrow> (\<forall>e < NENV. env_status (envs k e) \<in> {ENV_FREE, ENV_RUNNABLE, ENV_NOT_RUNNABLE})"

lemma schedule_after:
  assumes "sched_inv k qs"
  shows "if qs = [] then schedule 1 k = None
    else \<exists>k' qs'. schedule 1 k = Some k' \<and> sched_inv k' qs' \<and> set qs' = set qs \<and> (\<exists>n \<in> set qs. curenv k' = Some n)
      \<and> (\<forall>x. env_status (envs k' x) = env_status (envs k x))"
proof (cases "qs = []")
  case True
  with assms schedule_empty show ?thesis by simp
next
  case False
  have d: "distinct qs" using assms by (auto simp: sched_inv_def dest: TAILQ_rep_distinct)
  have "hd (rotated k qs) \<in> set qs"
    using set_rotated [OF d, of k] rotated_eq_Nil [of k qs] False hd_in_set by blast
  moreover have "must_switch 1 k" by (simp add: must_switch_def)
  ultimately show ?thesis
    using schedule_switch [OF assms _ False, of 1] False set_rotated [OF d, of k] by auto
qed

text \<open>C12: \<^verbatim>\<open>sys_set_env_status\<close> keeps the queue invariant of \<^verbatim>\<open>kern/env.c\<close>.  It returns an error and changes
  nothing, or sets the status of the process and updates the queue accordingly; if the process is the
  caller itself it does not return but hands the CPU to a runnable process.  It panics only when the
  caller blocks itself while no other process is runnable.\<close>

theorem set_env_status_keeps_queue:
  assumes run: "running k c qs" and ok: "statuses_ok k"
    and st: "st \<in> {ENV_RUNNABLE, ENV_NOT_RUNNABLE}" and e: "lookup_env envid 1 k = Some (Inr e)"
  shows "case sys_set_env_status envid st k of
      None \<Rightarrow> e = c \<and> st = ENV_NOT_RUNNABLE \<and> qs = [c]
    | Some (r, k') \<Rightarrow> r = (if e = c then NoRet else Ret 0) \<and> env_status (envs k' e) = st
        \<and> (\<exists>qs'. sched_inv k' qs' \<and> set qs' = (if st = ENV_RUNNABLE then insert e (set qs) else set qs - {e}))"
proof -
  note r = runningD [OF run] and le = lookup_env_running [OF run e]
  have nf: "env_status (envs k e) \<in> {ENV_RUNNABLE, ENV_NOT_RUNNABLE}"
    using ok le by (auto simp: statuses_ok_def)
  from set_status_queue [OF r(1) le(1) nf st] obtain q where
    q: "(if env_status (envs k e) = ENV_NOT_RUNNABLE \<and> st = ENV_NOT_RUNNABLE then Some (env_sched_list k)
        else if env_status (envs k e) = ENV_NOT_RUNNABLE \<and> st = ENV_RUNNABLE then TAILQ_INSERT_TAIL (env_sched_list k) e
        else if env_status (envs k e) = ENV_RUNNABLE \<and> st = ENV_NOT_RUNNABLE then TAILQ_REMOVE (env_sched_list k) e
        else Some (env_sched_list k)) = Some q" "TAILQ_rep q (new_queue e st qs)" by blast
  define k1 where "k1 = upd_env (k\<lparr>env_sched_list := q\<rparr>) e (env_status_update (\<lambda>_. st))"
  have inv: "sched_inv k1 (new_queue e st qs)"
    unfolding k1_def by (rule sched_inv_upd_status [OF r(1) le(1) q(2)]) simp
  have d: "distinct qs" using r(1) by (auto simp: sched_inv_def dest: TAILQ_rep_distinct)
  have mem: "set (new_queue e st qs) = (if st = ENV_RUNNABLE then insert e (set qs) else set qs - {e})"
    using d by (auto simp: new_queue_def)
  have st': "env_status (envs k1 e) = st" "curenv k1 = Some c" using r(2) by (simp_all add: k1_def upd_env_def)
  have s: "sys_set_env_status envid st k = (if e = c then no_return (schedule 1 k1) else Some (Ret 0, k1))"
  proof -
    have "(st \<noteq> ENV_RUNNABLE \<and> st \<noteq> ENV_NOT_RUNNABLE) = False" using st by auto
    then show ?thesis
      unfolding sys_set_env_status_def Let_def
      by (simp only: if_False e bind.bind_lunit sum.case q(1) k1_def [symmetric] st'(2) option.inject eq_commute [of c])
  qed
  show ?thesis
  proof (cases "e = c")
    case False
    then have "sys_set_env_status envid st k = Some (Ret 0, k1)" using s by simp
    with False inv mem st'(1) show ?thesis by (simp only:) (auto simp del: set_remove1_eq)
  next
    case True
    then have s': "sys_set_env_status envid st k = no_return (schedule 1 k1)" using s by simp
    show ?thesis
    proof (cases "new_queue e st qs = []")
      case nil: True
      have "set qs = {c}" "st \<noteq> ENV_RUNNABLE" using nil mem True r(3) by (auto split: if_splits)
      moreover from this d have "qs = [c]" by (auto intro: distinct_set_singleton)
      moreover have "sys_set_env_status envid st k = None"
        using s' schedule_after [OF inv] nil by (simp add: no_return_def)
      ultimately show ?thesis using True st by (simp only:) auto
    next
      case False
      with schedule_after [OF inv] obtain k' qs' where k': "schedule 1 k1 = Some k'" "sched_inv k' qs'"
        "set qs' = set (new_queue e st qs)" "\<forall>x. env_status (envs k' x) = env_status (envs k1 x)" by auto
      have "sys_set_env_status envid st k = Some (NoRet, k')" using s' k'(1) by (simp add: no_return_def)
      with True k' mem st'(1) show ?thesis by (simp only:) auto
    qed
  qed
qed

lemma sample_running: "running sample_kstate 3 [3, 5]"
  using sample_sched_inv by (simp add: running_def sample_kstate_def)

lemma sample_statuses: "statuses_ok sample_kstate"
  by (simp add: statuses_ok_def sample_kstate_def sample_env_def)

lemma sample_lookup_child: "lookup_env 4101 cp sample_kstate = Some (Inr 5)"
  by (simp add: lookup_env_Inr envid2env_def ENVX_mask take_bit_eq_mod sample_kstate_def sample_env_def envstatus)

theorem set_env_status_keeps_queue_witness:
  "\<exists>k' qs'. sys_set_env_status 4101 ENV_NOT_RUNNABLE sample_kstate = Some (Ret 0, k') \<and> sched_inv k' qs' \<and> set qs' = {3}"
  using set_env_status_keeps_queue [OF sample_running sample_statuses _ sample_lookup_child, of ENV_NOT_RUNNABLE]
  by (auto simp: envstatus insert_Diff_if split: option.splits)

section \<open>Messages\<close>

text \<open>\<^verbatim>\<open>sys_ipc_recv\<close> with an acceptable address records what the caller waits for, makes it not
  runnable, takes it out of the queue and hands the CPU to another runnable process; it panics
  exactly when the caller was the only runnable process.\<close>

theorem ipc_recv_blocks:
  assumes run: "running k c qs" and ok: "dstva = 0 \<or> \<not> is_illegal_va (ucast dstva)"
  shows "case sys_ipc_recv dstva from k of
      None \<Rightarrow> qs = [c]
    | Some (r, k') \<Rightarrow> r = NoRet \<and> env_status (envs k' c) = ENV_NOT_RUNNABLE
        \<and> env_ipc_recving (envs k' c) = 1 \<and> env_ipc_dstva (envs k' c) = ucast dstva
        \<and> env_ipc_recv_from (envs k' c) = from \<and> pm k' = pm k
        \<and> (\<exists>qs'. sched_inv k' qs' \<and> set qs' = set qs - {c} \<and> (\<exists>n \<in> set qs'. curenv k' = Some n))"
proof -
  note r = runningD [OF run]
  have d: "distinct qs" using r(1) by (auto simp: sched_inv_def dest: TAILQ_rep_distinct)
  define f where "f = (\<lambda>v :: Env. v\<lparr>env_ipc_recving := 1, env_ipc_dstva := ucast dstva,
                                     env_ipc_recv_from := from, env_status := ENV_NOT_RUNNABLE\<rparr>)"
  have nq: "new_queue c ENV_NOT_RUNNABLE qs = remove1 c qs" by (simp add: new_queue_def envstatus)
  from TAILQ_REMOVE_rep [OF sched_inv_rep [OF r(1)] r(3)] obtain q where
    q: "TAILQ_REMOVE (env_sched_list k) c = Some q" "TAILQ_rep q (remove1 c qs)" by blast
  define k1 where "k1 = (upd_env k c f)
      \<lparr>env_sched_list := q, kstack_tf := (kstack_tf k)\<lparr>regs := (regs (kstack_tf k))(10 := 0)\<rparr>\<rparr>"
  have "sched_inv (upd_env (k\<lparr>env_sched_list := q\<rparr>) c f) (remove1 c qs)"
    using sched_inv_upd_status [OF r(1,5), of q ENV_NOT_RUNNABLE f] q(2) nq by (simp add: f_def)
  then have inv: "sched_inv k1 (remove1 c qs)" by (simp add: k1_def sched_inv_def runnable_def upd_env_def)
  have s: "sys_ipc_recv dstva from k = no_return (schedule 1 k1)"
    using ok r(2) q(1) by (auto simp: sys_ipc_recv_def Let_def k1_def f_def upd_env_def)
  have kc: "envs k1 c = f (envs k c)" "pm k1 = pm k" by (simp_all add: k1_def upd_env_def)
  show ?thesis
  proof (cases "remove1 c qs = []")
    case True
    then have "set qs = {c}" using r(3) d set_remove1_eq [OF d, of c] by auto
    then have "qs = [c]" using d by (auto intro: distinct_set_singleton)
    with s schedule_after [OF inv] True show ?thesis by (simp add: no_return_def)
  next
    case False
    with schedule_after [OF inv] obtain k' qs' where k': "schedule 1 k1 = Some k'" "sched_inv k' qs'"
      "set qs' = set (remove1 c qs)" "\<exists>n \<in> set (remove1 c qs). curenv k' = Some n" by auto
    have "sys_ipc_recv dstva from k = Some (NoRet, k')" using s k'(1) by (simp add: no_return_def)
    moreover note same_envD [OF schedule_same(1) [OF k'(1), of c]] schedule_same(2) [OF k'(1)]
    moreover have "set (remove1 c qs) = set qs - {c}" using d by simp
    ultimately show ?thesis using k' kc by (auto simp: f_def simp del: set_remove1_eq)
  qed
qed

theorem ipc_recv_blocks_witness:
  "\<exists>k'. sys_ipc_recv 0 0 sample_kstate = Some (NoRet, k') \<and> curenv k' = Some 5"
  using ipc_recv_blocks [OF sample_running, of 0 0] by (auto split: option.splits)

text \<open>C13: \<^verbatim>\<open>sys_ipc_try_send\<close> without a page to a process that is blocked in \<^verbatim>\<open>sys_ipc_recv\<close> and accepts
  the sender delivers value and sender, ends the wait and puts the receiver at the tail of the queue.
  To any other process it returns an error code and changes nothing.\<close>

theorem ipc_send_delivers:
  assumes run: "running k c qs" and e: "lookup_env envid 0 k = Some (Inr e)"
    and blocked: "env_ipc_recving (envs k e) \<noteq> 0 \<longrightarrow> env_status (envs k e) = ENV_NOT_RUNNABLE"
  shows "if env_ipc_recving (envs k e) \<noteq> 0
      \<and> (env_ipc_recv_from (envs k e) = 0 \<or> env_ipc_recv_from (envs k e) = env_id (envs k c))
    then \<exists>k'. sys_ipc_try_send envid value 0 perm k = Some (Ret 0, k')
      \<and> env_ipc_value (envs k' e) = value \<and> env_ipc_from (envs k' e) = env_id (envs k c)
      \<and> env_ipc_recving (envs k' e) = 0 \<and> env_status (envs k' e) = ENV_RUNNABLE
      \<and> sched_inv k' (qs @ [e]) \<and> curenv k' = curenv k \<and> pm k' = pm k
      \<and> (\<forall>x. x \<noteq> e \<longrightarrow> envs k' x = envs k x)
    else sys_ipc_try_send envid value 0 perm k = Some (Ret (- E_IPC_NOT_RECV), k)"
proof (cases "env_ipc_recving (envs k e) \<noteq> 0
      \<and> (env_ipc_recv_from (envs k e) = 0 \<or> env_ipc_recv_from (envs k e) = env_id (envs k c))")
  case False
  then show ?thesis using e runningD(2) [OF run] by (auto simp: sys_ipc_try_send_def)
next
  case True
  note r = runningD [OF run] and le = lookup_env_running [OF run e]
  have "e \<notin> set qs" using True blocked sched_inv_runnable [OF r(1), of e] by (auto simp: envstatus)
  then have nq: "new_queue e ENV_RUNNABLE qs = qs @ [e]" by (simp add: new_queue_def)
  from TAILQ_INSERT_TAIL_rep [OF sched_inv_rep [OF r(1)] \<open>e \<notin> set qs\<close>] obtain q where
    q: "TAILQ_INSERT_TAIL (env_sched_list k) e = Some q" "TAILQ_rep q (qs @ [e])" by blast
  define f where "f = (\<lambda>v :: Env. v\<lparr>env_ipc_value := value, env_ipc_from := env_id (envs k c),
      env_ipc_perm := ucast ((ucast perm AND GENMASK 9 0) OR PTE_USER),
      env_ipc_recving := 0, env_status := ENV_RUNNABLE, env_in_syscall := 0\<rparr>)"
  have inv: "sched_inv (upd_env (k\<lparr>env_sched_list := q\<rparr>) e f) (qs @ [e])"
    using sched_inv_upd_status [OF r(1) le(1), of q ENV_RUNNABLE f] q(2) nq by (simp add: f_def)
  have "sys_ipc_try_send envid value 0 perm k = Some (Ret 0, upd_env (k\<lparr>env_sched_list := q\<rparr>) e f)"
    using True e r(2) q(1) by (auto simp: sys_ipc_try_send_def Let_def f_def upd_env_def)
  moreover have "envs (upd_env (k\<lparr>env_sched_list := q\<rparr>) e f) e = f (envs k e)"
    "pm (upd_env (k\<lparr>env_sched_list := q\<rparr>) e f) = pm k"
    "curenv (upd_env (k\<lparr>env_sched_list := q\<rparr>) e f) = curenv k"
    "\<forall>x. x \<noteq> e \<longrightarrow> envs (upd_env (k\<lparr>env_sched_list := q\<rparr>) e f) x = envs k x"
    by (simp_all add: upd_env_def)
  ultimately show ?thesis using True inv by (auto simp: f_def)
qed

text \<open>The sample with process 5 blocked in \<^verbatim>\<open>sys_ipc_recv\<close> and process 3 running.\<close>

definition sample_blocked :: kstate where
  "sample_blocked = upd_env (sample_kstate\<lparr>env_sched_list := TAILQ_INSERT_HEAD
      \<lparr>tqh_first = None, tqh_last = RHead, tqe_next = (\<lambda>_. None), tqe_prev = (\<lambda>_. RNull)\<rparr> 3\<rparr>) 5
      (\<lambda>v. v\<lparr>env_status := ENV_NOT_RUNNABLE, env_ipc_recving := 1\<rparr>)"

lemma sample_blocked_running: "running sample_blocked 3 [3]"
proof -
  have "TAILQ_rep \<lparr>tqh_first = None, tqh_last = RHead, tqe_next = (\<lambda>_. None), tqe_prev = (\<lambda>_. RNull)\<rparr> ([] :: nat list)"
    by (simp add: TAILQ_rep_def)
  from TAILQ_INSERT_HEAD_rep [OF this, of 3]
  have "TAILQ_rep (env_sched_list sample_blocked) [3]" by (simp add: sample_blocked_def upd_env_def)
  then show ?thesis
    by (auto simp: running_def sched_inv_def runnable_def sample_blocked_def upd_env_def sample_kstate_def
        sample_env_def envstatus NENV_def)
qed

theorem ipc_send_delivers_witness:
  "\<exists>k'. sys_ipc_try_send 4101 42 0 0 sample_blocked = Some (Ret 0, k') \<and> env_ipc_value (envs k' 5) = 42
     \<and> sched_inv k' [3, 5]"
proof -
  have "lookup_env 4101 0 sample_blocked = Some (Inr 5)"
    by (simp add: lookup_env_Inr envid2env_def ENVX_mask take_bit_eq_mod sample_blocked_def upd_env_def
        sample_kstate_def sample_env_def envstatus)
  from ipc_send_delivers [OF sample_blocked_running this, of 42 0] show ?thesis
    by (auto simp: sample_blocked_def upd_env_def sample_kstate_def sample_env_def)
qed

end
