(* ===== verification/Kmalloc.thy ===== *)
theory Kmalloc
  imports Pmap
begin

text \<open>
  The kernel heap: \<^verbatim>\<open>kern/kmalloc.c\<close> and \<^verbatim>\<open>struct MBlock\<close> of \<^verbatim>\<open>include/kmalloc.h\<close>.

  A \<^verbatim>\<open>struct MBlock *\<close> is its address; the headers are a typed store \<open>mblock\<close> indexed by it, and
  their links are in \<open>mblock_list\<close>.  The pages behind the heap are mapped on first touch by the
  page-fault handler and are not tracked here.  \<^verbatim>\<open>NULL\<close> is address 0.  A walk along
  \<^verbatim>\<open>LIST_FOREACH\<close> is a partial function: on a circular list it has no value.

  The theorems: under the heap invariant (\<open>heap_rep\<close>: the blocks tile the heap, two neighbouring blocks
  are never both free) \<^verbatim>\<open>kmalloc\<close> and \<^verbatim>\<open>kfree\<close> implement a first-fit allocator on a list of block
  sizes.
\<close>

section \<open>Definitions\<close>

record MBlock =
  mb_size :: u64
  mb_ptr :: u64
  mb_free :: u32

record kheap =
  mblock_list :: "u64 LIST"
  mblock :: "u64 \<Rightarrow> MBlock"
  total_requested_bytes :: u64
  total_free_bytes :: u64

definition MBLOCK_SIZE :: u64 where "MBLOCK_SIZE = 40"

definition upd_block :: "u64 \<Rightarrow> (MBlock \<Rightarrow> MBlock) \<Rightarrow> kheap \<Rightarrow> kheap" where
  "upd_block a f h = h\<lparr>mblock := (mblock h)(a := f (mblock h a))\<rparr>"

text \<open>
  The back link is the address of the previous block's first field, the block itself.  A back link
  to the list head is no block: using it would read behind the head variable.
\<close>

definition MBLOCK_PREV :: "u64 LIST \<Rightarrow> u64 \<Rightarrow> u64 option option" where
  "MBLOCK_PREV l elm = (case le_prev l elm of RNull \<Rightarrow> Some None | RHead \<Rightarrow> None | RNext y \<Rightarrow> Some (Some y))"

definition kmalloc_init :: "pstate \<Rightarrow> kheap \<Rightarrow> (pstate \<times> kheap) option" where
  "kmalloc_init p h =
     do { (a, p) \<leftarrow> page_alloc p;
          (case a of
             Inl _ \<Rightarrow> None
           | Inr p2page \<Rightarrow>
               do { let p = set_ref p p2page (pp_ref p p2page + 1);
                    let p = store_pte p (kernel_boot_pgdir + 8 * P1X KMALLOC_BEGIN_VA)
                              (push_bit 10 (page2ppn p2page) OR PTE_V);
                    let h = h\<lparr>mblock_list := LIST_INIT (mblock_list h)\<rparr>;
                    let h = upd_block KMALLOC_BEGIN_VA
                              (\<lambda>b. b\<lparr>mb_size := KMALLOC_HEAP_SIZE - MBLOCK_SIZE,
                                      mb_ptr := KMALLOC_BEGIN_VA + MBLOCK_SIZE, mb_free := 1\<rparr>) h;
                    Some (p, h\<lparr>mblock_list := LIST_INSERT_HEAD (mblock_list h) KMALLOC_BEGIN_VA\<rparr>) }) }"

text \<open>The search loop of \<^verbatim>\<open>kmalloc\<close>: the first free block that is large enough, or \<^verbatim>\<open>NULL\<close>.\<close>

partial_function (option) kmalloc_find :: "kheap \<Rightarrow> u64 \<Rightarrow> u64 option \<Rightarrow> u64 option option" where
  "kmalloc_find h n cur =
     (case cur of
        None \<Rightarrow> Some None
      | Some b \<Rightarrow>
          if mb_free (mblock h b) = 0 then kmalloc_find h n (LIST_NEXT (mblock_list h) b)
          else if n \<le> mb_size (mblock h b) then Some (Some b)
          else kmalloc_find h n (LIST_NEXT (mblock_list h) b))"

text \<open>The body of the loop for the block found.\<close>

definition kmalloc_take :: "u64 \<Rightarrow> u64 \<Rightarrow> kheap \<Rightarrow> kheap" where
  "kmalloc_take b n h =
     (let remain_size = mb_size (mblock h b) - n in
      if remain_size < MBLOCK_SIZE + 8
      then upd_block b (\<lambda>v. v\<lparr>mb_size := n + remain_size, mb_free := 0\<rparr>) h
      else
        (let next_node = b + MBLOCK_SIZE + n;
             h = upd_block next_node (\<lambda>v. v\<lparr>mb_size := remain_size - MBLOCK_SIZE,
                                            mb_ptr := next_node + MBLOCK_SIZE, mb_free := 1\<rparr>) h;
             h = upd_block b (\<lambda>v. v\<lparr>mb_size := n, mb_free := 0\<rparr>) h
         in h\<lparr>mblock_list := LIST_INSERT_AFTER (mblock_list h) b next_node\<rparr>))"

definition kmalloc :: "u64 \<Rightarrow> kheap \<Rightarrow> (u64 \<times> kheap) option" where
  "kmalloc sz h =
     do { let h = h\<lparr>total_requested_bytes := total_requested_bytes h + sz\<rparr>;
          let n = ROUND sz 8;
          r \<leftarrow> kmalloc_find h n (LIST_FIRST (mblock_list h));
          (case r of
             None \<Rightarrow> Some (0, h)
           | Some b \<Rightarrow> let h = kmalloc_take b n h in Some (mb_ptr (mblock h b), h)) }"

text \<open>Merging the block \<open>b\<close> with its successor \<open>c\<close>.\<close>

definition kfree_merge :: "u64 \<Rightarrow> u64 \<Rightarrow> kheap \<Rightarrow> kheap option" where
  "kfree_merge b c h =
     do { let h = upd_block b (\<lambda>v. v\<lparr>mb_size := mb_size v + (mb_size (mblock h c) + MBLOCK_SIZE)\<rparr>) h;
          l \<leftarrow> LIST_REMOVE (mblock_list h) c;
          Some (h\<lparr>mblock_list := l\<rparr>) }"

definition kfree :: "u64 \<Rightarrow> kheap \<Rightarrow> kheap option" where
  "kfree ptr_addr h =
     (if ptr_addr < KMALLOC_BEGIN_VA + MBLOCK_SIZE \<or> ptr_addr > KMALLOC_END_VA then None
      else
        (let cur_node = ptr_addr - MBLOCK_SIZE in
         if mb_ptr (mblock h cur_node) \<noteq> cur_node + MBLOCK_SIZE then None
         else
           do { let h = h\<lparr>total_free_bytes := total_free_bytes h + mb_size (mblock h cur_node)\<rparr>;
                let next_node = LIST_NEXT (mblock_list h) cur_node;
                prev_node \<leftarrow> (if LIST_FIRST (mblock_list h) \<noteq> Some cur_node
                             then MBLOCK_PREV (mblock_list h) cur_node else Some None);
                h \<leftarrow> (case next_node of None \<Rightarrow> Some h
                      | Some c \<Rightarrow> if mb_free (mblock h c) = 1 then kfree_merge cur_node c h else Some h);
                h \<leftarrow> (case prev_node of None \<Rightarrow> Some h
                      | Some b \<Rightarrow> if mb_free (mblock h b) = 1 then kfree_merge b cur_node h else Some h);
                Some (upd_block cur_node (\<lambda>v. v\<lparr>mb_free := 1\<rparr>) h) }))"

section \<open>The abstract heap\<close>

text \<open>
  A heap is a list of blocks, each a size and whether it is free; the addresses follow from the
  sizes, each block being preceded by a header of 40 bytes.
\<close>

type_synonym blocks = "(nat \<times> bool) list"

fun extent :: "blocks \<Rightarrow> nat" where
  "extent [] = 0"
| "extent ((n, f) # bs) = 40 + n + extent bs"

fun addrs :: "u64 \<Rightarrow> blocks \<Rightarrow> u64 list" where
  "addrs a [] = []"
| "addrs a ((n, f) # bs) = a # addrs (a + 40 + of_nat n) bs"

fun headers :: "(u64 \<Rightarrow> MBlock) \<Rightarrow> u64 \<Rightarrow> blocks \<Rightarrow> bool" where
  "headers m a [] = True"
| "headers m a ((n, f) # bs) \<longleftrightarrow> mb_size (m a) = of_nat n \<and> mb_ptr (m a) = a + 40
     \<and> mb_free (m a) = (if f then 1 else 0) \<and> headers m (a + 40 + of_nat n) bs"

fun coalesced :: "blocks \<Rightarrow> bool" where
  "coalesced ((_, f) # (n, g) # bs) \<longleftrightarrow> \<not> (f \<and> g) \<and> coalesced ((n, g) # bs)"
| "coalesced _ = True"

definition tiled :: "kheap \<Rightarrow> blocks \<Rightarrow> bool" where
  "tiled h bs \<longleftrightarrow> LIST_rep (mblock_list h) (addrs KMALLOC_BEGIN_VA bs)
     \<and> headers (mblock h) KMALLOC_BEGIN_VA bs
     \<and> extent bs = unat KMALLOC_HEAP_SIZE \<and> (\<forall>(n, f) \<in> set bs. n mod 8 = 0)"

definition heap_rep :: "kheap \<Rightarrow> blocks \<Rightarrow> bool" where
  "heap_rep h bs \<longleftrightarrow> tiled h bs \<and> coalesced bs"

text \<open>First fit: the offset of the block taken and the new blocks.\<close>

definition split_block :: "nat \<Rightarrow> nat \<Rightarrow> blocks" where
  "split_block n m = (if m - n < 48 then [(m, False)] else [(n, False), (m - n - 40, True)])"

fun first_fit :: "nat \<Rightarrow> blocks \<Rightarrow> (nat \<times> blocks) option" where
  "first_fit n [] = None"
| "first_fit n ((m, f) # bs) =
     (if f \<and> n \<le> m then Some (0, split_block n m @ bs)
      else map_option (\<lambda>(off, bs). (40 + m + off, (m, f) # bs)) (first_fit n bs))"

text \<open>Freeing a block of size \<open>n\<close> between \<open>xs\<close> and \<open>ys\<close>: merge with the successor, then with the predecessor.\<close>

fun merge_next :: "nat \<Rightarrow> blocks \<Rightarrow> blocks" where
  "merge_next n ((m, True) # bs) = (n + (m + 40), True) # bs"
| "merge_next n bs = (n, True) # bs"

fun release :: "blocks \<Rightarrow> nat \<Rightarrow> blocks \<Rightarrow> blocks" where
  "release [] n ys = merge_next n ys"
| "release [(m, True)] n ys = merge_next m (merge_next n ys)"
| "release (x # xs) n ys = x # release xs n ys"

section \<open>Lists of blocks\<close>

lemma extent_append [simp]: "extent (xs @ ys) = extent xs + extent ys"
  by (induction xs rule: extent.induct) auto

lemma addrs_append: "addrs a (xs @ ys) = addrs a xs @ addrs (a + of_nat (extent xs)) ys"
  by (induction a xs rule: addrs.induct) (auto simp: algebra_simps)

lemma headers_append:
  "headers m a (xs @ ys) \<longleftrightarrow> headers m a xs \<and> headers m (a + of_nat (extent xs)) ys"
  by (induction m a xs rule: headers.induct) (auto simp: algebra_simps)

lemma headers_cong: "(\<And>x. x \<in> set (addrs a bs) \<Longrightarrow> m' x = m x) \<Longrightarrow> headers m' a bs = headers m a bs"
  by (induction m a bs rule: headers.induct) auto

lemma addrs_offset: "x \<in> set (addrs a bs) \<Longrightarrow> \<exists>d < extent bs. x = a + of_nat d"
proof (induction a bs rule: addrs.induct)
  case (2 a n f bs)
  show ?case
  proof (cases "x = a")
    case False
    with 2 obtain d where "d < extent bs" "x = a + 40 + of_nat n + of_nat d" by auto
    then show ?thesis by (intro exI [of _ "40 + n + d"]) (simp add: algebra_simps)
  qed (auto intro!: exI [of _ 0])
qed simp

lemma distinct_addrs: "extent bs < 2 ^ 64 \<Longrightarrow> distinct (addrs a bs)"
proof (induction a bs rule: addrs.induct)
  case (2 a n f bs)
  have "a \<notin> set (addrs (a + 40 + of_nat n) bs)"
  proof
    assume "a \<in> set (addrs (a + 40 + of_nat n) bs)"
    from addrs_offset [OF this] obtain d where d: "d < extent bs" "a = a + 40 + of_nat n + of_nat d" by blast
    then have "(of_nat (40 + n + d) :: u64) = 0" by (simp add: algebra_simps)
    moreover have "unat (of_nat (40 + n + d) :: u64) = 40 + n + d"
      using d(1) 2(2) by (intro unat_of_nat64) simp
    ultimately show False by simp
  qed
  with 2 show ?case by simp
qed simp

lemma coalesced_append:
  "coalesced (xs @ (n, f) # ys) \<longleftrightarrow> coalesced (xs @ [(n, f)]) \<and> coalesced ((n, f) # ys)"
proof (induction xs)
  case (Cons x xs)
  then show ?case by (cases x; cases xs) auto
qed simp

lemma coalesced_False: "coalesced (xs @ [(n, f)]) \<Longrightarrow> coalesced (xs @ [(m, False)])"
proof (induction xs)
  case (Cons x xs)
  then show ?case by (cases x; cases xs) auto
qed simp

lemma coalesced_resize: "coalesced ((n, f) # ys) \<Longrightarrow> coalesced ((m, f) # ys)"
  by (cases ys) auto

lemma coalesced_used: "coalesced ((n, f) # ys) \<Longrightarrow> coalesced ((m, False) # ys)"
  by (cases ys) auto

lemma first_fit_Some:
  "first_fit n bs = Some (off, bs') \<Longrightarrow>
     \<exists>xs m ys. bs = xs @ (m, True) # ys \<and> n \<le> m \<and> off = extent xs \<and> bs' = xs @ split_block n m @ ys"
proof (induction n bs arbitrary: off bs' rule: first_fit.induct)
  case (2 n m f bs)
  show ?case
  proof (cases "f \<and> n \<le> m")
    case True
    with 2 show ?thesis by (intro exI [of _ "[]"]) auto
  next
    case False
    with 2(2) obtain o1 b1 where 1: "first_fit n bs = Some (o1, b1)" "off = 40 + m + o1" "bs' = (m, f) # b1"
      by auto
    from 2(1) [OF False 1(1)] obtain xs k ys where
      "bs = xs @ (k, True) # ys" "n \<le> k" "o1 = extent xs" "b1 = xs @ split_block n k @ ys" by blast
    with 1 show ?thesis by (intro exI [of _ "(m, f) # xs"]) auto
  qed
qed simp

lemma first_fit_None: "first_fit n bs = None \<longleftrightarrow> (\<forall>(m, f) \<in> set bs. f \<longrightarrow> m < n)"
  by (induction n bs rule: first_fit.induct) (auto simp: not_le)

section \<open>The heap invariant\<close>

definition block_addr :: "blocks \<Rightarrow> u64" where
  "block_addr xs = KMALLOC_BEGIN_VA + of_nat (extent xs)"

lemma heap_size [simp]: "unat KMALLOC_HEAP_SIZE = 1073741824"
  by (simp add: layout)

lemma tiled_size:
  assumes "tiled h bs" "(n, f) \<in> set bs"
  shows "n < 1073741824"
proof -
  from assms(2) obtain xs ys where "bs = xs @ (n, f) # ys" by (meson split_list)
  with assms(1) show ?thesis by (auto simp: tiled_def)
qed

lemma addrs_at: "addrs KMALLOC_BEGIN_VA (xs @ zs) = addrs KMALLOC_BEGIN_VA xs @ addrs (block_addr xs) zs"
  by (simp add: addrs_append block_addr_def)

lemma headers_at: "headers m KMALLOC_BEGIN_VA (xs @ zs) \<longleftrightarrow> headers m KMALLOC_BEGIN_VA xs \<and> headers m (block_addr xs) zs"
  by (simp add: headers_append block_addr_def)

lemma block_addr_append: "block_addr (xs @ zs) = block_addr xs + of_nat (extent zs)"
  by (simp add: block_addr_def)

lemma tiledD:
  assumes "tiled h (xs @ (n, f) # ys)"
  defines "b \<equiv> block_addr xs"
  shows "mb_size (mblock h b) = of_nat n" "mb_ptr (mblock h b) = b + 40" "mb_free (mblock h b) = (if f then 1 else 0)"
    and "headers (mblock h) KMALLOC_BEGIN_VA xs" "headers (mblock h) (b + 40 + of_nat n) ys"
    and "LIST_rep (mblock_list h) (addrs KMALLOC_BEGIN_VA xs @ b # addrs (b + 40 + of_nat n) ys)"
    and "\<forall>(i, f) \<in> set xs \<union> set ys. i mod 8 = 0" "n mod 8 = 0"
    and "extent xs + 40 + n + extent ys = 1073741824"
  using assms by (auto simp: tiled_def headers_at addrs_at)

lemma tiled_distinct: "tiled h bs \<Longrightarrow> distinct (addrs KMALLOC_BEGIN_VA bs)"
  by (auto simp: tiled_def dest: LIST_rep_distinct)

text \<open>Rewriting the blocks \<open>zs\<close> in the middle of the heap: only their headers may change.\<close>

lemma tiledI:
  assumes "LIST_rep (mblock_list h') (addrs KMALLOC_BEGIN_VA (xs @ zs @ ys))"
    and ext: "extent (xs @ zs @ ys) = 1073741824"
    and "\<forall>(n, f) \<in> set xs \<union> set ys. n mod 8 = 0" "\<forall>(n, f) \<in> set zs. n mod 8 = 0"
    and "headers m KMALLOC_BEGIN_VA xs" "headers m (block_addr (xs @ zs)) ys"
    and "headers (mblock h') (block_addr xs) zs"
    and "\<And>x. x \<in> set (addrs KMALLOC_BEGIN_VA xs @ addrs (block_addr (xs @ zs)) ys)
          \<Longrightarrow> x \<notin> set (addrs (block_addr xs) zs) \<Longrightarrow> mblock h' x = m x"
  shows "tiled h' (xs @ zs @ ys)"
proof -
  have d: "distinct (addrs KMALLOC_BEGIN_VA (xs @ zs @ ys))" by (rule distinct_addrs) (use ext in simp)
  have a: "x \<notin> set (addrs (block_addr xs) zs)" if "x \<in> set (addrs KMALLOC_BEGIN_VA xs)" for x
    using d that by (auto simp: addrs_append block_addr_def)
  have b: "x \<notin> set (addrs (block_addr xs) zs)" if "x \<in> set (addrs (block_addr (xs @ zs)) ys)" for x
    using d that by (auto simp: addrs_append block_addr_def algebra_simps)
  have "headers (mblock h') KMALLOC_BEGIN_VA xs"
    using headers_cong [of KMALLOC_BEGIN_VA xs "mblock h'" m] assms(5,8) a by simp
  moreover have "headers (mblock h') (block_addr (xs @ zs)) ys"
    using headers_cong [of "block_addr (xs @ zs)" ys "mblock h'" m] assms(6,8) b by simp
  ultimately show ?thesis
    using assms(1-4,7) by (auto simp: tiled_def headers_append block_addr_def algebra_simps)
qed

lemma coalesced_parts:
  assumes "coalesced (xs @ (n, f) # ys)"
  shows "coalesced (xs @ [(n, f)])" "coalesced ((n, f) # ys)"
  using assms by (simp_all only: coalesced_append [of xs n f ys])

section \<open>Allocation\<close>

lemma kmalloc_find_seg:
  assumes "headers (mblock h) a bs" "lseg (le_next (mblock_list h)) pv r p (addrs a bs)"
    and "\<forall>(m, f) \<in> set bs. m < 2 ^ 64"
  shows "kmalloc_find h n p = Some (map_option (\<lambda>(off, _). a + of_nat off) (first_fit (unat n) bs))"
  using assms
proof (induction bs arbitrary: a r p)
  case Nil
  then show ?case by (simp add: kmalloc_find.simps)
next
  case (Cons x bs)
  obtain m f where x: "x = (m, f)" by force
  with Cons.prems have p: "p = Some a" "m < 2 ^ 64"
    "lseg (le_next (mblock_list h)) pv (RNext a) (le_next (mblock_list h) a) (addrs (a + 40 + of_nat m) bs)"
    "headers (mblock h) (a + 40 + of_nat m) bs" by auto
  have ih: "kmalloc_find h n (le_next (mblock_list h) a)
      = Some (map_option (\<lambda>(off, _). a + 40 + of_nat m + of_nat off) (first_fit (unat n) bs))"
    using Cons.IH [OF p(4,3)] Cons.prems(3) by simp
  have le: "n \<le> of_nat m \<longleftrightarrow> unat n \<le> m" using p(2) by (simp add: word_le_nat_alt)
  from Cons.prems(1) p(1) x ih le show ?case
    by (subst kmalloc_find.simps) (auto simp: LIST_NEXT_def option.map_comp comp_def algebra_simps case_prod_unfold)
qed

lemma coalesced_take:
  assumes "coalesced (xs @ [(m, f)])" "coalesced ((m, f) # ys)"
  shows "coalesced (xs @ (n, False) # ys)" "f \<Longrightarrow> coalesced (xs @ (n, False) # (k, True) # ys)"
proof -
  note a = coalesced_False [OF assms(1), of n]
  show "coalesced (xs @ (n, False) # ys)"
    by (subst coalesced_append) (use a coalesced_used [OF assms(2)] in simp)
  show "coalesced (xs @ (n, False) # (k, True) # ys)" if f
    by (subst coalesced_append) (use that a coalesced_resize [OF assms(2)] in simp)
qed

lemma kmalloc_take_whole:
  assumes til: "tiled h (xs @ (m, True) # ys)"
  shows "tiled (upd_block (block_addr xs) (\<lambda>v. v\<lparr>mb_size := of_nat m, mb_free := 0\<rparr>) h) (xs @ [(m, False)] @ ys)"
    (is "tiled ?h _")
proof (rule tiledI [where m = "mblock h"])
  note r = tiledD [OF til]
  show "LIST_rep (mblock_list ?h) (addrs KMALLOC_BEGIN_VA (xs @ [(m, False)] @ ys))"
    using r(6) by (simp add: upd_block_def addrs_at)
  show "headers (mblock h) (block_addr (xs @ [(m, False)])) ys"
    using r(5) by (simp add: block_addr_append add.assoc)
qed (use tiledD [OF til] in \<open>simp_all add: upd_block_def\<close>)

lemma kmalloc_take_split:
  assumes til: "tiled h (xs @ (n + 40 + k, True) # ys)" and n8: "n mod 8 = 0"
  defines "c \<equiv> block_addr xs + 40 + of_nat n"
  shows "tiled ((upd_block (block_addr xs) (\<lambda>v. v\<lparr>mb_size := of_nat n, mb_free := 0\<rparr>)
        (upd_block c (\<lambda>v. v\<lparr>mb_size := of_nat k, mb_ptr := c + 40, mb_free := 1\<rparr>) h))
          \<lparr>mblock_list := LIST_INSERT_AFTER (mblock_list h) (block_addr xs) c\<rparr>)
      (xs @ [(n, False), (k, True)] @ ys)" (is "tiled ?h ?bs")
    and "c \<noteq> block_addr xs"
proof -
  note r = tiledD [OF til]
  have addrs: "addrs KMALLOC_BEGIN_VA ?bs
      = addrs KMALLOC_BEGIN_VA xs @ block_addr xs # c # addrs (block_addr xs + 40 + of_nat (n + 40 + k)) ys"
    by (simp add: addrs_at c_def algebra_simps)
  have ext: "extent ?bs = 1073741824" using r(9) by simp
  have "distinct (addrs KMALLOC_BEGIN_VA ?bs)" by (rule distinct_addrs) (use ext in simp)
  note d = this [unfolded addrs]
  then show cb: "c \<noteq> block_addr xs" by auto
  show "tiled ?h ?bs"
  proof (rule tiledI [where m = "mblock h"])
    show "LIST_rep (mblock_list ?h) (addrs KMALLOC_BEGIN_VA ?bs)"
      unfolding addrs using LIST_INSERT_AFTER_rep [OF r(6), of c] d by auto
    show "\<forall>(i, f) \<in> set [(n, False), (k, True)]. i mod 8 = 0"
      using r(8) n8 by (auto; presburger)
    show "headers (mblock h) (block_addr (xs @ [(n, False), (k, True)])) ys"
      using r(5) by (simp add: block_addr_append algebra_simps)
    show "headers (mblock ?h) (block_addr xs) [(n, False), (k, True)]"
      using r(2) cb by (auto simp: upd_block_def c_def)
    show "mblock ?h x = mblock h x" if "x \<notin> set (addrs (block_addr xs) [(n, False), (k, True)])" for x
      using that by (auto simp: upd_block_def c_def)
  qed (use r ext in auto)
qed

lemma kmalloc_take_rep:
  assumes rep: "heap_rep h (xs @ (m, True) # ys)" and le: "n \<le> m" and n8: "n mod 8 = 0"
  defines "h' \<equiv> kmalloc_take (block_addr xs) (of_nat n) h"
  shows "heap_rep h' (xs @ split_block n m @ ys)" "mb_ptr (mblock h' (block_addr xs)) = block_addr xs + 40"
proof -
  let ?b = "block_addr xs"
  from rep have til: "tiled h (xs @ (m, True) # ys)" and co: "coalesced (xs @ (m, True) # ys)"
    by (simp_all add: heap_rep_def)
  note r = tiledD [OF til] and c2 = coalesced_take [OF coalesced_parts [OF co]]
  have rem: "mb_size (mblock h ?b) - of_nat n = (of_nat (m - n) :: u64)" using r(1) le by (simp add: of_nat_diff)
  have small: "(of_nat (m - n) :: u64) < MBLOCK_SIZE + 8 \<longleftrightarrow> m - n < 48"
    using r(9) by (simp add: MBLOCK_SIZE_def word_less_nat_alt)
  have "heap_rep h' (xs @ split_block n m @ ys) \<and> mb_ptr (mblock h' ?b) = ?b + 40"
  proof (cases "m - n < 48")
    case True
    then have h: "h' = upd_block ?b (\<lambda>v. v\<lparr>mb_size := of_nat m, mb_free := 0\<rparr>) h"
      using rem small le by (simp add: h'_def kmalloc_take_def Let_def of_nat_diff)
    show ?thesis using True r(2) kmalloc_take_whole [OF til] c2(1) [of m]
      by (simp add: h heap_rep_def upd_block_def split_block_def)
  next
    case False
    define k where "k = m - n - 40"
    have k: "m = n + 40 + k" "(of_nat (m - n) - 40 :: u64) = of_nat k"
      using False le by (auto simp: k_def of_nat_diff)
    define c where "c = ?b + 40 + of_nat n"
    have h: "h' = (upd_block ?b (\<lambda>v. v\<lparr>mb_size := of_nat n, mb_free := 0\<rparr>)
        (upd_block c (\<lambda>v. v\<lparr>mb_size := of_nat k, mb_ptr := c + 40, mb_free := 1\<rparr>) h))
          \<lparr>mblock_list := LIST_INSERT_AFTER (mblock_list h) ?b c\<rparr>"
      using rem small False k(2) by (simp add: h'_def kmalloc_take_def Let_def MBLOCK_SIZE_def c_def upd_block_def)
    have sp: "split_block n m = [(n, False), (k, True)]" using False by (simp add: split_block_def k_def)
    from til have "tiled h (xs @ (n + 40 + k, True) # ys)" by (simp add: k(1))
    from kmalloc_take_split [OF this n8] r(2) c2(2) [of n k] show ?thesis
      unfolding sp h c_def heap_rep_def by (simp add: upd_block_def)
  qed
  then show "heap_rep h' (xs @ split_block n m @ ys)" "mb_ptr (mblock h' ?b) = ?b + 40" by auto
qed

text \<open>Rounding up to a multiple of 8.\<close>

lemma ROUND8_shift: "ROUND sz 8 = push_bit 3 (drop_bit 3 (sz + 7))"
proof -
  have m: "(7 :: u64) = mask 3" by (simp add: mask_eq_exp_minus_1)
  have "ROUND sz 8 = (sz + 7) AND NOT (mask 3)" by (simp add: ROUND_def m [symmetric] add.commute)
  also have "\<dots> = push_bit 3 (drop_bit 3 (sz + 7))"
    by (rule bit_word_eqI) (auto simp: bit_simps)
  finally show ?thesis .
qed

lemma unat_ROUND8:
  assumes "unat sz + 7 < 2 ^ 64"
  shows "unat (ROUND sz 8) = (unat sz + 7) div 8 * 8"
proof -
  have r: "ROUND sz 8 = (sz + 7) div 8 * 8" by (simp add: ROUND8_shift push_bit_eq_mult drop_bit_eq_div)
  have s: "unat (sz + 7) = unat sz + 7" using assms by (subst unat_add_lem [THEN iffD1]) auto
  have "unat ((sz + 7) div 8 * 8) = unat ((sz + 7) div 8) * 8"
  proof -
    have "unat ((sz + 7) div 8) * 8 < 2 ^ LENGTH(64)" using assms by (simp add: unat_div s)
    then show ?thesis using unat_mult_lem [of "(sz + 7) div 8" 8, THEN iffD1] by simp
  qed
  with r s show ?thesis by (simp add: unat_div)
qed

lemma heap_rep_stat [simp]:
  "heap_rep (h\<lparr>total_requested_bytes := x\<rparr>) bs = heap_rep h bs"
  "heap_rep (h\<lparr>total_free_bytes := x\<rparr>) bs = heap_rep h bs"
  by (simp_all add: heap_rep_def tiled_def)

text \<open>\<^verbatim>\<open>kmalloc\<close> is first fit on the rounded size.\<close>

lemma kmalloc_first_fit:
  assumes rep: "heap_rep h bs" and n: "n = unat (ROUND sz 8)" "n mod 8 = 0"
  shows "\<exists>h'. kmalloc sz h = Some (case first_fit n bs of None \<Rightarrow> 0 | Some (off, _) \<Rightarrow> KMALLOC_BEGIN_VA + of_nat off + 40, h')
      \<and> heap_rep h' (case first_fit n bs of None \<Rightarrow> bs | Some (_, bs') \<Rightarrow> bs')"
proof -
  let ?h = "h\<lparr>total_requested_bytes := total_requested_bytes h + sz\<rparr>"
  have rep': "heap_rep ?h bs" using rep by simp
  have small: "\<forall>(m, f) \<in> set bs. m < 2 ^ 64" using rep tiled_size [of h bs] by (fastforce simp: heap_rep_def)
  have "headers (mblock ?h) KMALLOC_BEGIN_VA bs"
    "lseg (le_next (mblock_list ?h)) (le_prev (mblock_list ?h)) RHead (LIST_FIRST (mblock_list ?h)) (addrs KMALLOC_BEGIN_VA bs)"
    using rep' by (auto simp: heap_rep_def tiled_def LIST_rep_def LIST_FIRST_def)
  from kmalloc_find_seg [OF this small, of "ROUND sz 8"]
  have f: "kmalloc_find ?h (ROUND sz 8) (LIST_FIRST (mblock_list ?h))
      = Some (map_option (\<lambda>(off, _). KMALLOC_BEGIN_VA + of_nat off) (first_fit n bs))" by (simp add: n)
  show ?thesis
  proof (cases "first_fit n bs")
    case None
    with f rep' show ?thesis by (auto simp: kmalloc_def Let_def)
  next
    case (Some x)
    obtain off bs' where x: "x = (off, bs')" by force
    from first_fit_Some [OF Some [unfolded x]] obtain xs m ys where
      bs: "bs = xs @ (m, True) # ys" "n \<le> m" "off = extent xs" "bs' = xs @ split_block n m @ ys" by blast
    have rn: "ROUND sz 8 = of_nat n" by (simp add: n)
    have "kmalloc sz h = Some (mb_ptr (mblock (kmalloc_take (block_addr xs) (of_nat n) ?h) (block_addr xs)),
        kmalloc_take (block_addr xs) (of_nat n) ?h)"
      using f Some x bs(3) by (simp add: kmalloc_def Let_def rn block_addr_def)
    with Some x bs kmalloc_take_rep [OF rep' [unfolded bs(1)] bs(2) n(2)] show ?thesis
      by (auto simp: block_addr_def)
  qed
qed

section \<open>Freeing\<close>

lemma LIST_rep_links:
  assumes "LIST_rep l (as @ b # cs)"
  shows "LIST_NEXT l b = (case cs of [] \<Rightarrow> None | c # _ \<Rightarrow> Some c)"
    and "le_prev l b = end_ref RHead as"
    and "LIST_FIRST l = Some b \<longleftrightarrow> as = []"
proof -
  from assms have seg: "lseg (le_next l) (le_prev l) RHead (lh_first l) (as @ b # cs)" and d: "distinct (as @ b # cs)"
    by (auto simp: LIST_rep_def)
  from lseg_unlink(3,4) [OF seg d] show "LIST_NEXT l b = (case cs of [] \<Rightarrow> None | c # _ \<Rightarrow> Some c)"
    "le_prev l b = end_ref RHead as" by (simp_all add: LIST_NEXT_def)
  show "LIST_FIRST l = Some b \<longleftrightarrow> as = []"
    using LIST_FIRST_rep [OF assms] d by (cases as) auto
qed

lemma kfree_merge_tiled:
  assumes til: "tiled h (xs @ (n, f) # (m, g) # ys)"
  defines "b \<equiv> block_addr xs" and "c \<equiv> block_addr xs + 40 + of_nat n"
  shows "\<exists>h'. kfree_merge b c h = Some h' \<and> tiled h' (xs @ (n + (m + 40), f) # ys)
    \<and> (\<forall>x. x \<noteq> b \<longrightarrow> mblock h' x = mblock h x)"
proof -
  note r = tiledD [OF til]
  have cm: "mb_size (mblock h c) = of_nat m" using r(5) by (simp add: c_def)
  let ?h = "upd_block b (\<lambda>v. v\<lparr>mb_size := mb_size v + (mb_size (mblock h c) + MBLOCK_SIZE)\<rparr>) h"
  have l: "LIST_rep (mblock_list ?h) ((addrs KMALLOC_BEGIN_VA xs @ [b]) @ c # addrs (c + 40 + of_nat m) ys)"
    using r(6) by (simp add: upd_block_def b_def c_def)
  from LIST_REMOVE_rep [OF l, of c] remove1_split [OF LIST_rep_distinct [OF l]]
  obtain l' where l': "LIST_REMOVE (mblock_list ?h) c = Some l'"
    "LIST_rep l' (addrs KMALLOC_BEGIN_VA xs @ b # addrs (c + 40 + of_nat m) ys)" by auto
  let ?h' = "?h\<lparr>mblock_list := l'\<rparr>"
  have "tiled ?h' (xs @ [(n + (m + 40), f)] @ ys)"
  proof (rule tiledI [where m = "mblock h"])
    show "LIST_rep (mblock_list ?h') (addrs KMALLOC_BEGIN_VA (xs @ [(n + (m + 40), f)] @ ys))"
      using l'(2) by (simp add: addrs_at b_def c_def algebra_simps)
    show "\<forall>(i, f) \<in> set [(n + (m + 40), f)]. i mod 8 = 0" using r(7,8) by (auto; presburger)
    show "headers (mblock h) (block_addr (xs @ [(n + (m + 40), f)])) ys"
      using r(5) by (simp add: block_addr_append algebra_simps)
    show "headers (mblock ?h') (block_addr xs) [(n + (m + 40), f)]"
      using r(1-3) cm by (simp add: upd_block_def b_def MBLOCK_SIZE_def)
  qed (use r in \<open>auto simp: upd_block_def b_def\<close>)
  then show ?thesis using l'(1) by (auto simp: kfree_merge_def upd_block_def)
qed

lemma tiled_set_free:
  assumes til: "tiled h (xs @ (n, f) # ys)"
  shows "tiled (upd_block (block_addr xs) (\<lambda>v. v\<lparr>mb_free := 1\<rparr>) h) (xs @ [(n, True)] @ ys)" (is "tiled ?h _")
proof (rule tiledI [where m = "mblock h"])
  note r = tiledD [OF til]
  show "LIST_rep (mblock_list ?h) (addrs KMALLOC_BEGIN_VA (xs @ [(n, True)] @ ys))"
    using r(6) by (simp add: upd_block_def addrs_at)
  show "headers (mblock h) (block_addr (xs @ [(n, True)])) ys"
    using r(5) by (simp add: block_addr_append add.assoc)
qed (use tiledD [OF til] in \<open>simp_all add: upd_block_def\<close>)

lemma tiled_upd_other:
  assumes "c \<notin> set (addrs KMALLOC_BEGIN_VA bs)"
  shows "tiled (upd_block c f h) bs = tiled h bs"
proof -
  have "headers ((mblock h)(c := f (mblock h c))) KMALLOC_BEGIN_VA bs = headers (mblock h) KMALLOC_BEGIN_VA bs"
    by (rule headers_cong) (use assms in auto)
  then show ?thesis by (simp add: tiled_def upd_block_def)
qed

lemma heap_addr_unat: "e \<le> 1073741824 \<Longrightarrow> unat (KMALLOC_BEGIN_VA + of_nat e) = 0xFFFFFFC0A0000000 + e"
  by (subst unat_add_lem [THEN iffD1]) (simp_all add: layout)

lemma kfree_guards:
  assumes "tiled h (xs @ (n, f) # ys)"
  shows "\<not> (block_addr xs + 40 < KMALLOC_BEGIN_VA + MBLOCK_SIZE \<or> block_addr xs + 40 > KMALLOC_END_VA)"
    and "\<not> mb_ptr (mblock h (block_addr xs + 40 - MBLOCK_SIZE)) \<noteq> block_addr xs + 40 - MBLOCK_SIZE + MBLOCK_SIZE"
proof -
  note r = tiledD [OF assms]
  have e: "block_addr xs + 40 = KMALLOC_BEGIN_VA + of_nat (extent xs + 40)" by (simp add: block_addr_def)
  have k: "KMALLOC_BEGIN_VA + MBLOCK_SIZE = KMALLOC_BEGIN_VA + of_nat 40"
    "KMALLOC_END_VA = KMALLOC_BEGIN_VA + of_nat 1073741824" by (simp_all add: layout MBLOCK_SIZE_def)
  have le: "extent xs + 40 \<le> 1073741824" using r(9) by linarith
  show "\<not> (block_addr xs + 40 < KMALLOC_BEGIN_VA + MBLOCK_SIZE \<or> block_addr xs + 40 > KMALLOC_END_VA)"
    unfolding e k word_less_nat_alt using le by (simp only: heap_addr_unat) simp
  show "\<not> mb_ptr (mblock h (block_addr xs + 40 - MBLOCK_SIZE)) \<noteq> block_addr xs + 40 - MBLOCK_SIZE + MBLOCK_SIZE"
    using r(2) by (simp add: MBLOCK_SIZE_def)
qed

text \<open>The two merging steps of \<^verbatim>\<open>kfree\<close>.\<close>

lemma kfree_next_step:
  assumes til: "tiled h (xs @ (n, False) # ys)"
  defines "b \<equiv> block_addr xs"
  shows "\<exists>h' n' ys'. (case LIST_NEXT (mblock_list h) b of None \<Rightarrow> Some h
      | Some c \<Rightarrow> if mb_free (mblock h c) = 1 then kfree_merge b c h else Some h) = Some h'
    \<and> tiled h' (xs @ (n', False) # ys') \<and> merge_next n ys = (n', True) # ys'
    \<and> (\<forall>x. x \<noteq> b \<longrightarrow> mblock h' x = mblock h x)"
proof (cases ys)
  case Nil
  with til LIST_rep_links(1) [OF tiledD(6) [OF til]] show ?thesis by (auto simp: b_def)
next
  case (Cons y ys')
  obtain m g where y: "y = (m, g)" by force
  note r = tiledD [OF til]
  have c: "LIST_NEXT (mblock_list h) b = Some (b + 40 + of_nat n)"
    using LIST_rep_links(1) [OF r(6)] Cons y by (simp add: b_def)
  have fr: "mb_free (mblock h (b + 40 + of_nat n)) = (if g then 1 else 0)"
    using r(5) Cons y by (simp add: b_def)
  show ?thesis
  proof (cases g)
    case True
    from kfree_merge_tiled [of h xs n False m g ys'] til Cons y obtain h' where
      "kfree_merge b (b + 40 + of_nat n) h = Some h'" "tiled h' (xs @ (n + (m + 40), False) # ys')"
      "\<forall>x. x \<noteq> b \<longrightarrow> mblock h' x = mblock h x" by (auto simp: b_def)
    with c fr True Cons y show ?thesis by auto
  next
    case False
    with c fr til Cons y show ?thesis by auto
  qed
qed

lemma merge_next_hd: "\<exists>n' ys'. merge_next n ys = (n', True) # ys'"
  by (cases "(n, ys)" rule: merge_next.cases) auto

lemma release_snoc_free: "release (xs @ [(m, True)]) n ys = xs @ merge_next m (merge_next n ys)"
proof (induction xs)
  case (Cons x xs)
  then show ?case by (cases x; cases xs) auto
qed simp

lemma release_snoc_used: "release (xs @ [(m, False)]) n ys = xs @ (m, False) # merge_next n ys"
proof (induction xs)
  case (Cons x xs)
  then show ?case by (cases x; cases xs) auto
qed simp

lemma coalesced_merge_next:
  assumes "coalesced ((n, False) # ys)"
  shows "coalesced (merge_next n ys)"
proof (cases "(n, ys)" rule: merge_next.cases)
  case (1 n' m bs)
  with assms show ?thesis using coalesced_resize [of m True bs] by simp
qed (use assms in auto)

lemma coalesced_snoc_used: "coalesced xs \<Longrightarrow> coalesced (xs @ [(n, False)])"
proof (induction xs)
  case (Cons x xs)
  then show ?case by (cases x; cases xs) auto
qed simp

lemma coalesced_snoc: "coalesced (xs @ [(m, False)]) \<Longrightarrow> coalesced ((n, g) # ys) \<Longrightarrow> coalesced (xs @ (m, False) # (n, g) # ys)"
  by (subst coalesced_append) simp

lemma coalesced_last_resize: "coalesced (xs @ [(m, f)]) \<Longrightarrow> coalesced (xs @ [(n, f)])"
proof (induction xs)
  case (Cons x xs)
  then show ?case by (cases x; cases xs) auto
qed simp

lemma coalesced_release:
  assumes "coalesced (xs @ (n, False) # ys)"
  shows "coalesced (release xs n ys)"
proof -
  note c = coalesced_parts [OF assms]
  note m = coalesced_merge_next [OF c(2)]
  obtain n' ys' where n': "merge_next n ys = (n', True) # ys'" using merge_next_hd by blast
  show ?thesis
  proof (cases xs rule: rev_cases)
    case Nil
    then show ?thesis using m by simp
  next
    case (snoc xs' x)
    obtain k g where x: "x = (k, g)" by force
    from assms snoc x have "coalesced (xs' @ (k, g) # (n, False) # ys)" by simp
    from coalesced_parts(1) [OF this] have k: "coalesced (xs' @ [(k, g)])" .
    show ?thesis
    proof (cases g)
      case True
      have "coalesced (xs' @ (k + (n' + 40), True) # ys')"
        by (subst coalesced_append)
          (use coalesced_last_resize [OF k] coalesced_resize [OF m [unfolded n']] True in simp)
      with snoc x True n' show ?thesis by (simp add: release_snoc_free)
    next
      case False
      with snoc x n' coalesced_snoc [of xs' k n' True ys'] k m show ?thesis by (simp add: release_snoc_used)
    qed
  qed
qed

text \<open>\<^verbatim>\<open>kfree\<close> of an allocated block releases it and merges it with its free neighbours.\<close>

lemma kfree_rep:
  assumes rep: "heap_rep h (xs @ (n, False) # ys)"
  shows "\<exists>h'. kfree (block_addr xs + 40) h = Some h' \<and> heap_rep h' (release xs n ys)"
proof -
  let ?b = "block_addr xs" and ?h = "h\<lparr>total_free_bytes := total_free_bytes h + mb_size (mblock h (block_addr xs))\<rparr>"
  have til: "tiled ?h (xs @ (n, False) # ys)" and co: "coalesced (xs @ (n, False) # ys)"
    using rep by (simp_all add: heap_rep_def tiled_def)
  from kfree_next_step [OF til] obtain h1 n' ys' where
    1: "(case LIST_NEXT (mblock_list ?h) ?b of None \<Rightarrow> Some ?h
      | Some c \<Rightarrow> if mb_free (mblock ?h c) = 1 then kfree_merge ?b c ?h else Some ?h) = Some h1"
    "tiled h1 (xs @ (n', False) # ys')" "merge_next n ys = (n', True) # ys'" by blast
  define prev where "prev = (if LIST_FIRST (mblock_list ?h) \<noteq> Some ?b then MBLOCK_PREV (mblock_list ?h) ?b else Some None)"
  have s: "kfree (?b + 40) h = do { pn \<leftarrow> prev;
      h2 \<leftarrow> (case pn of None \<Rightarrow> Some h1
        | Some a \<Rightarrow> if mb_free (mblock h1 a) = 1 then kfree_merge a ?b h1 else Some h1);
      Some (upd_block ?b (\<lambda>v. v\<lparr>mb_free := 1\<rparr>) h2) }"
  proof -
    have b40: "?b + 40 - MBLOCK_SIZE = ?b" by (simp add: MBLOCK_SIZE_def)
    have til0: "tiled h (xs @ (n, False) # ys)" using rep by (simp add: heap_rep_def)
    show ?thesis
      unfolding kfree_def Let_def if_not_P [OF kfree_guards(1) [OF til0]]
        b40 prev_def [symmetric]
      using kfree_guards(2) [OF til0] by (simp only: b40 1(1) bind.bind_lunit if_False)
  qed
  have fin: "tiled (upd_block ?b (\<lambda>v. v\<lparr>mb_free := 1\<rparr>) h1) (xs @ (n', True) # ys')"
    using tiled_set_free [OF 1(2)] by simp
  have "\<exists>h'. kfree (?b + 40) h = Some h' \<and> tiled h' (release xs n ys)"
  proof (cases xs rule: rev_cases)
    case Nil
    then have "prev = Some None" using LIST_rep_links(3) [OF tiledD(6) [OF til]] by (simp add: prev_def)
    with s fin 1(3) Nil show ?thesis by simp
  next
    case (snoc xs' x)
    obtain m g where x: "x = (m, g)" by force
    have ne: "addrs KMALLOC_BEGIN_VA xs = addrs KMALLOC_BEGIN_VA xs' @ [block_addr xs']" by (simp add: snoc x addrs_at)
    have prev: "prev = Some (Some (block_addr xs'))"
      using LIST_rep_links(2,3) [OF tiledD(6) [OF til]] by (simp add: prev_def MBLOCK_PREV_def ne)
    have t1: "tiled h1 (xs' @ (m, g) # (n', False) # ys')" using 1(2) snoc x by simp
    have b: "?b = block_addr xs' + 40 + of_nat m" by (simp add: snoc x block_addr_append add.assoc)
    show ?thesis
    proof (cases g)
      case True
      from kfree_merge_tiled [OF t1] b obtain h2 where h2: "kfree_merge (block_addr xs') ?b h1 = Some h2"
        "tiled h2 (xs' @ (m + (n' + 40), g) # ys')" by auto
      have "?b \<notin> set (addrs KMALLOC_BEGIN_VA (xs' @ (m + (n' + 40), g) # ys'))"
        using tiled_distinct [OF t1] by (simp add: addrs_at b algebra_simps)
      then have "tiled (upd_block ?b (\<lambda>v. v\<lparr>mb_free := 1\<rparr>) h2) (xs' @ (m + (n' + 40), g) # ys')"
        using h2(2) by (simp add: tiled_upd_other)
      moreover have "mb_free (mblock h1 (block_addr xs')) = 1" using tiledD(3) [OF t1] True by simp
      ultimately show ?thesis using s prev h2(1) snoc x True 1(3) by (simp add: release_snoc_free)
    next
      case False
      have "mb_free (mblock h1 (block_addr xs')) = 0" using tiledD(3) [OF t1] False by simp
      with s prev fin 1(3) snoc x False show ?thesis by (simp add: release_snoc_used)
    qed
  qed
  then show ?thesis using coalesced_release [OF co] by (auto simp: heap_rep_def)
qed

section \<open>The interface clients use\<close>

text \<open>The allocated regions as pairs of address and length.\<close>

fun used :: "nat \<Rightarrow> blocks \<Rightarrow> (nat \<times> nat) set" where
  "used a [] = {}"
| "used a ((n, f) # bs) = (if f then {} else {(a + 40, n)}) \<union> used (a + 40 + n) bs"

lemma used_append: "used a (xs @ ys) = used a xs \<union> used (a + extent xs) ys"
  by (induction a xs rule: used.induct) (auto simp: add.assoc)

lemma used_bounds: "(p, n) \<in> used a bs \<Longrightarrow> a + 40 \<le> p \<and> p + n \<le> a + extent bs"
  by (induction a bs rule: used.induct) (auto split: if_splits)

lemma used_split:
  "(p, n) \<in> used a bs \<Longrightarrow> \<exists>xs ys. bs = xs @ (n, False) # ys \<and> p = a + extent xs + 40"
proof (induction a bs rule: used.induct)
  case (2 a m f bs)
  show ?case
  proof (cases "\<not> f \<and> (p, n) = (a + 40, m)")
    case True
    then show ?thesis by (intro exI [of _ "[]"] exI [of _ bs]) auto
  next
    case False
    with 2(2) have "(p, n) \<in> used (a + 40 + m) bs" by (auto split: if_splits)
    from 2(1) [OF this] obtain xs ys where "bs = xs @ (n, False) # ys" "p = a + 40 + m + extent xs + 40" by blast
    then show ?thesis by (intro exI [of _ "(m, f) # xs"] exI [of _ ys]) simp
  qed
qed simp

lemma used_disjoint:
  "(p, n) \<in> used a bs \<Longrightarrow> (q, m) \<in> used a bs \<Longrightarrow> (p, n) \<noteq> (q, m) \<Longrightarrow> p + n + 40 \<le> q \<or> q + m + 40 \<le> p"
proof (induction a bs rule: used.induct)
  case (2 a k f bs)
  then show ?case using used_bounds [of p n "a + 40 + k" bs] used_bounds [of q m "a + 40 + k" bs]
    by (auto split: if_splits)
qed simp

lemma used_release: "used a (release xs n ys) = used a xs \<union> used (a + extent xs + 40 + n) ys"
proof -
  have m: "used a (merge_next n ys) = used (a + 40 + n) ys" for a n ys
    by (cases "(n, ys)" rule: merge_next.cases) (auto simp: add.assoc)
  show ?thesis
  proof (cases xs rule: rev_cases)
    case (snoc xs' x)
    then show ?thesis by (cases x; cases "snd x")
        (auto simp: release_snoc_free release_snoc_used used_append m add.assoc add.left_commute)
  qed (simp add: m)
qed

definition live :: "kheap \<Rightarrow> (nat \<times> nat) set \<Rightarrow> bool" where
  "live h A \<longleftrightarrow> (\<exists>bs. heap_rep h bs \<and> A = used (unat KMALLOC_BEGIN_VA) bs)"

locale allocator =
  fixes live :: "'h \<Rightarrow> (nat \<times> nat) set \<Rightarrow> bool"
    and malloc :: "u64 \<Rightarrow> 'h \<Rightarrow> (u64 \<times> 'h) option"
    and free :: "u64 \<Rightarrow> 'h \<Rightarrow> 'h option"
  assumes live_disjoint: "live h A \<Longrightarrow> (a, n) \<in> A \<Longrightarrow> (b, m) \<in> A \<Longrightarrow> (a, n) \<noteq> (b, m) \<Longrightarrow> a + n < b \<or> b + m < a"
    and malloc_live: "live h A \<Longrightarrow> unat sz + 7 < 2 ^ 64 \<Longrightarrow>
      \<exists>p h'. malloc sz h = Some (p, h') \<and>
        (p = 0 \<and> live h' A \<or> p \<noteq> 0 \<and> (\<exists>n. unat sz \<le> n \<and> (unat p, n) \<notin> A \<and> live h' (insert (unat p, n) A)))"
    and free_live: "live h A \<Longrightarrow> (unat p, n) \<in> A \<Longrightarrow> \<exists>h'. free p h = Some h' \<and> live h' (A - {(unat p, n)})"
begin

text \<open>A new block overlaps no live one.\<close>

lemma malloc_fresh:
  assumes "live h A" "unat sz + 7 < 2 ^ 64" "malloc sz h = Some (p, h')" "p \<noteq> 0"
  shows "\<exists>n \<ge> unat sz. live h' (insert (unat p, n) A) \<and> (\<forall>(q, m) \<in> A. {unat p..<unat p + n} \<inter> {q..<q + m} = {})"
proof -
  from malloc_live [OF assms(1,2)] assms(3,4) obtain n where
    n: "unat sz \<le> n" "(unat p, n) \<notin> A" "live h' (insert (unat p, n) A)" by auto
  have "{unat p..<unat p + n} \<inter> {q..<q + m} = {}" if "(q, m) \<in> A" for q m
  proof -
    have ne: "(unat p, n) \<noteq> (q, m)" using that n(2) by auto
    have "(q, m) \<in> insert (unat p, n) A" using that by simp
    from live_disjoint [OF n(3) _ this ne] show ?thesis by auto
  qed
  with n show ?thesis by auto
qed

text \<open>A buffer that is taken and given back leaves the live blocks as they were.\<close>

lemma malloc_free:
  assumes "live h A" "unat sz + 7 < 2 ^ 64" "malloc sz h = Some (p, h')" "p \<noteq> 0"
  shows "\<exists>h''. free p h' = Some h'' \<and> live h'' A"
proof -
  from malloc_live [OF assms(1,2)] assms(3,4) obtain n where
    n: "(unat p, n) \<notin> A" "live h' (insert (unat p, n) A)" by auto
  from free_live [OF n(2), of p n] n(1) show ?thesis by auto
qed

end

text \<open>What the allocation means for the regions, block by block.\<close>

lemma first_fit_used:
  assumes "first_fit n bs = Some (off, bs')"
  shows "\<exists>k \<ge> n. (a + off + 40, k) \<notin> used a bs \<and> used a bs' = insert (a + off + 40, k) (used a bs)"
proof -
  from first_fit_Some [OF assms] obtain xs m ys where
    b: "bs = xs @ (m, True) # ys" "n \<le> m" "off = extent xs" "bs' = xs @ split_block n m @ ys" by blast
  define k where "k = (if m - n < 48 then m else n)"
  have s: "used (a + off) (split_block n m @ ys) = insert (a + off + 40, k) (used (a + off + 40 + m) ys)"
  proof (cases "m - n < 48")
    case False
    then have "a + off + 40 + n + 40 + (m - n - 40) = a + off + 40 + m" using b(2) by simp
    with False show ?thesis by (simp add: split_block_def k_def ac_simps)
  qed (simp add: split_block_def k_def)
  have "(a + off + 40, k) \<notin> used a xs" "(a + off + 40, k) \<notin> used (a + off + 40 + m) ys"
    using used_bounds [of "a + off + 40" k a xs] used_bounds [of "a + off + 40" k "a + off + 40 + m" ys] b(3) by auto
  moreover have "k \<ge> n" using b(2) by (simp add: k_def)
  moreover have "used a bs = used a xs \<union> used (a + off + 40 + m) ys" by (simp add: b(1,3) used_append)
  moreover have "used a bs' = used a xs \<union> insert (a + off + 40, k) (used (a + off + 40 + m) ys)"
    using s by (simp add: b(3,4) used_append)
  ultimately show ?thesis by (intro exI [of _ k]) auto
qed

lemma block_ptr_unat:
  assumes "heap_rep h (xs @ (n, f) # ys)"
  shows "unat (block_addr xs + 40) = unat KMALLOC_BEGIN_VA + extent xs + 40" "block_addr xs + 40 \<noteq> 0"
proof -
  have e: "block_addr xs + 40 = KMALLOC_BEGIN_VA + of_nat (extent xs + 40)" by (simp add: block_addr_def)
  have "extent xs + 40 \<le> 1073741824" using assms by (auto simp: heap_rep_def tiled_def)
  from heap_addr_unat [OF this] show u: "unat (block_addr xs + 40) = unat KMALLOC_BEGIN_VA + extent xs + 40"
    unfolding e by (simp add: layout)
  show "block_addr xs + 40 \<noteq> 0"
  proof
    assume "block_addr xs + 40 = 0"
    with u show False by simp
  qed
qed

lemma kmalloc_live:
  assumes "heap_rep h bs" "unat sz + 7 < 2 ^ 64"
  shows "\<exists>p h' bs'. kmalloc sz h = Some (p, h') \<and> heap_rep h' bs' \<and>
    (if first_fit (unat (ROUND sz 8)) bs = None then p = 0 \<and> bs' = bs
     else p \<noteq> 0 \<and> first_fit (unat (ROUND sz 8)) bs = Some (unat p - unat KMALLOC_BEGIN_VA - 40, bs')
       \<and> unat p \<ge> unat KMALLOC_BEGIN_VA + 40)"
proof -
  let ?n = "unat (ROUND sz 8)"
  have "?n mod 8 = 0" using unat_ROUND8 [OF assms(2)] by simp
  from kmalloc_first_fit [OF assms(1) refl this] obtain h' where
    h': "kmalloc sz h = Some (case first_fit ?n bs of None \<Rightarrow> 0 | Some (off, _) \<Rightarrow> KMALLOC_BEGIN_VA + of_nat off + 40, h')"
    "heap_rep h' (case first_fit ?n bs of None \<Rightarrow> bs | Some (_, bs') \<Rightarrow> bs')" by blast
  show ?thesis
  proof (cases "first_fit ?n bs")
    case None
    with h' show ?thesis by auto
  next
    case (Some x)
    obtain off bs' where x: "x = (off, bs')" by force
    from first_fit_Some [OF Some [unfolded x]] obtain xs m ys where
      b: "bs = xs @ (m, True) # ys" "off = extent xs" by blast
    have p: "KMALLOC_BEGIN_VA + of_nat off + 40 = block_addr xs + 40" by (simp add: b(2) block_addr_def)
    from h' have "kmalloc sz h = Some (block_addr xs + 40, h')" "heap_rep h' bs'" unfolding Some x using p by auto
    moreover from block_ptr_unat [OF assms(1) [unfolded b(1)]] b(2)
    have "block_addr xs + 40 \<noteq> 0" "unat (block_addr xs + 40) = unat KMALLOC_BEGIN_VA + off + 40" by simp_all
    ultimately show ?thesis using Some x by auto
  qed
qed

lemma kfree_live:
  assumes "heap_rep h bs" "(unat p, n) \<in> used (unat KMALLOC_BEGIN_VA) bs"
  shows "\<exists>h' xs ys. bs = xs @ (n, False) # ys \<and> unat p = unat KMALLOC_BEGIN_VA + extent xs + 40 \<and> kfree p h = Some h' \<and> heap_rep h' (release xs n ys)"
proof -
  from used_split [OF assms(2)] obtain xs ys where
    b: "bs = xs @ (n, False) # ys" "unat p = unat KMALLOC_BEGIN_VA + extent xs + 40" by blast
  from block_ptr_unat(1) [OF assms(1) [unfolded b(1)]] b(2) have "unat p = unat (block_addr xs + 40)" by simp
  then have "p = block_addr xs + 40" by (simp only: word_unat_eq_iff)
  with kfree_rep [OF assms(1) [unfolded b(1)]] b show ?thesis by auto
qed

interpretation kh: allocator live kmalloc kfree
proof
  fix h A a n b m
  assume "live h A" "(a, n) \<in> A" "(b, m) \<in> A" "(a, n) \<noteq> (b, m)"
  then show "a + n < b \<or> b + m < a" using used_disjoint [of a n _ _ b m] by (fastforce simp: live_def)
next
  fix h A and sz :: u64
  assume "live h A" and sz: "unat sz + 7 < 2 ^ 64"
  then obtain bs where bs: "heap_rep h bs" "A = used (unat KMALLOC_BEGIN_VA) bs" by (auto simp: live_def)
  from kmalloc_live [OF bs(1) sz] obtain p h' bs' where k: "kmalloc sz h = Some (p, h')" "heap_rep h' bs'"
    "if first_fit (unat (ROUND sz 8)) bs = None then p = 0 \<and> bs' = bs
     else p \<noteq> 0 \<and> first_fit (unat (ROUND sz 8)) bs = Some (unat p - unat KMALLOC_BEGIN_VA - 40, bs')
       \<and> unat p \<ge> unat KMALLOC_BEGIN_VA + 40" by blast
  have le: "unat sz \<le> unat (ROUND sz 8)" using unat_ROUND8 [OF sz] by simp
  show "\<exists>p h'. kmalloc sz h = Some (p, h') \<and>
      (p = 0 \<and> live h' A \<or> p \<noteq> 0 \<and> (\<exists>n. unat sz \<le> n \<and> (unat p, n) \<notin> A \<and> live h' (insert (unat p, n) A)))"
  proof (cases "first_fit (unat (ROUND sz 8)) bs = None")
    case True
    with k bs show ?thesis by (auto simp: live_def)
  next
    case False
    with k(3) have p: "p \<noteq> 0" "first_fit (unat (ROUND sz 8)) bs = Some (unat p - unat KMALLOC_BEGIN_VA - 40, bs')"
      "unat KMALLOC_BEGIN_VA + (unat p - unat KMALLOC_BEGIN_VA - 40) + 40 = unat p" by auto
    from first_fit_used [OF p(2), of "unat KMALLOC_BEGIN_VA", unfolded p(3)] obtain i where
      i: "unat (ROUND sz 8) \<le> i" "(unat p, i) \<notin> A" "used (unat KMALLOC_BEGIN_VA) bs' = insert (unat p, i) A"
      by (auto simp: bs(2))
    then have "live h' (insert (unat p, i) A)" using k(2) by (auto simp: live_def)
    with k(1) p(1) i le show ?thesis by (meson order_trans)
  qed
next
  fix h A and p :: u64 and n
  assume "live h A" and p: "(unat p, n) \<in> A"
  then obtain bs where bs: "heap_rep h bs" "A = used (unat KMALLOC_BEGIN_VA) bs" by (auto simp: live_def)
  from kfree_live [OF bs(1)] p bs(2) obtain h' xs ys where
    k: "bs = xs @ (n, False) # ys" "kfree p h = Some h'" "heap_rep h' (release xs n ys)"
    and up: "unat p = unat KMALLOC_BEGIN_VA + extent xs + 40" by blast
  let ?a = "unat KMALLOC_BEGIN_VA"
  from up have "used ?a (release xs n ys) = A - {(unat p, n)}"
    using used_bounds [of "unat p" n ?a xs] used_bounds [of "unat p" n "?a + extent xs + 40 + n" ys]
    by (auto simp: bs(2) k(1) used_release used_append add.assoc)
  with k show "\<exists>h'. kfree p h = Some h' \<and> live h' (A - {(unat p, n)})" by (auto simp: live_def)
qed

end
