(* ===== verification/HeapProps.thy ===== *)
theory HeapProps
  imports Kmalloc MemProps
begin

text \<open>
  Properties of the kernel heap: initialisation, allocation, release, and the request sizes for
  which the rounding wraps around.
\<close>

text \<open>\<^verbatim>\<open>kmalloc_init\<close> builds a heap of one free block that covers the whole heap area, takes one page for the
  second-level table and enters it in the kernel's page directory; it panics exactly when no page is left.\<close>

theorem kmalloc_init_establishes_heap:
  assumes "pool p fl"
  shows "case kmalloc_init p h of
      None \<Rightarrow> fl = []
    | Some (p', h') \<Rightarrow> heap_rep h' [(1073741784, True)] \<and> live h' {} \<and> pp_ref p' (hd fl) = pp_ref p (hd fl) + 1
        \<and> load_pte p' (kernel_boot_pgdir + 8 * P1X KMALLOC_BEGIN_VA) = non_leaf_pte (hd fl)"
proof (cases fl)
  case Nil
  with page_alloc_Nil [OF assms [unfolded Nil]] show ?thesis by (simp add: kmalloc_init_def)
next
  case (Cons pp fl')
  obtain g where g: "page_alloc p = Some (Inr pp, (zero_page p pp)\<lparr>page_free_list := g\<rparr>)"
    using page_alloc_Cons [OF assms [unfolded Cons]] by blast
  define p1 where "p1 = (zero_page p pp)\<lparr>page_free_list := g\<rparr>"
  have p1: "page_alloc p = Some (Inr pp, p1)" "pp_ref p1 = pp_ref p" using g by (simp_all add: p1_def zero_page_def)
  define h1 where "h1 = upd_block KMALLOC_BEGIN_VA
      (\<lambda>b. b\<lparr>mb_size := KMALLOC_HEAP_SIZE - MBLOCK_SIZE, mb_ptr := KMALLOC_BEGIN_VA + MBLOCK_SIZE, mb_free := 1\<rparr>)
      (h\<lparr>mblock_list := LIST_INIT (mblock_list h)\<rparr>)"
  have "LIST_rep (mblock_list h1) []" by (simp add: h1_def upd_block_def lq.rep_init)
  from lq.rep_insert_head [OF this, of KMALLOC_BEGIN_VA]
  have "heap_rep (h1\<lparr>mblock_list := LIST_INSERT_HEAD (mblock_list h1) KMALLOC_BEGIN_VA\<rparr>) [(1073741784, True)]"
    by (simp add: heap_rep_def tiled_def h1_def upd_block_def MBLOCK_SIZE_def layout)
  moreover from this have "live (h1\<lparr>mblock_list := LIST_INSERT_HEAD (mblock_list h1) KMALLOC_BEGIN_VA\<rparr>) {}"
    by (auto simp: live_def intro!: exI [of _ "[(1073741784, True)]"])
  ultimately show ?thesis
    using p1 Cons
    by (simp add: kmalloc_init_def Let_def h1_def [symmetric] set_ref_def store_pte_def load_pte_def non_leaf_pte_def
        FLAG_SHIFT_def)
qed

definition sample_heap :: kheap where
  "sample_heap = \<lparr>mblock_list = LIST_INSERT_HEAD \<lparr>lh_first = None, le_next = (\<lambda>_. None), le_prev = (\<lambda>_. RNull)\<rparr> KMALLOC_BEGIN_VA,
     mblock = (\<lambda>_. \<lparr>mb_size = 1073741784, mb_ptr = KMALLOC_BEGIN_VA + 40, mb_free = 1\<rparr>),
     total_requested_bytes = 0, total_free_bytes = 0\<rparr>"

lemma sample_heap_rep: "heap_rep sample_heap [(1073741784, True)]"
proof -
  have "LIST_rep \<lparr>lh_first = None, le_next = (\<lambda>_. None), le_prev = (\<lambda>_. RNull)\<rparr> ([] :: u64 list)"
    by (simp add: LIST_rep_def)
  from lq.rep_insert_head [OF this, of KMALLOC_BEGIN_VA] show ?thesis
    by (simp add: heap_rep_def tiled_def sample_heap_def)
qed

theorem kmalloc_init_establishes_heap_witness:
  "\<exists>p' h'. kmalloc_init sample_pstate sample_heap = Some (p', h') \<and> live h' {}"
  using kmalloc_init_establishes_heap [OF sample_pool, of sample_heap] by (auto simp: sample_free_def split: option.splits)



text \<open>C32: Giving back what \<^verbatim>\<open>kmalloc\<close> returned restores the heap block for block: \<^verbatim>\<open>kfree\<close> accepts the pointer and merges the
  block with the remainder it was split from, so no fragmentation is left behind.\<close>

theorem kmalloc_kfree_roundtrip:
  assumes rep: "heap_rep h bs" and sz: "unat sz + 7 < 2 ^ 64" and m: "kmalloc sz h = Some (p, h1)" "p \<noteq> 0"
  shows "\<exists>h2. kfree p h1 = Some h2 \<and> heap_rep h2 bs"
proof -
  let ?n = "unat (ROUND sz 8)" and ?a = "unat KMALLOC_BEGIN_VA"
  from kmalloc_live [OF rep sz] m obtain bs1 where 1: "heap_rep h1 bs1" "first_fit ?n bs = Some (unat p - ?a - 40, bs1)"
    "unat p \<ge> ?a + 40" by (auto split: if_splits)
  from first_fit_Some [OF 1(2)] obtain xs k ys where
    b: "bs = xs @ (k, True) # ys" "?n \<le> k" "unat p - ?a - 40 = extent xs" "bs1 = xs @ split_block ?n k @ ys" by blast
  have "unat p = unat (block_addr xs + 40)"
    using block_ptr_unat(1) [OF rep [unfolded b(1)]] b(3) 1(3) by simp
  then have p: "p = block_addr xs + 40" by (simp only: word_unat_eq_iff)
  obtain n ys1 where n: "bs1 = xs @ (n, False) # ys1" "merge_next n ys1 = (k, True) # ys"
  proof (cases "k - ?n < 48")
    case True
    have "coalesced (xs @ (k, True) # ys)" using rep b(1) by (simp add: heap_rep_def)
    from coalesced_parts(2) [OF this] have "coalesced ((k, True) # ys)" .
    then have "merge_next k ys = (k, True) # ys" by (cases "(k, ys)" rule: merge_next.cases) auto
    with that True b(4) show ?thesis by (auto simp: split_block_def)
  next
    case False
    then have "?n + (k - ?n - 40 + 40) = k" using b(2) by simp
    with that False b(4) show ?thesis by (auto simp: split_block_def)
  qed
  from kfree_rep [OF 1(1) [unfolded n(1)]] p obtain h2 where h2: "kfree p h1 = Some h2" "heap_rep h2 (release xs n ys1)"
    by blast
  have "release xs n ys1 = bs"
  proof (cases xs rule: rev_cases)
    case (snoc xs' x)
    obtain i f where x: "x = (i, f)" by force
    have "coalesced ((xs' @ [(i, f)]) @ (k, True) # ys)" using rep b(1) snoc x by (simp add: heap_rep_def)
    then have "coalesced (xs' @ (i, f) # (k, True) # ys)" by simp
    from coalesced_parts(2) [OF this] have "\<not> f" by simp
    then show ?thesis using snoc x n(2) b(1) by (simp add: release_snoc_used)
  qed (use n b in simp)
  with h2 show ?thesis by auto
qed

theorem kmalloc_kfree_roundtrip_witness:
  "\<exists>p h1 h2. kmalloc 100 sample_heap = Some (p, h1) \<and> kfree p h1 = Some h2 \<and> heap_rep h2 [(1073741784, True)]"
proof -
  from kmalloc_live [OF sample_heap_rep, of 100] obtain p h1 where "kmalloc 100 sample_heap = Some (p, h1)" "p \<noteq> 0"
    by (auto simp: unat_ROUND8)
  with kmalloc_kfree_roundtrip [OF sample_heap_rep _ this] show ?thesis by auto
qed

text \<open>The rounding wraps around: a request within 7 bytes of \<^verbatim>\<open>SIZE_MAX\<close> is rounded to 0 and, as long as any block
  is free, answered with a non-null pointer, although no block of that size exists.\<close>

theorem kmalloc_wraps_huge_request:
  assumes rep: "heap_rep h bs" and free: "(m, True) \<in> set bs" and sz: "unat sz + 7 \<ge> 2 ^ 64"
  shows "\<exists>p h'. kmalloc sz h = Some (p, h') \<and> p \<noteq> 0 \<and> m < unat sz"
proof -
  have "unat (sz + 7) < 8"
  proof -
    have "unat sz < 2 ^ 64" by simp
    then have u: "unat sz + 7 - 2 ^ 64 < 8" by linarith
    have "unat (sz + 7) = (unat sz + 7) mod 2 ^ 64" by (simp add: unat_word_ariths)
    also have "\<dots> = (unat sz + 7 - 2 ^ 64) mod 2 ^ 64" using sz by (rule le_mod_geq)
    also have "\<dots> = unat sz + 7 - 2 ^ 64" by (rule mod_less) (use u in simp)
    finally show ?thesis using u by (simp only:)
  qed
  then have "drop_bit 3 (sz + 7) = 0" by (simp add: drop_bit_eq_div word_unat_eq_iff unat_div)
  then have z: "unat (ROUND sz 8) = 0" by (simp add: ROUND8_shift)
  from kmalloc_first_fit [OF rep refl, of sz] z obtain h' where
    k: "kmalloc sz h = Some (case first_fit 0 bs of None \<Rightarrow> 0 | Some (off, _) \<Rightarrow> KMALLOC_BEGIN_VA + of_nat off + 40, h')"
    by auto
  have "first_fit 0 bs \<noteq> None" using free by (auto simp: first_fit_None)
  then obtain off bs' where f: "first_fit 0 bs = Some (off, bs')" by auto
  from first_fit_Some [OF this] obtain xs i ys where b: "bs = xs @ (i, True) # ys" "off = extent xs" by blast
  from block_ptr_unat(2) [OF rep [unfolded b(1)]] k f b(2)
  have "\<exists>p h'. kmalloc sz h = Some (p, h') \<and> p \<noteq> 0" by (auto simp: block_addr_def)
  moreover have "m < 1073741824" using rep free by (auto simp: heap_rep_def dest: tiled_size)
  ultimately show ?thesis using sz by auto
qed

theorem kmalloc_wraps_huge_request_witness:
  "\<exists>p h'. kmalloc (- 1) sample_heap = Some (p, h') \<and> p \<noteq> 0"
  using kmalloc_wraps_huge_request [OF sample_heap_rep, of 1073741784 "- 1"] by auto

end
