(* ===== verification/Device.thy ===== *)
theory Device
  imports Syscall Kmalloc
begin

text \<open>
  Devices: the mapping area for device memory (\<^verbatim>\<open>kern/kmmap.c\<close>), the device registry and register
  access (\<^verbatim>\<open>kern/device.c\<close>), and the whole machine state the remaining components work on.

  The registry's array and the range nodes are allocated from the kernel heap; their contents are HOL
  lists, with the \<^verbatim>\<open>kmalloc\<close> and \<^verbatim>\<open>kfree\<close> calls kept.  A store through a null pointer is a kernel
  page fault, hence a panic.  \<open>kmmap_bmap\<close> is indexed past its \<^verbatim>\<open>KMMAP_COUNT\<close> entries where the code does so:
  those are the words behind the array.  Device registers are outside the source: \<open>hw\<close> answers a
  read from the accesses made so far, the width in bytes and the address.  So is the firmware: \<open>sbi_console\<close> is
  what its console read number \<open>n\<close> answers, whether it succeeded and the byte it stored, if any.
\<close>

section \<open>State\<close>

record DeviceMMIORange =
  range_pa :: u64
  range_len :: u64
  mapped_va :: u64

record Device =
  device_type :: "u8 list"
  device_id :: u64
  mmio_range_list :: "DeviceMMIORange list"
  device_data :: u64
  device_data_len :: u64

record DeviceArray =
  dev_array :: u64
  dev_list :: "Device list"
  dev_capacity :: u64

datatype io_op = IO_read nat u64 u64 | IO_write nat u64 u64

record machine =
  kern :: kstate
  heap :: kheap
  kmmap_bmap :: "nat \<Rightarrow> u64"
  devices :: DeviceArray
  global_device_id :: u64
  hw :: "io_op list \<Rightarrow> nat \<Rightarrow> u64 \<Rightarrow> u64"
  io_log :: "io_op list"
  plic_device :: "Device option"
  plic_base_pa :: u64
  plic_interrupt_count :: u32
  plic_handler_set :: "nat \<Rightarrow> bool"
  interrupt_code_to_envid :: "nat \<Rightarrow> u32"
  sbi_console :: "nat \<Rightarrow> bool \<times> u8 option"
  sbi_calls :: nat

definition DEVICE_TYPE_LEN :: nat where "DEVICE_TYPE_LEN = 32"
definition DEVICE_ARRAY_RESIZE_FACTOR :: u64 where "DEVICE_ARRAY_RESIZE_FACTOR = 2"
definition sizeof_Device :: u64 where "sizeof_Device = 64"
definition sizeof_DeviceMMIORange :: u64 where "sizeof_DeviceMMIORange = 32"

section \<open>Mapping device memory (\<^verbatim>\<open>kern/kmmap.c\<close>)\<close>

definition KMMAP_COUNT :: nat where "KMMAP_COUNT = unat (KMMAP_SIZE div PAGE_SIZE)"

text \<open>The search: the first free page followed by enough free pages.\<close>

fun kmmap_find :: "(nat \<Rightarrow> u64) \<Rightarrow> nat \<Rightarrow> nat list \<Rightarrow> nat option" where
  "kmmap_find bm n [] = None"
| "kmmap_find bm n (i # is) =
     (if bm i = 0 \<and> list_all (\<lambda>j. bm j = 0) [i..<i + n] then Some i else kmmap_find bm n is)"

definition kmmap_mark :: "nat \<Rightarrow> nat \<Rightarrow> (nat \<Rightarrow> u64) \<Rightarrow> nat \<Rightarrow> u64" where
  "kmmap_mark off n bm i = (if off \<le> i \<and> i < off + n then of_nat (off + n - i) else bm i)"

definition kmmap_clear :: "nat \<Rightarrow> nat \<Rightarrow> (nat \<Rightarrow> u64) \<Rightarrow> nat \<Rightarrow> u64" where
  "kmmap_clear off n bm i = (if off \<le> i \<and> i < off + n then 0 else bm i)"

definition kmmap_alloc :: "u64 \<Rightarrow> u64 \<Rightarrow> u64 \<Rightarrow> machine \<Rightarrow> (u64 \<times> machine) option" where
  "kmmap_alloc pa sz perm s =
     (if sz mod PAGE_SIZE \<noteq> 0 then None
      else
        (let page_count = unat (sz div PAGE_SIZE) in
         case kmmap_find (kmmap_bmap s) page_count [0..<KMMAP_COUNT] of
           None \<Rightarrow> Some (0, s)
         | Some vpn_offset \<Rightarrow>
             do { let s = s\<lparr>kmmap_bmap := kmmap_mark vpn_offset page_count (kmmap_bmap s)\<rparr>;
                  let begin_va = push_bit PAGE_SHIFT (of_nat vpn_offset) + KMMAP_BEGIN_VA;
                  k \<leftarrow> kmap begin_va pa sz perm (kern s);
                  Some (begin_va, s\<lparr>kern := k\<rparr>) }))"

definition kmmap_free :: "u64 \<Rightarrow> machine \<Rightarrow> machine option" where
  "kmmap_free va s =
     (if va < KMMAP_BEGIN_VA \<or> va \<ge> KMMAP_END_VA then None
      else if va mod PAGE_SIZE \<noteq> 0 then None
      else
        (let vpn_offset = unat (VPN va - VPN KMMAP_BEGIN_VA); page_count = kmmap_bmap s vpn_offset in
         if page_count = 0 then Some s
         else
           do { k \<leftarrow> kunmap va (page_count * PAGE_SIZE) (kern s);
                Some (s\<lparr>kern := k, kmmap_bmap := kmmap_clear vpn_offset (unat page_count) (kmmap_bmap s)\<rparr>) }))"

section \<open>The registry (\<^verbatim>\<open>kern/device.c\<close>)\<close>

definition get_next_device_id :: "machine \<Rightarrow> u64 \<times> machine" where
  "get_next_device_id s = (global_device_id s, s\<lparr>global_device_id := global_device_id s + 1\<rparr>)"

text \<open>
  The returned slot is an index.  Type names are copied with \<^verbatim>\<open>strcpy\<close> into a field of \<^verbatim>\<open>DEVICE_TYPE_LEN\<close> bytes;
  the callers pass short literals, and a name that does not fit has no value here.
\<close>

definition grow_devices :: "machine \<Rightarrow> machine option" where
  "grow_devices s =
     (let d = devices s in
      if of_nat (length (dev_list d)) \<ge> dev_capacity d
      then
        (let cap = (if dev_capacity d = 0 then DEVICE_ARRAY_RESIZE_FACTOR
                    else dev_capacity d * DEVICE_ARRAY_RESIZE_FACTOR)
         in do { (new_array, h) \<leftarrow> kmalloc (cap * sizeof_Device) (heap s);
                 if new_array = 0 then None
                 else
                   do { h \<leftarrow> (if dev_array d \<noteq> 0 then kfree (dev_array d) h else Some h);
                        Some (s\<lparr>heap := h, devices := d\<lparr>dev_array := new_array, dev_capacity := cap\<rparr>\<rparr>) } })
      else Some s)"

definition add_device :: "u8 list \<Rightarrow> u64 \<Rightarrow> u64 \<Rightarrow> machine \<Rightarrow> (nat \<times> machine) option" where
  "add_device ty data len s =
     (if length ty \<ge> DEVICE_TYPE_LEN then None
      else
        do { s \<leftarrow> grow_devices s;
             let (did, s) = get_next_device_id s;
             let slot = \<lparr>device_type = ty, device_id = did, mmio_range_list = [],
                         device_data = data, device_data_len = len\<rparr>;
             Some (length (dev_list (devices s)),
                   s\<lparr>devices := (devices s)\<lparr>dev_list := dev_list (devices s) @ [slot]\<rparr>\<rparr>) })"

definition add_mmio_range :: "nat \<Rightarrow> u64 \<Rightarrow> u64 \<Rightarrow> machine \<Rightarrow> machine option" where
  "add_mmio_range target pa len s =
     do { (range, h) \<leftarrow> kmalloc sizeof_DeviceMMIORange (heap s);
          let s = s\<lparr>heap := h\<rparr>;
          if range = 0 then None
          else
            do { (va, s) \<leftarrow> kmmap_alloc pa (ROUND len PAGE_SIZE) (PTE_V OR PTE_RW OR PTE_GLOBAL) s;
                 if va = 0 then None
                 else
                   do { let d = dev_list (devices s) ! target;
                        let d = d\<lparr>mmio_range_list := \<lparr>range_pa = pa, range_len = len, mapped_va = va\<rparr> # mmio_range_list d\<rparr>;
                        Some (s\<lparr>devices := (devices s)\<lparr>dev_list := (dev_list (devices s))[target := d]\<rparr>\<rparr>) } } }"

fun find_device_by_type :: "u8 list \<Rightarrow> nat \<Rightarrow> Device list \<Rightarrow> Device list" where
  "find_device_by_type ty 0 ds = []"
| "find_device_by_type ty (Suc n) [] = []"
| "find_device_by_type ty (Suc n) (d # ds) =
     (if device_type d = ty then d # find_device_by_type ty n ds else find_device_by_type ty (Suc n) ds)"

definition get_device_count :: "u8 list \<Rightarrow> machine \<Rightarrow> nat" where
  "get_device_count ty s = length (filter (\<lambda>d. device_type d = ty) (dev_list (devices s)))"

section \<open>Register access\<close>

definition in_range :: "u64 \<Rightarrow> DeviceMMIORange \<Rightarrow> bool" where
  "in_range pa r \<longleftrightarrow> pa \<ge> range_pa r \<and> pa < range_pa r + range_len r"

definition get_mapped_pa :: "Device \<Rightarrow> u64 \<Rightarrow> u64 option" where
  "get_mapped_pa d pa =
     do { r \<leftarrow> List.find (in_range pa) (mmio_range_list d);
          let result = mapped_va r + (pa - range_pa r);
          if result = 0 then None else Some result }"

definition io_read :: "nat \<Rightarrow> Device \<Rightarrow> u64 \<Rightarrow> machine \<Rightarrow> (u64 \<times> machine) option" where
  "io_read w d pa s =
     do { va \<leftarrow> get_mapped_pa d pa;
          let v = take_bit (8 * w) (hw s (io_log s) w va);
          Some (v, s\<lparr>io_log := IO_read w va v # io_log s\<rparr>) }"

definition io_write :: "nat \<Rightarrow> Device \<Rightarrow> u64 \<Rightarrow> u64 \<Rightarrow> machine \<Rightarrow> machine option" where
  "io_write w d v pa s =
     do { va \<leftarrow> get_mapped_pa d pa;
          Some (s\<lparr>io_log := IO_write w va (take_bit (8 * w) v) # io_log s\<rparr>) }"

definition ioread8 :: "Device \<Rightarrow> u64 \<Rightarrow> machine \<Rightarrow> (u64 \<times> machine) option" where
  "ioread8 = io_read 1"

definition ioread16 :: "Device \<Rightarrow> u64 \<Rightarrow> machine \<Rightarrow> (u64 \<times> machine) option" where
  "ioread16 = io_read 2"

definition ioread32 :: "Device \<Rightarrow> u64 \<Rightarrow> machine \<Rightarrow> (u64 \<times> machine) option" where
  "ioread32 = io_read 4"

definition ioread64 :: "Device \<Rightarrow> u64 \<Rightarrow> machine \<Rightarrow> (u64 \<times> machine) option" where
  "ioread64 = io_read 8"

definition iowrite8 :: "Device \<Rightarrow> u64 \<Rightarrow> u64 \<Rightarrow> machine \<Rightarrow> machine option" where
  "iowrite8 = io_write 1"

definition iowrite16 :: "Device \<Rightarrow> u64 \<Rightarrow> u64 \<Rightarrow> machine \<Rightarrow> machine option" where
  "iowrite16 = io_write 2"

definition iowrite32 :: "Device \<Rightarrow> u64 \<Rightarrow> u64 \<Rightarrow> machine \<Rightarrow> machine option" where
  "iowrite32 = io_write 4"

definition iowrite64 :: "Device \<Rightarrow> u64 \<Rightarrow> u64 \<Rightarrow> machine \<Rightarrow> machine option" where
  "iowrite64 = io_write 8"

end
