(* ===== verification/Interrupt.thy ===== *)
theory Interrupt
  imports Device
begin

text \<open>
  External interrupts: the register interface of the interrupt controller (\<^verbatim>\<open>kern/plic.c\<close>) and their
  delivery to processes (\<^verbatim>\<open>kern/env_interrupt.c\<close>).

  The only handler ever installed with \<^verbatim>\<open>plic_enable_interrupt\<close> is \<^verbatim>\<open>handle_env_interrupt\<close>, so the table of
  function pointers is a table of flags.  The trap frame \<^verbatim>\<open>tf\<close> the handlers get is the one at
  the top of the kernel stack, at \<open>tf_va\<close>; where the code copies it from or to memory with \<^verbatim>\<open>copy_user_space\<close>
  the model writes it there first, or reads it back.
\<close>

section \<open>The interrupt controller\<close>

definition PLIC_INTERRUPT_SOURCE_PRIORIY_OFFSET :: u64 where "PLIC_INTERRUPT_SOURCE_PRIORIY_OFFSET = 0x000000"
definition PLIC_INTERRUPT_ENABLE_CONTEXT_1_OFFSET :: u64 where "PLIC_INTERRUPT_ENABLE_CONTEXT_1_OFFSET = 0x002080"
definition PLIC_PRIORITY_THRESHOLD_CONTEXT_1_OFFSET :: u64 where "PLIC_PRIORITY_THRESHOLD_CONTEXT_1_OFFSET = 0x201000"
definition PLIC_CLAIM_CONTEXT_1_OFFSET :: u64 where "PLIC_CLAIM_CONTEXT_1_OFFSET = 0x201004"

definition sizeof_PlicData :: u64 where "sizeof_PlicData = 32"

definition plic_get_prority_threshold :: "machine \<Rightarrow> (u64 \<times> machine) option" where
  "plic_get_prority_threshold s =
     do { d \<leftarrow> plic_device s; ioread32 d (plic_base_pa s + PLIC_PRIORITY_THRESHOLD_CONTEXT_1_OFFSET) s }"

definition plic_set_prority_threshold :: "u32 \<Rightarrow> machine \<Rightarrow> machine option" where
  "plic_set_prority_threshold threshold s =
     do { d \<leftarrow> plic_device s;
          iowrite32 d (ucast threshold) (plic_base_pa s + PLIC_PRIORITY_THRESHOLD_CONTEXT_1_OFFSET) s }"

definition plic_get_interrupt_code :: "machine \<Rightarrow> (u32 \<times> machine) option" where
  "plic_get_interrupt_code s =
     do { d \<leftarrow> plic_device s;
          (v, s) \<leftarrow> ioread32 d (plic_base_pa s + PLIC_CLAIM_CONTEXT_1_OFFSET) s;
          Some (ucast v, s) }"

definition plic_mark_finish :: "u32 \<Rightarrow> machine \<Rightarrow> machine option" where
  "plic_mark_finish code s =
     do { d \<leftarrow> plic_device s;
          if code \<ge> plic_interrupt_count s then None
          else iowrite32 d (ucast code) (plic_base_pa s + PLIC_CLAIM_CONTEXT_1_OFFSET) s }"

definition plic_set_prority :: "u32 \<Rightarrow> u32 \<Rightarrow> machine \<Rightarrow> machine option" where
  "plic_set_prority code prority s =
     do { d \<leftarrow> plic_device s;
          if code \<ge> plic_interrupt_count s then None
          else iowrite32 d (ucast prority)
                 (plic_base_pa s + PLIC_INTERRUPT_SOURCE_PRIORIY_OFFSET + ucast (code * 4)) s }"

text \<open>\<^verbatim>\<open>1 << offset\<close> is an \<^verbatim>\<open>int\<close>; the register is 32 bits wide.\<close>

definition plic_enable_interrupt :: "u32 \<Rightarrow> u32 \<Rightarrow> machine \<Rightarrow> machine option" where
  "plic_enable_interrupt code prority s =
     do { d \<leftarrow> plic_device s;
          if code \<ge> plic_interrupt_count s then None
          else
            do { let s = s\<lparr>plic_handler_set := (plic_handler_set s)(unat code := True)\<rparr>;
                 let byte_offset = code div 32;
                 let offset = unat (code mod 32);
                 let enable_register_va = plic_base_pa s + PLIC_INTERRUPT_ENABLE_CONTEXT_1_OFFSET + ucast byte_offset;
                 (previous, s) \<leftarrow> ioread32 d enable_register_va s;
                 s \<leftarrow> iowrite32 d (previous OR push_bit offset 1) enable_register_va s;
                 plic_set_prority code prority s } }"

definition plic_get_interrupt_count :: "machine \<Rightarrow> u32 option" where
  "plic_get_interrupt_count s = (case plic_device s of None \<Rightarrow> None | Some _ \<Rightarrow> Some (plic_interrupt_count s))"

section \<open>Delivery to processes (\<^verbatim>\<open>kern/env_interrupt.c\<close>)\<close>

definition MAX_INTERRUPT :: nat where "MAX_INTERRUPT = 1024"

definition upd_kern :: "(kstate \<Rightarrow> kstate) \<Rightarrow> machine \<Rightarrow> machine" where
  "upd_kern f s = s\<lparr>kern := f (kern s)\<rparr>"

definition register_env_interrupt :: "u32 \<Rightarrow> nat \<Rightarrow> u64 \<Rightarrow> machine \<Rightarrow> machine option" where
  "register_env_interrupt code env va s =
     (if unat code \<ge> MAX_INTERRUPT then None
      else if va < UTEMP \<or> va \<ge> USTACKTOP then None
      else
        (let s = upd_kern (\<lambda>k. upd_env k env (handler_function_va_update (\<lambda>_. va))) s
         in Some (s\<lparr>interrupt_code_to_envid :=
                     (interrupt_code_to_envid s)(unat code := env_id (envs (kern s) env))\<rparr>)))"

definition write_Trapframe :: "memory \<Rightarrow> u64 \<Rightarrow> Trapframe \<Rightarrow> memory" where
  "write_Trapframe m a tf =
     (let m = fold (\<lambda>i m. store64 m (a + 8 * of_nat i) (regs tf i)) [0..<32] m;
          m = store64 m (a + 256) (sstatus tf); m = store64 m (a + 264) (badvaddr tf);
          m = store64 m (a + 272) (scause tf); m = store64 m (a + 280) (sepc tf);
          m = store64 m (a + 288) (sip tf)
      in store64 m (a + 296) (sie tf))"

definition put_tf :: "u64 \<Rightarrow> Trapframe \<Rightarrow> kstate \<Rightarrow> kstate" where
  "put_tf a tf k = k\<lparr>pm := (pm k)\<lparr>mem := write_Trapframe (mem (pm k)) a tf\<rparr>\<rparr>"

text \<open>The new stack pointer: below the current one when an interrupt handler was interrupted.\<close>

definition exception_sp :: "u64 \<Rightarrow> u64" where
  "exception_sp user_sp =
     (if user_sp \<ge> USTACKTOP \<and> user_sp < UXSTACKTOP then user_sp - sizeof_Trapframe
      else UXSTACKTOP - sizeof_Trapframe)"

definition deliver_current :: "u64 \<Rightarrow> nat \<Rightarrow> kstate \<Rightarrow> kstate option" where
  "deliver_current tf_va env k =
     (let user_sp = exception_sp (regs (kstack_tf k) 2) in
      do { k \<leftarrow> copy_user_space tf_va user_sp sizeof_Trapframe (put_tf tf_va (kstack_tf k) k);
           Some (k\<lparr>kstack_tf := (kstack_tf k)\<lparr>regs := (regs (kstack_tf k))(2 := user_sp),
                                              sepc := handler_function_va (envs k env)\<rparr>\<rparr>) })"

definition wake_interrupted :: "nat \<Rightarrow> kstate \<Rightarrow> kstate" where
  "wake_interrupted env k =
     (if env_status (envs k env) = ENV_NOT_RUNNABLE
      then
        (let k = (if env_in_syscall (envs k env) = 1
                  then upd_env k env (\<lambda>v. v\<lparr>env_in_syscall := 0, env_ipc_recving := 0,
                         env_tf := (env_tf v)\<lparr>regs := (regs (env_tf v))(10 := of_int (- E_INTR))\<rparr>\<rparr>)
                  else k);
             k = upd_env k env (env_status_update (\<lambda>_. ENV_RUNNABLE))
         in k\<lparr>env_sched_list := TAILQ_INSERT_HEAD (env_sched_list k) env\<rparr>)
      else k)"

definition deliver_other :: "nat \<Rightarrow> kstate \<Rightarrow> kstate option" where
  "deliver_other env k =
     (let k = wake_interrupted env k;
          user_sp = exception_sp (regs (env_tf (envs k env)) 2);
          tf = kstack_tf k;
          k = upd_env k env (\<lambda>v. v\<lparr>env_tf := (env_tf v)\<lparr>sie := sie tf, sip := sip tf\<rparr>\<rparr>);
          env_tf_va = envs_va k + of_nat env * sizeof_Env
      in do { k \<leftarrow> copy_user_space_to_env env env_tf_va user_sp sizeof_Trapframe
                     (put_tf env_tf_va (env_tf (envs k env)) k);
              Some (upd_env k env (\<lambda>v. v\<lparr>env_tf := (env_tf v)\<lparr>regs := (regs (env_tf v))(2 := user_sp),
                                                               sepc := handler_function_va v\<rparr>\<rparr>)) })"

text \<open>Whether the handler returned, and the state; otherwise \<^verbatim>\<open>env_run\<close> left for the process.\<close>

definition handle_env_interrupt :: "u64 \<Rightarrow> u32 \<Rightarrow> machine \<Rightarrow> (bool \<times> machine) option" where
  "handle_env_interrupt tf_va code s =
     (if unat code \<ge> MAX_INTERRUPT then None
      else if interrupt_code_to_envid s (unat code) = 0 then Some (True, s)
      else
        do { r \<leftarrow> lookup_env (interrupt_code_to_envid s (unat code)) 0 (kern s);
             (case r of
                Inl _ \<Rightarrow> Some (True, s)
              | Inr env \<Rightarrow>
                  do { s \<leftarrow> plic_set_prority code 0 s;
                       if curenv (kern s) = Some env
                       then do { k \<leftarrow> deliver_current tf_va env (kern s);
                                 s \<leftarrow> plic_mark_finish code (s\<lparr>kern := k\<rparr>);
                                 Some (True, s) }
                       else do { k \<leftarrow> deliver_other env (kern s);
                                 s \<leftarrow> plic_mark_finish code (s\<lparr>kern := k\<rparr>);
                                 k \<leftarrow> env_run env (kern s);
                                 Some (False, s\<lparr>kern := k\<rparr>) } }) })"

definition handle_plic_interrupt :: "u64 \<Rightarrow> machine \<Rightarrow> (bool \<times> machine) option" where
  "handle_plic_interrupt tf_va s =
     do { (code, s) \<leftarrow> plic_get_interrupt_code s;
          if code \<ge> plic_interrupt_count s then None
          else if plic_handler_set s (unat code) then handle_env_interrupt tf_va code s
          else Some (True, s) }"

definition ret_env_interrupt :: "u64 \<Rightarrow> machine \<Rightarrow> (int \<times> machine) option" where
  "ret_env_interrupt tf_va s =
     do { c \<leftarrow> curenv (kern s);
          let user_sp = regs (kstack_tf (kern s)) 2;
          if user_sp \<ge> UXSTACKTOP \<or> user_sp < USTACKTOP then Some (- E_INVAL, s)
          else
            do { k \<leftarrow> copy_user_space user_sp tf_va sizeof_Trapframe (put_tf tf_va (kstack_tf (kern s)) (kern s));
                 let s = s\<lparr>kern := k\<lparr>kstack_tf := read_Trapframe (mem (pm k)) tf_va\<rparr>\<rparr>;
                 let target = (case List.find (\<lambda>i. interrupt_code_to_envid s i = env_id (envs (kern s) c)) [0..<MAX_INTERRUPT] of
                                 None \<Rightarrow> 0 | Some i \<Rightarrow> i);
                 s \<leftarrow> (if target \<noteq> 0 then plic_set_prority (of_nat target) 1 s else Some s);
                 Some (0, s) } }"

end
