(* ===== verification/Dispatch.thy ===== *)
theory Dispatch
  imports Interrupt
begin

text \<open>
  The system calls on devices, interrupts and the process list, and the dispatcher \<^verbatim>\<open>do_syscall\<close>
  (\<^verbatim>\<open>kern/syscall_all.c\<close>).

  \<open>ctx\<close> holds what the compiler decides: the address of the local variable a handler passes to
  \<^verbatim>\<open>copy_user_space\<close> (\<open>local_va\<close>), the address of the trap frame on the kernel stack (\<open>tf_va\<close>), the value
  of an uninitialised local and of register \<^verbatim>\<open>a0\<close> after a \<^verbatim>\<open>void\<close> function (\<open>junk\<close>).
\<close>

record ctx =
  local_va :: u64
  tf_va :: u64
  junk :: u64

type_synonym mhandler = "machine \<Rightarrow> (sysres \<times> machine) option"

definition lift_handler :: "handler \<Rightarrow> mhandler" where
  "lift_handler h s = map_option (\<lambda>(r, k). (r, s\<lparr>kern := k\<rparr>)) (h (kern s))"

section \<open>Console input\<close>

text \<open>The loop waits until the firmware reports success; a byte it stores replaces the lowest byte of \<^verbatim>\<open>ch\<close>.\<close>

partial_function (option) cgetc_loop :: "u32 \<Rightarrow> machine \<Rightarrow> (u32 \<times> machine) option" where
  "cgetc_loop ch s =
     (let (success, byte) = sbi_console s (sbi_calls s);
          s = s\<lparr>sbi_calls := sbi_calls s + 1\<rparr>;
          ch = (case byte of None \<Rightarrow> ch | Some b \<Rightarrow> (ch AND NOT 0xFF) OR ucast b)
      in if success then Some (ch, s) else cgetc_loop ch s)"

definition sys_cgetc :: "ctx \<Rightarrow> mhandler" where
  "sys_cgetc c s = do { (ch, s) \<leftarrow> cgetc_loop (ucast (junk c)) s; Some (Ret (sint ch), s) }"

section \<open>Device access\<close>

definition is_illegal_device_pa_range :: "u64 \<Rightarrow> u64 \<Rightarrow> machine \<Rightarrow> Device option" where
  "is_illegal_device_pa_range pa len s =
     (if pa + len < pa then None
      else List.find (\<lambda>d. list_ex (in_range pa) (mmio_range_list d)) (dev_list (devices s)))"

text \<open>The data of width \<open>w\<close> goes through a local variable; the last test of the code compares with 4 again, so 8 ends in
  the panic.\<close>

definition sys_write_dev :: "ctx \<Rightarrow> u64 \<Rightarrow> u64 \<Rightarrow> u64 \<Rightarrow> mhandler" where
  "sys_write_dev c va pa len s =
     (if len \<noteq> 1 \<and> len \<noteq> 2 \<and> len \<noteq> 4 \<and> len \<noteq> 8 then Some (Ret (- E_INVAL), s)
      else if is_illegal_va_range va len then Some (Ret (- E_INVAL), s)
      else
        (case is_illegal_device_pa_range pa len s of
           None \<Rightarrow> Some (Ret (- E_INVAL), s)
         | Some d \<Rightarrow>
             if len = 1
             then do { k \<leftarrow> copy_user_space va (local_va c) 1 (kern s);
                       s \<leftarrow> iowrite8 d (load_le 1 (mem (pm k)) (local_va c)) pa (s\<lparr>kern := k\<rparr>);
                       Some (Ret 0, s) }
             else if len = 2
             then do { k \<leftarrow> copy_user_space va (local_va c) 2 (kern s);
                       s \<leftarrow> iowrite16 d (load_le 2 (mem (pm k)) (local_va c)) pa (s\<lparr>kern := k\<rparr>);
                       Some (Ret 0, s) }
             else if len = 4
             then do { k \<leftarrow> copy_user_space va (local_va c) 4 (kern s);
                       s \<leftarrow> iowrite32 d (load_le 4 (mem (pm k)) (local_va c)) pa (s\<lparr>kern := k\<rparr>);
                       Some (Ret 0, s) }
             else if len = 4
             then do { k \<leftarrow> copy_user_space va (local_va c) 8 (kern s);
                       s \<leftarrow> iowrite64 d (load_le 8 (mem (pm k)) (local_va c)) pa (s\<lparr>kern := k\<rparr>);
                       Some (Ret 0, s) }
             else None))"

definition store_local :: "nat \<Rightarrow> u64 \<Rightarrow> u64 \<Rightarrow> kstate \<Rightarrow> kstate" where
  "store_local w a v k = k\<lparr>pm := (pm k)\<lparr>mem := store_le w (mem (pm k)) a v\<rparr>\<rparr>"

definition read_dev_as :: "nat \<Rightarrow> (Device \<Rightarrow> u64 \<Rightarrow> machine \<Rightarrow> (u64 \<times> machine) option) \<Rightarrow> ctx \<Rightarrow> u64 \<Rightarrow> u64 \<Rightarrow> Device \<Rightarrow> mhandler" where
  "read_dev_as w ioread c va pa d s =
     do { (v, s) \<leftarrow> ioread d pa s;
          k \<leftarrow> copy_user_space (local_va c) va (of_nat w) (store_local w (local_va c) v (kern s));
          Some (Ret 0, s\<lparr>kern := k\<rparr>) }"

definition sys_read_dev :: "ctx \<Rightarrow> u64 \<Rightarrow> u64 \<Rightarrow> u64 \<Rightarrow> mhandler" where
  "sys_read_dev c va pa len s =
     (if len \<noteq> 1 \<and> len \<noteq> 2 \<and> len \<noteq> 4 \<and> len \<noteq> 8 then Some (Ret (- E_INVAL), s)
      else if is_illegal_va_range va len then Some (Ret (- E_INVAL), s)
      else
        (case is_illegal_device_pa_range pa len s of
           None \<Rightarrow> Some (Ret (- E_INVAL), s)
         | Some d \<Rightarrow>
             if len = 1 then read_dev_as 1 ioread8 c va pa d s
             else if len = 2 then read_dev_as 2 ioread16 c va pa d s
             else if len = 4 then read_dev_as 4 ioread32 c va pa d s
             else if len = 8 then read_dev_as 8 ioread64 c va pa d s
             else None))"

section \<open>Interrupts\<close>

definition sys_set_interrupt_handler :: "u32 \<Rightarrow> u64 \<Rightarrow> mhandler" where
  "sys_set_interrupt_handler code handler_va s =
     do { c \<leftarrow> curenv (kern s);
          interrupt_count \<leftarrow> plic_get_interrupt_count s;
          if code \<ge> interrupt_count then Some (Ret (- E_INVAL), s)
          else if handler_va < UTEMP \<or> handler_va \<ge> USTACKTOP then Some (Ret (- E_INVAL), s)
          else do { s \<leftarrow> register_env_interrupt code c handler_va s;
                    s \<leftarrow> plic_enable_interrupt code 1 s;
                    Some (Ret 0, s) } }"

definition sys_interrupt_return :: "ctx \<Rightarrow> mhandler" where
  "sys_interrupt_return c s =
     do { _ \<leftarrow> curenv (kern s);
          (_, s) \<leftarrow> ret_env_interrupt (tf_va c) s;
          Some (RetReg (regs (kstack_tf (kern s)) 10), s) }"

section \<open>Queries\<close>

text \<open>The type name is copied to a buffer of \<^verbatim>\<open>DEVICE_TYPE_LEN\<close> bytes whose last byte is then set to 0.\<close>

definition store_bytes :: "u8 list \<Rightarrow> u64 \<Rightarrow> memory \<Rightarrow> memory" where
  "store_bytes bs a m = fold (\<lambda>i m. m(a + of_nat i := bs ! i)) [0..<length bs] m"

definition get_type_name :: "ctx \<Rightarrow> u64 \<Rightarrow> kstate \<Rightarrow> (u8 list \<times> kstate) option" where
  "get_type_name c ty k =
     do { k \<leftarrow> copy_user_space ty (local_va c) (of_nat DEVICE_TYPE_LEN)
                (k\<lparr>pm := (pm k)\<lparr>mem := store_bytes (replicate DEVICE_TYPE_LEN 0) (local_va c) (mem (pm k))\<rparr>\<rparr>);
          let m = (mem (pm k))(local_va c + of_nat DEVICE_TYPE_LEN - 1 := 0);
          Some (takeWhile (\<lambda>b. b \<noteq> 0) (map (\<lambda>i. m (local_va c + of_nat i)) [0..<DEVICE_TYPE_LEN]),
                k\<lparr>pm := (pm k)\<lparr>mem := m\<rparr>\<rparr>) }"

definition sys_get_device_count :: "ctx \<Rightarrow> u64 \<Rightarrow> mhandler" where
  "sys_get_device_count c ty s =
     do { _ \<leftarrow> curenv (kern s);
          (name, k) \<leftarrow> get_type_name c ty (kern s);
          let s = s\<lparr>kern := k\<rparr>;
          Some (Ret (sint (of_nat (get_device_count name s) :: u32)), s) }"

definition sizeof_UserDevice :: u64 where "sizeof_UserDevice = 568"

text \<open>
  The local \<^verbatim>\<open>struct UserDevice\<close> at \<open>a\<close>: the type name with its NUL at offset 0, the identifier at 32, the ranges at 40, their
  number at 552, the data length at 560.  The bytes no field is stored to keep what the stack held.
\<close>

definition write_UserDevice :: "u64 \<Rightarrow> Device \<Rightarrow> u64 \<Rightarrow> memory \<Rightarrow> memory" where
  "write_UserDevice a d data_len m =
     (let m = store_bytes (device_type d @ [0]) a m;
          m = store64 m (a + 32) (device_id d);
          m = fold (\<lambda>i m. let r = mmio_range_list d ! i;
                             m = store64 m (a + 40 + 16 * of_nat i) (range_pa r)
                         in store64 m (a + 48 + 16 * of_nat i) (range_len r))
                [0..<length (mmio_range_list d)] m;
          m = store64 m (a + 552) (of_nat (length (mmio_range_list d)))
      in store64 m (a + 560) data_len)"

definition user_find_device_by_type :: "ctx \<Rightarrow> u8 list \<Rightarrow> nat \<Rightarrow> u64 \<Rightarrow> u64 \<Rightarrow> u64 \<Rightarrow> machine \<Rightarrow> (int \<times> machine) option" where
  "user_find_device_by_type c ty idx max_data_len out_device out_device_data s =
     (let ds = filter (\<lambda>d. device_type d = ty) (dev_list (devices s)) in
      if idx \<ge> length ds then Some (- E_NO_DEV, s)
      else
        (let d = ds ! idx;
             len = (if device_data_len d < max_data_len then device_data_len d else max_data_len);
             k = kern s;
             k = k\<lparr>pm := (pm k)\<lparr>mem := write_UserDevice (local_va c) d len (mem (pm k))\<rparr>\<rparr>
         in do { k \<leftarrow> copy_user_space (local_va c) out_device sizeof_UserDevice k;
                 k \<leftarrow> copy_user_space (device_data d) out_device_data len k;
                 Some (0, s\<lparr>kern := k\<rparr>) }))"

text \<open>The two locals of the call have the same address here: the name buffer is dead when the device is written.\<close>

definition sys_get_device :: "ctx \<Rightarrow> u64 \<Rightarrow> u64 \<Rightarrow> u64 \<Rightarrow> u64 \<Rightarrow> u64 \<Rightarrow> mhandler" where
  "sys_get_device c ty idx max_data_len out_device out_device_data s =
     do { _ \<leftarrow> curenv (kern s);
          if is_illegal_va_range out_device sizeof_UserDevice \<or> is_illegal_va_range out_device_data max_data_len
          then Some (Ret (- E_INVAL), s)
          else
            do { (name, k) \<leftarrow> get_type_name c ty (kern s);
                 (r, s) \<leftarrow> user_find_device_by_type c name (unat idx) max_data_len out_device out_device_data (s\<lparr>kern := k\<rparr>);
                 Some (Ret r, s) } }"

text \<open>
  Kernel stores to the heap go through the MMU; a fault inside the heap area is answered by
  \<^verbatim>\<open>kernel_passive_alloc\<close> and the store is repeated, a fault elsewhere is a panic (\<^verbatim>\<open>do_page_fault\<close>).
\<close>

primrec kernel_write :: "u8 list \<Rightarrow> u64 \<Rightarrow> kstate \<Rightarrow> kstate option" where
  "kernel_write [] va k = Some k"
| "kernel_write (b # bs) va k =
     do { p \<leftarrow> (case hw_addr (mem (pm k)) (cur_pgdir k) PTE_W va of
                  Some _ \<Rightarrow> Some (pm k)
                | None \<Rightarrow> kernel_passive_alloc (pm k) va);
          a \<leftarrow> hw_addr (mem p) (cur_pgdir k) PTE_W va;
          kernel_write bs (va + 1) (k\<lparr>pm := p\<lparr>mem := (mem p)(a := b)\<rparr>\<rparr>) }"

definition le_bytes :: "nat \<Rightarrow> u64 \<Rightarrow> u8 list" where
  "le_bytes n v = map (\<lambda>i. ucast (drop_bit (8 * i) v)) [0..<n]"

definition sizeof_Process :: u64 where "sizeof_Process = 64"

text \<open>The stores into entry \<open>a\<close> of the buffer, field by field in the order of the code.\<close>

definition write_Process :: "u64 \<Rightarrow> Env \<Rightarrow> kstate \<Rightarrow> kstate option" where
  "write_Process a e k =
     do { k \<leftarrow> kernel_write (le_bytes 4 (ucast (env_id e))) (a + 32) k;
          k \<leftarrow> kernel_write (le_bytes 4 (ucast (env_parent_id e))) (a + 36) k;
          k \<leftarrow> kernel_write (le_bytes 4 (ucast (env_pri e))) (a + 40) k;
          k \<leftarrow> kernel_write (le_bytes 4 (ucast (env_status e))) (a + 56) k;
          k \<leftarrow> kernel_write (le_bytes 8 (env_runs e)) (a + 48) k;
          kernel_write (env_name e @ [0]) a k }"

definition list_process :: "u64 \<Rightarrow> nat \<Rightarrow> nat \<times> kstate \<Rightarrow> (nat \<times> kstate) option" where
  "list_process buffer i = (\<lambda>(count, k).
     if env_status (envs k i) \<noteq> ENV_FREE
     then do { k \<leftarrow> write_Process (buffer + sizeof_Process * of_nat count) (envs k i) k; Some (count + 1, k) }
     else Some (count, k))"

definition sys_get_process_list :: "int \<Rightarrow> u64 \<Rightarrow> mhandler" where
  "sys_get_process_list max_len out_process_list s =
     do { _ \<leftarrow> curenv (kern s);
          if max_len < 0 then Some (Ret (- E_INVAL), s)
          else if is_illegal_va_range out_process_list (of_int max_len * sizeof_Process) then Some (Ret (- E_INVAL), s)
          else
            do { let max_process_count = (if max_len < int NENV then max_len else int NENV);
                 (buffer, h) \<leftarrow> kmalloc (of_int max_process_count * sizeof_Process) (heap s);
                 if buffer = 0 then None
                 else
                   do { (count, k) \<leftarrow> for_each [0..<NENV] (list_process buffer) (0, kern s);
                        k \<leftarrow> copy_user_space buffer out_process_list (sizeof_Process * of_nat count) k;
                        h \<leftarrow> kfree buffer h;
                        Some (Ret (int count), s\<lparr>heap := h, kern := k\<rparr>) } } }"

section \<open>The dispatcher\<close>

definition MAX_SYSNO :: nat where "MAX_SYSNO = 28"

text \<open>The table in the order of the numbers in \<^verbatim>\<open>include/syscall.h\<close>; each call converts its arguments.\<close>

definition syscall_table :: "ctx \<Rightarrow> u64 \<Rightarrow> u64 \<Rightarrow> u64 \<Rightarrow> u64 \<Rightarrow> u64 \<Rightarrow> mhandler list" where
  "syscall_table c a1 a2 a3 a4 a5 =
     [lift_handler (sys_putchar a1),
      lift_handler (sys_print_cons a1 a2),
      lift_handler sys_getenvid,
      lift_handler sys_yield,
      lift_handler (sys_env_destroy (ucast a1)),
      lift_handler (sys_mem_alloc (ucast a1) a2 (ucast a3)),
      lift_handler (sys_mem_map (ucast a1) a2 (ucast a3) a4 (ucast a5)),
      lift_handler (sys_mem_unmap (ucast a1) a2),
      lift_handler sys_exofork,
      lift_handler (sys_set_env_status (ucast a1) (ucast a2)),
      lift_handler (sys_set_trapframe (local_va c) (ucast a1) a2),
      lift_handler (sys_panic a1),
      lift_handler (sys_ipc_try_send (ucast a1) a2 a3 (ucast a4)),
      lift_handler (sys_ipc_recv (ucast a1) (ucast a2)),
      sys_cgetc c,
      sys_write_dev c a1 a2 a3,
      sys_read_dev c a1 a2 a3,
      lift_handler sys_map_user_vpt,
      lift_handler sys_unmap_user_vpt,
      lift_handler sys_sleep,
      sys_set_interrupt_handler (ucast a1) a2,
      sys_interrupt_return c,
      sys_get_device_count c a1,
      sys_get_device c a1 a2 a3 a4 a5,
      sys_get_process_list (sint (ucast a1 :: u32)) a2,
      lift_handler (sys_get_physical_address a1),
      lift_handler (sys_is_dirty a1),
      lift_handler (sys_pageref a1)]"

definition set_a0 :: "u64 \<Rightarrow> kstate \<Rightarrow> kstate" where
  "set_a0 v k = k\<lparr>kstack_tf := (kstack_tf k)\<lparr>regs := (regs (kstack_tf k))(10 := v)\<rparr>\<rparr>"

fun sysres_value :: "ctx \<Rightarrow> sysres \<Rightarrow> u64 option" where
  "sysres_value c (Ret i) = Some (of_int i)"
| "sysres_value c (RetReg v) = Some v"
| "sysres_value c RetVoid = Some (junk c)"
| "sysres_value c NoRet = None"

text \<open>Whether the dispatcher returned to the trap exit, and the state.\<close>

definition do_syscall :: "ctx \<Rightarrow> machine \<Rightarrow> (bool \<times> machine) option" where
  "do_syscall c s =
     (let tf = kstack_tf (kern s); sysno = sint (ucast (regs tf 10) :: u32) in
      if sysno < 0 \<or> sysno \<ge> int MAX_SYSNO then Some (True, upd_kern (set_a0 (of_int (- E_NO_SYS))) s)
      else
        do { e \<leftarrow> curenv (kern s);
             let s = upd_kern (\<lambda>k. upd_env k e (env_in_syscall_update (\<lambda>_. 1))) s;
             let s = upd_kern (\<lambda>k. k\<lparr>kstack_tf := (kstack_tf k)\<lparr>sepc := sepc (kstack_tf k) + 4\<rparr>\<rparr>) s;
             (r, s) \<leftarrow> (syscall_table c (regs tf 11) (regs tf 12) (regs tf 13) (regs tf 14) (regs tf 15) ! nat sysno) s;
             (case sysres_value c r of
                None \<Rightarrow> Some (False, s)
              | Some v \<Rightarrow>
                  do { e \<leftarrow> curenv (kern s);
                       Some (True, upd_kern (\<lambda>k. set_a0 v (upd_env k e (env_in_syscall_update (\<lambda>_. 0)))) s) }) })"

end
