(* ===== verification/DispatchProps.thy ===== *)
theory DispatchProps
  imports Dispatch SyscallProps HeapProps
begin

text \<open>
  Properties of the dispatcher, of the device calls and of interrupt delivery: what an invalid call
  number does, who may act on whom, the queue invariant when an interrupt wakes a process, and the
  mapping area for device memory.
\<close>

section \<open>Dispatch\<close>

lemma kern_upd_kern [simp]: "kern (upd_kern f s) = f (kern s)"
  by (simp add: upd_kern_def)

lemma upd_kern_set_a0_twice [simp]: "upd_kern (set_a0 v) (upd_kern (set_a0 w) s) = upd_kern (set_a0 v) s"
  by (simp add: upd_kern_def set_a0_def)

lemma do_syscall_invalid:
  assumes "sint (ucast (regs (kstack_tf (kern s)) 10) :: u32) \<notin> {0..<int MAX_SYSNO}"
  shows "do_syscall c s = Some (True, upd_kern (set_a0 (of_int (- E_NO_SYS))) s)"
  using assms by (auto simp: do_syscall_def Let_def)

text \<open>An invalid call number is answered with \<^verbatim>\<open>-E_NO_SYS\<close> in \<^verbatim>\<open>a0\<close> and changes nothing else; in particular the saved
  program counter is not advanced.  The process therefore executes the same \<^verbatim>\<open>ecall\<close> again, now with
  \<^verbatim>\<open>-E_NO_SYS\<close> as its number, and the dispatcher reproduces its own result for ever.\<close>

theorem invalid_sysno_repeats:
  assumes "sint (ucast (regs (kstack_tf (kern s)) 10) :: u32) \<notin> {0..<int MAX_SYSNO}"
  shows "\<exists>s'. do_syscall c s = Some (True, s') \<and> do_syscall c s' = Some (True, s')
    \<and> kstack_tf (kern s') = (kstack_tf (kern s))\<lparr>regs := (regs (kstack_tf (kern s)))(10 := of_int (- E_NO_SYS))\<rparr>
    \<and> sepc (kstack_tf (kern s')) = sepc (kstack_tf (kern s))"
proof -
  let ?s = "upd_kern (set_a0 (of_int (- E_NO_SYS))) s"
  have "sint (ucast (regs (kstack_tf (kern ?s)) 10) :: u32) = - 5"
    by (simp add: set_a0_def errno)
  then have "do_syscall c ?s = Some (True, ?s)" by (subst do_syscall_invalid) (simp_all only: upd_kern_set_a0_twice, simp)
  moreover have "kstack_tf (kern ?s) = (kstack_tf (kern s))\<lparr>regs := (regs (kstack_tf (kern s)))(10 := of_int (- E_NO_SYS))\<rparr>"
    by (simp add: set_a0_def)
  moreover have "sepc (kstack_tf (kern ?s)) = sepc (kstack_tf (kern s))" by (simp add: set_a0_def)
  ultimately show ?thesis using do_syscall_invalid [OF assms] by blast
qed

text \<open>The state a handler starts in.\<close>

definition syscall_entry :: "nat \<Rightarrow> machine \<Rightarrow> machine" where
  "syscall_entry e s =
     upd_kern (\<lambda>k. k\<lparr>kstack_tf := (kstack_tf k)\<lparr>sepc := sepc (kstack_tf k) + 4\<rparr>\<rparr>)
       (upd_kern (\<lambda>k. upd_env k e (env_in_syscall_update (\<lambda>_. 1))) s)"


text \<open>The processes a call with the permission check may act on.\<close>

definition may_act_on :: "kstate \<Rightarrow> nat \<Rightarrow> u32 \<Rightarrow> bool" where
  "may_act_on k c envid \<longleftrightarrow>
     envid = 0 \<or> (let e = ENVX envid in env_status (envs k e) \<noteq> ENV_FREE \<and> env_id (envs k e) = envid
       \<and> (e = c \<or> env_parent_id (envs k e) = env_id (envs k c)))"


lemma may_act_on_entry [simp]: "may_act_on (kern (syscall_entry e s)) c envid = may_act_on (kern s) c envid"
  by (auto simp: may_act_on_def syscall_entry_def upd_env_def Let_def)

lemma curenv_entry [simp]: "curenv (kern (syscall_entry e s)) = curenv (kern s)"
  by (simp add: syscall_entry_def upd_env_def)





text \<open>A machine with no devices, whose process 3 has just executed system call \<open>n\<close> with first argument \<open>a\<close>.\<close>

definition sample_machine :: "u64 \<Rightarrow> u64 \<Rightarrow> machine" where
  "sample_machine n a = \<lparr>kern = sample_kstate\<lparr>kstack_tf := sample_tf\<lparr>regs := (\<lambda>i. if i = 10 then n else if i = 11 then a else 0)\<rparr>\<rparr>,
     heap = sample_heap, kmmap_bmap = (\<lambda>i. if i < KMMAP_COUNT - 1 then 1 else 0),
     devices = \<lparr>dev_array = 0, dev_list = [], dev_capacity = 0\<rparr>, global_device_id = 0,
     hw = (\<lambda>_ _ _. 0), io_log = [], plic_device = None, plic_base_pa = 0, plic_interrupt_count = 0,
     plic_handler_set = (\<lambda>_. False), interrupt_code_to_envid = (\<lambda>_. 0), sbi_console = (\<lambda>_. (True, None)), sbi_calls = 0\<rparr>"

theorem invalid_sysno_repeats_witness:
  "\<exists>s'. do_syscall \<lparr>local_va = 0, tf_va = 0, junk = 0\<rparr> (sample_machine 99 0) = Some (True, s')
     \<and> do_syscall \<lparr>local_va = 0, tf_va = 0, junk = 0\<rparr> s' = Some (True, s')"
  using invalid_sysno_repeats [of "sample_machine 99 0" "\<lparr>local_va = 0, tf_va = 0, junk = 0\<rparr>"]
  by (auto simp: sample_machine_def MAX_SYSNO_def)


section \<open>Interrupts\<close>

text \<open>An interrupt for a blocked process wakes it: the process becomes runnable and the head of the scheduling queue, so the
  queue invariant is kept; a system call it was blocked in ends with \<^verbatim>\<open>-E_INTR\<close> and no longer waits for a message;
  no other process and no page changes.\<close>

theorem interrupt_wakes_blocked:
  assumes run: "running k c qs" and e: "e < NENV" "env_status (envs k e) = ENV_NOT_RUNNABLE"
  shows "sched_inv (wake_interrupted e k) (e # qs) \<and> curenv (wake_interrupted e k) = Some c \<and> pm (wake_interrupted e k) = pm k
    \<and> env_status (envs (wake_interrupted e k) e) = ENV_RUNNABLE
    \<and> (if env_in_syscall (envs k e) = 1
       then env_in_syscall (envs (wake_interrupted e k) e) = 0 \<and> env_ipc_recving (envs (wake_interrupted e k) e) = 0
         \<and> env_tf (envs (wake_interrupted e k) e)
             = (env_tf (envs k e))\<lparr>regs := (regs (env_tf (envs k e)))(10 := of_int (- E_INTR))\<rparr>
       else env_tf (envs (wake_interrupted e k) e) = env_tf (envs k e))
    \<and> (\<forall>x. x \<noteq> e \<longrightarrow> envs (wake_interrupted e k) x = envs k x)"
proof -
  note r = runningD [OF run]
  have ne: "e \<notin> set qs" using sched_inv_runnable [OF r(1), of e] e by (auto simp: envstatus)
  from tq.rep_insert_head [OF sched_inv_rep [OF r(1)] ne]
  have q: "TAILQ_rep (env_sched_list (wake_interrupted e k)) (e # qs)"
    using e(2) by (simp add: wake_interrupted_def Let_def upd_env_def)
  have "set (e # qs) = runnable (wake_interrupted e k)"
    using r(1) e by (auto simp: sched_inv_def runnable_def wake_interrupted_def Let_def upd_env_def split: if_splits)
  with q r(1) e have "sched_inv (wake_interrupted e k) (e # qs)"
    by (simp add: sched_inv_def wake_interrupted_def Let_def upd_env_def)
  with r(2) e show ?thesis by (auto simp: wake_interrupted_def Let_def upd_env_def)
qed

theorem interrupt_wakes_blocked_witness:
  "sched_inv (wake_interrupted 5 sample_blocked) [5, 3]"
  using interrupt_wakes_blocked [OF sample_blocked_running, of 5]
  by (simp add: sample_blocked_def upd_env_def sample_kstate_def NENV_def)

section \<open>Device calls\<close>

lemma take_bit_load_le [simp]: "take_bit (8 * w) (load_le w m a) = load_le w m a"
  by (rule bit_word_eqI) (auto simp: bit_simps bit_load_le)

text \<open>A device write to a legal address moves the bytes of the caller, unchanged and in one access of the requested width, to the
  register; this holds for 1, 2 and 4 bytes.  For 8 bytes, which the interface documents as legal, the
  kernel panics: the branch for 8 tests for 4 again, so any process can stop the machine.\<close>

theorem write_dev_correct:
  assumes "len \<in> {1, 2, 4, 8}" "\<not> is_illegal_va_range va len" "is_illegal_device_pa_range pa len s = Some d"
    and "get_mapped_pa d pa = Some a"
  shows "sys_write_dev c va pa len s =
    (if len = 8 then None
     else map_option (\<lambda>k. (Ret 0, s\<lparr>kern := k, io_log := IO_write (unat len) a (load_le (unat len) (mem (pm k)) (local_va c)) # io_log s\<rparr>))
            (copy_user_space va (local_va c) len (kern s)))"
proof -
  have n: "(len \<noteq> 1 \<and> len \<noteq> 2 \<and> len \<noteq> 4 \<and> len \<noteq> 8) = False" using assms(1) by auto
  have io: "iowrite8 = io_write 1" "iowrite16 = io_write 2" "iowrite32 = io_write 4"
    by (simp_all add: iowrite8_def iowrite16_def iowrite32_def)
  have w: "io_write w d (load_le w m b) pa s' = Some (s'\<lparr>io_log := IO_write w a (load_le w m b) # io_log s'\<rparr>)" for w m b s'
    using assms(4) by (simp add: io_write_def)
  show ?thesis
    unfolding sys_write_dev_def n if_False if_not_P [OF assms(2)] assms(3) option.case io
    using assms(1) by (cases "copy_user_space va (local_va c) len (kern s)") (auto simp: w simp del: load_le.simps One_nat_def)
qed

theorem write_dev_correct_witness:
  "sys_write_dev \<lparr>local_va = 0, tf_va = 0, junk = 0\<rparr> UTEMP 0x10000000 8
     ((sample_machine 15 0)\<lparr>devices := \<lparr>dev_array = 0, dev_list = [\<lparr>device_type = [], device_id = 0,
        mmio_range_list = [\<lparr>range_pa = 0x10000000, range_len = 0x1000, mapped_va = KMMAP_BEGIN_VA\<rparr>],
        device_data = 0, device_data_len = 0\<rparr>], dev_capacity = 2\<rparr>\<rparr>) = None"
  by (subst write_dev_correct [where d = "\<lparr>device_type = [], device_id = 0,
        mmio_range_list = [\<lparr>range_pa = 0x10000000, range_len = 0x1000, mapped_va = KMMAP_BEGIN_VA\<rparr>],
        device_data = 0, device_data_len = 0\<rparr>" and a = KMMAP_BEGIN_VA])
    (simp_all add: is_illegal_va_range_def is_illegal_device_pa_range_def in_range_def get_mapped_pa_def layout)

section \<open>Mapping device memory\<close>

lemma kmmap_find_Some:
  "kmmap_find bm n is = Some i \<Longrightarrow> i \<in> set is \<and> bm i = 0 \<and> (\<forall>j \<in> {i..<i + n}. bm j = 0)"
  by (induction bm n "is" rule: kmmap_find.induct) (auto split: if_splits simp: list_all_iff)

lemma kmmap_find_None:
  "kmmap_find bm n is = None \<Longrightarrow> i \<in> set is \<Longrightarrow> bm i \<noteq> 0 \<or> (\<exists>j \<in> {i..<i + n}. bm j \<noteq> 0)"
  by (induction bm n "is" rule: kmmap_find.induct) (auto split: if_splits simp: list_all_iff)

lemma kmmap_mark_clear:
  assumes "\<forall>j \<in> {off..<off + n}. bm j = 0"
  shows "kmmap_clear off n (kmmap_mark off n bm) = bm"
  using assms by (auto simp: kmmap_clear_def kmmap_mark_def fun_eq_iff)

lemma KMMAP_COUNT_eq: "KMMAP_COUNT = 262144"
  by (simp add: KMMAP_COUNT_def layout unat_div)

text \<open>The address of a page of the area and back.\<close>

lemma kmmap_addr:
  assumes "off < KMMAP_COUNT"
  defines "va \<equiv> push_bit PAGE_SHIFT (of_nat off) + KMMAP_BEGIN_VA"
  shows "unat va = unat KMMAP_BEGIN_VA + 4096 * off" "va mod PAGE_SIZE = 0" "va \<noteq> 0"
    "KMMAP_BEGIN_VA \<le> va" "va < KMMAP_END_VA" "unat (VPN va - VPN KMMAP_BEGIN_VA) = off"
proof -
  have o: "off < 262144" using assms(1) by (simp add: KMMAP_COUNT_eq)
  have p: "push_bit PAGE_SHIFT (of_nat off) = (of_nat (4096 * off) :: u64)"
    by (simp add: push_bit_eq_mult PAGE_SHIFT_def)
  have u: "unat (of_nat (4096 * off) :: u64) = 4096 * off" using o by (intro unat_of_nat64) simp
  have "unat va = 4096 * off + unat KMMAP_BEGIN_VA"
    unfolding va_def p by (subst unat_add_lem [THEN iffD1]) (use o u in \<open>simp_all add: layout\<close>)
  then show uv: "unat va = unat KMMAP_BEGIN_VA + 4096 * off" by simp
  show "va mod PAGE_SIZE = 0"
    by (simp only: word_unat_eq_iff unat_mod uv) (simp add: layout mod_add_eq)
  show "va \<noteq> 0" using uv by (auto simp: layout)
  show "KMMAP_BEGIN_VA \<le> va" "va < KMMAP_END_VA"
    unfolding word_le_nat_alt word_less_nat_alt uv using o by (simp_all add: layout)
  have v: "unat (VPN x) = unat x mod 2 ^ 39 div 4096" for x
    using unat_mask_eq [of x 39] by (simp add: VPN_def GENMASK_0 drop_bit_eq_div unat_div PAGE_SHIFT_def)
  have b: "unat KMMAP_BEGIN_VA = 2 ^ 39 * 33554431 + 278636003328" by (simp add: layout)
  have "unat va mod 2 ^ 39 = (278636003328 + 4096 * off) mod 2 ^ 39"
    unfolding uv b by (simp only: add.assoc mod_mult_self4)
  also have "\<dots> = 278636003328 + 4096 * off" using o by simp
  finally have "unat (VPN va) = 68026368 + off" by (simp add: v)
  moreover have "unat (VPN KMMAP_BEGIN_VA) = 68026368" unfolding v b by simp
  ultimately show "unat (VPN va - VPN KMMAP_BEGIN_VA) = off"
    by (subst unat_sub) (simp_all add: word_le_nat_alt)
qed

text \<open>The mapping area for device memory.  \<^verbatim>\<open>kmmap_alloc\<close> returns \<^verbatim>\<open>NULL\<close> only when no page of the area starts a free run of the
  requested length; otherwise it hands out the first such run, all of whose pages were free, and \<^verbatim>\<open>kmmap_free\<close> of the
  returned address makes exactly these pages free again.  Both may panic while they change the page tables.\<close>

theorem kmmap_alloc_free:
  assumes "sz mod PAGE_SIZE = 0" and n: "n = unat (sz div PAGE_SIZE)" "0 < n"
  shows "case kmmap_find (kmmap_bmap s) n [0..<KMMAP_COUNT] of
      None \<Rightarrow> kmmap_alloc pa sz perm s = Some (0, s) \<and> (\<forall>i < KMMAP_COUNT. \<exists>j \<in> {i..<i + n}. kmmap_bmap s j \<noteq> 0)
    | Some off \<Rightarrow> off < KMMAP_COUNT \<and> (\<forall>j \<in> {off..<off + n}. kmmap_bmap s j = 0)
        \<and> (\<forall>va s1. kmmap_alloc pa sz perm s = Some (va, s1) \<longrightarrow>
             unat va = unat KMMAP_BEGIN_VA + 4096 * off \<and> (\<forall>j \<in> {off..<off + n}. kmmap_bmap s1 j \<noteq> 0)
             \<and> (\<forall>j. j \<notin> {off..<off + n} \<longrightarrow> kmmap_bmap s1 j = kmmap_bmap s j)
             \<and> (\<forall>s2. kmmap_free va s1 = Some s2 \<longrightarrow> kmmap_bmap s2 = kmmap_bmap s))"
proof (cases "kmmap_find (kmmap_bmap s) n [0..<KMMAP_COUNT]")
  case None
  have "\<exists>j \<in> {i..<i + n}. kmmap_bmap s j \<noteq> 0" if "i < KMMAP_COUNT" for i
    using kmmap_find_None [OF None, of i] that n(2) by force
  with None assms show ?thesis by (simp add: kmmap_alloc_def)
next
  case (Some off)
  from kmmap_find_Some [OF Some] have off: "off < KMMAP_COUNT" "\<forall>j \<in> {off..<off + n}. kmmap_bmap s j = 0" by auto
  let ?va = "push_bit PAGE_SHIFT (of_nat off) + KMMAP_BEGIN_VA :: u64" and ?bm = "kmmap_mark off n (kmmap_bmap s)"
  note va = kmmap_addr [OF off(1)]
  have small: "n < 18446744073709551616" by (simp add: n(1))
  have alloc: "va' = ?va \<and> kmmap_bmap s1 = ?bm" if "kmmap_alloc pa sz perm s = Some (va', s1)" for va' s1
    using that assms Some by (auto simp: kmmap_alloc_def Let_def)
  have mark: "?bm j \<noteq> 0" if "j \<in> {off..<off + n}" for j
  proof -
    have u: "unat (of_nat (off + n - j) :: u64) = off + n - j" using that small by (intro unat_of_nat64) auto
    have "unat (of_nat (off + n - j) :: u64) \<noteq> 0" unfolding u using that by auto
    then show ?thesis using that by (auto simp: kmmap_mark_def)
  qed
  have free: "kmmap_bmap s2 = kmmap_bmap s" if "kmmap_free ?va s1 = Some s2" "kmmap_bmap s1 = ?bm" for s1 s2
  proof -
    have b: "?bm off = of_nat n" using n(2) by (simp add: kmmap_mark_def)
    have "(of_nat n :: u64) \<noteq> 0" using mark [of off] n(2) b by simp
    with that va b small have "kmmap_bmap s2 = kmmap_clear off n ?bm"
      by (auto simp: kmmap_free_def Let_def split: if_splits)
    with kmmap_mark_clear [OF off(2)] show ?thesis by simp
  qed
  have out: "?bm j = kmmap_bmap s j" if "j \<notin> {off..<off + n}" for j using that by (auto simp: kmmap_mark_def)
  have "unat va' = unat KMMAP_BEGIN_VA + 4096 * off \<and> (\<forall>j \<in> {off..<off + n}. kmmap_bmap s1 j \<noteq> 0)
      \<and> (\<forall>j. j \<notin> {off..<off + n} \<longrightarrow> kmmap_bmap s1 j = kmmap_bmap s j)
      \<and> (\<forall>s2. kmmap_free va' s1 = Some s2 \<longrightarrow> kmmap_bmap s2 = kmmap_bmap s)"
    if "kmmap_alloc pa sz perm s = Some (va', s1)" for va' s1
  proof -
    from alloc [OF that] have a: "va' = ?va" "kmmap_bmap s1 = ?bm" by auto
    show ?thesis unfolding a using mark out va(1) free [OF _ a(2)] by blast
  qed
  with off show ?thesis unfolding Some option.case by blast
qed

text \<open>The search does not stop at the end of the area: with only the last page free and a zero word behind the table, a request for
  two pages is granted the last page and the first one behind the area, and the word behind the
  table is overwritten.\<close>

theorem kmmap_alloc_overruns:
  assumes "\<forall>i < KMMAP_COUNT - 1. kmmap_bmap s i \<noteq> 0" "kmmap_bmap s (KMMAP_COUNT - 1) = 0" "kmmap_bmap s KMMAP_COUNT = 0"
  shows "kmmap_alloc pa (2 * PAGE_SIZE) perm s =
      map_option (\<lambda>k. (KMMAP_END_VA - PAGE_SIZE, s\<lparr>kmmap_bmap := kmmap_mark (KMMAP_COUNT - 1) 2 (kmmap_bmap s), kern := k\<rparr>))
        (kmap (KMMAP_END_VA - PAGE_SIZE) pa (2 * PAGE_SIZE) perm (kern s))
    \<and> kmmap_mark (KMMAP_COUNT - 1) 2 (kmmap_bmap s) KMMAP_COUNT = 1"
proof -
  have nf: "kmmap_find bm n (is @ [i]) = Some i" if "\<forall>x \<in> set is. bm x \<noteq> 0" "bm i = 0" "list_all (\<lambda>j. bm j = 0) [i..<i + n]"
    for bm n "is" i using that by (induction "is") auto
  have l: "[0..<KMMAP_COUNT] = [0..<KMMAP_COUNT - 1] @ [KMMAP_COUNT - 1]"
    by (simp add: KMMAP_COUNT_eq upt_Suc_append [symmetric] del: upt_Suc)
  have r: "[KMMAP_COUNT - 1..<KMMAP_COUNT - 1 + 2] = [KMMAP_COUNT - 1, KMMAP_COUNT]"
    by (simp add: KMMAP_COUNT_eq upt_rec)
  have f: "kmmap_find (kmmap_bmap s) 2 [0..<KMMAP_COUNT] = Some (KMMAP_COUNT - 1)"
    unfolding l
  proof (rule nf)
    show "list_all (\<lambda>j. kmmap_bmap s j = 0) [KMMAP_COUNT - 1..<KMMAP_COUNT - 1 + 2]"
      unfolding r using assms(2,3) by simp
  qed (use assms in auto)
  have "push_bit PAGE_SHIFT (of_nat (KMMAP_COUNT - 1)) + KMMAP_BEGIN_VA = KMMAP_END_VA - PAGE_SIZE"
    by (simp add: KMMAP_COUNT_eq layout)
  moreover have "unat (2 * PAGE_SIZE div PAGE_SIZE) = 2" "2 * PAGE_SIZE mod PAGE_SIZE = 0" by (simp_all add: layout)
  moreover have "kmmap_mark (KMMAP_COUNT - 1) 2 (kmmap_bmap s) KMMAP_COUNT = 1" by (simp add: kmmap_mark_def KMMAP_COUNT_eq)
  ultimately show ?thesis
    using f by (cases "kmap (KMMAP_END_VA - PAGE_SIZE) pa (2 * PAGE_SIZE) perm (kern s)")
      (simp_all add: kmmap_alloc_def Let_def)
qed

theorem kmmap_alloc_free_witness:
  "kmmap_alloc 0 4096 0 ((sample_machine 0 0)\<lparr>kmmap_bmap := (\<lambda>_. 1)\<rparr>) = Some (0, (sample_machine 0 0)\<lparr>kmmap_bmap := (\<lambda>_. 1)\<rparr>)"
  using kmmap_alloc_free [where s = "(sample_machine 0 0)\<lparr>kmmap_bmap := (\<lambda>_. 1)\<rparr>" and sz = 4096 and n = 1 and pa = 0 and perm = 0]
  by (auto simp: layout split: option.splits)

theorem kmmap_alloc_overruns_witness:
  "kmmap_mark (KMMAP_COUNT - 1) 2 (kmmap_bmap (sample_machine 0 0)) KMMAP_COUNT = 1"
  using kmmap_alloc_overruns [of "sample_machine 0 0" 0 0] by (simp add: sample_machine_def)

end
