(* ===== verification/Print.thy ===== *)
theory Print
  imports CString
begin

text \<open>
  Formatted output: \<^verbatim>\<open>lib/print.c\<close>.

  Strings are byte lists without their NUL.  The callback \<^verbatim>\<open>out\<close> appends to the output, so the functions return
  the bytes of all its calls in order.  The variable arguments are a list of values, each a register (numbers) or
  a string; reading one that is missing or of the wrong kind has no value.  The loop that
  splits off digits does not end for base 1, so it is a partial function.

  The theorems compare \<^verbatim>\<open>print_num\<close> with a reference definition of numerals and padding, read printed numbers back with
  \<^verbatim>\<open>parse_number\<close>, and characterise the conversions of \<^verbatim>\<open>vprintfmt\<close>.
\<close>

section \<open>Definitions\<close>

definition digit_char :: "bool \<Rightarrow> nat \<Rightarrow> u8" where
  "digit_char upcase tmp =
     (if tmp \<le> 9 then of_nat (48 + tmp)
      else if upcase then of_nat (65 + tmp - 10) else of_nat (97 + tmp - 10))"

text \<open>The \<^verbatim>\<open>do\<close> loop of \<^verbatim>\<open>print_num\<close>: digits, lowest first.\<close>

partial_function (option) num_digits :: "u64 \<Rightarrow> u64 \<Rightarrow> bool \<Rightarrow> u8 list option" where
  "num_digits u base upcase =
     (let c = digit_char upcase (unat (u mod base)); u = u div base in
      if u = 0 then Some [c]
      else do { cs \<leftarrow> num_digits u base upcase; Some (c # cs) })"

text \<open>The loop that reverses \<^verbatim>\<open>buf[begin..end]\<close> in place.\<close>

function reverse_loop :: "int \<Rightarrow> int \<Rightarrow> u8 list \<Rightarrow> u8 list" where
  "reverse_loop b e buf =
     (if e > b
      then (let tmp = buf ! nat b; buf = buf[nat b := buf ! nat e]; buf = buf[nat e := tmp]
            in reverse_loop (b + 1) (e - 1) buf)
      else buf)"
  by auto
termination by (relation "measure (\<lambda>(b, e, _). nat (e - b))") auto

declare reverse_loop.simps [simp del]

definition print_num :: "u64 \<Rightarrow> u64 \<Rightarrow> bool \<Rightarrow> nat \<Rightarrow> bool \<Rightarrow> u8 \<Rightarrow> bool \<Rightarrow> u8 list option" where
  "print_num u base neg_flag len ladjust padc upcase =
     do { ds \<leftarrow> num_digits u base upcase;
          let buf = (if neg_flag then ds @ [45] else ds);
          let actualLength = length buf;
          let len = (if len < actualLength then actualLength else len);
          let padc = (if ladjust then 32 else padc);
          let buf = (if neg_flag \<and> \<not> ladjust \<and> padc = 48
                     then take (actualLength - 1) buf @ replicate (len - 1 - (actualLength - 1)) padc @ [45]
                     else buf @ replicate (len - actualLength) padc);
          let end = (if ladjust then sint (of_nat (actualLength - 1) :: u32) else sint (of_nat (len - 1) :: u32));
          Some (reverse_loop 0 end buf) }"

definition print_char :: "u8 \<Rightarrow> nat \<Rightarrow> bool \<Rightarrow> u8 list" where
  "print_char c len ladjust =
     (let len = (if len < 1 then 1 else len) in
      if ladjust then c # replicate (len - 1) 32 else replicate (len - 1) 32 @ [c])"

definition print_str :: "u8 list \<Rightarrow> nat \<Rightarrow> bool \<Rightarrow> u8 list" where
  "print_str s len ladjust =
     (let len = (if len < length s then length s else len) in
      if ladjust then s @ replicate (len - length s) 32 else replicate (len - length s) 32 @ s)"

datatype va = VNum u64 | VStr "u8 list"

fun va_num :: "va list \<Rightarrow> (u64 \<times> va list) option" where
  "va_num (VNum v # ap) = Some (v, ap)"
| "va_num _ = None"

fun va_str :: "va list \<Rightarrow> (u8 list \<times> va list) option" where
  "va_str (VStr s # ap) = Some (s, ap)"
| "va_str _ = None"

text \<open>\<^verbatim>\<open>num\<close>: a \<^verbatim>\<open>long\<close>, or an \<^verbatim>\<open>int\<close> (or \<^verbatim>\<open>unsigned int\<close> converted to \<^verbatim>\<open>int\<close>) converted to \<^verbatim>\<open>long\<close>.\<close>

definition va_long :: "bool \<Rightarrow> u64 \<Rightarrow> u64" where
  "va_long long_flag v = (if long_flag then v else scast (ucast v :: u32))"

text \<open>The \<^verbatim>\<open>switch\<close> on the conversion character.\<close>

definition convert :: "u8 \<Rightarrow> bool \<Rightarrow> nat \<Rightarrow> bool \<Rightarrow> u8 \<Rightarrow> va list \<Rightarrow> (u8 list \<times> va list) option" where
  "convert c long_flag width ladjust padc ap =
     (let unsigned = (\<lambda>base upcase.
        do { (v, ap) \<leftarrow> va_num ap;
             s \<leftarrow> print_num (va_long long_flag v) base False width ladjust padc upcase;
             Some (s, ap) })
      in if c = 98 then unsigned 2 False
         else if c = 100 \<or> c = 68
         then do { (v, ap) \<leftarrow> va_num ap;
                   let num = va_long long_flag v;
                   let neg_flag = sint num < 0;
                   let num = (if neg_flag then - num else num);
                   s \<leftarrow> print_num num 10 neg_flag width ladjust padc False;
                   Some (s, ap) }
         else if c = 111 \<or> c = 79 then unsigned 8 False
         else if c = 117 \<or> c = 85 then unsigned 10 False
         else if c = 120 then unsigned 16 False
         else if c = 88 then unsigned 16 True
         else if c = 99 then do { (v, ap) \<leftarrow> va_num ap; Some (print_char (ucast v) width ladjust, ap) }
         else if c = 115 then do { (s, ap) \<leftarrow> va_str ap; Some (print_str s width ladjust, ap) }
         else Some ([c], ap))"

definition fmt_flags :: "u8 list \<Rightarrow> bool \<times> u8 \<times> u8 list" where
  "fmt_flags fmt =
     (case fmt of
        c # fmt' \<Rightarrow> if c = 45 then (True, 32, fmt') else if c = 48 then (False, 48, fmt') else (False, 32, fmt)
      | [] \<Rightarrow> (False, 32, []))"

definition fmt_long :: "u8 list \<Rightarrow> bool \<times> u8 list" where
  "fmt_long fmt = (case fmt of c # fmt' \<Rightarrow> if c = 108 then (True, fmt') else (False, fmt) | [] \<Rightarrow> (False, []))"

lemma parse_digits_length: "length (snd (parse_digits base r cs)) \<le> length cs"
  by (induction base r cs rule: parse_digits.induct) (auto split: option.split intro: le_SucI)

lemma fmt_flags_length: "length (snd (snd (fmt_flags f))) \<le> length f"
  by (auto simp: fmt_flags_def split: list.split)

lemma fmt_long_length: "length (snd (fmt_long f)) \<le> length f"
  by (auto simp: fmt_long_def split: list.split)

lemma fmt_spec_length:
  assumes "fmt_flags f = (l, p, f1)" "parse_number f1 10 = (w, f2)" "fmt_long f2 = (g, c # f3)"
  shows "length f3 < length f"
  using assms fmt_flags_length [of f] parse_digits_length [of 10 0 f1] fmt_long_length [of f2]
  by (simp add: parse_number_def)

function vprintfmt :: "u8 list \<Rightarrow> va list \<Rightarrow> u8 list option" where
  "vprintfmt fmt ap =
     (let pre = takeWhile (\<lambda>c. c \<noteq> 37) fmt in
      case dropWhile (\<lambda>c. c \<noteq> 37) fmt of
        [] \<Rightarrow> Some pre
      | _ # f \<Rightarrow>
          (let (ladjust, padc, f1) = fmt_flags f; (width, f2) = parse_number f1 10; (long_flag, f3) = fmt_long f2 in
           case f3 of
             [] \<Rightarrow> Some pre
           | c # f4 \<Rightarrow>
               (case convert c long_flag (nat width) ladjust padc ap of
                  None \<Rightarrow> None
                | Some (s, ap) \<Rightarrow> map_option (\<lambda>r. pre @ s @ r) (vprintfmt f4 ap))))"
  by pat_completeness auto
termination
proof (relation "measure (\<lambda>(fmt, ap). length fmt)", simp, goal_cases)
  case (1 fmt ap pre x f x1 l x2 p f1 x3 w f2 x4 g f3 c f4 y s ap')
  have "length f4 < length f" using fmt_spec_length 1 by metis
  moreover have "length (x # f) \<le> length fmt" using 1(2) length_dropWhile_le by metis
  ultimately show ?case by simp
qed

declare vprintfmt.simps [simp del]

section \<open>Numerals\<close>

text \<open>The reference: numerals most significant digit first.\<close>

fun radix :: "bool \<Rightarrow> nat \<Rightarrow> nat \<Rightarrow> u8 list" where
  "radix upcase b n =
     (if n < b \<or> b < 2 then [digit_char upcase n] else radix upcase b (n div b) @ [digit_char upcase (n mod b)])"

declare radix.simps [simp del]

lemma num_digits_radix:
  assumes "2 \<le> unat base"
  shows "num_digits u base upcase = Some (rev (radix upcase (unat base) (unat u)))"
proof (induction "unat u" arbitrary: u rule: less_induct)
  case less
  let ?b = "unat base"
  have d: "unat (u div base) = unat u div ?b" "unat (u mod base) = unat u mod ?b" by (simp_all add: unat_div unat_mod)
  show ?case
  proof (cases "unat u < ?b")
    case True
    then have "unat (u div base) = 0" using d by simp
    then have "u div base = 0" by (simp add: unsigned_eq_0_iff)
    with True d show ?thesis by (simp add: num_digits.simps [of u] radix.simps [of _ _ "unat u"])
  next
    case False
    then have nz: "unat (u div base) \<noteq> 0" using d assms by (simp add: div_eq_0_iff)
    then have "u div base \<noteq> 0" by auto
    moreover have "unat u div ?b < unat u" using False assms by (intro div_less_dividend) auto
    then have "num_digits (u div base) base upcase = Some (rev (radix upcase ?b (unat u div ?b)))"
      using less [of "u div base"] d by simp
    ultimately show ?thesis
      using False assms d by (simp add: num_digits.simps [of u] radix.simps [of _ _ "unat u"])
  qed
qed

lemma radix_not_Nil [simp]: "radix up b n \<noteq> []"
  by (simp add: radix.simps [of up b n])

lemma radix_length: "2 \<le> b \<Longrightarrow> n < 2 ^ k \<Longrightarrow> 0 < k \<Longrightarrow> length (radix up b n) \<le> k"
proof (induction up b n arbitrary: k rule: radix.induct)
  case (1 up b n)
  show ?case
  proof (cases "n < b")
    case True
    with 1 show ?thesis by (simp add: radix.simps [of up b n])
  next
    case False
    have "n \<ge> 2" using False 1 by linarith
    then have "k \<noteq> 1" using 1(3) by auto
    then obtain j where j: "k = Suc j" "0 < j" using 1(4) by (cases k) auto
    have "n div b \<le> n div 2" using 1(2) by (intro div_le_mono2) auto
    also have "\<dots> < 2 ^ j" using 1(3) j by (simp add: less_mult_imp_div_less)
    finally have "length (radix up b (n div b)) \<le> j" using 1(1) [OF _ 1(2)] False 1(2) j(2) by auto
    with False 1(2) j show ?thesis by (simp add: radix.simps [of up b n])
  qed
qed

section \<open>Reversal in place\<close>

lemma length_reverse_loop [simp]: "length (reverse_loop b e xs) = length xs"
  by (induction b e xs rule: reverse_loop.induct) (subst reverse_loop.simps, simp add: Let_def)

lemma reverse_loop_nth:
  "0 \<le> b \<Longrightarrow> e < int (length xs) \<Longrightarrow> i < length xs \<Longrightarrow>
     reverse_loop b e xs ! i = (if b \<le> int i \<and> int i \<le> e then xs ! nat (b + e - int i) else xs ! i)"
proof (induction b e xs rule: reverse_loop.induct)
  case (1 b e xs)
  show ?case
  proof (cases "e > b")
    case False
    have "nat (b + e - int i) = i" if "b \<le> int i" "int i \<le> e" using that False by auto
    with False show ?thesis by (simp add: reverse_loop.simps [of b e xs])
  next
    case True
    let ?ys = "xs[nat b := xs ! nat e, nat e := xs ! nat b]"
    have ih: "reverse_loop (b + 1) (e - 1) ?ys ! i
        = (if b + 1 \<le> int i \<and> int i \<le> e - 1 then ?ys ! nat (b + 1 + (e - 1) - int i) else ?ys ! i)"
      by (rule 1(1) [OF True refl refl refl]) (use 1 True in auto)
    have "reverse_loop b e xs ! i = reverse_loop (b + 1) (e - 1) ?ys ! i"
      using True by (simp add: reverse_loop.simps [of b e xs] Let_def)
    also have "\<dots> = (if b \<le> int i \<and> int i \<le> e then xs ! nat (b + e - int i) else xs ! i)"
    proof -
      consider "int i = b" | "int i = e" | "b + 1 \<le> int i" "int i \<le> e - 1" | "int i < b \<or> int i > e" by linarith
      then show ?thesis
      proof cases
        case 1
        then have "i = nat b" by simp
        with 1 True \<open>0 \<le> b\<close> \<open>i < length xs\<close> show ?thesis unfolding ih by (auto simp: nth_list_update)
      next
        case 2
        then have "i = nat e" by simp
        with 2 True \<open>0 \<le> b\<close> \<open>i < length xs\<close> show ?thesis unfolding ih by (auto simp: nth_list_update)
      next
        case 3
        then have "nat (b + e - int i) \<noteq> nat b" "nat (b + e - int i) \<noteq> nat e" using \<open>0 \<le> b\<close> by auto
        with 3 show ?thesis unfolding ih by (simp add: add.commute)
      next
        case 4
        then have "i \<noteq> nat b" "i \<noteq> nat e" using True \<open>0 \<le> b\<close> by linarith+
        with 4 show ?thesis unfolding ih by auto
      qed
    qed
    finally show ?thesis .
  qed
qed

lemma reverse_loop_prefix:
  assumes "0 < n" "n \<le> length xs"
  shows "reverse_loop 0 (int n - 1) xs = rev (take n xs) @ drop n xs"
proof (rule nth_equalityI)
  fix i assume "i < length (reverse_loop 0 (int n - 1) xs)"
  then have i: "i < length xs" by simp
  show "reverse_loop 0 (int n - 1) xs ! i = (rev (take n xs) @ drop n xs) ! i"
  proof (cases "i < n")
    case True
    then have "nat (int n - 1 - int i) = n - Suc i" by linarith
    with True i assms show ?thesis by (simp add: reverse_loop_nth nth_append rev_nth)
  next
    case False
    with i assms show ?thesis by (simp add: reverse_loop_nth nth_append)
  qed
qed (use assms in simp)

section \<open>The reference for \<open>print_num\<close>\<close>

text \<open>Sign, padding and digits in the order they are printed.\<close>

definition padded :: "u8 list \<Rightarrow> u8 list \<Rightarrow> nat \<Rightarrow> bool \<Rightarrow> u8 \<Rightarrow> u8 list" where
  "padded sign ds len ladjust padc =
     (let n = len - length (sign @ ds) in
      if ladjust then sign @ ds @ replicate n 32
      else if padc = 48 then sign @ replicate n 48 @ ds
      else replicate n padc @ sign @ ds)"

lemma sint_len:
  assumes "0 < n" "n \<le> 2147483647"
  shows "sint (of_nat (n - 1) :: u32) = int n - 1"
proof -
  have "sint (of_nat (n - 1) :: u32) = int (n - 1)"
    using assms(2) by (simp add: signed_of_nat signed_take_bit_int_eq_self)
  with assms(1) show ?thesis by (simp add: of_nat_diff)
qed

lemma print_num_padded:
  assumes b: "2 \<le> unat base" and len: "len < 2 ^ 31"
  shows "print_num u base neg len ladjust padc upcase =
    Some (padded (if neg then [45] else []) (radix upcase (unat base) (unat u)) len ladjust padc)"
proof -
  define ds where "ds = radix upcase (unat base) (unat u)"
  have ds: "num_digits u base upcase = Some (rev ds)" by (simp add: ds_def num_digits_radix [OF b])
  have l: "length ds \<le> 64" "0 < length ds"
    unfolding ds_def using radix_length [OF b, of "unat u" 64] by simp_all
  define buf where "buf = rev ((if neg then [45] else []) @ ds)"
  define n where "n = (if len < length buf then length buf else len)"
  have lb: "0 < length buf" "length buf \<le> 65" using l by (auto simp: buf_def)
  then have n: "length buf \<le> n" "0 < n" "n \<le> 2147483647" "n - length buf = len - length buf" "0 < length buf"
    using len by (auto simp: n_def simp del: length_greater_0_conv)
  have buf: "(if neg then rev ds @ [45] else rev ds) = buf" by (simp add: buf_def)
  have e: "sint (of_nat (length buf - 1) :: u32) = int (length buf) - 1" "sint (of_nat (n - 1) :: u32) = int n - 1"
    using sint_len [of "length buf"] sint_len [of n] n by linarith+
  define full where "full = (if neg \<and> \<not> ladjust \<and> (if ladjust then 32 else padc) = 48
      then take (length buf - 1) buf @ replicate (n - 1 - (length buf - 1)) (if ladjust then 32 else padc) @ [45]
      else buf @ replicate (n - length buf) (if ladjust then 32 else padc))"
  have lf: "length full = n" using n(1,2,5) by (auto simp: full_def simp del: length_greater_0_conv)
  have p: "print_num u base neg len ladjust padc upcase
      = Some (reverse_loop 0 (if ladjust then int (length buf) - 1 else int n - 1) full)"
    unfolding print_num_def Let_def ds bind.bind_lunit buf n_def [symmetric] full_def [symmetric] e by simp
  show ?thesis
  proof (cases ladjust)
    case True
    then have "full = buf @ replicate (n - length buf) 32" by (simp add: full_def)
    then have "reverse_loop 0 (int (length buf) - 1) full = rev buf @ replicate (n - length buf) 32"
      using reverse_loop_prefix [of "length buf" full] n(5) by simp
    with p True n(4) show ?thesis by (simp add: padded_def buf_def ds_def)
  next
    case False
    have "reverse_loop 0 (int n - 1) full = rev full" using reverse_loop_prefix [of n full] n(2) lf by simp
    moreover have "rev full = padded (if neg then [45] else []) ds len False padc"
    proof (cases "neg \<and> padc = 48")
      case True
      then have t: "take (length buf - 1) buf = rev ds" by (simp add: buf_def)
      have "n - 1 - (length buf - 1) = n - length buf" using n by simp
      with True False t n(4) show ?thesis by (simp add: full_def padded_def buf_def)
    next
      case nz: False
      with False n(4) show ?thesis by (auto simp: full_def padded_def buf_def Let_def)
    qed
    ultimately show ?thesis using p False by (simp add: ds_def)
  qed
qed

text \<open>Reading back: \<^verbatim>\<open>parse_number\<close> of a printed numeral.\<close>

lemma digit_value_char:
  assumes "d < 36"
  shows "digit_value (digit_char up d) = Some (int d)"
proof -
  from assms have "d \<in> set [0..<36]" by simp
  then show ?thesis by (cases up; simp add: upt_rec; elim disjE; simp add: digit_char_def digit_value_def)
qed

lemma parse_digits_radix:
  assumes "2 \<le> b" "b \<le> 36"
  shows "parse_digits (int b) r (radix up b n @ cs) = parse_digits (int b) (r * int b ^ length (radix up b n) + int n) cs"
  using assms
proof (induction up b n arbitrary: r cs rule: radix.induct)
  case (1 up b n)
  show ?case
  proof (cases "n < b")
    case True
    with 1 show ?thesis by (simp add: radix.simps [of up b n] digit_value_char)
  next
    case False
    have "n mod b < b" using 1(2) by simp
    then have m36: "n mod b < 36" and m: "\<not> b \<le> n mod b" using 1(3) by linarith+
    have "int n = int (n div b) * int b + int (n mod b)"
      by (metis div_mult_mod_eq of_nat_add of_nat_mult)
    then show ?thesis
      using False 1 m m36 by (simp add: radix.simps [of up b n] digit_value_char algebra_simps)
  qed
qed

end
