(* ===== verification/PrintProps.thy ===== *)
theory PrintProps
  imports Print
begin

text \<open>
  Properties of formatted output: numbers against the reference numerals, reading them back, the conversions.
\<close>



text \<open>Round trip: what \<^verbatim>\<open>print_num\<close> prints for an unsigned number in base 2 to 36, in either case, \<^verbatim>\<open>parse_number\<close> reads
  back as the same number, consuming all of it; zero padding does not change the value.\<close>

theorem print_parse_roundtrip:
  assumes "2 \<le> unat base" "unat base \<le> 36" "len < 2 ^ 31"
  shows "\<exists>s. print_num u base False len False 48 upcase = Some s \<and> parse_number s (int (unat base)) = (int (unat u), [])"
proof -
  let ?b = "int (unat base)" and ?ds = "radix upcase (unat base) (unat u)"
  have z: "parse_digits b 0 (replicate n 48 @ cs) = parse_digits b 0 cs" if "2 \<le> b" for n cs b
    using that by (induction n) (auto simp: digit_value_def)
  have b2: "2 \<le> ?b" using assms(1) by linarith
  have "parse_digits ?b 0 ?ds = (int (unat u), [])"
    using parse_digits_radix [OF assms(1,2), of 0 upcase "unat u" "[]"] by simp
  with z [OF b2] print_num_padded [OF assms(1,3), of u False False 48 upcase] show ?thesis
    by (simp add: padded_def parse_number_def)
qed

theorem print_parse_roundtrip_witness:
  "\<exists>s. print_num 48879 16 False 8 False 48 True = Some s \<and> parse_number s 16 = (48879, [])"
  using print_parse_roundtrip [of 16 8 48879 True] by simp

text \<open>\<^verbatim>\<open>%d\<close> prints an \<^verbatim>\<open>int\<close> argument in decimal, with a minus sign when it is negative, for every value of the type.\<close>

theorem vprintfmt_d_correct:
  "vprintfmt [37, 100] [VNum v] =
     Some ((if sint (ucast v :: u32) < 0 then [45] else []) @ radix False 10 (nat \<bar>sint (ucast v :: u32)\<bar>))"
proof -
  let ?i = "sint (ucast v :: u32)"
  have r: "- 2147483648 \<le> ?i" "?i \<le> 2147483647"
    using sint_ge [of "ucast v :: u32"] sint_lt [of "ucast v :: u32"] by simp_all
  have w: "va_long False v = of_int ?i" by (simp add: va_long_def)
  have s64: "sint (of_int i :: u64) = i" "unat (of_int \<bar>i\<bar> :: u64) = nat \<bar>i\<bar>"
    if "- 2147483648 \<le> i" "i \<le> 2147483647" for i :: int
    using that by (simp_all add: signed_of_int signed_take_bit_int_eq_self unsigned_of_int take_bit_int_eq_self)
  have num: "sint (va_long False v) = ?i" unfolding w by (rule s64(1) [OF r])
  have u: "unat (if ?i < 0 then - va_long False v else va_long False v) = nat \<bar>?i\<bar>"
  proof -
    have "(if ?i < 0 then - of_int ?i else of_int ?i) = (of_int \<bar>?i\<bar> :: u64)" by simp
    then show ?thesis unfolding w using s64(2) [OF r] by (simp only:)
  qed
  have "convert 100 False 0 False 32 [VNum v]
      = Some ((if ?i < 0 then [45] else []) @ radix False 10 (nat \<bar>?i\<bar>), [])"
    unfolding convert_def Let_def by (simp add: num print_num_padded u padded_def split del: if_split)
  then show ?thesis
    by (simp add: vprintfmt.simps [of "[37, 100]"] vprintfmt.simps [of "[]"] fmt_flags_def fmt_long_def parse_number_def digit_value_def)
qed

text \<open>\<^verbatim>\<open>%x\<close> of an \<^verbatim>\<open>unsigned int\<close> whose top bit is set does not print that number: the argument is converted to \<^verbatim>\<open>int\<close> and widened
  with its sign, and the number printed is larger by $2^{64} - 2^{32}$.\<close>

theorem vprintfmt_x_sign_extends:
  assumes "bit v 31"
  shows "vprintfmt [37, 120] [VNum v] = Some (radix False 16 (2 ^ 64 - 2 ^ 32 + unat (ucast v :: u32)))"
proof -
  let ?w = "ucast v :: u32"
  have top: "bit ?w 31" using assms by (simp add: bit_simps)
  have lt: "unat ?w < 2 ^ 32" using unsigned_less [of ?w] by simp
  have "va_long False v = ucast ?w OR push_bit 32 (mask 32)"
  proof (rule bit_word_eqI)
    fix n assume "n < LENGTH(64)"
    then show "bit (va_long False v) n = bit (ucast ?w OR push_bit 32 (mask 32) :: u64) n"
      using top assms by (cases "n < 31"; cases "n = 31") (auto simp: va_long_def bit_simps min_def)
  qed
  also have "\<dots> = ucast ?w + push_bit 32 (mask 32)"
    by (rule disjunctive_add_eq_or [symmetric]) (rule bit_word_eqI, auto simp: bit_simps)
  finally have "unat (va_long False v) = unat (ucast ?w + push_bit 32 (mask 32) :: u64)" by simp
  also have "\<dots> = 2 ^ 64 - 2 ^ 32 + unat ?w"
  proof -
    have uc: "unat (ucast x :: u64) = unat x" if "unat x < 2 ^ 32" for x :: u32
      using that by (simp add: unsigned_ucast_eq take_bit_nat_eq_self)
    have hi: "unat (push_bit 32 (mask 32) :: u64) = 2 ^ 64 - 2 ^ 32" by (simp add: mask_eq_exp_minus_1)
    show ?thesis
      by (subst unat_add_lem [THEN iffD1]) (use lt in \<open>simp_all only: uc [OF lt] hi, simp_all\<close>)
  qed
  finally have "unat (va_long False v) = 2 ^ 64 - 2 ^ 32 + unat ?w" .
  then have "convert 120 False 0 False 32 [VNum v] = Some (radix False 16 (2 ^ 64 - 2 ^ 32 + unat ?w), [])"
    unfolding convert_def Let_def by (simp add: print_num_padded padded_def)
  then show ?thesis
    by (simp add: vprintfmt.simps [of "[37, 120]"] vprintfmt.simps [of "[]"] fmt_flags_def fmt_long_def parse_number_def digit_value_def)
qed

theorem vprintfmt_x_sign_extends_witness:
  "vprintfmt [37, 120] [VNum 0x80000000] = Some (radix False 16 0xFFFFFFFF80000000)"
  using vprintfmt_x_sign_extends [of "0x80000000"] by simp

end
