(* ===== verification/Fs.thy ===== *)
theory Fs
  imports Syscall
begin

text \<open>
  The file-system server: the block cache, the block bitmap, files, directories and paths of
  \<^verbatim>\<open>fs/fs.c\<close>, the sector loops of \<^verbatim>\<open>fs/block.c\<close> and the on-disk structures of
  \<^verbatim>\<open>user/include/fs.h\<close>.

  The state is the server process as it sees itself: its memory \<open>umem\<close>, the flags of the pages
  it has mapped (\<open>upt\<close>, by page number), the disk, and the two global pointers.  \<open>grants\<close> are
  the answers the kernel will give to its next requests for memory, so that every pattern of
  failures is covered.  The memory system calls on the caller itself appear with their effect
  on this view.  A store marks its page dirty, as the hardware does.  A request to the disk driver moves one
  sector between memory and \<open>disk\<close> and succeeds.

  \<^term>\<open>None\<close> is \<^verbatim>\<open>user_panic\<close>, a failed \<^verbatim>\<open>user_assert\<close>, or an access to a page the server has not
  mapped.  Accesses are at most eight bytes and never cross a page, so one page is looked up.
  Path names and file names in local buffers are the bytes before their NUL.
\<close>

section \<open>State\<close>

record fsstate =
  umem :: memory
  upt :: "u64 \<Rightarrow> u64 option"
  grants :: "bool list"
  disk :: "u64 \<Rightarrow> u8"
  super :: u64
  bitmap :: u64

definition uvpn :: "u64 \<Rightarrow> u64" where "uvpn va = drop_bit 12 va"

definition mapped :: "fsstate \<Rightarrow> u64 \<Rightarrow> bool" where "mapped s va \<longleftrightarrow> upt s (uvpn va) \<noteq> None"

definition uload :: "nat \<Rightarrow> fsstate \<Rightarrow> u64 \<Rightarrow> u64 option" where
  "uload n s a = (if mapped s a then Some (load_le n (umem s) a) else None)"

definition set_dirty :: "u64 \<Rightarrow> fsstate \<Rightarrow> fsstate" where
  "set_dirty va s = s\<lparr>upt := (upt s)(uvpn va := map_option (\<lambda>fl. fl OR PTE_DIRTY) (upt s (uvpn va)))\<rparr>"

definition ustore :: "nat \<Rightarrow> u64 \<Rightarrow> u64 \<Rightarrow> fsstate \<Rightarrow> fsstate option" where
  "ustore n a v s =
     (if mapped s a then Some (set_dirty a (s\<lparr>umem := store_le n (umem s) a v\<rparr>)) else None)"

text \<open>The bytes of \<open>m'\<close> from \<open>a\<close> on, \<open>n\<close> of them, written at \<open>d\<close>.\<close>

definition blit :: "memory \<Rightarrow> u64 \<Rightarrow> (u64 \<Rightarrow> u8) \<Rightarrow> u64 \<Rightarrow> nat \<Rightarrow> memory" where
  "blit m d m' a n = (\<lambda>x. if unat (x - d) < n then m' (a + (x - d)) else m x)"

subsection \<open>The memory system calls on the caller\<close>

definition syscall_mem_alloc :: "u64 \<Rightarrow> u32 \<Rightarrow> fsstate \<Rightarrow> int \<times> fsstate" where
  "syscall_mem_alloc va perm s =
     (if is_illegal_va va then (- E_INVAL, s)
      else (case grants s of
              [] \<Rightarrow> (- E_NO_MEM, s)
            | ok # gs \<Rightarrow>
                let s = s\<lparr>grants := gs\<rparr> in
                if ok
                then (0, s\<lparr>umem := fill_bytes (umem s) (ROUNDDOWN va PAGE_SIZE) 0 4096,
                           upt := (upt s)(uvpn va \<mapsto> user_perm perm OR PTE_V)\<rparr>)
                else (- E_NO_MEM, s)))"

text \<open>\<^verbatim>\<open>syscall_mem_map(0, va, 0, va, perm)\<close>: the same page, with other flags.\<close>

definition syscall_mem_remap :: "u64 \<Rightarrow> u32 \<Rightarrow> fsstate \<Rightarrow> int \<times> fsstate" where
  "syscall_mem_remap va perm s =
     (if is_illegal_va va then (- E_INVAL, s)
      else if \<not> mapped s va then (- E_INVAL, s)
      else (0, s\<lparr>upt := (upt s)(uvpn va \<mapsto> user_perm perm OR PTE_V)\<rparr>))"

definition syscall_mem_unmap :: "u64 \<Rightarrow> fsstate \<Rightarrow> int \<times> fsstate" where
  "syscall_mem_unmap va s =
     (if is_illegal_va va then (- E_INVAL, s) else (0, s\<lparr>upt := (upt s)(uvpn va := None)\<rparr>))"

definition syscall_is_dirty :: "u64 \<Rightarrow> fsstate \<Rightarrow> bool" where
  "syscall_is_dirty va s \<longleftrightarrow> (case upt s (uvpn va) of None \<Rightarrow> False | Some fl \<Rightarrow> fl AND PTE_DIRTY \<noteq> 0)"

subsection \<open>Constants and structure layout (\<^verbatim>\<open>user/include/fs.h\<close>, \<^verbatim>\<open>fs/serv.h\<close>)\<close>

definition BLOCK_SIZE :: nat where "BLOCK_SIZE = 4096"
definition BLOCK_SIZE_BIT :: nat where "BLOCK_SIZE_BIT = BLOCK_SIZE * 8"
definition SECT2BLK :: u32 where "SECT2BLK = 8"
definition SECTOR_SIZE :: nat where "SECTOR_SIZE = 512"
definition DISKMAP :: u32 where "DISKMAP = 0x10000000"
definition DISKMAX :: nat where "DISKMAX = 0x40000000"
definition MAXNAMELEN :: nat where "MAXNAMELEN = 128"
definition NDIRECT :: nat where "NDIRECT = 10"
definition NINDIRECT :: nat where "NINDIRECT = BLOCK_SIZE div 4"
definition FILE_STRUCT_SIZE :: nat where "FILE_STRUCT_SIZE = 256"
definition FILE2BLK :: nat where "FILE2BLK = BLOCK_SIZE div FILE_STRUCT_SIZE"
definition FTYPE_REG :: u32 where "FTYPE_REG = 0"
definition FTYPE_DIR :: u32 where "FTYPE_DIR = 1"
definition FS_MAGIC :: u32 where "FS_MAGIC = 0x68286097"

text \<open>The address of each field, given the address of the structure.\<close>

definition f_name :: "u64 \<Rightarrow> u64" where "f_name f = f"
definition f_size :: "u64 \<Rightarrow> u64" where "f_size f = f + 128"
definition f_type :: "u64 \<Rightarrow> u64" where "f_type f = f + 132"
definition f_direct :: "u64 \<Rightarrow> nat \<Rightarrow> u64" where "f_direct f i = f + 136 + 4 * of_nat i"
definition f_indirect :: "u64 \<Rightarrow> u64" where "f_indirect f = f + 176"
definition f_dir :: "u64 \<Rightarrow> u64" where "f_dir f = f + 180"

definition s_magic :: "u64 \<Rightarrow> u64" where "s_magic a = a"
definition s_nblocks :: "u64 \<Rightarrow> u64" where "s_nblocks a = a + 4"
definition s_root :: "u64 \<Rightarrow> u64" where "s_root a = a + 8"

text \<open>A field of type \<^verbatim>\<open>uint32_t\<close>.\<close>

definition get32 :: "fsstate \<Rightarrow> u64 \<Rightarrow> u32 option" where
  "get32 s a = map_option ucast (uload 4 s a)"

definition put32 :: "u64 \<Rightarrow> u32 \<Rightarrow> fsstate \<Rightarrow> fsstate option" where
  "put32 a v s = ustore 4 a (ucast v) s"

text \<open>\<^verbatim>\<open>user_assert\<close>, and \<^verbatim>\<open>panic_on\<close> of a call that did not return 0.\<close>

definition user_assert :: "bool \<Rightarrow> unit option" where "user_assert b = (if b then Some () else None)"

section \<open>Sectors\<close>

definition virtio_read_sector :: "u32 \<Rightarrow> u64 \<Rightarrow> fsstate \<Rightarrow> fsstate option" where
  "virtio_read_sector sector buf s =
     (if mapped s buf
      then Some (set_dirty buf (s\<lparr>umem := blit (umem s) buf (disk s) (ucast sector * 512) SECTOR_SIZE\<rparr>))
      else None)"

definition virtio_write_sector :: "u32 \<Rightarrow> u64 \<Rightarrow> fsstate \<Rightarrow> fsstate option" where
  "virtio_write_sector sector buf s =
     (if mapped s buf
      then Some (s\<lparr>disk := blit (disk s) (ucast sector * 512) (umem s) buf SECTOR_SIZE\<rparr>)
      else None)"

lemma sector_loop_decreases:
  assumes "cur < (stop :: u32)"
  shows "unat (stop - (cur + 1)) < unat (stop - cur)"
proof -
  have "stop - cur \<noteq> 0" using assms by auto
  then have "unat (stop - cur - 1) < unat (stop - cur)"
    by (metis diff_less unat_gt_0 unat_minus_one zero_less_one)
  then show ?thesis by (simp add: diff_diff_eq)
qed

text \<open>\<^verbatim>\<open>for (cur = secno; cur < secno + nsecs; cur++)\<close>, for reading and for writing.\<close>

function sector_loop :: "(u32 \<Rightarrow> u64 \<Rightarrow> fsstate \<Rightarrow> fsstate option) \<Rightarrow> u32 \<Rightarrow> u32 \<Rightarrow> u64 \<Rightarrow> fsstate \<Rightarrow> fsstate option" where
  "sector_loop op cur stop buf s =
     (if cur < stop
      then Option.bind (op cur buf s) (sector_loop op (cur + 1) stop (buf + of_nat SECTOR_SIZE))
      else Some s)"
  by auto
termination
  by (relation "measure (\<lambda>(op, cur, stop, buf, s). unat (stop - cur))") (auto intro: sector_loop_decreases)

declare sector_loop.simps [simp del]

definition sector_read :: "u32 \<Rightarrow> u64 \<Rightarrow> u32 \<Rightarrow> fsstate \<Rightarrow> fsstate option" where
  "sector_read secno dst nsecs = sector_loop virtio_read_sector secno (secno + nsecs) dst"

definition sector_write :: "u32 \<Rightarrow> u64 \<Rightarrow> u32 \<Rightarrow> fsstate \<Rightarrow> fsstate option" where
  "sector_write secno src nsecs = sector_loop virtio_write_sector secno (secno + nsecs) src"

section \<open>The block cache\<close>

definition disk_addr :: "u32 \<Rightarrow> u64" where
  "disk_addr blockno = ucast (DISKMAP + blockno * of_nat BLOCK_SIZE)"

definition va_is_mapped :: "u64 \<Rightarrow> fsstate \<Rightarrow> bool" where "va_is_mapped va s = mapped s va"

definition block_is_mapped :: "u32 \<Rightarrow> fsstate \<Rightarrow> u64" where
  "block_is_mapped blockno s =
     (let va = disk_addr blockno in if va_is_mapped va s then va else 0)"

definition va_is_dirty :: "u64 \<Rightarrow> fsstate \<Rightarrow> bool" where "va_is_dirty va s = syscall_is_dirty va s"

definition block_is_dirty :: "u32 \<Rightarrow> fsstate \<Rightarrow> bool" where
  "block_is_dirty blockno s = va_is_dirty (disk_addr blockno) s"

definition dirty_block :: "u32 \<Rightarrow> fsstate \<Rightarrow> int \<times> fsstate" where
  "dirty_block blockno s =
     (let va = disk_addr blockno in
      if \<not> va_is_mapped va s then (- E_NOT_FOUND, s)
      else if va_is_dirty va s then (0, s)
      else syscall_mem_remap va (ucast (PTE_V OR PTE_RW OR PTE_USER OR PTE_DIRTY)) s)"

definition write_block :: "u32 \<Rightarrow> fsstate \<Rightarrow> fsstate option" where
  "write_block blockno s =
     (if block_is_mapped blockno s = 0 then None
      else sector_write (blockno * SECT2BLK) (disk_addr blockno) SECT2BLK s)"

definition block_is_free :: "u32 \<Rightarrow> fsstate \<Rightarrow> bool option" where
  "block_is_free blockno s =
     (if super s = 0 then Some False
      else
        do { n \<leftarrow> get32 s (s_nblocks (super s));
             if blockno \<ge> n then Some False
             else do { w \<leftarrow> get32 s (bitmap s + 4 * of_nat (unat blockno div 32));
                       Some (w AND push_bit (unat blockno mod 32) 1 \<noteq> 0) } })"

text \<open>An error code, or the address of the cached block and \<^verbatim>\<open>*isnew\<close>.\<close>

definition read_block :: "u32 \<Rightarrow> fsstate \<Rightarrow> ((int + u64 \<times> u32) \<times> fsstate) option" where
  "read_block blockno s =
     do { oob \<leftarrow> (if super s = 0 then Some False
                  else do { n \<leftarrow> get32 s (s_nblocks (super s)); Some (blockno \<ge> n) });
          if oob then None
          else
            do { free \<leftarrow> (if bitmap s = 0 then Some False else block_is_free blockno s);
                 if free then None
                 else
                   (let va = disk_addr blockno in
                    if block_is_mapped blockno s \<noteq> 0 then Some (Inr (va, 0), s)
                    else
                      (let (r, s) = syscall_mem_alloc va (ucast (PTE_V OR PTE_RW OR PTE_USER)) s in
                       if r \<noteq> 0 then Some (Inl r, s)
                       else do { s \<leftarrow> sector_read (blockno * SECT2BLK) va SECT2BLK s;
                                 Some (Inr (va, 1), s) })) } }"

definition map_block :: "u32 \<Rightarrow> fsstate \<Rightarrow> int \<times> fsstate" where
  "map_block blockno s =
     (if block_is_mapped blockno s \<noteq> 0 then (0, s)
      else syscall_mem_alloc (disk_addr blockno) (ucast (PTE_V OR PTE_RW OR PTE_USER)) s)"

definition unmap_block :: "u32 \<Rightarrow> fsstate \<Rightarrow> fsstate option" where
  "unmap_block blockno s =
     do { let va = block_is_mapped blockno s;
          free \<leftarrow> block_is_free blockno s;
          s \<leftarrow> (if \<not> free \<and> block_is_dirty blockno s then write_block blockno s else Some s);
          let s = (if va \<noteq> 0 then snd (syscall_mem_unmap va s) else s);
          if block_is_mapped blockno s \<noteq> 0 then None else Some s }"

section \<open>The block bitmap\<close>

definition free_block :: "u32 \<Rightarrow> fsstate \<Rightarrow> fsstate option" where
  "free_block blockno s =
     (if super s = 0 then None
      else
        do { n \<leftarrow> get32 s (s_nblocks (super s));
             if blockno = 0 \<or> blockno \<ge> n then Some s
             else do { w \<leftarrow> get32 s (bitmap s + 4 * of_nat (unat blockno div 32));
                       put32 (bitmap s + 4 * of_nat (unat blockno div 32))
                         (w OR push_bit (unat blockno mod 32) 1) s } })"

text \<open>The loop of \<^verbatim>\<open>alloc_block_num\<close> over the block numbers left.\<close>

fun alloc_scan :: "nat list \<Rightarrow> fsstate \<Rightarrow> (int \<times> fsstate) option" where
  "alloc_scan [] s = Some (- E_NO_DISK, s)"
| "alloc_scan (blockno # bs) s =
     do { w \<leftarrow> get32 s (bitmap s + 4 * of_nat (blockno div 32));
          if w AND push_bit (blockno mod 32) 1 \<noteq> 0
          then do { s \<leftarrow> put32 (bitmap s + 4 * of_nat (blockno div 32))
                           (w AND NOT (push_bit (blockno mod 32) 1)) s;
                    s \<leftarrow> write_block (of_nat (blockno div BLOCK_SIZE_BIT + 2)) s;
                    Some (int blockno, s) }
          else alloc_scan bs s }"

definition alloc_block_num :: "fsstate \<Rightarrow> (int \<times> fsstate) option" where
  "alloc_block_num s =
     do { n \<leftarrow> get32 s (s_nblocks (super s)); alloc_scan [3..<unat n] s }"

definition alloc_block :: "fsstate \<Rightarrow> (int \<times> fsstate) option" where
  "alloc_block s =
     do { (bno, s) \<leftarrow> alloc_block_num s;
          if bno < 0 then Some (bno, s)
          else
            (let (r, s) = map_block (of_int bno) s in
             if r < 0 then do { s \<leftarrow> free_block (of_int bno) s; Some (r, s) }
             else Some (bno, s)) }"

section \<open>Start-up\<close>

definition read_super :: "fsstate \<Rightarrow> fsstate option" where
  "read_super s =
     do { (r, s) \<leftarrow> read_block 1 s;
          (case r of
             Inl _ \<Rightarrow> None
           | Inr (blk, _) \<Rightarrow>
               do { let s = s\<lparr>super := blk\<rparr>;
                    magic \<leftarrow> get32 s (s_magic (super s));
                    n \<leftarrow> get32 s (s_nblocks (super s));
                    if magic \<noteq> FS_MAGIC then None
                    else if unat n > DISKMAX div BLOCK_SIZE then None
                    else Some s }) }"

text \<open>The results of \<^verbatim>\<open>read_block\<close> are ignored in the loop over the bitmap blocks.\<close>

definition read_bitmap :: "fsstate \<Rightarrow> fsstate option" where
  "read_bitmap s =
     do { n \<leftarrow> get32 s (s_nblocks (super s));
          let nbitmap = unat n div BLOCK_SIZE_BIT + 1;
          s \<leftarrow> for_each [0..<nbitmap] (\<lambda>i s. map_option snd (read_block (of_nat (i + 2)) s)) s;
          let s = s\<lparr>bitmap := disk_addr 2\<rparr>;
          for_each ([0, 1] @ map (\<lambda>i. i + 2) [0..<nbitmap])
            (\<lambda>i s. do { free \<leftarrow> block_is_free (of_nat i) s; user_assert (\<not> free); Some s }) s }"

text \<open>\<^verbatim>\<open>memcpy\<close> and \<^verbatim>\<open>strcpy\<close> in the server's memory, within a page.\<close>

definition umemcpy :: "u64 \<Rightarrow> u64 \<Rightarrow> nat \<Rightarrow> fsstate \<Rightarrow> fsstate option" where
  "umemcpy d a n s =
     (if mapped s d \<and> mapped s a then Some (set_dirty d (s\<lparr>umem := memcpy (umem s) d a n\<rparr>)) else None)"

fun put_bytes :: "memory \<Rightarrow> u64 \<Rightarrow> u8 list \<Rightarrow> memory" where
  "put_bytes m a [] = m"
| "put_bytes m a (x # xs) = put_bytes (m(a := x)) (a + 1) xs"

definition ustrcpy :: "u64 \<Rightarrow> u8 list \<Rightarrow> fsstate \<Rightarrow> fsstate option" where
  "ustrcpy d xs s =
     (if mapped s d then Some (set_dirty d (s\<lparr>umem := put_bytes (umem s) d (xs @ [0])\<rparr>)) else None)"

text \<open>Whether \<^verbatim>\<open>strcmp\<close> of the string at \<open>a\<close> with the bytes \<open>xs\<close> is 0.\<close>

fun str_eq :: "memory \<Rightarrow> u64 \<Rightarrow> u8 list \<Rightarrow> bool" where
  "str_eq m a [] \<longleftrightarrow> m a = 0"
| "str_eq m a (x # xs) \<longleftrightarrow> m a = x \<and> str_eq m (a + 1) xs"

definition smash_text :: "u8 list" where "smash_text = [79, 79, 80, 83, 33, 10]"

definition check_write_block :: "fsstate \<Rightarrow> fsstate option" where
  "check_write_block s =
     do { let s = s\<lparr>super := 0\<rparr>;
          (r, s) \<leftarrow> read_block 0 s;
          user_assert (\<not> isl r);
          s \<leftarrow> umemcpy (disk_addr 0) (disk_addr 1) BLOCK_SIZE s;
          s \<leftarrow> ustrcpy (disk_addr 1) smash_text s;
          s \<leftarrow> write_block 1 s;
          user_assert (block_is_mapped 1 s \<noteq> 0);
          let (u, s) = syscall_mem_unmap (disk_addr 1) s;
          user_assert (u = 0);
          user_assert (block_is_mapped 1 s = 0);
          (r, s) \<leftarrow> read_block 1 s;
          user_assert (\<not> isl r);
          user_assert (str_eq (umem s) (disk_addr 1) smash_text);
          s \<leftarrow> umemcpy (disk_addr 1) (disk_addr 0) BLOCK_SIZE s;
          s \<leftarrow> write_block 1 s;
          Some (s\<lparr>super := disk_addr 1\<rparr>) }"

definition fs_init :: "fsstate \<Rightarrow> fsstate option" where
  "fs_init s = do { s \<leftarrow> read_super s; s \<leftarrow> check_write_block s; read_bitmap s }"

section \<open>Blocks of a file\<close>

text \<open>An error code, or the address of the slot that holds the block number.\<close>

definition file_block_walk :: "u64 \<Rightarrow> nat \<Rightarrow> bool \<Rightarrow> fsstate \<Rightarrow> ((int + u64) \<times> fsstate) option" where
  "file_block_walk f filebno alloc' s =
     (if filebno < NDIRECT then Some (Inr (f_direct f filebno), s)
      else if filebno < NINDIRECT then
        do { ind \<leftarrow> get32 s (f_indirect f);
             (err, s) \<leftarrow>
               (if ind = 0
                then (if \<not> alloc' then Some (- E_NOT_FOUND, s)
                      else do { (r, s) \<leftarrow> alloc_block s;
                                if r < 0 then Some (r, s)
                                else do { s \<leftarrow> put32 (f_indirect f) (of_int r) s; Some (0, s) } })
                else Some (0, s));
             if err < 0 then Some (Inl err, s)
             else
               do { ind \<leftarrow> get32 s (f_indirect f);
                    (r, s) \<leftarrow> read_block ind s;
                    (case r of
                       Inl e \<Rightarrow> Some (Inl e, s)
                     | Inr (blk, _) \<Rightarrow> Some (Inr (blk + 4 * of_nat filebno), s)) } }
      else Some (Inl (- E_INVAL), s))"

definition file_map_block :: "u64 \<Rightarrow> nat \<Rightarrow> bool \<Rightarrow> fsstate \<Rightarrow> ((int + u32) \<times> fsstate) option" where
  "file_map_block f filebno alloc' s =
     do { (w, s) \<leftarrow> file_block_walk f filebno alloc' s;
          (case w of
             Inl e \<Rightarrow> Some (Inl e, s)
           | Inr ptr \<Rightarrow>
               do { b \<leftarrow> get32 s ptr;
                    (err, s) \<leftarrow>
                      (if b = 0
                       then (if \<not> alloc' then Some (- E_NOT_FOUND, s)
                             else do { (r, s) \<leftarrow> alloc_block s;
                                       if r < 0 then Some (r, s)
                                       else do { s \<leftarrow> put32 ptr (of_int r) s; Some (0, s) } })
                       else Some (0, s));
                    if err < 0 then Some (Inl err, s)
                    else do { b \<leftarrow> get32 s ptr; Some (Inr b, s) } }) }"

definition file_clear_block :: "u64 \<Rightarrow> nat \<Rightarrow> fsstate \<Rightarrow> (int \<times> fsstate) option" where
  "file_clear_block f filebno s =
     do { (w, s) \<leftarrow> file_block_walk f filebno False s;
          (case w of
             Inl e \<Rightarrow> Some (e, s)
           | Inr ptr \<Rightarrow>
               do { b \<leftarrow> get32 s ptr;
                    s \<leftarrow> (if b \<noteq> 0 then do { s \<leftarrow> free_block b s; put32 ptr 0 s } else Some s);
                    Some (0, s) }) }"

text \<open>An error code, or the address of the block in the cache.\<close>

definition file_get_block :: "u64 \<Rightarrow> nat \<Rightarrow> fsstate \<Rightarrow> ((int + u64) \<times> fsstate) option" where
  "file_get_block f filebno s =
     do { (m, s) \<leftarrow> file_map_block f filebno True s;
          (case m of
             Inl e \<Rightarrow> Some (Inl e, s)
           | Inr diskbno \<Rightarrow>
               do { (r, s) \<leftarrow> read_block diskbno s;
                    (case r of
                       Inl e \<Rightarrow> Some (Inl e, s)
                     | Inr (blk, _) \<Rightarrow> Some (Inr blk, s)) }) }"

definition file_dirty :: "u64 \<Rightarrow> u32 \<Rightarrow> fsstate \<Rightarrow> (int \<times> fsstate) option" where
  "file_dirty f offset s =
     do { (m, s) \<leftarrow> file_map_block f (unat offset div BLOCK_SIZE) False s;
          (case m of
             Inl e \<Rightarrow> Some (e, s)
           | Inr diskbno \<Rightarrow> Some (dirty_block diskbno s)) }"

section \<open>Directories\<close>

text \<open>The loop over the entries of a directory block: the entry with the given name.\<close>

fun find_entry :: "nat list \<Rightarrow> u64 \<Rightarrow> u8 list \<Rightarrow> fsstate \<Rightarrow> u64 option option" where
  "find_entry [] files name s = Some None"
| "find_entry (j # js) files name s =
     do { let f = files + of_nat (FILE_STRUCT_SIZE * j);
          c \<leftarrow> uload 1 s (f_name f);
          if c \<noteq> 0 \<and> str_eq (umem s) (f_name f) name then Some (Some f)
          else find_entry js files name s }"

fun dir_lookup_blocks :: "nat list \<Rightarrow> u64 \<Rightarrow> u8 list \<Rightarrow> fsstate \<Rightarrow> ((int + u64) \<times> fsstate) option" where
  "dir_lookup_blocks [] dir name s = Some (Inl (- E_NOT_FOUND), s)"
| "dir_lookup_blocks (i # is) dir name s =
     do { (r, s) \<leftarrow> file_get_block dir i s;
          (case r of
             Inl e \<Rightarrow> Some (Inl e, s)
           | Inr blk \<Rightarrow>
               do { o' \<leftarrow> find_entry [0..<FILE2BLK] blk name s;
                    (case o' of
                       Some f \<Rightarrow> do { s \<leftarrow> ustore 8 (f_dir f) dir s; Some (Inr f, s) }
                     | None \<Rightarrow> dir_lookup_blocks is dir name s) }) }"

definition dir_lookup :: "u64 \<Rightarrow> u8 list \<Rightarrow> fsstate \<Rightarrow> ((int + u64) \<times> fsstate) option" where
  "dir_lookup dir name s =
     do { sz \<leftarrow> get32 s (f_size dir);
          dir_lookup_blocks [0..<unat sz div BLOCK_SIZE] dir name s }"

fun find_free_entry :: "nat list \<Rightarrow> u64 \<Rightarrow> fsstate \<Rightarrow> u64 option option" where
  "find_free_entry [] files s = Some None"
| "find_free_entry (j # js) files s =
     do { let f = files + of_nat (FILE_STRUCT_SIZE * j);
          c \<leftarrow> uload 1 s (f_name f);
          if c = 0 then Some (Some f) else find_free_entry js files s }"

fun dir_alloc_blocks :: "nat list \<Rightarrow> u64 \<Rightarrow> fsstate \<Rightarrow> ((int + u64 option) \<times> fsstate) option" where
  "dir_alloc_blocks [] dir s = Some (Inr None, s)"
| "dir_alloc_blocks (i # is) dir s =
     do { (r, s) \<leftarrow> file_get_block dir i s;
          (case r of
             Inl e \<Rightarrow> Some (Inl e, s)
           | Inr blk \<Rightarrow>
               do { o' \<leftarrow> find_free_entry [0..<FILE2BLK] blk s;
                    (case o' of
                       Some f \<Rightarrow> Some (Inr (Some f), s)
                     | None \<Rightarrow> dir_alloc_blocks is dir s) }) }"

definition dir_alloc_file :: "u64 \<Rightarrow> fsstate \<Rightarrow> ((int + u64) \<times> fsstate) option" where
  "dir_alloc_file dir s =
     do { sz \<leftarrow> get32 s (f_size dir);
          let nblock = unat sz div BLOCK_SIZE;
          (r, s) \<leftarrow> dir_alloc_blocks [0..<nblock] dir s;
          (case r of
             Inl e \<Rightarrow> Some (Inl e, s)
           | Inr (Some f) \<Rightarrow> Some (Inr f, s)
           | Inr None \<Rightarrow>
               do { sz \<leftarrow> get32 s (f_size dir);
                    s \<leftarrow> put32 (f_size dir) (sz + of_nat BLOCK_SIZE) s;
                    file_get_block dir nblock s }) }"

section \<open>Paths\<close>

definition slash :: u8 where "slash = 47"

fun skip_slash :: "u8 list \<Rightarrow> u8 list" where
  "skip_slash [] = []"
| "skip_slash (c # cs) = (if c = slash then skip_slash cs else c # cs)"

text \<open>\<^verbatim>\<open>while (*path != '/' && *path != '\0')\<close>: the bytes passed, and the rest.\<close>

fun next_component :: "u8 list \<Rightarrow> u8 list \<times> u8 list" where
  "next_component [] = ([], [])"
| "next_component (c # cs) =
     (if c = slash then ([], c # cs) else (let (n, r) = next_component cs in (c # n, r)))"

lemma length_skip_slash: "length (skip_slash p) \<le> length p"
  by (induction p) auto

lemma length_next_component: "length (fst (next_component p)) + length (snd (next_component p)) = length p"
  by (induction p) (auto simp: split_beta)

lemma walk_decreases:
  assumes "pth \<noteq> []"
  shows "length (skip_slash (snd (next_component pth))) < length pth"
proof (cases pth)
  case (Cons c cs)
  have "length (skip_slash (snd (next_component cs))) \<le> length cs"
    using length_skip_slash [of "snd (next_component cs)"] length_next_component [of cs] by linarith
  with Cons show ?thesis
    using length_skip_slash [of cs] by (auto simp: split_beta)
qed (use assms in simp)

text \<open>The return value, \<^verbatim>\<open>*pdir\<close>, \<^verbatim>\<open>*pfile\<close>, and \<^verbatim>\<open>lastelem\<close> where it was written.\<close>

type_synonym walk_result = "int \<times> u64 \<times> u64 \<times> u8 list option"

text \<open>The loop of \<^verbatim>\<open>walk_path\<close>; each round consumes at least one byte of the path.\<close>

function walk_loop :: "u8 list \<Rightarrow> u64 \<Rightarrow> u64 \<Rightarrow> fsstate \<Rightarrow> (walk_result \<times> fsstate) option" where
  "walk_loop pth dir file s =
     (if pth = [] then Some ((0, dir, file, None), s)
      else
        (let dir = file; name = fst (next_component pth); rest = skip_slash (snd (next_component pth)) in
         if length name \<ge> MAXNAMELEN then Some ((- E_BAD_PATH, 0, 0, None), s)
         else
           do { t \<leftarrow> get32 s (f_type dir);
                if t \<noteq> FTYPE_DIR then Some ((- E_NOT_FOUND, 0, 0, None), s)
                else
                  do { (r, s) \<leftarrow> dir_lookup dir name s;
                       (case r of
                          Inl e \<Rightarrow>
                            Some (if e = - E_NOT_FOUND \<and> rest = [] then (e, dir, 0, Some name)
                                  else (e, 0, 0, None), s)
                        | Inr file \<Rightarrow> walk_loop rest dir file s) } }))"
  by auto
termination
  by (relation "measure (length o fst)") (auto simp: walk_decreases)

declare walk_loop.simps [simp del]

definition walk_path :: "u8 list \<Rightarrow> fsstate \<Rightarrow> (walk_result \<times> fsstate) option" where
  "walk_path pth s = walk_loop (skip_slash pth) 0 (s_root (super s)) s"

text \<open>The return value and \<^verbatim>\<open>*file\<close>.\<close>

definition file_open :: "u8 list \<Rightarrow> fsstate \<Rightarrow> ((int \<times> u64) \<times> fsstate) option" where
  "file_open pth s = do { ((r, _, file, _), s) \<leftarrow> walk_path pth s; Some ((r, file), s) }"

text \<open>An error code, or the new file.\<close>

definition file_create :: "u8 list \<Rightarrow> fsstate \<Rightarrow> ((int + u64) \<times> fsstate) option" where
  "file_create pth s =
     do { ((r, dir, _, lastelem), s) \<leftarrow> walk_path pth s;
          if r = 0 then Some (Inl (- E_FILE_EXISTS), s)
          else if r \<noteq> - E_NOT_FOUND \<or> dir = 0 then Some (Inl r, s)
          else
            do { name \<leftarrow> lastelem;
                 (a, s) \<leftarrow> dir_alloc_file dir s;
                 (case a of
                    Inl _ \<Rightarrow> Some (Inl r, s)
                  | Inr f \<Rightarrow> do { s \<leftarrow> ustrcpy (f_name f) name s; Some (Inr f, s) }) } }"

section \<open>Sizes and write-back\<close>

text \<open>\<^verbatim>\<open>panic_on(file_clear_block(f, bno))\<close>\<close>

definition clear_or_panic :: "u64 \<Rightarrow> nat \<Rightarrow> fsstate \<Rightarrow> fsstate option" where
  "clear_or_panic f bno s = do { (r, s) \<leftarrow> file_clear_block f bno s; user_assert (r = 0); Some s }"

definition nblocks_of :: "u32 \<Rightarrow> nat" where
  "nblocks_of sz = unat (ROUND (ucast sz) (of_nat BLOCK_SIZE)) div BLOCK_SIZE"

definition file_truncate :: "u64 \<Rightarrow> u32 \<Rightarrow> fsstate \<Rightarrow> fsstate option" where
  "file_truncate f newsize s =
     do { sz \<leftarrow> get32 s (f_size f);
          let old_nblocks = nblocks_of sz;
          let new_nblocks = (if newsize = 0 then 0 else nblocks_of newsize);
          s \<leftarrow> for_each [new_nblocks..<old_nblocks] (clear_or_panic f) s;
          s \<leftarrow> (if new_nblocks \<le> NDIRECT
                then do { ind \<leftarrow> get32 s (f_indirect f);
                          if ind \<noteq> 0 then do { s \<leftarrow> free_block ind s; put32 (f_indirect f) 0 s }
                          else Some s }
                else Some s);
          put32 (f_size f) newsize s }"

text \<open>One round of the loop of \<^verbatim>\<open>file_flush\<close>; a block that cannot be found is skipped.\<close>

definition flush_block :: "u64 \<Rightarrow> nat \<Rightarrow> fsstate \<Rightarrow> fsstate option" where
  "flush_block f bno s =
     do { (m, s) \<leftarrow> file_map_block f bno False s;
          (case m of
             Inl _ \<Rightarrow> Some s
           | Inr diskbno \<Rightarrow> if block_is_dirty diskbno s then write_block diskbno s else Some s) }"

definition file_flush :: "u64 \<Rightarrow> fsstate \<Rightarrow> fsstate option" where
  "file_flush f s =
     do { sz \<leftarrow> get32 s (f_size f); for_each [0..<nblocks_of sz] (flush_block f) s }"

definition file_set_size :: "u64 \<Rightarrow> u32 \<Rightarrow> fsstate \<Rightarrow> fsstate option" where
  "file_set_size f newsize s =
     do { sz \<leftarrow> get32 s (f_size f);
          s \<leftarrow> (if sz > newsize then file_truncate f newsize s else Some s);
          s \<leftarrow> put32 (f_size f) newsize s;
          dir \<leftarrow> uload 8 s (f_dir f);
          if dir \<noteq> 0 then file_flush dir s else Some s }"

definition fs_sync :: "fsstate \<Rightarrow> fsstate option" where
  "fs_sync s =
     do { n \<leftarrow> get32 s (s_nblocks (super s));
          for_each [0..<unat n]
            (\<lambda>i s. if block_is_dirty (of_nat i) s then write_block (of_nat i) s else Some s) s }"

text \<open>The search of \<^verbatim>\<open>file_close\<close> for the directory block that holds the file.\<close>

fun close_scan :: "nat list \<Rightarrow> u64 \<Rightarrow> fsstate \<Rightarrow> fsstate option" where
  "close_scan [] f s = Some s"
| "close_scan (i # is) f s =
     do { dir \<leftarrow> uload 8 s (f_dir f);
          (m, s) \<leftarrow> file_map_block dir i False s;
          (case m of
             Inl _ \<Rightarrow> Some s
           | Inr diskbno \<Rightarrow>
               do { (r, s) \<leftarrow> read_block diskbno s;
                    (case r of
                       Inl _ \<Rightarrow> Some s
                     | Inr (files, _) \<Rightarrow>
                         if files \<le> f \<and> f < files + of_nat (FILE2BLK * FILE_STRUCT_SIZE)
                         then Some (snd (dirty_block diskbno s))
                         else close_scan is f s) }) }"

definition file_close :: "u64 \<Rightarrow> fsstate \<Rightarrow> fsstate option" where
  "file_close f s =
     do { s \<leftarrow> file_flush f s;
          dir \<leftarrow> uload 8 s (f_dir f);
          if dir = 0 then Some s
          else
            do { sz \<leftarrow> get32 s (f_size dir);
                 s \<leftarrow> close_scan [0..<unat sz div BLOCK_SIZE] f s;
                 dir \<leftarrow> uload 8 s (f_dir f);
                 file_flush dir s } }"

definition file_remove :: "u8 list \<Rightarrow> fsstate \<Rightarrow> (int \<times> fsstate) option" where
  "file_remove pth s =
     do { ((r, _, f, _), s) \<leftarrow> walk_path pth s;
          if r < 0 then Some (r, s)
          else
            do { s \<leftarrow> file_truncate f 0 s;
                 s \<leftarrow> ustore 1 (f_name f) 0 s;
                 s \<leftarrow> file_flush f s;
                 dir \<leftarrow> uload 8 s (f_dir f);
                 s \<leftarrow> (if dir \<noteq> 0 then file_flush dir s else Some s);
                 Some (0, s) } }"

end
