(* ===== verification/FsBlock.thy ===== *)
theory FsBlock
  imports Fs
begin

text \<open>
  The block layer of the file-system server: where the cached blocks lie, what the sector loops
  transfer, and the invariant \<open>fs_ok\<close> of a mounted disk under which the bitmap operations and
  \<^verbatim>\<open>read_block\<close> have closed forms.
\<close>

named_theorems fsconst "the file-system constants and field offsets, unfolded"

lemmas [fsconst] = BLOCK_SIZE_def BLOCK_SIZE_BIT_def SECT2BLK_def SECTOR_SIZE_def DISKMAP_def
  DISKMAX_def MAXNAMELEN_def NDIRECT_def NINDIRECT_def FILE_STRUCT_SIZE_def FILE2BLK_def
  FTYPE_REG_def FTYPE_DIR_def FS_MAGIC_def f_name_def f_size_def f_type_def f_direct_def
  f_indirect_def f_dir_def s_magic_def s_nblocks_def s_root_def

section \<open>Addresses\<close>

text \<open>The cache holds blocks below \<^verbatim>\<open>DISKMAX / BLOCK_SIZE\<close>.\<close>

abbreviation max_blocks :: nat where "max_blocks \<equiv> 262144"

lemma unat_disk_addr:
  assumes "unat b < max_blocks"
  shows "unat (disk_addr b) = 0x10000000 + 4096 * unat b"
proof -
  have "unat (b * 4096) = unat b * 4096"
    using assms by (subst unat_mult_lem [THEN iffD1]) simp_all
  moreover have "unat (0x10000000 + b * 4096) = unat (0x10000000 :: u32) + unat (b * 4096)"
    by (rule unat_add_lem [THEN iffD1]) (use assms calculation in simp)
  ultimately show ?thesis using assms by (simp add: disk_addr_def fsconst unsigned_ucast_eq take_bit_nat_eq_self)
qed

lemma unat_disk_addr_off:
  assumes "unat b < max_blocks" "n \<le> 4096 * 262144"
  shows "unat (disk_addr b + of_nat n) = 0x10000000 + 4096 * unat b + n"
proof -
  have "unat (disk_addr b + of_nat n) = unat (disk_addr b) + unat (of_nat n :: u64)"
    by (rule unat_add_lem [THEN iffD1]) (use assms unat_disk_addr [OF assms(1)] in simp)
  then show ?thesis using assms by (simp add: unat_disk_addr)
qed

lemma unat_uvpn: "unat (uvpn a) = unat a div 4096"
  by (simp add: uvpn_def drop_bit_eq_div unat_div)

lemma uvpn_eq_iff: "uvpn a = uvpn a' \<longleftrightarrow> unat a div 4096 = unat a' div 4096"
  by (metis unat_uvpn word_unat_eq_iff)

lemma uvpn_disk_addr:
  assumes "unat b < max_blocks" "n < 4096"
  shows "uvpn (disk_addr b + of_nat n) = uvpn (disk_addr b)"
  using assms by (simp add: uvpn_eq_iff unat_disk_addr unat_disk_addr_off)

lemma uvpn_disk_addr_inject:
  assumes "unat b < max_blocks" "unat c < max_blocks"
  shows "uvpn (disk_addr b) = uvpn (disk_addr c) \<longleftrightarrow> b = c"
  unfolding uvpn_eq_iff using assms by (simp add: unat_disk_addr word_unat_eq_iff)

lemma legal_disk_addr: "unat b < max_blocks \<Longrightarrow> \<not> is_illegal_va (disk_addr b)"
  by (simp add: is_illegal_va_def word_less_nat_alt word_le_nat_alt unat_disk_addr layout)

lemma disk_addr_nonzero: "unat b < max_blocks \<Longrightarrow> disk_addr b \<noteq> 0"
  by (simp add: unat_gt_0 [symmetric] unat_disk_addr)

lemma unat_diff_word:
  fixes a x :: u64
  shows "unat a \<le> unat x \<Longrightarrow> unat (x - a) = unat x - unat a"
  by (simp add: unat_sub word_le_nat_alt)

lemma unat_diff_word_wrap:
  fixes a x :: u64
  shows "unat x < unat a \<Longrightarrow> unat (x - a) = 2 ^ 64 + unat x - unat a"
  using unat_sub_of_nat_wrap [of x 0 "unat a"] by simp

text \<open>A value stored clear of the bytes a load reads.\<close>

lemma load_store_apart:
  assumes "unat a + k \<le> unat x \<or> unat x + n \<le> unat a" "unat x + n \<le> 2 ^ 64" "unat a + k \<le> 2 ^ 64" "k < 2 ^ 64"
  shows "load_le n (store_le k m a v) x = load_le n m x"
proof (rule load_le_cong)
  fix i assume i: "i < n"
  have u: "unat (x + of_nat i) = unat x + i"
    using i assms(2) by (subst unat_add_lem [THEN iffD1]) simp_all
  have "\<not> unat (x + of_nat i - a) < k"
  proof (cases "unat a \<le> unat x + i")
    case True
    then show ?thesis using assms i u by (simp add: unat_diff_word)
  next
    case False
    then show ?thesis using assms i u by (simp add: unat_diff_word_wrap)
  qed
  then show "store_le k m a v (x + of_nat i) = m (x + of_nat i)"
    using assms(4) by (simp add: store_le_apply)
qed

section \<open>Transfers\<close>

lemma blit_0 [simp]: "blit m d m' a 0 = m"
  by (simp add: blit_def)

lemma blit_add:
  assumes "n + k < 2 ^ 64"
  shows "blit (blit m d m' a n) (d + of_nat n) m' (a + of_nat n) k = blit m d m' a (n + k)"
proof
  fix x
  show "blit (blit m d m' a n) (d + of_nat n) m' (a + of_nat n) k x = blit m d m' a (n + k) x"
  proof (cases "unat (x - d) < n")
    case True
    then have "\<not> unat (x - (d + of_nat n)) < k"
      using assms by (simp add: unat_sub_of_nat_wrap)
    with True show ?thesis by (simp add: blit_def)
  next
    case False
    then have "unat (x - (d + of_nat n)) < k \<longleftrightarrow> unat (x - d) < n + k"
      by (auto simp: unat_sub_of_nat)
    moreover have "a + of_nat n + (x - (d + of_nat n)) = a + (x - d)" by simp
    ultimately show ?thesis using False by (simp add: blit_def)
  qed
qed

lemma set_dirty_simps [simp]:
  "umem (set_dirty va s) = umem s" "disk (set_dirty va s) = disk s" "super (set_dirty va s) = super s"
  "bitmap (set_dirty va s) = bitmap s" "grants (set_dirty va s) = grants s"
  "mapped (set_dirty va s) a = mapped s a"
  by (auto simp: set_dirty_def mapped_def)

lemma mapped_updates [simp]:
  "mapped (s\<lparr>umem := m\<rparr>) a = mapped s a" "mapped (s\<lparr>disk := d\<rparr>) a = mapped s a"
  "mapped (s\<lparr>super := u\<rparr>) a = mapped s a" "mapped (s\<lparr>bitmap := u\<rparr>) a = mapped s a"
  "mapped (s\<lparr>grants := g\<rparr>) a = mapped s a"
  by (simp_all add: mapped_def)

lemma set_dirty_again:
  assumes "uvpn a = uvpn b"
  shows "set_dirty a ((set_dirty b s)\<lparr>umem := m\<rparr>) = set_dirty b (s\<lparr>umem := m\<rparr>)"
proof -
  have "map_option (\<lambda>fl. fl OR PTE_DIRTY) (map_option (\<lambda>fl. fl OR PTE_DIRTY) x) = map_option (\<lambda>fl. fl OR PTE_DIRTY) x" for x
    by (cases x) (simp_all add: or.assoc)
  then show ?thesis using assms by (simp add: set_dirty_def)
qed

lemma sector_next:
  fixes c :: u32
  assumes "unat c + Suc n < 2 ^ 32"
  shows "c < c + of_nat (Suc n)" "unat (c + 1) = unat c + 1"
    "(ucast (c + 1) :: u64) * 512 = ucast c * 512 + 512"
proof -
  have un: "unat (of_nat (Suc n) :: u32) = Suc n"
    using assms by (simp add: unsigned_of_nat take_bit_nat_eq_self del: of_nat_Suc)
  have "unat (c + of_nat (Suc n)) = unat c + Suc n"
    using assms un by (subst unat_add_lem [THEN iffD1]) (simp_all del: of_nat_Suc)
  then show "c < c + of_nat (Suc n)" by (simp add: word_less_nat_alt del: of_nat_Suc)
  show c1: "unat (c + 1) = unat c + 1"
    using assms by (subst unat_add_lem [THEN iffD1]) simp_all
  have "(ucast (c + 1) :: u64) = ucast c + 1"
    by (rule word_unat_eq_iff [THEN iffD2])
       (use c1 assms in \<open>simp add: unsigned_ucast_eq take_bit_nat_eq_self unat_word_ariths\<close>)
  then show "(ucast (c + 1) :: u64) * 512 = ucast c * 512 + 512" by simp
qed

text \<open>\<open>n\<close> sectors into one page, and out of it.\<close>

lemma sector_loop_read:
  assumes "mapped s va" "\<And>i. i < 512 * n \<Longrightarrow> uvpn (va + of_nat i) = uvpn va" "unat c + n < 2 ^ 32" "n \<le> 8"
  shows "sector_loop virtio_read_sector c (c + of_nat n) va s =
    Some (if n = 0 then s else set_dirty va (s\<lparr>umem := blit (umem s) va (disk s) (ucast c * 512) (512 * n)\<rparr>))"
  using assms
proof (induction n arbitrary: c va s)
  case (Suc n)
  let ?s = "set_dirty va (s\<lparr>umem := blit (umem s) va (disk s) (ucast c * 512) 512\<rparr>)"
  note nxt = sector_next [OF Suc.prems(3)]
  have step: "sector_loop virtio_read_sector c (c + of_nat (Suc n)) va s =
      sector_loop virtio_read_sector (c + 1) (c + 1 + of_nat n) (va + 512) ?s"
    using nxt(1) Suc.prems(1) by (subst sector_loop.simps) (simp add: virtio_read_sector_def fsconst add.assoc)
  show ?case
  proof (cases "n = 0")
    case True
    have "sector_loop virtio_read_sector (c + 1) (c + 1 + of_nat n) (va + 512) ?s = Some ?s"
      by (subst sector_loop.simps) (simp add: True)
    with step True show ?thesis by simp
  next
    case False
    have v: "uvpn (va + 512) = uvpn va" using Suc.prems(2) [of 512] False by simp
    have "sector_loop virtio_read_sector (c + 1) (c + 1 + of_nat n) (va + 512) ?s =
      Some (set_dirty (va + 512) (?s\<lparr>umem := blit (umem ?s) (va + 512) (disk ?s) (ucast (c + 1) * 512) (512 * n)\<rparr>))"
    proof (subst Suc.IH)
      show "mapped ?s (va + 512)" using Suc.prems(1) v by (simp add: mapped_def set_dirty_def)
      show "uvpn (va + 512 + of_nat i) = uvpn (va + 512)" if "i < 512 * n" for i
        using Suc.prems(2) [of "512 + i"] that v by (simp add: add.assoc)
    qed (use nxt(2) Suc.prems False in simp_all)
    also have "blit (umem ?s) (va + 512) (disk ?s) (ucast (c + 1) * 512) (512 * n)
        = blit (umem s) va (disk s) (ucast c * 512) (512 * Suc n)"
      using blit_add [of 512 "512 * n" "umem s" va "disk s" "ucast c * 512"] Suc.prems(4) by (simp add: nxt(3))
    finally show ?thesis using step by (simp add: set_dirty_again [OF v])
  qed
qed (subst sector_loop.simps, simp)

lemma sector_loop_write:
  assumes "mapped s va" "\<And>i. i < 512 * n \<Longrightarrow> uvpn (va + of_nat i) = uvpn va" "unat c + n < 2 ^ 32" "n \<le> 8"
  shows "sector_loop virtio_write_sector c (c + of_nat n) va s =
    Some (s\<lparr>disk := blit (disk s) (ucast c * 512) (umem s) va (512 * n)\<rparr>)"
  using assms
proof (induction n arbitrary: c va s)
  case (Suc n)
  let ?s = "s\<lparr>disk := blit (disk s) (ucast c * 512) (umem s) va 512\<rparr>"
  note nxt = sector_next [OF Suc.prems(3)]
  have step: "sector_loop virtio_write_sector c (c + of_nat (Suc n)) va s =
      sector_loop virtio_write_sector (c + 1) (c + 1 + of_nat n) (va + 512) ?s"
    using nxt(1) Suc.prems(1) by (subst sector_loop.simps) (simp add: virtio_write_sector_def fsconst add.assoc)
  show ?case
  proof (cases "n = 0")
    case True
    have "sector_loop virtio_write_sector (c + 1) (c + 1 + of_nat n) (va + 512) ?s = Some ?s"
      by (subst sector_loop.simps) (simp add: True)
    with step True show ?thesis by simp
  next
    case False
    have v: "uvpn (va + 512) = uvpn va" using Suc.prems(2) [of 512] False by simp
    have "sector_loop virtio_write_sector (c + 1) (c + 1 + of_nat n) (va + 512) ?s =
      Some (?s\<lparr>disk := blit (disk ?s) (ucast (c + 1) * 512) (umem ?s) (va + 512) (512 * n)\<rparr>)"
    proof (subst Suc.IH)
      show "mapped ?s (va + 512)" using Suc.prems(1) v by (simp add: mapped_def)
      show "uvpn (va + 512 + of_nat i) = uvpn (va + 512)" if "i < 512 * n" for i
        using Suc.prems(2) [of "512 + i"] that v by (simp add: add.assoc)
    qed (use nxt(2) Suc.prems False in simp_all)
    also have "blit (disk ?s) (ucast (c + 1) * 512) (umem ?s) (va + 512) (512 * n)
        = blit (disk s) (ucast c * 512) (umem s) va (512 * Suc n)"
      using blit_add [of 512 "512 * n" "disk s" "ucast c * 512" "umem s" va] Suc.prems(4) by (simp add: nxt(3))
    finally show ?thesis using step by simp
  qed
qed (subst sector_loop.simps, simp)

text \<open>Whole blocks: where block \<open>b\<close> lies on the disk, and the two transfers.\<close>

definition disk_off :: "u32 \<Rightarrow> u64" where "disk_off b = ucast b * 4096"

lemma sector_of_block:
  assumes "unat b < max_blocks"
  shows "unat (b * 8) + 8 < 2 ^ 32" "(ucast (b * 8) :: u64) * 512 = disk_off b"
proof -
  have u: "unat (b * 8) = unat b * 8"
    using assms by (subst unat_mult_lem [THEN iffD1]) simp_all
  with assms show "unat (b * 8) + 8 < 2 ^ 32" by simp
  have "(ucast (b * 8) :: u64) = ucast b * 8"
    by (rule word_unat_eq_iff [THEN iffD2])
       (use u assms in \<open>simp add: unsigned_ucast_eq take_bit_nat_eq_self unat_word_ariths\<close>)
  then show "(ucast (b * 8) :: u64) * 512 = disk_off b" by (simp add: disk_off_def)
qed

definition cached :: "fsstate \<Rightarrow> u32 \<Rightarrow> bool" where "cached s b \<longleftrightarrow> mapped s (disk_addr b)"

lemma sector_read_block:
  assumes "unat b < max_blocks" "cached s b"
  shows "sector_read (b * SECT2BLK) (disk_addr b) SECT2BLK s =
    Some (set_dirty (disk_addr b) (s\<lparr>umem := blit (umem s) (disk_addr b) (disk s) (disk_off b) 4096\<rparr>))"
  using sector_loop_read [of s "disk_addr b" 8 "b * 8"] sector_of_block [OF assms(1)] assms
  by (simp add: sector_read_def fsconst cached_def uvpn_disk_addr)

lemma sector_write_block:
  assumes "unat b < max_blocks" "cached s b"
  shows "sector_write (b * SECT2BLK) (disk_addr b) SECT2BLK s =
    Some (s\<lparr>disk := blit (disk s) (disk_off b) (umem s) (disk_addr b) 4096\<rparr>)"
  using sector_loop_write [of s "disk_addr b" 8 "b * 8"] sector_of_block [OF assms(1)] assms
  by (simp add: sector_write_def fsconst cached_def uvpn_disk_addr)

lemma block_is_mapped_iff: "unat b < max_blocks \<Longrightarrow> block_is_mapped b s \<noteq> 0 \<longleftrightarrow> cached s b"
  by (auto simp: block_is_mapped_def va_is_mapped_def cached_def disk_addr_nonzero Let_def)

lemma write_block_eq:
  assumes "unat b < max_blocks" "cached s b"
  shows "write_block b s = Some (s\<lparr>disk := blit (disk s) (disk_off b) (umem s) (disk_addr b) 4096\<rparr>)"
  using assms block_is_mapped_iff [of b s] by (simp add: write_block_def sector_write_block)

section \<open>A mounted disk\<close>

text \<open>
  The number of blocks, the number of bitmap blocks, and whether the bitmap marks a block free.
  The invariant: the super block and the bitmap are cached where the globals point, they are
  in use, and the disk fits the cache.
\<close>

definition nblk :: "fsstate \<Rightarrow> nat" where
  "nblk s = unat (ucast (load_le 4 (umem s) (s_nblocks (disk_addr 1))) :: u32)"

definition nbitmap :: "fsstate \<Rightarrow> nat" where "nbitmap s = nblk s div 32768 + 1"

definition bm_word :: "nat \<Rightarrow> u64" where "bm_word b = disk_addr 2 + 4 * of_nat (b div 32)"

definition is_free :: "fsstate \<Rightarrow> nat \<Rightarrow> bool" where
  "is_free s b \<longleftrightarrow> bit (load_le 4 (umem s) (bm_word b)) (b mod 32)"

definition fs_ok :: "fsstate \<Rightarrow> bool" where
  "fs_ok s \<longleftrightarrow> super s = disk_addr 1 \<and> bitmap s = disk_addr 2 \<and> nblk s \<le> max_blocks
     \<and> nbitmap s + 2 \<le> nblk s
     \<and> (\<forall>b<nbitmap s + 2. \<not> is_free s b) \<and> (\<forall>b<nbitmap s + 2. 0 < b \<longrightarrow> cached s (of_nat b))"

lemma fs_okD:
  assumes "fs_ok s"
  shows "super s = disk_addr 1" "bitmap s = disk_addr 2" "nblk s \<le> max_blocks" "nbitmap s + 2 \<le> nblk s"
    "b < nbitmap s + 2 \<Longrightarrow> \<not> is_free s b" "b < nbitmap s + 2 \<Longrightarrow> 0 < b \<Longrightarrow> cached s (of_nat b)"
    "cached s 1"
proof -
  have "1 < nbitmap s + 2" by simp
  then show "cached s 1" using assms unfolding fs_ok_def by (metis of_nat_1 zero_less_one)
qed (use assms in \<open>auto simp: fs_ok_def\<close>)

lemma unat_bm_word:
  assumes "b < max_blocks"
  shows "unat (bm_word b) = 0x10002000 + 4 * (b div 32)"
  using unat_disk_addr_off [of 2 "4 * (b div 32)"] assms by (simp add: bm_word_def)

lemma uvpn_bm_word:
  assumes "b < max_blocks"
  shows "uvpn (bm_word b) = uvpn (disk_addr (of_nat (b div 32768 + 2)))"
proof -
  have "unat (of_nat (b div 32768 + 2) :: u32) = b div 32768 + 2"
    by (rule unat_of_nat32) (use assms in simp)
  moreover have "(0x10002000 + 4 * (b div 32)) div 4096 = 65538 + b div 32768"
  proof -
    have "(0x10002000 + 4 * x) div 4096 = 65538 + x div 1024" for x :: nat
    proof -
      have "(4 * x + 65538 * 4096) div 4096 = 65538 + (4 * x) div 4096" by (rule div_mult_self1) simp
      moreover have "(4 * x) div 4096 = x div 1024" using div_mult_mult1 [of 4 x 1024] by simp
      ultimately show ?thesis by (simp add: add.commute)
    qed
    moreover have "b div 32 div 1024 = b div 32768" by (simp add: div_mult2_eq [symmetric])
    ultimately show ?thesis by simp
  qed
  ultimately show ?thesis
    unfolding uvpn_eq_iff using assms by (simp add: unat_bm_word unat_disk_addr del: of_nat_add)
qed

lemma unat_nblk_addr: "unat (s_nblocks (disk_addr 1)) = 0x10001004"
  using unat_disk_addr_off [of 1 4] by (simp add: fsconst)

lemma uvpn_nblk_addr: "uvpn (s_nblocks (disk_addr 1)) = uvpn (disk_addr 1)"
  using uvpn_disk_addr [of 1 4] by (simp add: fsconst)

lemma get32_nblk:
  assumes "fs_ok s"
  shows "get32 s (s_nblocks (super s)) = Some (of_nat (nblk s))"
  using fs_okD(7) [OF assms]
  by (simp add: get32_def uload_def mapped_def cached_def uvpn_nblk_addr fs_okD(1) [OF assms] nblk_def)

lemma get32_bm_word:
  assumes "fs_ok s" "b < nblk s"
  shows "get32 s (bitmap s + 4 * of_nat (b div 32)) = Some (ucast (load_le 4 (umem s) (bm_word b)))"
    "mapped s (bm_word b)"
proof -
  have b: "b < max_blocks" using assms(2) fs_okD(3) [OF assms(1)] by simp
  have "b div 32768 + 2 < nbitmap s + 2" using assms(2) div_le_mono [of b "nblk s" 32768] by (simp add: nbitmap_def)
  then have "cached s (of_nat (b div 32768 + 2))" by (rule fs_okD(6) [OF assms(1)]) simp
  then show m: "mapped s (bm_word b)" unfolding mapped_def cached_def uvpn_bm_word [OF b] .
  have "bitmap s + 4 * of_nat (b div 32) = bm_word b"
    by (simp add: fs_okD(2) [OF assms(1)] bm_word_def)
  with m show "get32 s (bitmap s + 4 * of_nat (b div 32)) = Some (ucast (load_le 4 (umem s) (bm_word b)))"
    by (simp add: get32_def uload_def)
qed

lemma and_bit_nonzero: "w AND 2 ^ n = 0 \<longleftrightarrow> \<not> bit w n" for w :: "'a::len word"
proof -
  have "bit (w AND 2 ^ n) i \<longleftrightarrow> i = n \<and> bit w n" for i
    by (auto simp: bit_simps dest: bit_imp_le_length)
  then show ?thesis by (metis bit_eq_iff bit_0_eq bot_apply bot_bool_def)
qed

lemma bit_free: "bit (ucast (load_le 4 (umem s) (bm_word b)) :: u32) (b mod 32) = is_free s b"
  by (simp add: is_free_def bit_simps)

lemma block_is_free_eq:
  assumes "fs_ok s"
  shows "block_is_free b s = Some (unat b < nblk s \<and> is_free s (unat b))"
proof -
  have n: "unat (of_nat (nblk s) :: u32) = nblk s"
    using fs_okD(3) [OF assms] by (simp add: unsigned_of_nat take_bit_nat_eq_self)
  have "super s \<noteq> 0" using fs_okD(1) [OF assms] disk_addr_nonzero [of 1] by simp
  then show ?thesis
    using get32_bm_word(1) [OF assms, of "unat b"]
    by (auto simp: block_is_free_def get32_nblk [OF assms] word_le_nat_alt n and_bit_nonzero bit_free)
qed

section \<open>What stays the same\<close>

definition same_block :: "u32 \<Rightarrow> fsstate \<Rightarrow> fsstate \<Rightarrow> bool" where
  "same_block b s s' \<longleftrightarrow> (\<forall>i<4096. umem s' (disk_addr b + of_nat i) = umem s (disk_addr b + of_nat i))"

lemma load_same_block:
  assumes "same_block b s s'" "n + k \<le> 4096"
  shows "load_le k (umem s') (disk_addr b + of_nat n) = load_le k (umem s) (disk_addr b + of_nat n)"
proof (rule load_le_cong)
  fix i assume "i < k"
  then show "umem s' (disk_addr b + of_nat n + of_nat i) = umem s (disk_addr b + of_nat n + of_nat i)"
    using assms spec [OF assms(1) [unfolded same_block_def], of "n + i"] by (simp add: add.assoc)
qed

lemma same_block_refl [simp]: "same_block b s s"
  by (simp add: same_block_def)

lemma same_block_trans: "same_block b s s' \<Longrightarrow> same_block b s' s'' \<Longrightarrow> same_block b s s''"
  by (simp add: same_block_def)

lemma same_block_umem: "umem s' = umem s \<Longrightarrow> same_block b s s'"
  by (simp add: same_block_def)

lemma same_block_blit:
  assumes "unat b < max_blocks" "unat c < max_blocks" "b \<noteq> c" "umem s' = blit (umem s) (disk_addr b) m a 4096"
  shows "same_block c s s'"
  unfolding same_block_def
proof (intro allI impI)
  fix i :: nat assume i: "i < 4096"
  have bc: "unat b \<noteq> unat c" using assms(3) by (simp add: word_unat_eq_iff)
  have "\<not> unat (disk_addr c + of_nat i - disk_addr b) < 4096"
  proof (cases "unat b < unat c")
    case True
    then show ?thesis using assms i by (subst unat_diff_word) (simp_all add: unat_disk_addr unat_disk_addr_off)
  next
    case False
    then show ?thesis using assms i bc by (subst unat_diff_word_wrap) (simp_all add: unat_disk_addr unat_disk_addr_off)
  qed
  then show "umem s' (disk_addr c + of_nat i) = umem s (disk_addr c + of_nat i)"
    by (simp add: assms(4) blit_def)
qed

lemma fill_bytes_blit: "fill_bytes m d b n = blit m d (\<lambda>_. b) 0 n"
  by (simp add: fill_bytes_def blit_def)

lemma store_byte_apart:
  assumes "unat a + k \<le> unat x \<or> unat x < unat a" "unat a + k \<le> 2 ^ 64" "k < 2 ^ 64"
  shows "store_le k m a v x = m x"
proof -
  have "\<not> unat (x - a) < k"
  proof (cases "unat a \<le> unat x")
    case True
    then show ?thesis using assms by (simp add: unat_diff_word)
  next
    case False
    then show ?thesis using assms by (simp add: unat_diff_word_wrap)
  qed
  then show ?thesis using assms(3) by (simp add: store_le_apply)
qed

lemma same_block_store:
  assumes "unat b < max_blocks" "unat c < max_blocks" "b \<noteq> c" "n + k \<le> 4096"
    "umem s' = store_le k (umem s) (disk_addr b + of_nat n) v"
  shows "same_block c s s'"
  unfolding same_block_def
proof (intro allI impI)
  fix i :: nat assume i: "i < 4096"
  have "unat b < unat c \<or> unat c < unat b" using assms(3) by (simp add: word_unat_eq_iff linorder_neq_iff)
  then show "umem s' (disk_addr c + of_nat i) = umem s (disk_addr c + of_nat i)"
    unfolding assms(5) using assms i
    by (intro store_byte_apart) (auto simp: unat_disk_addr_off)
qed

lemma bm_word_block:
  assumes "b < max_blocks"
  shows "bm_word b = disk_addr (of_nat (b div 32768 + 2)) + of_nat (4 * (b div 32 mod 1024))"
proof (rule word_unat_eq_iff [THEN iffD2])
  have "unat (of_nat (b div 32768 + 2) :: u32) = b div 32768 + 2"
    by (rule unat_of_nat32) (use assms in simp)
  moreover have "b div 32 = b div 32768 * 1024 + b div 32 mod 1024"
  proof -
    have "b div 32 div 1024 = b div 32768" by (simp add: div_mult2_eq [symmetric])
    then show ?thesis using div_mult_mod_eq [of "b div 32" 1024] by simp
  qed
  ultimately show "unat (bm_word b) = unat (disk_addr (of_nat (b div 32768 + 2)) + of_nat (4 * (b div 32 mod 1024)))"
    using assms by (simp add: unat_bm_word unat_disk_addr_off del: of_nat_add of_nat_mult)
qed

text \<open>Changes outside the super block and the bitmap leave the disk mounted as it was.\<close>

lemma fs_ok_frame_nblk:
  assumes "fs_ok s" "super s' = super s" "bitmap s' = bitmap s" "\<And>va. mapped s va \<Longrightarrow> mapped s' va"
    and n: "nblk s' = nblk s"
    and same: "\<And>b. 1 < b \<Longrightarrow> b < nbitmap s + 2 \<Longrightarrow> same_block (of_nat b) s s'"
  shows "fs_ok s'" "b < nblk s \<Longrightarrow> is_free s' b = is_free s b"
proof -
  note ok = fs_okD [OF assms(1)]
  have f: "is_free s' b = is_free s b" if "b < nblk s" for b
  proof -
    have b: "b < max_blocks" using that ok(3) by simp
    have "b div 32768 + 2 < nbitmap s + 2" using that div_le_mono [of b "nblk s" 32768] by (simp add: nbitmap_def)
    then have sb: "same_block (of_nat (b div 32768 + 2)) s s'" by (intro same) simp_all
    have "load_le 4 (umem s') (bm_word b) = load_le 4 (umem s) (bm_word b)"
      unfolding bm_word_block [OF b] by (rule load_same_block [OF sb]) simp
    then show ?thesis by (simp add: is_free_def)
  qed
  then show "is_free s' b = is_free s b" if "b < nblk s" using that .
  show "fs_ok s'"
    unfolding fs_ok_def
  proof (intro conjI allI impI)
    fix b assume "b < nbitmap s' + 2"
    then have b: "b < nbitmap s + 2" by (simp add: n nbitmap_def)
    then show "\<not> is_free s' b" using f [of b] ok(4) ok(5) [OF b] by simp
    show "cached s' (of_nat b)" if "0 < b" using ok(6) [OF b that] assms(4) by (simp add: cached_def)
  qed (use n ok assms(2,3) in \<open>simp_all add: nbitmap_def\<close>)
qed

lemma fs_ok_frame:
  assumes "fs_ok s" "super s' = super s" "bitmap s' = bitmap s" "\<And>va. mapped s va \<Longrightarrow> mapped s' va"
    and same: "\<And>b. 0 < b \<Longrightarrow> b < nbitmap s + 2 \<Longrightarrow> same_block (of_nat b) s s'"
  shows "fs_ok s'" "nblk s' = nblk s" "b < nblk s \<Longrightarrow> is_free s' b = is_free s b"
proof -
  have "load_le 4 (umem s') (s_nblocks (disk_addr 1)) = load_le 4 (umem s) (s_nblocks (disk_addr 1))"
    using load_same_block [OF same [of 1], of 4 4] by (simp add: fsconst)
  then show n: "nblk s' = nblk s" by (simp add: nblk_def)
  note fr = fs_ok_frame_nblk [OF assms(1-4) n]
  show "fs_ok s'" by (rule fr) (use same in auto)
  show "is_free s' b = is_free s b" if "b < nblk s" by (rule fr) (use same that in auto)
qed

section \<open>The bitmap\<close>

text \<open>The state after the bit of block \<open>b\<close> is set (\<open>v\<close>) or cleared in the cached bitmap.\<close>

definition marked :: "bool \<Rightarrow> nat \<Rightarrow> fsstate \<Rightarrow> fsstate" where
  "marked v b s =
     (let w = ucast (load_le 4 (umem s) (bm_word b)) :: u32;
          w' = (if v then w OR 2 ^ (b mod 32) else w AND NOT (2 ^ (b mod 32)))
      in set_dirty (bm_word b) (s\<lparr>umem := store_le 4 (umem s) (bm_word b) (ucast w')\<rparr>))"

lemma marked_simps [simp]:
  "disk (marked v b s) = disk s" "super (marked v b s) = super s" "bitmap (marked v b s) = bitmap s"
  "grants (marked v b s) = grants s" "mapped (marked v b s) a = mapped s a" "cached (marked v b s) c = cached s c"
  by (simp_all add: marked_def Let_def cached_def)

lemma umem_marked: "\<exists>w. umem (marked v b s) = store_le 4 (umem s) (bm_word b) w"
  by (auto simp: marked_def Let_def)

lemma is_free_marked:
  assumes "b < max_blocks" "c < max_blocks"
  shows "is_free (marked v b s) c = (if c = b then v else is_free s c)"
proof (cases "c div 32 = b div 32")
  case True
  then have w: "bm_word c = bm_word b" by (simp add: bm_word_def)
  have cb: "c = b \<longleftrightarrow> c mod 32 = b mod 32" using True by (metis div_mult_mod_eq)
  have "c mod 32 < 32" by simp
  then show ?thesis
    by (auto simp: is_free_def marked_def Let_def w load_le_store_le_same bit_simps cb)
next
  case False
  then have "c div 32 < b div 32 \<or> b div 32 < c div 32" by linarith
  then have "load_le 4 (store_le 4 (umem s) (bm_word b) v') (bm_word c) = load_le 4 (umem s) (bm_word c)" for v'
    using assms by (intro load_store_apart) (auto simp: unat_bm_word)
  then show ?thesis using False by (auto simp: is_free_def marked_def Let_def)
qed

lemma same_block_marked:
  assumes "fs_ok s" "b < nblk s" "unat c < max_blocks" "unat c = 1 \<or> nbitmap s + 2 \<le> unat c"
  shows "same_block c s (marked v b s)"
proof -
  have b: "b < max_blocks" using assms(2) fs_okD(3) [OF assms(1)] by simp
  let ?d = "b div 32768 + 2"
  have u: "unat (of_nat ?d :: u32) = ?d" by (rule unat_of_nat32) (use b in simp)
  have d: "?d < nbitmap s + 2" using assms(2) div_le_mono [of b "nblk s" 32768] by (simp add: nbitmap_def)
  then have ne: "(of_nat ?d :: u32) \<noteq> c" using assms(4) u by auto
  obtain w where w: "umem (marked v b s) = store_le 4 (umem s) (bm_word b) w" using umem_marked by blast
  show ?thesis
    by (rule same_block_store [OF _ assms(3) ne _ w [unfolded bm_word_block [OF b]]]) (use u b in simp_all)
qed

lemma fs_ok_marked:
  assumes "fs_ok s" "b < nblk s" "v \<Longrightarrow> nbitmap s + 2 \<le> b"
  shows "fs_ok (marked v b s)" "nblk (marked v b s) = nblk s"
proof -
  note ok = fs_okD [OF assms(1)]
  have b: "b < max_blocks" using assms(2) ok(3) by simp
  have "same_block 1 s (marked v b s)" by (rule same_block_marked [OF assms(1,2)]) simp_all
  from load_same_block [OF this, of 4 4] show n: "nblk (marked v b s) = nblk s"
    by (simp add: nblk_def fsconst)
  show "fs_ok (marked v b s)"
    unfolding fs_ok_def
  proof (intro conjI allI impI)
    fix c assume "c < nbitmap (marked v b s) + 2"
    then have c: "c < nbitmap s + 2" by (simp add: nbitmap_def n)
    then show "\<not> is_free (marked v b s) c"
      using ok(3,4) ok(5) [OF c] assms(3) b by (auto simp: is_free_marked)
    show "cached (marked v b s) (of_nat c)" if "0 < c" using ok(6) [OF c that] by simp
  qed (use ok n in \<open>simp_all add: nbitmap_def\<close>)
qed

lemma put32_marked:
  assumes "fs_ok s" "b < nblk s"
  shows "put32 (bitmap s + 4 * of_nat (b div 32))
      (ucast (load_le 4 (umem s) (bm_word b)) OR push_bit (b mod 32) 1) s = Some (marked True b s)"
    "put32 (bitmap s + 4 * of_nat (b div 32))
      (ucast (load_le 4 (umem s) (bm_word b)) AND NOT (push_bit (b mod 32) 1)) s = Some (marked False b s)"
proof -
  have "bitmap s + 4 * of_nat (b div 32) = bm_word b"
    by (simp add: fs_okD(2) [OF assms(1)] bm_word_def)
  then show "put32 (bitmap s + 4 * of_nat (b div 32))
      (ucast (load_le 4 (umem s) (bm_word b)) OR push_bit (b mod 32) 1) s = Some (marked True b s)"
    "put32 (bitmap s + 4 * of_nat (b div 32))
      (ucast (load_le 4 (umem s) (bm_word b)) AND NOT (push_bit (b mod 32) 1)) s = Some (marked False b s)"
    using get32_bm_word(2) [OF assms] by (simp_all add: put32_def ustore_def marked_def Let_def)
qed

lemma nblk_word:
  assumes "fs_ok s"
  shows "unat (of_nat (nblk s) :: u32) = nblk s"
  by (rule unat_of_nat32) (use fs_okD(3) [OF assms] in simp)

lemma free_block_eq:
  assumes "fs_ok s"
  shows "free_block b s = Some (if b = 0 \<or> nblk s \<le> unat b then s else marked True (unat b) s)"
proof -
  have "super s \<noteq> 0" using fs_okD(1) [OF assms] disk_addr_nonzero [of 1] by simp
  then show ?thesis
    using get32_bm_word(1) [OF assms, of "unat b"] put32_marked(1) [OF assms, of "unat b"]
    by (auto simp: free_block_def get32_nblk [OF assms] word_le_nat_alt nblk_word [OF assms])
qed

text \<open>Taking block \<open>b\<close>: clear its bit and write the bitmap block that holds it.\<close>

definition taken :: "nat \<Rightarrow> fsstate \<Rightarrow> fsstate" where
  "taken b s =
     (let s = marked False b s; c = of_nat (b div 32768 + 2)
      in s\<lparr>disk := blit (disk s) (disk_off c) (umem s) (disk_addr c) 4096\<rparr>)"

lemma alloc_scan_eq:
  assumes "fs_ok s" "\<forall>b\<in>set bs. b < nblk s"
  shows "alloc_scan bs s = Some (case find (is_free s) bs of None \<Rightarrow> (- E_NO_DISK, s) | Some b \<Rightarrow> (int b, taken b s))"
  using assms(2)
proof (induction bs)
  case (Cons b bs)
  then have b: "b < nblk s" by simp
  note ok = fs_okD [OF assms(1)]
  show ?case
  proof (cases "is_free s b")
    case True
    let ?d = "b div 32768 + 2"
    have bm: "b < max_blocks" using b ok(3) by simp
    have d: "?d < nbitmap s + 2" using b div_le_mono [of b "nblk s" 32768] by (simp add: nbitmap_def)
    have c: "cached (marked False b s) (of_nat ?d)" using ok(6) [OF d] by simp
    have u: "unat (of_nat ?d :: u32) < max_blocks" by (subst unat_of_nat32) (use bm in simp_all)
    have "write_block (of_nat (b div BLOCK_SIZE_BIT + 2)) (marked False b s) = Some (taken b s)"
      using write_block_eq [OF u c] by (simp add: fsconst taken_def Let_def)
    with True b show ?thesis
      using put32_marked(2) [OF assms(1) b] get32_bm_word(1) [OF assms(1) b]
      by (simp add: and_bit_nonzero bit_free)
  next
    case False
    with Cons b show ?thesis
      by (simp add: get32_bm_word(1) [OF assms(1) b] and_bit_nonzero bit_free)
  qed
qed simp

lemma alloc_block_num_eq:
  assumes "fs_ok s"
  shows "alloc_block_num s =
    Some (case find (is_free s) [3..<nblk s] of None \<Rightarrow> (- E_NO_DISK, s) | Some b \<Rightarrow> (int b, taken b s))"
  using alloc_scan_eq [OF assms, of "[3..<nblk s]"]
  by (simp add: alloc_block_num_def get32_nblk [OF assms] nblk_word [OF assms])

section \<open>Reading a block\<close>

definition cache_flags :: u64 where
  "cache_flags = user_perm (ucast (PTE_V OR PTE_RW OR PTE_USER)) OR PTE_V"

text \<open>A fresh zero page for block \<open>b\<close>, and the same page filled from the disk.\<close>

definition mapped_in :: "u32 \<Rightarrow> fsstate \<Rightarrow> fsstate" where
  "mapped_in b s = s\<lparr>umem := fill_bytes (umem s) (disk_addr b) 0 4096,
     upt := (upt s)(uvpn (disk_addr b) \<mapsto> cache_flags), grants := tl (grants s)\<rparr>"

definition loaded :: "u32 \<Rightarrow> fsstate \<Rightarrow> fsstate" where
  "loaded b s = s\<lparr>umem := blit (umem s) (disk_addr b) (disk s) (disk_off b) 4096,
     upt := (upt s)(uvpn (disk_addr b) \<mapsto> cache_flags OR PTE_DIRTY), grants := tl (grants s)\<rparr>"

text \<open>The answer to the next request for memory.\<close>

definition granted :: "fsstate \<Rightarrow> bool" where
  "granted s \<longleftrightarrow> grants s \<noteq> [] \<and> hd (grants s)"

lemma ROUNDDOWN_disk_addr: "unat b < max_blocks \<Longrightarrow> ROUNDDOWN (disk_addr b) PAGE_SIZE = disk_addr b"
proof -
  assume b: "unat b < max_blocks"
  have "unat (disk_addr b AND mask 12) = 0"
    using b by (simp add: unat_mask_eq unat_disk_addr mod_add_eq [symmetric])
  then have "disk_addr b AND mask 12 = 0" by (simp add: unat_eq_zero)
  moreover have "ROUNDDOWN (disk_addr b) PAGE_SIZE = disk_addr b AND NOT (mask 12)"
    by (simp add: ROUNDDOWN_def layout mask_eq_exp_minus_1)
  moreover have "disk_addr b = (disk_addr b AND NOT (mask 12)) OR (disk_addr b AND mask 12)"
    by (simp add: bit.conj_disj_distrib [symmetric])
  ultimately show ?thesis by simp
qed

lemma syscall_mem_alloc_block:
  assumes "unat b < max_blocks"
  shows "syscall_mem_alloc (disk_addr b) (ucast (PTE_V OR PTE_RW OR PTE_USER)) s =
    (if granted s then (0, mapped_in b s) else (- E_NO_MEM, s\<lparr>grants := tl (grants s)\<rparr>))"
  using assms
  by (cases "grants s")
     (auto simp: syscall_mem_alloc_def legal_disk_addr ROUNDDOWN_disk_addr granted_def mapped_in_def cache_flags_def Let_def)

lemma blit_fill: "blit (fill_bytes m d b n) d m' a n = blit m d m' a n"
  by (auto simp: blit_def fill_bytes_def)

lemma read_block_eq:
  assumes "fs_ok s"
  shows "read_block b s =
    (if nblk s \<le> unat b \<or> is_free s (unat b) then None
     else Some (if cached s b then (Inr (disk_addr b, 0), s)
                else if granted s then (Inr (disk_addr b, 1), loaded b s)
                else (Inl (- E_NO_MEM), s\<lparr>grants := tl (grants s)\<rparr>)))"
proof (cases "nblk s \<le> unat b \<or> is_free s (unat b)")
  case True
  have "super s \<noteq> 0" "bitmap s \<noteq> 0" using fs_okD(1,2) [OF assms] disk_addr_nonzero by simp_all
  with True show ?thesis
    by (auto simp: read_block_def get32_nblk [OF assms] nblk_word [OF assms] word_le_nat_alt
        block_is_free_eq [OF assms])
next
  case False
  have b: "unat b < max_blocks" using False fs_okD(3) [OF assms] by simp
  have nz: "super s \<noteq> 0" "bitmap s \<noteq> 0" using fs_okD(1,2) [OF assms] disk_addr_nonzero by simp_all
  have "cached (mapped_in b s) b" by (simp add: mapped_in_def cached_def mapped_def)
  from sector_read_block [OF b this]
  have "sector_read (b * SECT2BLK) (disk_addr b) SECT2BLK (mapped_in b s) = Some (loaded b s)"
    by (simp add: mapped_in_def loaded_def set_dirty_def blit_fill)
  with False nz show ?thesis
    using block_is_mapped_iff [OF b, of s]
    by (auto simp: read_block_def get32_nblk [OF assms] nblk_word [OF assms] word_le_nat_alt
        block_is_free_eq [OF assms] syscall_mem_alloc_block [OF b] errno)
qed

lemma fs_ok_loaded:
  assumes "fs_ok s" "unat b < nblk s" "\<not> cached s b"
  shows "fs_ok (loaded b s)" "nblk (loaded b s) = nblk s" "c < nblk s \<Longrightarrow> is_free (loaded b s) c = is_free s c"
proof -
  have same: "same_block (of_nat c) s (loaded b s)" if "0 < c" "c < nbitmap s + 2" for c
  proof (rule same_block_blit [where b = b and m = "disk s" and a = "disk_off b"])
    have c: "c < max_blocks" using that(2) fs_okD(3,4) [OF assms(1)] by simp
    then show "unat (of_nat c :: u32) < max_blocks" by (subst unat_of_nat32) simp_all
    show "b \<noteq> of_nat c" using fs_okD(6) [OF assms(1) that(2,1)] assms(3) by auto
    show "unat b < max_blocks" using assms(2) fs_okD(3) [OF assms(1)] by simp
  qed (simp add: loaded_def)
  have m: "mapped s va \<Longrightarrow> mapped (loaded b s) va" for va by (auto simp: mapped_def loaded_def)
  have g: "super (loaded b s) = super s" "bitmap (loaded b s) = bitmap s" by (simp_all add: loaded_def)
  note fr = fs_ok_frame [OF assms(1) g m same]
  show "fs_ok (loaded b s)" "nblk (loaded b s) = nblk s" by (rule fr; simp)+
  show "is_free (loaded b s) c = is_free s c" if "c < nblk s" by (rule fr) (use that in simp_all)
qed

section \<open>The disk as the server sees it\<close>

text \<open>
  What a block holds logically: its cached bytes, or its bytes on the disk when it is not cached.
  Reading a block and writing it back leave this view alone.
\<close>

definition lmem :: "fsstate \<Rightarrow> memory" where
  "lmem s = (\<lambda>x. if mapped s x then umem s x else disk s (x - 0x10000000))"

lemma unat_disk_off: "unat b < max_blocks \<Longrightarrow> unat (disk_off b) = 4096 * unat b"
  unfolding disk_off_def
  by (subst unat_mult_lem [THEN iffD1]) (simp_all add: unsigned_ucast_eq take_bit_nat_eq_self)

lemma disk_addr_off: "unat b < max_blocks \<Longrightarrow> disk_addr b = 0x10000000 + disk_off b"
  by (rule word_unat_eq_iff [THEN iffD2])
     (simp add: unat_disk_addr unat_disk_off unat_word_ariths)

text \<open>An address lies in block \<open>b\<close> exactly if it lies on the page of the block.\<close>

lemma in_block_iff:
  assumes "unat b < max_blocks"
  shows "unat (x - disk_addr b) < 4096 \<longleftrightarrow> uvpn x = uvpn (disk_addr b)"
proof (cases "unat (disk_addr b) \<le> unat x")
  case True
  then show ?thesis using assms unfolding uvpn_eq_iff
    by (subst unat_diff_word) (auto simp: unat_disk_addr)
next
  case False
  then show ?thesis using assms unfolding uvpn_eq_iff
    by (subst unat_diff_word_wrap) (auto simp: unat_disk_addr)
qed

lemma lmem_loaded:
  assumes "unat b < max_blocks" "\<not> cached s b"
  shows "lmem (loaded b s) = lmem s"
proof
  fix x
  show "lmem (loaded b s) x = lmem s x"
  proof (cases "uvpn x = uvpn (disk_addr b)")
    case True
    then have "\<not> mapped s x" using assms(2) by (simp add: cached_def mapped_def)
    with True show ?thesis using assms(1) in_block_iff [OF assms(1), of x]
      by (simp add: lmem_def loaded_def mapped_def blit_def disk_addr_off)
  next
    case False
    then show ?thesis using in_block_iff [OF assms(1), of x]
      by (simp add: lmem_def loaded_def mapped_def blit_def)
  qed
qed

lemma lmem_write:
  assumes "unat b < max_blocks" "cached s b"
  shows "lmem (s\<lparr>disk := blit (disk s) (disk_off b) m (disk_addr b) 4096\<rparr>) = lmem s"
proof
  fix x
  have "\<not> unat (x - disk_addr b) < 4096" if "\<not> mapped s x"
    using that assms in_block_iff [OF assms(1), of x] by (auto simp: cached_def mapped_def)
  then show "lmem (s\<lparr>disk := blit (disk s) (disk_off b) m (disk_addr b) 4096\<rparr>) x = lmem s x"
    using assms(1) by (simp add: lmem_def blit_def disk_addr_off diff_diff_eq)
qed

lemma lmem_mapped_in:
  assumes "unat b < max_blocks"
  shows "lmem (mapped_in b s) = fill_bytes (lmem s) (disk_addr b) 0 4096"
proof
  fix x
  show "lmem (mapped_in b s) x = fill_bytes (lmem s) (disk_addr b) 0 4096 x"
    using in_block_iff [OF assms, of x] by (auto simp: lmem_def mapped_in_def mapped_def fill_bytes_def)
qed

lemma lmem_set_dirty [simp]: "lmem (set_dirty a s) = lmem s"
  by (rule ext) (simp add: lmem_def)

lemma lmem_grants [simp]: "lmem (s\<lparr>grants := g\<rparr>) = lmem s"
  by (rule ext) (simp add: lmem_def)

lemma div_within: "a mod k + d < k \<Longrightarrow> (a + d) div k = a div k" for a d k :: nat
proof -
  assume lt: "a mod k + d < k"
  have e: "k * (a div k) + a mod k = a" by simp
  show ?thesis
  proof (rule div_nat_eqI)
    show "k * (a div k) \<le> a + d" using e by linarith
    show "a + d < k * Suc (a div k)" using e lt by (simp only: mult_Suc_right)
  qed
qed

text \<open>A store within a mapped page.\<close>

lemma lmem_store:
  assumes "mapped s a" "unat a mod 4096 + n \<le> 4096" "n \<le> 8"
  shows "lmem (s\<lparr>umem := store_le n (umem s) a v\<rparr>) = store_le n (lmem s) a v"
proof
  fix x
  have "mapped s x" if "unat (x - a) < n"
  proof -
    have le: "unat a \<le> unat x"
    proof (rule ccontr)
      assume "\<not> unat a \<le> unat x"
      then have "unat (x - a) = 2 ^ 64 + unat x - unat a" by (simp add: unat_diff_word_wrap)
      moreover have "unat a mod 4096 + n \<le> 4096" "unat a < 2 ^ 64" using assms(2) by simp_all
      moreover have "unat a + n \<le> 2 ^ 64"
      proof -
        have "unat a = 4096 * (unat a div 4096) + unat a mod 4096" by simp
        moreover have "unat a div 4096 < 4503599627370496"
          using unat64_less [of a] by (simp add: div_less_iff_less_mult)
        ultimately have "unat a + n \<le> 4096 * 4503599627370496" using assms(2) by linarith
        then show ?thesis by simp
      qed
      ultimately show False using that by linarith
    qed
    then have "unat x = unat a + unat (x - a)" by (simp add: unat_diff_word)
    then have "uvpn x = uvpn a" unfolding uvpn_eq_iff using that assms(2) by (simp add: div_within)
    with assms(1) show ?thesis by (simp add: mapped_def)
  qed
  then show "lmem (s\<lparr>umem := store_le n (umem s) a v\<rparr>) x = store_le n (lmem s) a v x"
    using assms(3) by (auto simp: lmem_def store_le_apply)
qed

end
