(* ===== verification/FsFile.thy ===== *)
theory FsFile
  imports FsBlock
begin

text \<open>
  Files of the file-system server.  The block pointers of a file are read from the logical view of
  the disk; the operations on them are specified by what they do to these pointers and to the set
  of free blocks, and every other data block keeps its bytes.
\<close>

section \<open>Allocation\<close>

definition grows :: "fsstate \<Rightarrow> fsstate \<Rightarrow> bool" where
  "grows s s' \<longleftrightarrow> fs_ok s' \<and> nblk s' = nblk s \<and> (\<forall>va. mapped s va \<longrightarrow> mapped s' va)"

text \<open>Blocks that belong neither to the boot sector nor to the bitmap.\<close>

definition data :: "fsstate \<Rightarrow> nat \<Rightarrow> bool" where
  "data s c \<longleftrightarrow> (c = 1 \<or> nbitmap s + 2 \<le> c) \<and> c < nblk s"

definition same_data :: "nat set \<Rightarrow> fsstate \<Rightarrow> fsstate \<Rightarrow> bool" where
  "same_data X s s' \<longleftrightarrow> (\<forall>c (i::nat). data s c \<longrightarrow> c \<notin> X \<longrightarrow> i < 4096 \<longrightarrow>
     lmem s' (disk_addr (of_nat c) + of_nat i) = lmem s (disk_addr (of_nat c) + of_nat i))"

definition free_set :: "fsstate \<Rightarrow> nat set" where
  "free_set s = {c. c < nblk s \<and> is_free s c}"

definition zeroed :: "fsstate \<Rightarrow> nat \<Rightarrow> bool" where
  "zeroed s c \<longleftrightarrow> (\<forall>i<4096. lmem s (disk_addr (of_nat c) + of_nat i) = 0)"

lemma grows_refl: "fs_ok s \<Longrightarrow> grows s s"
  by (simp add: grows_def)

lemma grows_trans: "grows s s' \<Longrightarrow> grows s' s'' \<Longrightarrow> grows s s''"
  by (simp add: grows_def)

lemma grows_data: "grows s s' \<Longrightarrow> data s' c = data s c"
  by (simp add: grows_def data_def nbitmap_def)

lemma grows_cached: "grows s s' \<Longrightarrow> cached s c \<Longrightarrow> cached s' c"
  by (simp add: grows_def cached_def)

lemma same_data_refl [simp]: "same_data X s s"
  by (simp add: same_data_def)

lemma same_data_lmem: "lmem s' = lmem s \<Longrightarrow> same_data X s s'"
  by (simp add: same_data_def)

lemma same_data_trans:
  "same_data X s s' \<Longrightarrow> same_data Y s' s'' \<Longrightarrow> grows s s' \<Longrightarrow> same_data (X \<union> Y) s s''"
  by (auto simp: same_data_def grows_data)

lemma same_data_mono: "same_data X s s' \<Longrightarrow> X \<subseteq> Y \<Longrightarrow> same_data Y s s'"
  by (auto simp: same_data_def)

lemma unat_block:
  assumes "data s c" "fs_ok s"
  shows "unat (of_nat c :: u32) = c" "c < max_blocks"
proof -
  show "c < max_blocks" using assms fs_okD(3) [OF assms(2)] by (simp add: data_def)
  then show "unat (of_nat c :: u32) = c" by (intro unat_of_nat32) simp
qed

lemma free_data:
  assumes "fs_ok s" "b \<in> free_set s"
  shows "data s b" "nbitmap s + 2 \<le> b"
proof -
  show "nbitmap s + 2 \<le> b"
    using assms(2) fs_okD(5) [OF assms(1), of b] by (force simp: free_set_def not_less)
  with assms show "data s b" by (simp add: data_def free_set_def)
qed

text \<open>The logical bytes of a data block do not change when a bitmap word does.\<close>

lemma lmem_marked:
  assumes "fs_ok s" "b < nblk s"
  shows "\<exists>w. lmem (marked v b s) = store_le 4 (lmem s) (bm_word b) w"
proof -
  have b: "b < max_blocks" using assms(2) fs_okD(3) [OF assms(1)] by simp
  have m: "unat (bm_word b) mod 4096 + 4 \<le> 4096"
  proof -
    have "unat (bm_word b) = 4 * (0x4000800 + b div 32)" using b by (simp add: unat_bm_word)
    moreover have "(4 * x) mod 4096 + 4 \<le> 4096" for x :: nat
    proof -
      have "(4 * x) mod 4096 = 4 * (x mod 1024)" using mod_mult_mult1 [of 4 x 1024] by simp
      moreover have "x mod 1024 \<le> 1023" using mod_less_divisor [of 1024 x] by linarith
      ultimately show ?thesis by linarith
    qed
    ultimately show ?thesis by (simp only:)
  qed
  have "lmem (s\<lparr>umem := store_le 4 (umem s) (bm_word b) w\<rparr>) = store_le 4 (lmem s) (bm_word b) w" for w
    by (rule lmem_store [OF get32_bm_word(2) [OF assms] m]) simp
  then show ?thesis by (auto simp: marked_def Let_def)
qed

lemma same_data_marked:
  assumes "fs_ok s" "b < nblk s"
  shows "same_data {} s (marked v b s)"
  unfolding same_data_def
proof (intro allI impI)
  fix c and i :: nat assume c: "data s c" and i: "i < 4096"
  obtain w where w: "lmem (marked v b s) = store_le 4 (lmem s) (bm_word b) w"
    using lmem_marked [OF assms] by blast
  have bm: "b < max_blocks" using assms(2) fs_okD(3) [OF assms(1)] by simp
  note cm = unat_block [OF c assms(1)]
  have "b div 32 \<le> nblk s div 32" using assms(2) by (simp add: div_le_mono)
  moreover have "nblk s div 32 < 1024 * nbitmap s"
    unfolding nbitmap_def using div_mult_mod_eq [of "nblk s div 32" 1024] mod_less_divisor [of 1024 "nblk s div 32"]
    by (simp add: div_mult2_eq [symmetric])
  ultimately have "4 * (b div 32) + 4 \<le> 4096 * nbitmap s" by linarith
  then have "unat (bm_word b) + 4 \<le> 0x10000000 + 4096 * c + i \<or> 0x10000000 + 4096 * c + i < unat (bm_word b)"
    using c i bm by (auto simp: data_def unat_bm_word)
  then show "lmem (marked v b s) (disk_addr (of_nat c) + of_nat i) = lmem s (disk_addr (of_nat c) + of_nat i)"
    unfolding w using cm i bm
    by (intro store_byte_apart) (simp_all add: unat_disk_addr_off unat_bm_word)
qed

lemma free_set_marked:
  assumes "fs_ok s" "b < nblk s" "v \<Longrightarrow> nbitmap s + 2 \<le> b"
  shows "free_set (marked v b s) = (if v then insert b (free_set s) else free_set s - {b})"
  using assms(2) fs_okD(3) [OF assms(1)] fs_ok_marked(2) [OF assms]
  by (auto simp: free_set_def is_free_marked split: if_splits)

lemma grows_marked:
  assumes "fs_ok s" "b < nblk s" "v \<Longrightarrow> nbitmap s + 2 \<le> b"
  shows "grows s (marked v b s)"
  using fs_ok_marked [OF assms] by (simp add: grows_def)

text \<open>Writing a cached block back changes the disk below the view only.\<close>

lemma write_back:
  assumes "fs_ok s" "unat b < max_blocks" "cached s b"
    and s': "s' = s\<lparr>disk := blit (disk s) (disk_off b) (umem s) (disk_addr b) 4096\<rparr>"
  shows "grows s s'" "free_set s' = free_set s" "lmem s' = lmem s"
proof -
  have u: "umem s' = umem s" "\<And>va. mapped s' va = mapped s va" "super s' = super s" "bitmap s' = bitmap s"
    by (simp_all add: s')
  have n: "nblk s' = nblk s" by (simp add: nblk_def u)
  moreover have "is_free s' c = is_free s c" for c by (simp add: is_free_def u)
  ultimately show "grows s s'" "free_set s' = free_set s"
    using assms(1) by (auto simp: grows_def fs_ok_def free_set_def nbitmap_def cached_def u)
  show "lmem s' = lmem s" unfolding s' by (rule lmem_write [OF assms(2,3)])
qed

lemma taken_spec:
  assumes "fs_ok s" "b \<in> free_set s"
  shows "grows s (taken b s)" "free_set (taken b s) = free_set s - {b}" "same_data {} s (taken b s)"
    "mapped (taken b s) va = mapped s va" "grants (taken b s) = grants s"
proof -
  let ?t = "marked False b s" and ?d = "b div 32768 + 2"
  have b: "b < nblk s" using assms(2) by (simp add: free_set_def)
  then have bm: "b < max_blocks" using fs_okD(3) [OF assms(1)] by simp
  have d: "?d < nbitmap s + 2" using b div_le_mono [of b "nblk s" 32768] by (simp add: nbitmap_def)
  have c: "cached ?t (of_nat ?d)" using fs_okD(6) [OF assms(1) d] by simp
  have u: "unat (of_nat ?d :: u32) < max_blocks" by (subst unat_of_nat32) (use bm in simp_all)
  have ok: "fs_ok ?t" by (rule fs_ok_marked [OF assms(1) b]) simp
  note wb = write_back [OF ok u c, of "taken b s"]
  have e: "taken b s = ?t\<lparr>disk := blit (disk ?t) (disk_off (of_nat ?d)) (umem ?t) (disk_addr (of_nat ?d)) 4096\<rparr>"
    by (simp add: taken_def Let_def)
  show "grows s (taken b s)"
    by (rule grows_trans [OF grows_marked [OF assms(1) b] wb(1) [OF e]]) simp
  show "free_set (taken b s) = free_set s - {b}"
    using wb(2) [OF e] free_set_marked [OF assms(1) b, of False] by simp
  show "same_data {} s (taken b s)"
    using same_data_marked [OF assms(1) b, of False] wb(3) [OF e] by (simp add: same_data_def)
  show "mapped (taken b s) va = mapped s va" "grants (taken b s) = grants s"
    by (simp_all add: e)
qed

lemma mapped_in_spec:
  assumes "fs_ok s" "data s b" "\<not> cached s (of_nat b)"
  shows "grows s (mapped_in (of_nat b) s)" "free_set (mapped_in (of_nat b) s) = free_set s"
    "same_data {b} s (mapped_in (of_nat b) s)" "zeroed (mapped_in (of_nat b) s) b"
    "cached (mapped_in (of_nat b) s) (of_nat b)"
proof -
  let ?b = "of_nat b :: u32" and ?t = "mapped_in (of_nat b) s"
  note ub = unat_block [OF assms(2,1)]
  have bm: "unat ?b < max_blocks" using ub by simp
  have um: "umem ?t = blit (umem s) (disk_addr ?b) (\<lambda>_. 0) 0 4096"
    by (simp add: mapped_in_def fill_bytes_blit)
  have same: "same_block (of_nat c) s ?t" if "0 < c" "c < nbitmap s + 2" for c
  proof (rule same_block_blit [OF bm _ _ um])
    have c: "c < max_blocks" using that(2) fs_okD(3,4) [OF assms(1)] by simp
    then show "unat (of_nat c :: u32) < max_blocks" by (subst unat_of_nat32) simp_all
    show "?b \<noteq> of_nat c" using fs_okD(6) [OF assms(1) that(2,1)] assms(3) by auto
  qed
  have m: "mapped s va \<Longrightarrow> mapped ?t va" for va by (auto simp: mapped_def mapped_in_def)
  have g: "super ?t = super s" "bitmap ?t = bitmap s" by (simp_all add: mapped_in_def)
  note fr = fs_ok_frame [OF assms(1) g m same]
  have n: "nblk ?t = nblk s" by (rule fr; simp)
  have "fs_ok ?t" by (rule fr; simp)
  with n m show "grows s ?t" by (simp add: grows_def)
  have f: "is_free ?t c = is_free s c" if "c < nblk s" for c by (rule fr) (use that in simp_all)
  then show "free_set ?t = free_set s" by (auto simp: free_set_def n)
  have l: "lmem ?t = fill_bytes (lmem s) (disk_addr ?b) 0 4096" by (rule lmem_mapped_in [OF bm])
  show "cached ?t ?b" by (simp add: cached_def mapped_def mapped_in_def)
  show "zeroed ?t b" by (simp add: zeroed_def l fill_bytes_def)
  show "same_data {b} s ?t"
    unfolding same_data_def
  proof (intro allI impI)
    fix c and i :: nat assume c: "data s c" "c \<notin> {b}" and i: "i < 4096"
    note uc = unat_block [OF c(1) assms(1)]
    have "(of_nat c :: u32) \<noteq> ?b" using c(2) uc(1) ub(1) by auto
    then have "uvpn (disk_addr (of_nat c) + of_nat i) \<noteq> uvpn (disk_addr ?b)"
      using uc bm i by (simp add: uvpn_disk_addr uvpn_disk_addr_inject)
    then have "\<not> unat (disk_addr (of_nat c) + of_nat i - disk_addr ?b) < 4096"
      using in_block_iff [OF bm] by simp
    then show "lmem ?t (disk_addr (of_nat c) + of_nat i) = lmem s (disk_addr (of_nat c) + of_nat i)"
      by (simp add: l fill_bytes_def)
  qed
qed

text \<open>
  \<^verbatim>\<open>alloc_block\<close>: the least free block from 3 on, cached and out of the free set, or an error that
  leaves the free set and all data alone.  The block is zero unless it was still cached.
\<close>

definition allocated :: "nat \<Rightarrow> fsstate \<Rightarrow> fsstate \<Rightarrow> bool" where
  "allocated b s s' \<longleftrightarrow> b \<in> free_set s \<and> b = Min (free_set s) \<and> grows s s' \<and> free_set s' = free_set s - {b}
     \<and> same_data {b} s s' \<and> cached s' (of_nat b) \<and> (\<not> cached s (of_nat b) \<longrightarrow> zeroed s' b)
     \<and> (cached s (of_nat b) \<longrightarrow> same_data {} s s')
     \<and> (\<forall>c. cached s' c \<longrightarrow> cached s c \<or> c = of_nat b \<or> max_blocks \<le> unat c)"

definition unchanged :: "fsstate \<Rightarrow> fsstate \<Rightarrow> bool" where
  "unchanged s s' \<longleftrightarrow> grows s s' \<and> free_set s' = free_set s \<and> same_data {} s s'"

lemma finite_free_set [simp]: "finite (free_set s)"
  by (simp add: free_set_def)

lemma find_least:
  assumes "fs_ok s"
  shows "find (is_free s) [3..<nblk s] = (if free_set s = {} then None else Some (Min (free_set s)))"
proof (cases "free_set s = {}")
  case True
  then show ?thesis by (auto simp: find_None_iff free_set_def)
next
  case False
  let ?b = "Min (free_set s)"
  note fin = finite_free_set [of s]
  have b: "?b \<in> free_set s" using False fin by simp
  have "3 \<le> ?b" using free_data(2) [OF assms b] by (simp add: nbitmap_def)
  then have "find (is_free s) [3..<nblk s] = Some ?b"
  proof -
    have l: "3 \<le> ?b" "?b < nblk s" "is_free s ?b" using b \<open>3 \<le> ?b\<close> by (auto simp: free_set_def)
    have m: "\<not> is_free s c" if "c < ?b" for c
    proof
      assume "is_free s c"
      then have "c \<in> free_set s" using that l(2) by (simp add: free_set_def)
      from Min_le [OF fin this] that show False by simp
    qed
    have "\<exists>i<length [3..<nblk s]. is_free s ([3..<nblk s] ! i) \<and> ?b = [3..<nblk s] ! i
        \<and> (\<forall>j<i. \<not> is_free s ([3..<nblk s] ! j))"
      by (rule exI [of _ "?b - 3"]) (use l m in auto)
    then show ?thesis by (simp only: find_Some_iff)
  qed
  with False show ?thesis by simp
qed

lemma map_block_eq:
  assumes "unat b < max_blocks"
  shows "map_block b s = (if cached s b then (0, s) else if granted s then (0, mapped_in b s)
     else (- E_NO_MEM, s\<lparr>grants := tl (grants s)\<rparr>))"
  using block_is_mapped_iff [OF assms, of s] by (auto simp: map_block_def syscall_mem_alloc_block [OF assms])

lemma grants_spec:
  assumes "fs_ok s"
  shows "fs_ok (s\<lparr>grants := g\<rparr>)" "nblk (s\<lparr>grants := g\<rparr>) = nblk s" "free_set (s\<lparr>grants := g\<rparr>) = free_set s"
    "unchanged s (s\<lparr>grants := g\<rparr>)"
proof -
  have n: "nblk (s\<lparr>grants := g\<rparr>) = nblk s" "\<And>c. is_free (s\<lparr>grants := g\<rparr>) c = is_free s c"
    by (simp_all add: nblk_def is_free_def)
  then show "fs_ok (s\<lparr>grants := g\<rparr>)" "nblk (s\<lparr>grants := g\<rparr>) = nblk s" "free_set (s\<lparr>grants := g\<rparr>) = free_set s"
    using assms by (auto simp: fs_ok_def nbitmap_def cached_def free_set_def)
  then show "unchanged s (s\<lparr>grants := g\<rparr>)" by (simp add: unchanged_def grows_def same_data_def)
qed

lemma same_data_comp:
  "same_data X s s' \<Longrightarrow> same_data Y s' s'' \<Longrightarrow> grows s s' \<Longrightarrow> X \<union> Y \<subseteq> Z \<Longrightarrow> same_data Z s s''"
  by (meson same_data_mono same_data_trans)

lemma cached_mapped_in:
  assumes "unat b < max_blocks" "cached (mapped_in b s) c" "unat c < max_blocks"
  shows "cached s c \<or> c = b"
  using assms by (auto simp: cached_def mapped_def mapped_in_def uvpn_disk_addr_inject split: if_splits)

lemma alloc_block_spec:
  assumes "fs_ok s"
  obtains s' where "alloc_block s = Some (- E_NO_DISK, s')" "unchanged s s'" "free_set s = {}" "\<And>x. cached s' x = cached s x"
  | s' where "alloc_block s = Some (- E_NO_MEM, s')" "unchanged s s'" "free_set s \<noteq> {}" "\<And>x. cached s' x = cached s x"
      "\<not> cached s (of_nat (Min (free_set s)))"
  | b s' where "alloc_block s = Some (int b, s')" "allocated b s s'"
proof (cases "free_set s = {}")
  case True
  then have "alloc_block s = Some (- E_NO_DISK, s)"
    by (simp add: alloc_block_def alloc_block_num_eq [OF assms] find_least [OF assms] errno)
  then show ?thesis using that(1) True assms by (simp add: unchanged_def grows_refl)
next
  case False
  define b where "b = Min (free_set s)"
  have b: "b \<in> free_set s" unfolding b_def by (rule Min_in) (use False in \<open>simp_all add: finite_free_set\<close>)
  note d = free_data [OF assms b]
  note u = unat_block [OF d(1) assms]
  note t = taken_spec [OF assms b]
  have ok: "fs_ok (taken b s)" using t(1) by (simp add: grows_def)
  have bi: "(of_int (int b) :: u32) = of_nat b" by simp
  have bm: "unat (of_nat b :: u32) < max_blocks" using u by simp
  have n: "alloc_block_num s = Some (int b, taken b s)"
    using False by (simp add: alloc_block_num_eq [OF assms] find_least [OF assms] b_def)
  have c: "cached (taken b s) x = cached s x" for x by (simp add: cached_def t(4))
  have g: "granted (taken b s) = granted s" by (simp add: granted_def t(5))
  consider "cached s (of_nat b)" | "\<not> cached s (of_nat b)" "granted s" | "\<not> cached s (of_nat b)" "\<not> granted s" by blast
  then show ?thesis
  proof cases
    case 1
    have "alloc_block s = Some (int b, taken b s)"
      using 1 by (simp add: alloc_block_def n map_block_eq bm c)
    moreover have "allocated b s (taken b s)"
      unfolding allocated_def using t b 1 c same_data_mono [OF t(3)] by (simp add: b_def)
    ultimately show ?thesis by (rule that(3))
  next
    case 2
    let ?s = "mapped_in (of_nat b) (taken b s)"
    have dt: "data (taken b s) b" using d(1) grows_data [OF t(1)] by simp
    have "alloc_block s = Some (int b, ?s)"
      using 2 by (simp add: alloc_block_def n map_block_eq bm c g)
    moreover have "allocated b s ?s"
      unfolding allocated_def
    proof (intro conjI impI allI)
      have nc: "\<not> cached (taken b s) (of_nat b)" using 2 c by simp
      note m = mapped_in_spec [OF ok dt nc]
      show "b \<in> free_set s" "b = Min (free_set s)" using b by (simp_all add: b_def)
      show "grows s ?s" by (rule grows_trans [OF t(1) m(1)])
      show "free_set ?s = free_set s - {b}" by (simp only: m(2) t(2))
      show "same_data {b} s ?s" by (rule same_data_comp [OF t(3) m(3) t(1)]) simp
      show "cached ?s (of_nat b)" "zeroed ?s b" by (rule m)+
      show "same_data {} s ?s" if "cached s (of_nat b)" using that 2 by simp
      show "cached s x \<or> x = of_nat b \<or> max_blocks \<le> unat x" if "cached ?s x" for x
        using cached_mapped_in [OF bm that] by (auto simp: c not_le [symmetric])
    qed
    ultimately show ?thesis by (rule that(3))
  next
    case 3
    let ?t = "(taken b s)\<lparr>grants := tl (grants (taken b s))\<rparr>"
    note gs = grants_spec [OF ok]
    have nb: "nblk ?t = nblk s" "nbitmap ?t = nbitmap s" using t(1) gs(2) by (simp_all add: grows_def nbitmap_def)
    have bl: "b < nblk ?t" "nbitmap ?t + 2 \<le> b" using b d(2) by (simp_all add: nb free_set_def)
    have "alloc_block s = Some (- E_NO_MEM, marked True b ?t)"
      using 3 bl u free_block_eq [OF gs(1), of "of_nat b" "tl (grants (taken b s))"] d(2)
      by (auto simp: alloc_block_def n map_block_eq bm c g errno)
    moreover have "unchanged s (marked True b ?t)"
    proof -
      have tt: "grows s ?t" "same_data {} s ?t" using t(1,3) gs(4) grows_trans same_data_comp
        unfolding unchanged_def by blast+
      have "free_set (marked True b ?t) = free_set s"
        using free_set_marked [OF gs(1) bl(1), of True] bl(2) b by (auto simp: gs(3) t(2))
      then show ?thesis unfolding unchanged_def
        using grows_trans [OF tt(1) grows_marked [OF gs(1) bl(1)]] bl(2)
          same_data_comp [OF tt(2) same_data_marked [OF gs(1) bl(1)] tt(1)] by simp
    qed
    moreover have "cached (marked True b ?t) x = cached s x" for x by (simp add: c [symmetric]) (simp add: cached_def)
    ultimately show ?thesis by (rule that(2) [OF _ _ False]) (use 3 in \<open>simp add: b_def\<close>)
  qed
qed

section \<open>Fields in data blocks\<close>

definition fld :: "memory \<Rightarrow> u64 \<Rightarrow> nat" where "fld m a = unat (load_le 4 m a)"

abbreviation at :: "nat \<Rightarrow> nat \<Rightarrow> u64" where "at c n \<equiv> disk_addr (of_nat c) + of_nat n"

lemma fld_less: "fld m a < 4294967296"
proof -
  have "load_le 4 m a = take_bit 32 (load_le 4 m a)"
    by (rule bit_word_eqI) (auto simp: bit_simps bit_load_le)
  then have "unat (load_le 4 m a) = take_bit 32 (unat (load_le 4 m a))" by (metis unsigned_take_bit_eq)
  also have "\<dots> < 4294967296" using take_bit_nat_less_exp [of 32] by simp
  finally show ?thesis by (simp add: fld_def)
qed

lemma fld_word: "ucast (load_le 4 m a) = (of_nat (fld m a) :: u32)"
  by (simp add: fld_def)

lemma unat_fld [simp]: "unat (of_nat (fld m a) :: u32) = fld m a"
  by (rule unat_of_nat32 [OF fld_less])

lemma fld_0_iff: "(of_nat (fld m a) :: u32) = 0 \<longleftrightarrow> fld m a = 0"
proof -
  have "(of_nat (fld m a) :: u32) = 0 \<longleftrightarrow> unat (of_nat (fld m a) :: u32) = 0" by (simp only: unat_eq_zero)
  then show ?thesis by (simp only: unat_fld)
qed

lemma fld_cong: "(\<And>i. i < 4 \<Longrightarrow> m' (a + of_nat i) = m (a + of_nat i)) \<Longrightarrow> fld m' a = fld m a"
  unfolding fld_def by (rule arg_cong [where f = unat], rule load_le_cong) blast

lemma fld_store_same: "fld (store_le 4 m a (ucast (v :: u32))) a = unat v"
proof -
  have "take_bit 32 (ucast v :: u64) = ucast v" by (rule bit_word_eqI) (auto simp: bit_simps dest: bit_imp_le_length)
  moreover have "unat v < 2 ^ LENGTH(32)" by (rule unsigned_less)
  ultimately show ?thesis by (simp add: fld_def load_le_store_le_same unsigned_ucast_eq take_bit_nat_eq_self)
qed

lemma fld_store_other:
  assumes "unat a + 4 \<le> unat x \<or> unat x + 4 \<le> unat a" "unat x + 4 \<le> 2 ^ 64" "unat a + 4 \<le> 2 ^ 64"
  shows "fld (store_le 4 m a v) x = fld m x"
  using load_store_apart [OF assms(1-3)] by (simp add: fld_def)

text \<open>Two fields of data blocks are the same place or apart.\<close>

lemma unat_at: "c < max_blocks \<Longrightarrow> n \<le> 4096 \<Longrightarrow> unat (at c n) = 0x10000000 + 4096 * c + n"
  using unat_disk_addr_off [of "of_nat c" n] unat_of_nat32 [of c] by simp

lemma fld_store_at:
  assumes "c < max_blocks" "d < max_blocks" "n + 4 \<le> 4096" "k + 4 \<le> 4096"
    "c \<noteq> d \<or> n + 4 \<le> k \<or> k + 4 \<le> n"
  shows "fld (store_le 4 m (at c n) v) (at d k) = fld m (at d k)"
proof (rule fld_store_other)
  have u: "unat (at c n) = 0x10000000 + 4096 * c + n" "unat (at d k) = 0x10000000 + 4096 * d + k"
    using assms by (simp_all add: unat_at)
  consider "c < d" | "d < c" | "c = d" by linarith
  then show "unat (at c n) + 4 \<le> unat (at d k) \<or> unat (at d k) + 4 \<le> unat (at c n)"
    unfolding u using assms by cases auto
  show "unat (at d k) + 4 \<le> 2 ^ 64" "unat (at c n) + 4 \<le> 2 ^ 64" unfolding u using assms by simp_all
qed

lemma fld_same_data:
  assumes "same_data X s s'" "data s c" "c \<notin> X" "n + 4 \<le> 4096"
  shows "fld (lmem s') (at c n) = fld (lmem s) (at c n)"
proof (rule fld_cong)
  fix i :: nat assume "i < 4"
  then show "lmem s' (at c n + of_nat i) = lmem s (at c n + of_nat i)"
    using assms(1) [unfolded same_data_def, rule_format, OF assms(2,3), of "n + i"] assms(4) by (simp add: add.assoc)
qed

lemma mapped_at:
  assumes "c < max_blocks" "n < 4096"
  shows "mapped s (at c n) = cached s (of_nat c)"
  using assms unat_of_nat32 [of c] by (simp add: mapped_def cached_def uvpn_disk_addr)

lemma get32_block:
  assumes "c < max_blocks" "cached s (of_nat c)" "n + 4 \<le> 4096"
  shows "get32 s (at c n) = Some (of_nat (fld (lmem s) (at c n)))"
proof -
  have "load_le 4 (umem s) (at c n) = load_le 4 (lmem s) (at c n)"
  proof (rule load_le_cong)
    fix i :: nat assume "i < 4"
    then have "mapped s (at c (n + i))" using assms by (subst mapped_at) simp_all
    then show "umem s (at c n + of_nat i) = lmem s (at c n + of_nat i)"
      by (simp add: lmem_def add.assoc)
  qed
  then show ?thesis using assms mapped_at [of c n s]
    by (simp add: get32_def uload_def fld_word)
qed

lemma put32_block:
  assumes "fs_ok s" "data s c" "cached s (of_nat c)" "n + 4 \<le> 4096" "c = 1 \<Longrightarrow> 8 \<le> n"
  obtains s' where "put32 (at c n) v s = Some s'" "lmem s' = store_le 4 (lmem s) (at c n) (ucast v)"
    "grows s s'" "free_set s' = free_set s" "same_data {c} s s'" "\<And>x. cached s' x = cached s x" "grants s' = grants s"
proof -
  note u = unat_block [OF assms(2,1)]
  let ?s = "set_dirty (at c n) (s\<lparr>umem := store_le 4 (umem s) (at c n) (ucast v)\<rparr>)"
  have mp: "mapped s (at c n)" using mapped_at [of c n s] assms u by simp
  have m4: "unat (at c n) mod 4096 + 4 \<le> 4096"
  proof -
    have "unat (at c n) = n + 4096 * (0x10000 + c)" using unat_at [OF u(2), of n] assms(4) by simp
    then show ?thesis using assms(4) by (simp only: mod_mult_self2)
  qed
  have l: "lmem ?s = store_le 4 (lmem s) (at c n) (ucast v)" by (simp add: lmem_store [OF mp m4])
  have sb: "same_block (of_nat b) s ?s" if "1 < b" "b < nbitmap s + 2" for b
  proof (rule same_block_store [where b = "of_nat c" and k = 4 and n = n and v = "ucast v"])
    have "b < max_blocks" using that fs_okD(3,4) [OF assms(1)] by simp
    then have ub: "unat (of_nat b :: u32) = b" by (intro unat_of_nat32) simp
    with \<open>b < max_blocks\<close> show "unat (of_nat b :: u32) < max_blocks" by simp
    show "(of_nat c :: u32) \<noteq> of_nat b"
    proof
      assume "(of_nat c :: u32) = of_nat b"
      then have "c = b" using u(1) ub by metis
      then show False using that assms(2) by (simp add: data_def)
    qed
  qed (use u assms(4) in simp_all)
  have n: "nblk ?s = nblk s"
  proof -
    have "unat (s_nblocks (disk_addr 1)) + 4 \<le> unat (at c n)"
      using unat_at [OF u(2), of n] assms(2,4,5) by (cases "c = 1") (auto simp: unat_nblk_addr data_def)
    moreover have "unat (at c n) + 4 \<le> 2 ^ 64" using unat_at [OF u(2), of n] assms(4) u(2) by simp
    ultimately show ?thesis
      by (simp add: nblk_def load_store_apart unat_nblk_addr)
  qed
  note fr = fs_ok_frame_nblk [OF assms(1) _ _ _ n sb]
  have ok: "fs_ok ?s" by (rule fr) simp_all
  have f: "is_free ?s b = is_free s b" if "b < nblk s" for b by (rule fr) (use that in simp_all)
  show thesis
  proof (rule that [of ?s])
    show "put32 (at c n) v s = Some ?s" by (simp add: put32_def ustore_def mp)
    show "grows s ?s" using ok n by (simp add: grows_def)
    show "free_set ?s = free_set s" using f by (auto simp: free_set_def n)
    show "same_data {c} s ?s"
      unfolding same_data_def l
    proof (intro allI impI)
      fix d and i :: nat assume d: "data s d" "d \<notin> {c}" "i < 4096"
      note ud = unat_block [OF d(1) assms(1)]
      have ne: "d < c \<or> c < d" using d(2) by auto
      show "store_le 4 (lmem s) (at c n) (ucast v) (at d i) = lmem s (at d i)"
        using ne d(3) assms(4) unat_at [OF u(2), of n] unat_at [OF ud(2), of i] u(2)
        by (intro store_byte_apart) auto
    qed
  qed (use l in \<open>simp_all add: cached_def\<close>)
qed

section \<open>The blocks of a file\<close>

text \<open>
  The indirect block of the file at \<open>f\<close>, the place of its \<open>i\<close>-th block number, and that number;
  0 means no block.
\<close>

definition ind :: "memory \<Rightarrow> u64 \<Rightarrow> nat" where "ind m f = fld m (f_indirect f)"

definition fslot :: "memory \<Rightarrow> u64 \<Rightarrow> nat \<Rightarrow> u64" where
  "fslot m f i = (if i < 10 then f_direct f i else at (ind m f) (4 * i))"

definition fblock :: "memory \<Rightarrow> u64 \<Rightarrow> nat \<Rightarrow> nat" where
  "fblock m f i = (if i < 10 \<or> ind m f \<noteq> 0 then fld m (fslot m f i) else 0)"

text \<open>
  The file structure lies in a data block that is cached and in use (behind the first two fields of
  the super block in the case of the root); its blocks and its indirect block are data blocks in
  use, and no block is used twice.
\<close>

definition file_at :: "fsstate \<Rightarrow> nat \<Rightarrow> nat \<Rightarrow> bool" where
  "file_at s fb off \<longleftrightarrow> data s fb \<and> cached s (of_nat fb) \<and> fb \<notin> free_set s \<and> off + 256 \<le> 4096 \<and> (fb = 1 \<longrightarrow> 8 \<le> off)"

definition owns :: "memory \<Rightarrow> u64 \<Rightarrow> nat set" where
  "owns m f = ({ind m f} \<union> fblock m f ` {..<1024}) - {0}"

definition file_ok :: "fsstate \<Rightarrow> nat \<Rightarrow> nat \<Rightarrow> bool" where
  "file_ok s fb off \<longleftrightarrow> file_at s fb off
     \<and> (\<forall>b\<in>owns (lmem s) (at fb off). data s b \<and> b \<noteq> 1 \<and> b \<notin> free_set s \<and> b \<noteq> fb)
     \<and> (\<forall>i<1024. fblock (lmem s) (at fb off) i \<noteq> 0 \<longrightarrow> fblock (lmem s) (at fb off) i \<noteq> ind (lmem s) (at fb off))
     \<and> inj_on (fblock (lmem s) (at fb off)) {i. i < 1024 \<and> fblock (lmem s) (at fb off) i \<noteq> 0}"

lemma file_fields:
  "f_direct (at fb off) i = at fb (off + 136 + 4 * i)" "f_indirect (at fb off) = at fb (off + 176)"
  "f_size (at fb off) = at fb (off + 128)"
  by (simp_all add: fsconst add.assoc)

lemma fslot_at:
  "fslot m (at fb off) i = (if i < 10 then at fb (off + 136 + 4 * i) else at (ind m (at fb off)) (4 * i))"
  by (simp only: fslot_def file_fields)

lemma ind_owned: "ind m f \<noteq> 0 \<Longrightarrow> ind m f \<in> owns m f"
  by (simp add: owns_def)

lemma fblock_owned: "i < 1024 \<Longrightarrow> fblock m f i \<noteq> 0 \<Longrightarrow> fblock m f i \<in> owns m f"
  by (simp add: owns_def)

lemma file_okD:
  assumes "file_ok s fb off"
  shows "file_at s fb off" "data s fb" "cached s (of_nat fb)" "fb \<notin> free_set s" "off + 256 \<le> 4096" "fb = 1 \<Longrightarrow> 8 \<le> off"
    and "b \<in> owns (lmem s) (at fb off) \<Longrightarrow> data s b \<and> b \<noteq> 1 \<and> b \<notin> free_set s \<and> b \<noteq> fb"
  using assms by (auto simp: file_ok_def file_at_def)

text \<open>The pointers are read from the file's own block and its indirect block.\<close>

lemma pointers_cong:
  assumes "same_data X s s'" "file_ok s fb off" "fb \<notin> X" "ind (lmem s) (at fb off) \<notin> X"
  shows "ind (lmem s') (at fb off) = ind (lmem s) (at fb off)"
    "i < 1024 \<Longrightarrow> fblock (lmem s') (at fb off) i = fblock (lmem s) (at fb off) i"
proof -
  note ok = file_okD [OF assms(2)]
  show i: "ind (lmem s') (at fb off) = ind (lmem s) (at fb off)"
    unfolding ind_def file_fields using ok(5) by (intro fld_same_data [OF assms(1) ok(2) assms(3)]) simp
  show "fblock (lmem s') (at fb off) i = fblock (lmem s) (at fb off) i" if i1: "i < 1024"
  proof (cases "i < 10")
    case True
    then have "fld (lmem s') (at fb (off + 136 + 4 * i)) = fld (lmem s) (at fb (off + 136 + 4 * i))"
      using ok(5) by (intro fld_same_data [OF assms(1) ok(2) assms(3)]) simp
    with True show ?thesis by (simp add: fblock_def fslot_def file_fields(1))
  next
    case False
    show ?thesis
    proof (cases "ind (lmem s) (at fb off) = 0")
      case True
      with False i show ?thesis by (simp add: fblock_def)
    next
      case nz: False
      from ok(7) [OF ind_owned [OF nz]]
      have "fld (lmem s') (at (ind (lmem s) (at fb off)) (4 * i)) = fld (lmem s) (at (ind (lmem s) (at fb off)) (4 * i))"
        using i1 by (intro fld_same_data [OF assms(1) _ assms(4)]) simp_all
      with False nz i show ?thesis by (simp add: fblock_def fslot_def)
    qed
  qed
qed

lemma owns_cong:
  assumes "ind m' f = ind m f" "\<And>i. i < 1024 \<Longrightarrow> fblock m' f i = fblock m f i"
  shows "owns m' f = owns m f"
proof -
  have "fblock m' f ` {..<1024} = fblock m f ` {..<1024}" by (rule image_cong) (use assms(2) in simp_all)
  then show ?thesis unfolding owns_def using assms(1) by simp
qed

lemma file_ok_cong:
  assumes "file_ok s fb off" "grows s s'" "free_set s' \<subseteq> free_set s"
    and "ind (lmem s') (at fb off) = ind (lmem s) (at fb off)"
    and fb: "\<And>i. i < 1024 \<Longrightarrow> fblock (lmem s') (at fb off) i = fblock (lmem s) (at fb off) i"
  shows "file_ok s' fb off"
proof -
  have o: "owns (lmem s') (at fb off) = owns (lmem s) (at fb off)" by (rule owns_cong [OF assms(4) fb])
  have set: "{i. i < 1024 \<and> fblock (lmem s') (at fb off) i \<noteq> 0} = {i. i < 1024 \<and> fblock (lmem s) (at fb off) i \<noteq> 0}"
    using fb by auto
  have inj: "inj_on (fblock (lmem s') (at fb off)) X = inj_on (fblock (lmem s) (at fb off)) X" if "X \<subseteq> {..<1024}" for X
    by (rule inj_on_cong) (use fb that in auto)
  have "file_at s' fb off"
    using file_okD(1) [OF assms(1)] grows_data [OF assms(2)] grows_cached [OF assms(2)] assms(3)
    by (auto simp: file_at_def)
  moreover have "inj_on (fblock (lmem s') (at fb off)) {i. i < 1024 \<and> fblock (lmem s) (at fb off) i \<noteq> 0}"
    using assms(1) by (subst inj) (auto simp: file_ok_def)
  ultimately show ?thesis
    using assms(1,3) fb unfolding file_ok_def o set assms(4) grows_data [OF assms(2)] by auto
qed

lemma file_ok_unchanged:
  assumes "file_ok s fb off" "unchanged s s'"
  shows "file_ok s' fb off" "ind (lmem s') (at fb off) = ind (lmem s) (at fb off)"
    "i < 1024 \<Longrightarrow> fblock (lmem s') (at fb off) i = fblock (lmem s) (at fb off) i"
proof -
  have u: "grows s s'" "free_set s' = free_set s" "same_data {} s s'" using assms(2) by (auto simp: unchanged_def)
  note pc = pointers_cong [OF u(3) assms(1)]
  show "ind (lmem s') (at fb off) = ind (lmem s) (at fb off)"
    "i < 1024 \<Longrightarrow> fblock (lmem s') (at fb off) i = fblock (lmem s) (at fb off) i" by (rule pc; simp)+
  show "file_ok s' fb off" by (rule file_ok_cong [OF assms(1) u(1)]) (use u pc in simp_all)
qed

text \<open>Storing into one slot, and into the indirect pointer of a file without indirect block.\<close>

lemma slot_place:
  assumes "file_ok s fb off" "fs_ok s" "i < 1024" "i < 10 \<or> ind (lmem s) (at fb off) \<noteq> 0"
  obtains c n where "fslot (lmem s) (at fb off) i = at c n" "data s c" "n + 4 \<le> 4096" "c = 1 \<Longrightarrow> 8 \<le> n"
    "c = (if i < 10 then fb else ind (lmem s) (at fb off))" "n = (if i < 10 then off + 136 + 4 * i else 4 * i)" "c < max_blocks"
proof (cases "i < 10")
  case True
  note ok = file_okD [OF assms(1)]
  from True that [of fb "off + 136 + 4 * i"] ok unat_block(2) [OF ok(2) assms(2)] show ?thesis
    by (simp add: fslot_at del: of_nat_add of_nat_mult)
next
  case False
  then have "ind (lmem s) (at fb off) \<noteq> 0" using assms(4) by simp
  from file_okD(7) [OF assms(1) ind_owned [OF this]] False that [of "ind (lmem s) (at fb off)" "4 * i"] assms(3)
    unat_block(2) [OF _ assms(2)]
  show ?thesis by (simp add: fslot_at del: of_nat_add of_nat_mult)
qed

text \<open>Where the pointers lie: the structure within its block, the indirect block elsewhere.\<close>

definition placed :: "memory \<Rightarrow> nat \<Rightarrow> nat \<Rightarrow> bool" where
  "placed m fb off \<longleftrightarrow> fb < max_blocks \<and> off + 256 \<le> 4096
     \<and> (ind m (at fb off) \<noteq> 0 \<longrightarrow> ind m (at fb off) < max_blocks \<and> ind m (at fb off) \<noteq> fb)"

lemma file_ok_placed:
  assumes "file_ok s fb off" "fs_ok s"
  shows "placed (lmem s) fb off"
proof -
  note ok = file_okD [OF assms(1)]
  show ?thesis unfolding placed_def
    using unat_block(2) [OF ok(2) assms(2)] ok(5) ok(7) [OF ind_owned] unat_block(2) [OF _ assms(2)] by blast
qed

lemma fslot_store_other:
  assumes "placed m fb off" "i < 1024" "j < 1024" "i < 10 \<or> ind m (at fb off) \<noteq> 0" "j < 10 \<or> ind m (at fb off) \<noteq> 0" "i \<noteq> j"
  shows "fld (store_le 4 m (fslot m (at fb off) i) v) (fslot m (at fb off) j) = fld m (fslot m (at fb off) j)"
  unfolding fslot_at using assms by (auto simp: placed_def simp del: of_nat_add of_nat_mult intro!: fld_store_at)

lemma fblock_store:
  assumes "placed m fb off" "i < 1024" "i < 10 \<or> ind m (at fb off) \<noteq> 0"
    and m': "m' = store_le 4 m (fslot m (at fb off) i) (ucast (v :: u32))"
  shows "ind m' (at fb off) = ind m (at fb off)"
    "j < 1024 \<Longrightarrow> fblock m' (at fb off) j = (if j = i then unat v else fblock m (at fb off) j)"
proof -
  show i: "ind m' (at fb off) = ind m (at fb off)"
    unfolding m' fslot_at unfolding ind_def file_fields
    using assms(1-3) by (auto simp: placed_def ind_def file_fields simp del: of_nat_add of_nat_mult intro!: fld_store_at)
  have sl: "fslot m' (at fb off) j = fslot m (at fb off) j" for j by (simp only: fslot_def i)
  show "fblock m' (at fb off) j = (if j = i then unat v else fblock m (at fb off) j)" if j: "j < 1024"
  proof (cases "j = i")
    case True
    with sl assms(3) i show ?thesis by (simp add: fblock_def m' fld_store_same)
  next
    case False
    then show ?thesis
      using fslot_store_other [OF assms(1,2) j assms(3) _ False [symmetric], of "ucast v"]
      by (auto simp: fblock_def i sl) (auto simp: m')
  qed
qed

lemma fblock_store_ind:
  assumes "placed m fb off" and m': "m' = store_le 4 m (f_indirect (at fb off)) (ucast (v :: u32))"
  shows "ind m' (at fb off) = unat v" "j < 10 \<Longrightarrow> fblock m' (at fb off) j = fblock m (at fb off) j"
proof -
  show "ind m' (at fb off) = unat v" by (simp add: ind_def m' fld_store_same)
  show "fblock m' (at fb off) j = fblock m (at fb off) j" if "j < 10"
  proof -
    have "fld m' (at fb (off + 136 + 4 * j)) = fld m (at fb (off + 136 + 4 * j))"
      unfolding m' file_fields by (rule fld_store_at) (use assms(1) that in \<open>auto simp: placed_def\<close>)
    with that show ?thesis by (simp add: fblock_def fslot_def file_fields(1))
  qed
qed

text \<open>The size field lies beside the pointers.\<close>

lemma pointers_store_size:
  assumes "placed m fb off" and m': "m' = store_le 4 m (f_size (at fb off)) v"
  shows "ind m' (at fb off) = ind m (at fb off)" "i < 1024 \<Longrightarrow> fblock m' (at fb off) i = fblock m (at fb off) i"
proof -
  show i: "ind m' (at fb off) = ind m (at fb off)"
    unfolding ind_def m' file_fields by (rule fld_store_at) (use assms(1) in \<open>auto simp: placed_def\<close>)
  show "fblock m' (at fb off) i = fblock m (at fb off) i" if j: "i < 1024"
  proof (cases "i < 10 \<or> ind m (at fb off) \<noteq> 0")
    case True
    have "fld m' (fslot m (at fb off) i) = fld m (fslot m (at fb off) i)"
      unfolding m' file_fields fslot_at using assms(1) j True
      by (auto simp: placed_def simp del: of_nat_add of_nat_mult intro!: fld_store_at)
    moreover have "fslot m' (at fb off) i = fslot m (at fb off) i" by (simp only: fslot_def i)
    ultimately show ?thesis by (simp add: fblock_def i)
  qed (simp add: fblock_def i)
qed

text \<open>\<^verbatim>\<open>read_block\<close> of a block in use never changes the view.\<close>

definition clean :: "fsstate \<Rightarrow> bool" where
  "clean s \<longleftrightarrow> (\<forall>b\<in>free_set s. \<not> cached s (of_nat b))"

lemma read_block_spec:
  assumes "fs_ok s" "data s b" "b \<notin> free_set s"
  obtains s' n where "read_block (of_nat b) s = Some (Inr (at b 0, n), s')" "unchanged s s'"
      "lmem s' = lmem s" "cached s' (of_nat b)" "clean s \<Longrightarrow> clean s'"
  | s' where "read_block (of_nat b) s = Some (Inl (- E_NO_MEM), s')" "unchanged s s'" "lmem s' = lmem s"
      "\<not> cached s (of_nat b)" "clean s \<Longrightarrow> clean s'"
proof -
  note u = unat_block [OF assms(2,1)]
  have nf: "b < nblk s" "\<not> is_free s b" using assms(2,3) by (auto simp: data_def free_set_def)
  note eq = read_block_eq [OF assms(1), of "of_nat b"]
  consider "cached s (of_nat b)" | "\<not> cached s (of_nat b)" "granted s" | "\<not> cached s (of_nat b)" "\<not> granted s" by blast
  then show thesis
  proof cases
    case 1
    show thesis
      by (rule that(1) [of 0 s]) (use 1 eq nf u assms(1) in \<open>simp_all add: unchanged_def grows_refl\<close>)
  next
    case 2
    let ?s = "loaded (of_nat b) s"
    have bn: "unat (of_nat b :: u32) < nblk s" "unat (of_nat b :: u32) < max_blocks" using u nf by simp_all
    have l: "lmem ?s = lmem s" by (rule lmem_loaded [OF bn(2) 2(1)])
    note lo = fs_ok_loaded [OF assms(1) bn(1) 2(1)]
    have m: "mapped s va \<Longrightarrow> mapped ?s va" for va by (auto simp: mapped_def loaded_def)
    have fs: "free_set ?s = free_set s" using lo by (auto simp: free_set_def)
    have un: "unchanged s ?s" unfolding unchanged_def grows_def using lo m l fs by (simp add: same_data_lmem)
    have cl: "clean ?s" if c: "clean s"
      unfolding clean_def fs
    proof
      fix x assume x: "x \<in> free_set s"
      then have "x \<noteq> b" using assms(3) by auto
      then have "(of_nat x :: u32) \<noteq> of_nat b" using u(1) unat_block(1) [OF free_data(1) [OF assms(1) x] assms(1)] by metis
      then have "cached ?s (of_nat x) = cached s (of_nat x)"
        using u unat_block [OF free_data(1) [OF assms(1) x] assms(1)]
        by (simp add: cached_def mapped_def loaded_def uvpn_disk_addr_inject)
      then show "\<not> cached ?s (of_nat x)" using c x by (simp add: clean_def)
    qed
    show thesis
      by (rule that(1) [of 1 ?s]) (use 2 eq nf u un l cl in \<open>simp_all add: cached_def mapped_def loaded_def\<close>)
  next
    case 3
    show thesis
      by (rule that(2) [of "s\<lparr>grants := tl (grants s)\<rparr>"])
         (use 3 eq nf u grants_spec [OF assms(1)] in \<open>simp_all add: clean_def cached_def\<close>)
  qed
qed

section \<open>Finding and allocating a block of a file\<close>

lemma allocated_clean:
  assumes "fs_ok s" "allocated b s s'" "clean s"
  shows "clean s'" "zeroed s' b" "b \<noteq> 0" "data s b" "b \<noteq> 1"
proof -
  have a: "b \<in> free_set s" "free_set s' = free_set s - {b}" "\<not> cached s (of_nat b) \<Longrightarrow> zeroed s' b"
    "\<And>c. cached s' c \<Longrightarrow> cached s c \<or> c = of_nat b \<or> max_blocks \<le> unat c"
    using assms(2) by (auto simp: allocated_def)
  note d = free_data [OF assms(1) a(1)]
  show "b \<noteq> 0" "data s b" "b \<noteq> 1" using d by auto
  show "zeroed s' b" using a(1,3) assms(3) by (auto simp: clean_def)
  show "clean s'"
    unfolding clean_def a(2)
  proof
    fix x assume x: "x \<in> free_set s - {b}"
    then have xs: "x \<in> free_set s" by simp
    note ux = unat_block [OF free_data(1) [OF assms(1) xs] assms(1)] and ub = unat_block [OF d(1) assms(1)]
    have "(of_nat x :: u32) \<noteq> of_nat b" using x ux(1) ub(1) by (metis Diff_iff singletonI)
    with a(4) [of "of_nat x"] ux show "\<not> cached s' (of_nat x)" using assms(3) xs by (auto simp: clean_def)
  qed
qed

text \<open>A fresh zero block becomes the indirect block.\<close>

lemma new_indirect:
  assumes "file_ok s fb off" "fs_ok s" "clean s" "ind (lmem s) (at fb off) = 0" "allocated b s s1"
    and s2: "lmem s2 = store_le 4 (lmem s1) (f_indirect (at fb off)) (ucast (of_nat b :: u32))"
      "grows s1 s2" "free_set s2 = free_set s1"
  shows "ind (lmem s2) (at fb off) = b"
    "j < 1024 \<Longrightarrow> fblock (lmem s2) (at fb off) j = fblock (lmem s) (at fb off) j" "file_ok s2 fb off"
proof -
  note ok = file_okD [OF assms(1)]
  have a: "b \<in> free_set s" "grows s s1" "free_set s1 = free_set s - {b}" "same_data {b} s s1"
    using assms(5) by (auto simp: allocated_def)
  note c = allocated_clean [OF assms(2,5,3)]
  have ok1: "fs_ok s1" using a(2) by (simp add: grows_def)
  have nb: "fb \<notin> {b}" "ind (lmem s) (at fb off) \<notin> {b}" using a(1) ok(4) c(3) assms(4) by auto
  note pc = pointers_cong [OF a(4) assms(1) nb]
  have f1: "file_ok s1 fb off" by (rule file_ok_cong [OF assms(1) a(2)]) (use a(3) pc in auto)
  note ub = unat_block [OF c(4) assms(2)]
  note fs = fblock_store_ind [OF file_ok_placed [OF f1 ok1] s2(1)]
  show i: "ind (lmem s2) (at fb off) = b" using fs(1) ub by simp
  have z: "fblock (lmem s2) (at fb off) j = fblock (lmem s) (at fb off) j" if j: "j < 1024" for j
  proof (cases "j < 10")
    case True
    with fs(2) pc(2) show ?thesis by simp
  next
    case False
    have "fld (lmem s2) (at b (4 * j)) = fld (lmem s1) (at b (4 * j))"
      unfolding s2(1) file_fields
      by (rule fld_store_at [OF unat_block(2) [OF ok(2) assms(2)] ub(2)]) (use nb ok(5) j in auto)
    also have "\<dots> = fld (\<lambda>_. 0) (at b (4 * j))"
    proof (rule fld_cong)
      fix i :: nat assume "i < 4"
      then have "4 * j + i < 4096" using j by simp
      from c(2) [unfolded zeroed_def, rule_format, OF this] show "lmem s1 (at b (4 * j) + of_nat i) = 0"
        by (simp add: add.assoc)
    qed
    also have "\<dots> = 0"
    proof -
      have "load_le n (\<lambda>_. 0) a = 0" for n and a :: u64 by (induction n arbitrary: a) simp_all
      then show ?thesis by (simp add: fld_def)
    qed
    finally show ?thesis using False assms(4) i by (simp add: fblock_def fslot_def)
  qed
  then show "j < 1024 \<Longrightarrow> fblock (lmem s2) (at fb off) j = fblock (lmem s) (at fb off) j" .
  have g: "grows s s2" by (rule grows_trans [OF a(2) s2(2)])
  have set: "{i. i < 1024 \<and> fblock (lmem s2) (at fb off) i \<noteq> 0} = {i. i < 1024 \<and> fblock (lmem s) (at fb off) i \<noteq> 0}"
    using z by auto
  have im: "fblock (lmem s2) (at fb off) ` {..<1024} = fblock (lmem s) (at fb off) ` {..<1024}"
    by (rule image_cong) (use z in simp_all)
  show "file_ok s2 fb off"
    unfolding file_ok_def
  proof (intro conjI ballI allI impI)
    show "file_at s2 fb off"
      using ok(1) nb grows_data [OF g] grows_cached [OF g] s2(3) a(3) by (auto simp: file_at_def)
    show "inj_on (fblock (lmem s2) (at fb off)) {i. i < 1024 \<and> fblock (lmem s2) (at fb off) i \<noteq> 0}"
      using assms(1) z unfolding set by (subst inj_on_cong [of _ _ "fblock (lmem s) (at fb off)"]) (auto simp: file_ok_def)
    fix k assume k: "k < 1024" "fblock (lmem s2) (at fb off) k \<noteq> 0"
    then have "fblock (lmem s) (at fb off) k \<notin> free_set s" using z ok(7) fblock_owned by simp
    then show "fblock (lmem s2) (at fb off) k \<noteq> ind (lmem s2) (at fb off)" using k z i a(1) by auto
  next
    fix x assume "x \<in> owns (lmem s2) (at fb off)"
    then have "x = b \<or> x \<in> owns (lmem s) (at fb off)" unfolding owns_def im i by auto
    then show "data s2 x" "x \<noteq> 1" "x \<notin> free_set s2" "x \<noteq> fb"
      using ok(7) [of x] c(4,5) nb(1) by (auto simp: grows_data [OF g] s2(3) a(3))
  qed
qed

text \<open>
  The effect of looking up or allocating on the rest: only free blocks and the two blocks holding
  the file's pointers may change, the free set only shrinks.
\<close>

definition map_step :: "nat \<Rightarrow> nat \<Rightarrow> fsstate \<Rightarrow> fsstate \<Rightarrow> bool" where
  "map_step fb off s s' \<longleftrightarrow> grows s s' \<and> file_ok s' fb off \<and> free_set s' \<subseteq> free_set s
     \<and> same_data ({fb, ind (lmem s) (at fb off)} \<union> free_set s) s s' \<and> (clean s \<longrightarrow> clean s')"

lemma map_step_unchanged:
  assumes "file_ok s fb off" "unchanged s s'" "clean s \<longrightarrow> clean s'"
  shows "map_step fb off s s'"
  using assms file_ok_unchanged(1) [OF assms(1,2)] same_data_mono
  unfolding map_step_def unchanged_def by blast

text \<open>The result of the walk: an address for the \<open>i\<close>-th slot in a cached block.\<close>

definition walk_post :: "nat \<Rightarrow> nat \<Rightarrow> nat \<Rightarrow> fsstate \<Rightarrow> fsstate \<Rightarrow> bool" where
  "walk_post fb off i s s' \<longleftrightarrow> map_step fb off s s'
     \<and> (\<forall>j<1024. fblock (lmem s') (at fb off) j = fblock (lmem s) (at fb off) j)
     \<and> (10 \<le> i \<longrightarrow> ind (lmem s') (at fb off) \<noteq> 0 \<and> cached s' (of_nat (ind (lmem s') (at fb off))))
     \<and> ind (lmem s') (at fb off) \<in> {ind (lmem s) (at fb off)} \<union> free_set s"

lemma get32_ind:
  assumes "file_ok s fb off" "fs_ok s"
  shows "get32 s (f_indirect (at fb off)) = Some (of_nat (ind (lmem s) (at fb off)))"
proof -
  note ok = file_okD [OF assms(1)]
  show ?thesis unfolding ind_def file_fields
    by (rule get32_block [OF unat_block(2) [OF ok(2) assms(2)] ok(3)]) (use ok(5) in simp)
qed

lemma ind_word_0: "(of_nat (ind m f) :: u32) = 0 \<longleftrightarrow> ind m f = 0"
  by (simp add: ind_def fld_0_iff)

text \<open>Walking through an indirect block that exists.\<close>

lemma walk_indirect:
  assumes "file_ok s fb off" "fs_ok s" "10 \<le> i" "i < 1024" "ind (lmem s) (at fb off) \<noteq> 0"
  obtains s' where "file_block_walk (at fb off) i a s = Some (Inl (- E_NO_MEM), s')" "unchanged s s'" "clean s \<longrightarrow> clean s'"
  | s' where "file_block_walk (at fb off) i a s = Some (Inr (fslot (lmem s') (at fb off) i), s')" "walk_post fb off i s s'"
      "unchanged s s'"
proof -
  let ?i = "ind (lmem s) (at fb off)"
  note own = file_okD(7) [OF assms(1) ind_owned [OF assms(5)]]
  have w: "file_block_walk (at fb off) i a s = Option.bind (read_block (of_nat ?i) s)
      (\<lambda>(r, s). case r of Inl e \<Rightarrow> Some (Inl e, s) | Inr (blk, _) \<Rightarrow> Some (Inr (blk + 4 * of_nat i), s))"
    using assms(3-5)
    by (simp add: file_block_walk_def NDIRECT_def NINDIRECT_def BLOCK_SIZE_def get32_ind [OF assms(1,2)] ind_word_0)
  show thesis
  proof (rule read_block_spec [OF assms(2), of ?i])
    show "data s ?i" "?i \<notin> free_set s" using own by simp_all
  next
    fix s' n assume r: "read_block (of_nat ?i) s = Some (Inr (at ?i 0, n), s')" "unchanged s s'" "lmem s' = lmem s"
      "cached s' (of_nat ?i)" "clean s \<Longrightarrow> clean s'"
    show thesis
    proof (rule that(2) [of s'])
      show "file_block_walk (at fb off) i a s = Some (Inr (fslot (lmem s') (at fb off) i), s')"
        using w r(1,3) assms(3) by (simp add: fslot_def)
      show "walk_post fb off i s s'"
        unfolding walk_post_def using map_step_unchanged [OF assms(1) r(2)] r(3-5) assms(5) by simp
    qed (rule r(2))
  next
    fix s' assume r: "read_block (of_nat ?i) s = Some (Inl (- E_NO_MEM), s')" "unchanged s s'" "clean s \<Longrightarrow> clean s'"
    show thesis by (rule that(1) [of s']) (use w r in simp_all)
  qed
qed

lemma walk_direct:
  assumes "file_ok s fb off" "fs_ok s" "i < 10"
  shows "file_block_walk (at fb off) i a s = Some (Inr (fslot (lmem s) (at fb off) i), s)" "walk_post fb off i s s"
proof -
  show "file_block_walk (at fb off) i a s = Some (Inr (fslot (lmem s) (at fb off) i), s)"
    using assms(3) by (simp add: file_block_walk_def NDIRECT_def fslot_def)
  have "unchanged s s" using assms(2) by (simp add: unchanged_def grows_refl)
  then show "walk_post fb off i s s"
    unfolding walk_post_def using map_step_unchanged [OF assms(1)] assms(3) by simp
qed

lemma file_block_walk_alloc:
  assumes "file_ok s fb off" "fs_ok s" "clean s" "i < 1024"
  obtains e s' where "file_block_walk (at fb off) i True s = Some (Inl e, s')" "e \<in> {- E_NO_DISK, - E_NO_MEM}"
      "unchanged s s'" "clean s'"
  | s' where "file_block_walk (at fb off) i True s = Some (Inr (fslot (lmem s') (at fb off) i), s')" "walk_post fb off i s s'"
proof -
  let ?F = "at fb off"
  consider "i < 10" | "10 \<le> i" "ind (lmem s) ?F \<noteq> 0" | "10 \<le> i" "ind (lmem s) ?F = 0" by linarith
  then show thesis
  proof cases
    case 1
    then show thesis using that(2) walk_direct [OF assms(1,2)] by blast
  next
    case 2
    show thesis by (rule walk_indirect [OF assms(1,2) 2(1) assms(4) 2(2), of True]) (use that assms(3) in blast)+
  next
    case 3
    have w: "file_block_walk ?F i True s = Option.bind (alloc_block s)
       (\<lambda>(r, s). if r < 0 then Some (Inl r, s) else
          Option.bind (put32 (f_indirect ?F) (of_int r) s) (\<lambda>s. Option.bind (get32 s (f_indirect ?F))
          (\<lambda>ind. Option.bind (read_block ind s) (\<lambda>(r, s). case r of Inl e \<Rightarrow> Some (Inl e, s)
             | Inr (blk, _) \<Rightarrow> Some (Inr (blk + 4 * of_nat i), s)))))"
      using 3 assms(4)
      by (auto simp: file_block_walk_def NDIRECT_def NINDIRECT_def BLOCK_SIZE_def get32_ind [OF assms(1,2)]
          split: prod.split Option.bind_split)
    note ok = file_okD [OF assms(1)]
    show thesis
    proof (rule alloc_block_spec [OF assms(2)])
      fix s' assume a: "alloc_block s = Some (- E_NO_DISK, s')" "unchanged s s'" "\<And>x. cached s' x = cached s x"
      have "clean s'" using assms(3) a(2,3) by (simp add: clean_def unchanged_def)
      then show thesis using that(1) [of "- E_NO_DISK" s'] w a by (simp add: errno)
    next
      fix s' assume a: "alloc_block s = Some (- E_NO_MEM, s')" "unchanged s s'" and cc: "\<And>x. cached s' x = cached s x"
      have "clean s'" using assms(3) a(2) cc by (simp add: clean_def unchanged_def)
      then show thesis using that(1) [of "- E_NO_MEM" s'] w a by (simp add: errno)
    next
      fix b s1 assume a: "alloc_block s = Some (int b, s1)" "allocated b s s1"
      note c = allocated_clean [OF assms(2) a(2) assms(3)]
      have al: "b \<in> free_set s" "grows s s1" "free_set s1 = free_set s - {b}" "same_data {b} s s1" "cached s1 (of_nat b)"
        using a(2) by (auto simp: allocated_def)
      have ok1: "fs_ok s1" using al(2) by (simp add: grows_def)
      have f1: "data s1 fb" "cached s1 (of_nat fb)" using ok(2,3) grows_data [OF al(2)] grows_cached [OF al(2)] by simp_all
      obtain s2 where s2: "put32 (at fb (off + 176)) (of_nat b) s1 = Some s2"
        "lmem s2 = store_le 4 (lmem s1) (at fb (off + 176)) (ucast (of_nat b :: u32))"
        "grows s1 s2" "free_set s2 = free_set s1" "same_data {fb} s1 s2" "\<And>x. cached s2 x = cached s1 x"
        by (rule put32_block [OF ok1 f1, of "off + 176" "of_nat b"]) (use ok(5,6) in auto)
      note ni = new_indirect [OF assms(1-3) 3(2) a(2) s2(2) [folded file_fields(2)] s2(3,4)]
      have g2: "grows s s2" by (rule grows_trans [OF al(2) s2(3)])
      have ok2: "fs_ok s2" using g2 by (simp add: grows_def)
      have d2: "data s2 b" "b \<notin> free_set s2" using c(4) al(3) grows_data [OF g2] s2(4) by auto
      show thesis
      proof (rule read_block_spec [OF ok2 d2])
        fix s3 n assume r: "read_block (of_nat b) s2 = Some (Inr (at b 0, n), s3)" "unchanged s2 s3" "lmem s3 = lmem s2"
          "cached s3 (of_nat b)" "clean s2 \<Longrightarrow> clean s3"
        have u3: "grows s2 s3" "free_set s3 = free_set s2" using r(2) by (auto simp: unchanged_def)
        have "file_block_walk ?F i True s = Some (Inr (fslot (lmem s3) ?F i), s3)"
          using w a(1) s2(1) [folded file_fields(2)] get32_ind [OF ni(3) ok2] ni(1) r(1,3) 3(1)
          by (simp add: fslot_def)
        moreover have "walk_post fb off i s s3"
          unfolding walk_post_def map_step_def
        proof (intro conjI impI allI)
          show "grows s s3" by (rule grows_trans [OF g2 u3(1)])
          show "file_ok s3 fb off" by (rule file_ok_unchanged [OF ni(3) r(2)])
          show "free_set s3 \<subseteq> free_set s" using u3(2) s2(4) al(3) by auto
          have "same_data {b, fb} s s2" by (rule same_data_comp [OF al(4) s2(5) al(2)]) auto
          then show "same_data ({fb, ind (lmem s) ?F} \<union> free_set s) s s3"
            using al(1) r(3) by (auto simp: same_data_def)
          have "clean s2" using c(1) s2(4,6) by (simp add: clean_def)
          then show "clean s3" by (rule r(5))
          show "fblock (lmem s3) ?F j = fblock (lmem s) ?F j" if "j < 1024" for j using ni(2) [OF that] r(3) by simp
          show "ind (lmem s3) ?F \<noteq> 0" "cached s3 (of_nat (ind (lmem s3) ?F))" using ni(1) c(3) r(3,4) by simp_all
          show "ind (lmem s3) ?F \<in> {ind (lmem s) ?F} \<union> free_set s" using ni(1) r(3) al(1) by simp
        qed
        ultimately show thesis by (rule that(2))
      next
        fix s3 assume "\<not> cached s2 (of_nat b)"
        then show thesis using s2(6) al(5) by simp
      qed
    qed
  qed
qed

text \<open>The slot can be read and written.\<close>

definition slot_ready :: "fsstate \<Rightarrow> nat \<Rightarrow> nat \<Rightarrow> nat \<Rightarrow> bool" where
  "slot_ready s fb off i \<longleftrightarrow> i < 1024
     \<and> (10 \<le> i \<longrightarrow> ind (lmem s) (at fb off) \<noteq> 0 \<and> cached s (of_nat (ind (lmem s) (at fb off))))"

lemma slot_ready_place:
  assumes "file_ok s fb off" "fs_ok s" "slot_ready s fb off i"
  obtains c n where "fslot (lmem s) (at fb off) i = at c n" "data s c" "cached s (of_nat c)" "n + 4 \<le> 4096"
    "c = 1 \<longrightarrow> 8 \<le> n" "c = (if i < 10 then fb else ind (lmem s) (at fb off))" "c < max_blocks"
proof -
  have i: "i < 1024" "i < 10 \<or> ind (lmem s) (at fb off) \<noteq> 0" using assms(3) by (auto simp: slot_ready_def)
  show thesis
    by (rule slot_place [OF assms(1,2) i], rule that) (use assms(3) file_okD(3) [OF assms(1)] in \<open>auto simp: slot_ready_def\<close>)
qed

lemma get32_slot:
  assumes "file_ok s fb off" "fs_ok s" "slot_ready s fb off i"
  shows "get32 s (fslot (lmem s) (at fb off) i) = Some (of_nat (fblock (lmem s) (at fb off) i))"
proof -
  obtain c n where c: "fslot (lmem s) (at fb off) i = at c n" "cached s (of_nat c)" "n + 4 \<le> 4096" "c < max_blocks"
    by (rule slot_ready_place [OF assms])
  have "i < 10 \<or> ind (lmem s) (at fb off) \<noteq> 0" using assms(3) by (auto simp: slot_ready_def)
  then show ?thesis using get32_block [OF c(4,2,3)] by (simp add: fblock_def c(1))
qed

lemma put32_slot:
  assumes "file_ok s fb off" "fs_ok s" "slot_ready s fb off i"
  obtains s' where "put32 (fslot (lmem s) (at fb off) i) v s = Some s'" "grows s s'" "free_set s' = free_set s"
    "same_data {if i < 10 then fb else ind (lmem s) (at fb off)} s s'" "\<And>x. cached s' x = cached s x"
    "ind (lmem s') (at fb off) = ind (lmem s) (at fb off)"
    "\<And>j. j < 1024 \<Longrightarrow> fblock (lmem s') (at fb off) j = (if j = i then unat v else fblock (lmem s) (at fb off) j)"
proof -
  obtain c n where c: "fslot (lmem s) (at fb off) i = at c n" "data s c" "cached s (of_nat c)" "n + 4 \<le> 4096"
    "c = 1 \<longrightarrow> 8 \<le> n" "c = (if i < 10 then fb else ind (lmem s) (at fb off))"
    by (rule slot_ready_place [OF assms])
  obtain s' where s': "put32 (at c n) v s = Some s'" "lmem s' = store_le 4 (lmem s) (at c n) (ucast v)"
    "grows s s'" "free_set s' = free_set s" "same_data {c} s s'" "\<And>x. cached s' x = cached s x"
    by (rule put32_block [OF assms(2) c(2-4)]) (use c(5) in blast)+
  have i: "i < 1024" "i < 10 \<or> ind (lmem s) (at fb off) \<noteq> 0" using assms(3) by (auto simp: slot_ready_def)
  note f = fblock_store [OF file_ok_placed [OF assms(1,2)] i s'(2) [folded c(1)]]
  show thesis by (rule that [of s', unfolded c(1)]) (use s' c(6) f in simp_all)
qed

lemma slot_ready_cong:
  assumes "slot_ready s fb off i" "grows s s'" "ind (lmem s') (at fb off) = ind (lmem s) (at fb off)"
  shows "slot_ready s' fb off i"
  using assms(1,3) grows_cached [OF assms(2)] by (simp add: slot_ready_def)

text \<open>A fresh block becomes the \<open>i\<close>-th block.\<close>

lemma file_ok_new_block:
  assumes "file_ok s fb off" "grows s s'" "free_set s' = free_set s - {b}" "b \<in> free_set s" "fs_ok s" "i < 1024"
    and I: "ind (lmem s') (at fb off) = ind (lmem s) (at fb off)"
    and B: "\<And>j. j < 1024 \<Longrightarrow> fblock (lmem s') (at fb off) j = (if j = i then b else fblock (lmem s) (at fb off) j)"
  shows "file_ok s' fb off"
proof -
  let ?F = "at fb off"
  note ok = file_okD [OF assms(1)]
  note d = free_data [OF assms(5,4)]
  have nb: "fb \<noteq> b" "ind (lmem s) ?F \<noteq> b" "b \<noteq> 0" "b \<noteq> 1"
    using ok(4) ok(7) [OF ind_owned] assms(4) d(2) by force+
  have no: "fblock (lmem s) ?F j \<noteq> b" if "j < 1024" for j
    using ok(7) [OF fblock_owned [OF that]] assms(4) nb(3) by auto
  show ?thesis
    unfolding file_ok_def I
  proof (intro conjI ballI allI impI)
    show "file_at s' fb off"
      using ok(1) grows_data [OF assms(2)] grows_cached [OF assms(2)] assms(3) by (auto simp: file_at_def)
    show "inj_on (fblock (lmem s') ?F) {i. i < 1024 \<and> fblock (lmem s') ?F i \<noteq> 0}"
    proof (rule inj_onI)
      fix x y assume x: "x \<in> {i. i < 1024 \<and> fblock (lmem s') ?F i \<noteq> 0}"
        and y: "y \<in> {i. i < 1024 \<and> fblock (lmem s') ?F i \<noteq> 0}" and e: "fblock (lmem s') ?F x = fblock (lmem s') ?F y"
      have inj: "inj_on (fblock (lmem s) ?F) {i. i < 1024 \<and> fblock (lmem s) ?F i \<noteq> 0}"
        using assms(1) by (simp add: file_ok_def)
      show "x = y"
        using x y e no [of x] no [of y] inj_onD [OF inj, of x y] by (auto simp: B split: if_splits)
    qed
    fix k assume k: "k < 1024" "fblock (lmem s') ?F k \<noteq> 0"
    show "fblock (lmem s') ?F k \<noteq> ind (lmem s) ?F"
      using k B [OF k(1)] nb(2) assms(1) by (auto simp: file_ok_def split: if_splits)
  next
    fix x assume "x \<in> owns (lmem s') ?F"
    then have "x = b \<or> x \<in> owns (lmem s) ?F"
      unfolding owns_def I by (auto simp: B image_iff split: if_splits)
    then show "data s' x" "x \<noteq> 1" "x \<notin> free_set s'" "x \<noteq> fb"
      using ok(7) [of x] d(1) nb by (auto simp: grows_data [OF assms(2)] assms(3))
  qed
qed

end
