(* ===== verification/FsMap.thy ===== *)
theory FsMap
  imports FsFile
begin

text \<open>
  \<^verbatim>\<open>file_map_block\<close>, \<^verbatim>\<open>file_get_block\<close>, \<^verbatim>\<open>file_clear_block\<close> and \<^verbatim>\<open>file_truncate\<close> on the block pointers of a
  file and the set of free blocks.
\<close>

section \<open>Mapping\<close>

lemma walk_postD:
  assumes "walk_post fb off i s s'" "i < 1024"
  shows "map_step fb off s s'" "grows s s'" "fs_ok s'" "file_ok s' fb off" "slot_ready s' fb off i"
    "\<And>j. j < 1024 \<Longrightarrow> fblock (lmem s') (at fb off) j = fblock (lmem s) (at fb off) j"
    "ind (lmem s') (at fb off) \<in> {ind (lmem s) (at fb off)} \<union> free_set s"
  using assms by (auto simp: walk_post_def map_step_def slot_ready_def grows_def)

text \<open>A fresh block stored in the slot.\<close>

lemma new_block_step:
  assumes f: "file_ok s fb off" "fs_ok s" "clean s" "slot_ready s fb off i" and a: "allocated b s s1"
  obtains s' where "put32 (fslot (lmem s) (at fb off) i) (of_nat b) s1 = Some s'"
    "get32 s' (fslot (lmem s) (at fb off) i) = Some (of_nat b)" "grows s s'" "file_ok s' fb off"
    "free_set s' = free_set s - {b}" "clean s'" "same_data {b, fb, ind (lmem s) (at fb off)} s s'"
    "\<And>j. j < 1024 \<Longrightarrow> fblock (lmem s') (at fb off) j = (if j = i then b else fblock (lmem s) (at fb off) j)"
proof -
  let ?F = "at fb off"
  note c = allocated_clean [OF f(2) a f(3)]
  have al: "b \<in> free_set s" "grows s s1" "free_set s1 = free_set s - {b}" "same_data {b} s s1"
    using a by (auto simp: allocated_def)
  have i: "i < 1024" using f(4) by (simp add: slot_ready_def)
  have ok1: "fs_ok s1" using al(2) by (simp add: grows_def)
  have nb: "fb \<notin> {b}" "ind (lmem s) ?F \<notin> {b}"
    using al(1) file_okD(4) [OF f(1)] file_okD(7) [OF f(1) ind_owned] c(3) by force+
  note pc = pointers_cong [OF al(4) f(1) nb]
  have f1: "file_ok s1 fb off" by (rule file_ok_cong [OF f(1) al(2)]) (use al(3) pc in auto)
  have r1: "slot_ready s1 fb off i" by (rule slot_ready_cong [OF f(4) al(2) pc(1)])
  obtain s' where s': "put32 (fslot (lmem s1) ?F i) (of_nat b) s1 = Some s'" "grows s1 s'" "free_set s' = free_set s1"
    "same_data {if i < 10 then fb else ind (lmem s1) ?F} s1 s'" "\<And>x. cached s' x = cached s1 x"
    "ind (lmem s') ?F = ind (lmem s1) ?F"
    "\<And>j. j < 1024 \<Longrightarrow> fblock (lmem s') ?F j = (if j = i then unat (of_nat b :: u32) else fblock (lmem s1) ?F j)"
    by (rule put32_slot [OF f1 ok1 r1, of "of_nat b"]) blast
  have g: "grows s s'" by (rule grows_trans [OF al(2) s'(2)])
  have B: "fblock (lmem s') ?F j = (if j = i then b else fblock (lmem s) ?F j)" if "j < 1024" for j
    using s'(7) [OF that] pc(2) [OF that] unat_block(1) [OF c(4) f(2)] by simp
  have f': "file_ok s' fb off"
    by (rule file_ok_new_block [OF f(1) g _ al(1) f(2) i _ B]) (use s'(3,6) al(3) pc(1) in simp_all)
  have ok': "fs_ok s'" using g by (simp add: grows_def)
  have sl: "fslot (lmem s1) ?F i = fslot (lmem s) ?F i" "fslot (lmem s') ?F i = fslot (lmem s) ?F i"
    by (simp_all only: fslot_def pc(1) s'(6))
  have "get32 s' (fslot (lmem s) ?F i) = Some (of_nat b)"
    using get32_slot [OF f' ok' slot_ready_cong [OF r1 s'(2,6)]] B [OF i] by (simp add: sl)
  moreover have "clean s'" using c(1) s'(3,5) by (simp add: clean_def)
  moreover have "same_data {b, fb, ind (lmem s) ?F} s s'"
    by (rule same_data_comp [OF al(4) s'(4) al(2)]) (use pc(1) in auto)
  ultimately show thesis
    using that [OF s'(1) [unfolded sl(1)] _ g f'] s'(3) al(3) B by simp
qed

lemma file_map_block_alloc:
  assumes "file_ok s fb off" "fs_ok s" "clean s" "i < 1024"
  obtains e s' where "file_map_block (at fb off) i True s = Some (Inl e, s')" "e \<in> {- E_NO_DISK, - E_NO_MEM}"
      "map_step fb off s s'" "\<And>j. j < 1024 \<Longrightarrow> fblock (lmem s') (at fb off) j = fblock (lmem s) (at fb off) j"
      "fblock (lmem s) (at fb off) i = 0 \<or> 10 \<le> i"
  | b s' where "file_map_block (at fb off) i True s = Some (Inr (of_nat b), s')" "map_step fb off s s'" "b \<noteq> 0"
      "data s' b" "b \<notin> free_set s'" "unat (of_nat b :: u32) = b"
      "fblock (lmem s) (at fb off) i \<noteq> 0 \<Longrightarrow> b = fblock (lmem s) (at fb off) i"
      "fblock (lmem s) (at fb off) i = 0 \<Longrightarrow> b \<in> free_set s"
      "\<And>j. j < 1024 \<Longrightarrow> fblock (lmem s') (at fb off) j = (if j = i then b else fblock (lmem s) (at fb off) j)"
proof -
  let ?F = "at fb off"
  note failed = that(1) and found = that(2)
  show thesis
  proof (rule file_block_walk_alloc [OF assms])
    fix e s' assume w: "file_block_walk ?F i True s = Some (Inl e, s')" "e \<in> {- E_NO_DISK, - E_NO_MEM}" "unchanged s s'" "clean s'"
    have "10 \<le> i"
    proof (rule ccontr)
      assume "\<not> 10 \<le> i"
      then show False using walk_direct(1) [OF assms(1,2), of i True] w(1) by simp
    qed
    then show thesis
      using failed [of e s'] w map_step_unchanged [OF assms(1) w(3)] file_ok_unchanged(3) [OF assms(1) w(3)]
      by (simp add: file_map_block_def)
  next
    fix s1 assume w: "file_block_walk ?F i True s = Some (Inr (fslot (lmem s1) ?F i), s1)" "walk_post fb off i s s1"
    note p = walk_postD [OF w(2) assms(4)]
    note g1 = get32_slot [OF p(4,3,5)]
    have c1: "clean s1" "free_set s1 \<subseteq> free_set s" using p(1) assms(3) by (auto simp: map_step_def)
    have bw: "(of_nat (fblock (lmem s1) ?F i) :: u32) = 0 \<longleftrightarrow> fblock (lmem s1) ?F i = 0"
      by (simp add: fblock_def fld_0_iff)
    show thesis
    proof (cases "fblock (lmem s) ?F i = 0")
      case False
      then have nz: "fblock (lmem s1) ?F i \<noteq> 0" using p(6) [OF assms(4)] by simp
      note own = file_okD(7) [OF p(4) fblock_owned [OF assms(4) nz]]
      have "file_map_block ?F i True s = Some (Inr (of_nat (fblock (lmem s1) ?F i)), s1)"
        using nz bw by (simp add: file_map_block_def w(1) g1)
      then show thesis
        using found [of "fblock (lmem s1) ?F i" s1] p(1,6) assms(4) own False unat_block(1) [OF _ p(3)] by auto
    next
      case True
      then have z: "fblock (lmem s1) ?F i = 0" using p(6) [OF assms(4)] by simp
      have m: "file_map_block ?F i True s = Option.bind (alloc_block s1)
        (\<lambda>(r, s). if r < 0 then Some (Inl r, s) else Option.bind (put32 (fslot (lmem s1) ?F i) (of_int r) s)
           (\<lambda>s. Option.bind (get32 s (fslot (lmem s1) ?F i)) (\<lambda>b. Some (Inr b, s))))"
        using z by (auto simp: file_map_block_def w(1) g1 split: Option.bind_split prod.split)
      have err: thesis if a: "alloc_block s1 = Some (e, s2)" "unchanged s1 s2" "\<And>x. cached s2 x = cached s1 x"
          "e \<in> {- E_NO_DISK, - E_NO_MEM}" for e s2
      proof -
        have "e < 0" using a(4) by (auto simp: errno)
        have f: "file_ok s2 fb off" by (rule file_ok_unchanged(1) [OF p(4) a(2)])
        have u: "grows s1 s2" "free_set s2 = free_set s1" "same_data {} s1 s2" using a(2) by (auto simp: unchanged_def)
        have "clean s2" using c1(1) a(3) u(2) by (simp add: clean_def)
        moreover have "same_data ({fb, ind (lmem s) ?F} \<union> free_set s) s s2"
          using p(1) u(3) p(2) same_data_comp unfolding map_step_def by blast
        ultimately have "map_step fb off s s2"
          unfolding map_step_def using grows_trans [OF p(2) u(1)] f u(2) c1 by simp
        then show thesis
          using failed [of e s2] m a(1,4) \<open>e < 0\<close> True file_ok_unchanged(3) [OF p(4) a(2)] p(6) by simp
      qed
      show thesis
      proof (rule alloc_block_spec [OF p(3)])
        fix s2 assume "alloc_block s1 = Some (- E_NO_DISK, s2)" "unchanged s1 s2" "\<And>x. cached s2 x = cached s1 x"
        then show thesis by (rule err) simp
      next
        fix s2 assume "alloc_block s1 = Some (- E_NO_MEM, s2)" "unchanged s1 s2" "\<And>x. cached s2 x = cached s1 x"
        then show thesis by (rule err) simp
      next
        fix b s2 assume a: "alloc_block s1 = Some (int b, s2)" "allocated b s1 s2"
        have al: "b \<in> free_set s1" using a(2) unfolding allocated_def by blast
        note d = free_data [OF p(3) al]
        obtain s3 where s3: "put32 (fslot (lmem s1) ?F i) (of_nat b) s2 = Some s3"
          "get32 s3 (fslot (lmem s1) ?F i) = Some (of_nat b)" "grows s1 s3" "file_ok s3 fb off"
          "free_set s3 = free_set s1 - {b}" "clean s3" "same_data {b, fb, ind (lmem s1) ?F} s1 s3"
          "\<And>j. j < 1024 \<Longrightarrow> fblock (lmem s3) ?F j = (if j = i then b else fblock (lmem s1) ?F j)"
          by (rule new_block_step [OF p(4,3) c1(1) p(5) a(2)]) blast
        have res: "file_map_block ?F i True s = Some (Inr (of_nat b), s3)" using m a(1) s3(1,2) by simp
        have st: "map_step fb off s s3"
          unfolding map_step_def
        proof (intro conjI impI)
          show "grows s s3" by (rule grows_trans [OF p(2) s3(3)])
          show "file_ok s3 fb off" "clean s3" by (rule s3)+
          show "free_set s3 \<subseteq> free_set s" using s3(5) c1(2) by auto
          have "same_data ({fb, ind (lmem s) ?F} \<union> free_set s) s s1" using p(1) by (simp add: map_step_def)
          then show "same_data ({fb, ind (lmem s) ?F} \<union> free_set s) s s3"
            by (rule same_data_comp [OF _ s3(7)]) (use p(2,7) al c1(2) in auto)
        qed
        show thesis
          by (rule found [OF res st]) (use d unat_block(1) [OF d(1) p(3)] True al c1(2) s3(5,8) grows_data [OF s3(3)] p(6) in auto)
      qed
    qed
  qed
qed

section \<open>Clearing\<close>

text \<open>A pointer set to 0 after its block was marked free.\<close>

lemma file_ok_release:
  assumes "file_ok s fb off" "grows s s'" "free_set s' = insert (fblock (lmem s) (at fb off) i) (free_set s)"
    "i < 1024" "fblock (lmem s) (at fb off) i \<noteq> 0"
    and I: "ind (lmem s') (at fb off) = ind (lmem s) (at fb off)"
    and B: "\<And>j. j < 1024 \<Longrightarrow> fblock (lmem s') (at fb off) j = (if j = i then 0 else fblock (lmem s) (at fb off) j)"
  shows "file_ok s' fb off"
proof -
  let ?F = "at fb off" and ?b = "fblock (lmem s) (at fb off) i"
  note ok = file_okD [OF assms(1)]
  note own = ok(7) [OF fblock_owned [OF assms(4,5)]]
  have inj: "inj_on (fblock (lmem s) ?F) {i. i < 1024 \<and> fblock (lmem s) ?F i \<noteq> 0}"
    using assms(1) by (simp add: file_ok_def)
  have ni: "?b \<noteq> ind (lmem s) ?F" using assms(1,4,5) by (simp add: file_ok_def)
  show ?thesis
    unfolding file_ok_def I
  proof (intro conjI ballI allI impI)
    show "file_at s' fb off"
      using ok(1) own grows_data [OF assms(2)] grows_cached [OF assms(2)] assms(3) by (auto simp: file_at_def)
    show "inj_on (fblock (lmem s') ?F) {i. i < 1024 \<and> fblock (lmem s') ?F i \<noteq> 0}"
    proof (rule inj_onI)
      fix x y assume x: "x \<in> {i. i < 1024 \<and> fblock (lmem s') ?F i \<noteq> 0}"
        and y: "y \<in> {i. i < 1024 \<and> fblock (lmem s') ?F i \<noteq> 0}" and e: "fblock (lmem s') ?F x = fblock (lmem s') ?F y"
      show "x = y" using x y e inj_onD [OF inj, of x y] by (auto simp: B split: if_splits)
    qed
    fix k assume k: "k < 1024" "fblock (lmem s') ?F k \<noteq> 0"
    show "fblock (lmem s') ?F k \<noteq> ind (lmem s) ?F"
      using k B [OF k(1)] assms(1) by (auto simp: file_ok_def split: if_splits)
  next
    fix x assume x: "x \<in> owns (lmem s') ?F"
    then have xo: "x \<in> owns (lmem s) ?F" unfolding owns_def I by (auto simp: B image_iff split: if_splits)
    have "x \<noteq> ?b"
    proof
      assume e: "x = ?b"
      with x ni obtain k where k: "k < 1024" "k \<noteq> i" "fblock (lmem s) ?F k = ?b"
        unfolding owns_def I by (auto simp: B image_iff split: if_splits)
      then have "k = i" using inj_onD [OF inj, of k i] assms(4,5) by simp
      with k(2) show False by simp
    qed
    then show "data s' x" "x \<noteq> 1" "x \<notin> free_set s'" "x \<noteq> fb"
      using ok(7) [OF xo] by (auto simp: grows_data [OF assms(2)] assms(3))
  qed
qed

lemma free_block_spec:
  assumes "fs_ok s" "data s b" "b \<noteq> 1"
  obtains s' where "free_block (of_nat b) s = Some s'" "grows s s'" "free_set s' = insert b (free_set s)"
    "same_data {} s s'" "\<And>x. cached s' x = cached s x"
proof -
  note u = unat_block [OF assms(2,1)]
  have b: "b < nblk s" "nbitmap s + 2 \<le> b" using assms(2,3) by (auto simp: data_def)
  have nz: "(of_nat b :: u32) \<noteq> 0" using u(1) b(2) by auto
  show thesis
  proof (rule that [of "marked True b s"])
    show "free_block (of_nat b) s = Some (marked True b s)" using free_block_eq [OF assms(1), of "of_nat b"] nz u b by simp
    show "grows s (marked True b s)" by (rule grows_marked [OF assms(1) b(1)]) (rule b(2))
    show "free_set (marked True b s) = insert b (free_set s)" using free_set_marked [OF assms(1) b(1), of True] b(2) by simp
    show "same_data {} s (marked True b s)" by (rule same_data_marked [OF assms(1) b(1)])
  qed simp
qed

text \<open>What \<^verbatim>\<open>file_clear_block\<close> does when the slot can be reached.\<close>

definition cleared :: "nat \<Rightarrow> nat \<Rightarrow> nat set \<Rightarrow> fsstate \<Rightarrow> fsstate \<Rightarrow> bool" where
  "cleared fb off I s s' \<longleftrightarrow> grows s s' \<and> file_ok s' fb off \<and> ind (lmem s') (at fb off) = ind (lmem s) (at fb off)
     \<and> (\<forall>j<1024. fblock (lmem s') (at fb off) j = (if j \<in> I then 0 else fblock (lmem s) (at fb off) j))
     \<and> free_set s' = free_set s \<union> {b. b \<noteq> 0 \<and> b \<in> fblock (lmem s) (at fb off) ` I}
     \<and> same_data {fb, ind (lmem s) (at fb off)} s s'"

lemma clear_slot:
  assumes "file_ok s fb off" "fs_ok s" "slot_ready s fb off i"
  obtains s' where "(do { b \<leftarrow> get32 s (fslot (lmem s) (at fb off) i);
        s \<leftarrow> (if b \<noteq> 0 then do { s' \<leftarrow> free_block b s; put32 (fslot (lmem s) (at fb off) i) 0 s' } else Some s);
        Some (0 :: int, s) }) = Some (0, s')" "cleared fb off {i} s s'"
proof -
  let ?F = "at fb off" and ?b = "fblock (lmem s) (at fb off) i"
  have i: "i < 1024" using assms(3) by (simp add: slot_ready_def)
  note g = get32_slot [OF assms]
  have bw: "(of_nat ?b :: u32) = 0 \<longleftrightarrow> ?b = 0" by (simp add: fblock_def fld_0_iff)
  show thesis
  proof (cases "?b = 0")
    case True
    have "cleared fb off {i} s s" using True assms(1,2) by (auto simp: cleared_def grows_refl)
    then show thesis using that [of s] g True by simp
  next
    case False
    note own = file_okD(7) [OF assms(1) fblock_owned [OF i False]]
    obtain s1 where s1: "free_block (of_nat ?b) s = Some s1" "grows s s1" "free_set s1 = insert ?b (free_set s)"
      "same_data {} s s1" "\<And>x. cached s1 x = cached s x"
      by (rule free_block_spec [OF assms(2), of ?b]) (use own in blast)+
    have pc: "ind (lmem s1) ?F = ind (lmem s) ?F" "\<And>j. j < 1024 \<Longrightarrow> fblock (lmem s1) ?F j = fblock (lmem s) ?F j"
      by (rule pointers_cong [OF s1(4) assms(1)]; simp)+
    obtain c n where c: "fslot (lmem s) ?F i = at c n" "data s c" "cached s (of_nat c)" "n + 4 \<le> 4096"
      "c = 1 \<longrightarrow> 8 \<le> n" "c = (if i < 10 then fb else ind (lmem s) ?F)" "c < max_blocks"
      by (rule slot_ready_place [OF assms])
    have ok1: "fs_ok s1" using s1(2) by (simp add: grows_def)
    have d1: "data s1 c" "cached s1 (of_nat c)" using c(2,3) grows_data [OF s1(2)] s1(5) by simp_all
    obtain s2 where s2: "put32 (at c n) 0 s1 = Some s2" "lmem s2 = store_le 4 (lmem s1) (at c n) (ucast (0 :: u32))"
      "grows s1 s2" "free_set s2 = free_set s1" "same_data {c} s1 s2"
      by (rule put32_block [OF ok1 d1 c(4), of 0]) (use c(5) in blast)+
    have pl: "placed (lmem s1) fb off" using file_ok_placed [OF assms(1,2)] by (simp add: placed_def pc(1))
    have sl: "at c n = fslot (lmem s1) ?F i" by (simp only: c(1) [symmetric] fslot_def pc(1))
    have si: "i < 10 \<or> ind (lmem s1) ?F \<noteq> 0" using assms(3) pc(1) by (auto simp: slot_ready_def)
    note fs = fblock_store [OF pl i si s2(2) [unfolded sl]]
    have same: "ind (lmem s2) ?F = ind (lmem s) ?F"
      "\<And>j. j < 1024 \<Longrightarrow> fblock (lmem s2) ?F j = (if j = i then 0 else fblock (lmem s) ?F j)"
      using fs pc by simp_all
    have g2: "grows s s2" by (rule grows_trans [OF s1(2) s2(3)])
    have f2: "file_ok s2 fb off"
      by (rule file_ok_release [OF assms(1) g2 _ i False same]) (use s2(4) s1(3) in simp_all)
    have "cleared fb off {i} s s2"
      unfolding cleared_def
      using g2 f2 same s2(4) s1(3) False same_data_comp [OF s1(4) s2(5) s1(2), of "{fb, ind (lmem s) ?F}"] c(6) by auto
    then show thesis using that [of s2] g False bw s1(1) s2(1) c(1) by simp
  qed
qed

lemma cleared_unchanged:
  assumes "file_ok s fb off" "unchanged s s1" "cleared fb off I s1 s2" "I \<subseteq> {..<1024}"
  shows "cleared fb off I s s2"
proof -
  let ?F = "at fb off"
  have u: "grows s s1" "free_set s1 = free_set s" "same_data {} s s1" using assms(2) by (auto simp: unchanged_def)
  note fu = file_ok_unchanged [OF assms(1,2)]
  have c: "grows s1 s2" "file_ok s2 fb off" "ind (lmem s2) ?F = ind (lmem s1) ?F"
    "\<And>j. j < 1024 \<Longrightarrow> fblock (lmem s2) ?F j = (if j \<in> I then 0 else fblock (lmem s1) ?F j)"
    "free_set s2 = free_set s1 \<union> {b. b \<noteq> 0 \<and> b \<in> fblock (lmem s1) ?F ` I}"
    "same_data {fb, ind (lmem s1) ?F} s1 s2"
    using assms(3) unfolding cleared_def by blast+
  have im: "fblock (lmem s1) ?F ` I = fblock (lmem s) ?F ` I" by (rule image_cong) (use fu(3) assms(4) in auto)
  have sd: "same_data {fb, ind (lmem s) ?F} s s2" by (rule same_data_comp [OF u(3) c(6) u(1)]) (use fu(2) in simp)
  show ?thesis
    unfolding cleared_def
    using grows_trans [OF u(1) c(1)] c(2-5) sd u(2) fu(2,3) unfolding im by simp
qed

lemma cleared_trans:
  assumes "cleared fb off I s s1" "cleared fb off J s1 s2" "I \<subseteq> {..<1024}" "J \<subseteq> {..<1024}"
  shows "cleared fb off (I \<union> J) s s2"
proof -
  let ?F = "at fb off"
  have a: "grows s s1" "ind (lmem s1) ?F = ind (lmem s) ?F"
    "\<And>j. j < 1024 \<Longrightarrow> fblock (lmem s1) ?F j = (if j \<in> I then 0 else fblock (lmem s) ?F j)"
    "free_set s1 = free_set s \<union> {b. b \<noteq> 0 \<and> b \<in> fblock (lmem s) ?F ` I}"
    "same_data {fb, ind (lmem s) ?F} s s1"
    using assms(1) unfolding cleared_def by blast+
  have c: "grows s1 s2" "file_ok s2 fb off" "ind (lmem s2) ?F = ind (lmem s1) ?F"
    "\<And>j. j < 1024 \<Longrightarrow> fblock (lmem s2) ?F j = (if j \<in> J then 0 else fblock (lmem s1) ?F j)"
    "free_set s2 = free_set s1 \<union> {b. b \<noteq> 0 \<and> b \<in> fblock (lmem s1) ?F ` J}"
    "same_data {fb, ind (lmem s1) ?F} s1 s2"
    using assms(2) unfolding cleared_def by blast+
  have "{b. b \<noteq> 0 \<and> b \<in> fblock (lmem s1) ?F ` J} = {b. b \<noteq> 0 \<and> b \<in> fblock (lmem s) ?F ` (J - I)}"
    using assms(4) a(3) by (force simp: image_iff)
  then have fr: "free_set s2 = free_set s \<union> {b. b \<noteq> 0 \<and> b \<in> fblock (lmem s) ?F ` (I \<union> J)}"
    unfolding c(5) a(4) by auto
  have sd: "same_data {fb, ind (lmem s) ?F} s s2" by (rule same_data_comp [OF a(5) c(6) a(1)]) (use a(2) in simp)
  show ?thesis
    unfolding cleared_def using grows_trans [OF a(1) c(1)] c(2-4) a(2,3) fr sd by simp
qed

text \<open>The outcomes of \<^verbatim>\<open>file_clear_block\<close>.\<close>

lemma file_clear_block_spec:
  assumes "file_ok s fb off" "fs_ok s" "i < 1024"
  obtains s' where "file_clear_block (at fb off) i s = Some (0, s')" "cleared fb off {i} s s'"
  | "file_clear_block (at fb off) i s = Some (- E_NOT_FOUND, s)" "10 \<le> i" "ind (lmem s) (at fb off) = 0"
  | s' where "file_clear_block (at fb off) i s = Some (- E_NO_MEM, s')" "unchanged s s'"
      "10 \<le> i" "\<not> slot_ready s fb off i"
proof -
  let ?F = "at fb off"
  note ok = that(1) and notfound = that(2) and nomem = that(3)
  have clear: thesis if w: "file_block_walk ?F i False s = Some (Inr (fslot (lmem s1) ?F i), s1)"
      "walk_post fb off i s s1" "unchanged s s1" for s1
  proof -
    note p = walk_postD [OF w(2) assms(3)]
    obtain s' where c: "(do { b \<leftarrow> get32 s1 (fslot (lmem s1) ?F i);
        s \<leftarrow> (if b \<noteq> 0 then do { s' \<leftarrow> free_block b s1; put32 (fslot (lmem s1) ?F i) 0 s' } else Some s1);
        Some (0 :: int, s) }) = Some (0, s')" "cleared fb off {i} s1 s'"
      by (rule clear_slot [OF p(4,3,5)])
    have "file_clear_block ?F i s = Some (0, s')" using c(1) by (simp only: file_clear_block_def w(1)) simp
    then show thesis by (rule ok) (rule cleared_unchanged [OF assms(1) w(3) c(2)], use assms(3) in simp)
  qed
  consider "i < 10" | "10 \<le> i" "ind (lmem s) ?F = 0" | "10 \<le> i" "ind (lmem s) ?F \<noteq> 0" by linarith
  then show thesis
  proof cases
    case 1
    have "unchanged s s" using assms(2) by (simp add: unchanged_def grows_refl)
    with walk_direct [OF assms(1,2) 1] show thesis by (rule clear)
  next
    case 2
    have "file_block_walk ?F i False s = Some (Inl (- E_NOT_FOUND), s)"
      using 2 assms(3) by (simp add: file_block_walk_def NDIRECT_def NINDIRECT_def BLOCK_SIZE_def get32_ind [OF assms(1,2)] errno)
    then show thesis using notfound 2 by (simp add: file_clear_block_def)
  next
    case 3
    show thesis
    proof (cases "cached s (of_nat (ind (lmem s) ?F))")
      case True
      show thesis
      proof (rule walk_indirect [OF assms(1,2) 3(1) assms(3) 3(2), of False])
        fix s' assume w: "file_block_walk ?F i False s = Some (Inl (- E_NO_MEM), s')"
        note own = file_okD(7) [OF assms(1) ind_owned [OF 3(2)]]
        have "read_block (of_nat (ind (lmem s) ?F)) s = Some (Inr (disk_addr (of_nat (ind (lmem s) ?F)), 0), s)"
          using own True unat_block(1) [OF conjunct1 [OF own] assms(2)]
          by (simp add: read_block_eq [OF assms(2)]) (simp add: data_def free_set_def)
        then have False
          using w 3 assms(3)
          by (simp add: file_block_walk_def NDIRECT_def NINDIRECT_def BLOCK_SIZE_def get32_ind [OF assms(1,2)] ind_word_0)
        then show thesis ..
      qed (rule clear)
    next
      case False
      show thesis
      proof (rule walk_indirect [OF assms(1,2) 3(1) assms(3) 3(2), of False])
        fix s' assume w: "file_block_walk ?F i False s = Some (Inl (- E_NO_MEM), s')" "unchanged s s'"
        have "\<not> slot_ready s fb off i" using False 3(1) by (simp add: slot_ready_def)
        then show thesis using nomem [of s'] w 3(1) by (simp add: file_clear_block_def)
      qed (rule clear)
    qed
  qed
qed

lemma clear_range:
  assumes "file_ok s fb off" "fs_ok s" "\<forall>i\<in>set is. slot_ready s fb off i"
  obtains s' where "for_each is (clear_or_panic (at fb off)) s = Some s'" "cleared fb off (set is) s s'"
  using assms
proof (induction "is" arbitrary: s thesis)
  case Nil
  then have "cleared fb off (set []) s s" by (simp add: cleared_def grows_refl)
  then show ?case using Nil.prems(1) by simp
next
  case (Cons i js)
  have i: "i < 1024" "slot_ready s fb off i" and js: "set js \<subseteq> {..<1024}" using Cons.prems(4) by (auto simp: slot_ready_def)
  obtain s1 where s1: "file_clear_block (at fb off) i s = Some (0, s1)" "cleared fb off {i} s s1"
    by (rule file_clear_block_spec [OF Cons.prems(2,3) i(1)]) (use i(2) in \<open>auto simp: slot_ready_def\<close>)
  have g: "grows s s1" "file_ok s1 fb off" "ind (lmem s1) (at fb off) = ind (lmem s) (at fb off)"
    using s1(2) by (auto simp: cleared_def)
  have "\<forall>j\<in>set js. slot_ready s1 fb off j" using Cons.prems(4) slot_ready_cong [OF _ g(1,3)] by simp
  from Cons.IH [OF _ g(2) _ this] g(1) obtain s2 where
    s2: "for_each js (clear_or_panic (at fb off)) s1 = Some s2" "cleared fb off (set js) s1 s2"
    by (auto simp: grows_def)
  have "cleared fb off ({i} \<union> set js) s s2" by (rule cleared_trans [OF s1(2) s2(2)]) (use i js in auto)
  moreover have "clear_or_panic (at fb off) i s = Some s1" by (simp add: clear_or_panic_def user_assert_def s1(1))
  ultimately show ?case using Cons.prems(1) s2(1) by simp
qed

section \<open>Truncation\<close>

lemma release_indirect:
  assumes "file_ok s fb off" "fs_ok s" "ind (lmem s) (at fb off) \<noteq> 0"
    "\<And>j. 10 \<le> j \<Longrightarrow> j < 1024 \<Longrightarrow> fblock (lmem s) (at fb off) j = 0"
  obtains s' where "Option.bind (free_block (of_nat (ind (lmem s) (at fb off))) s) (put32 (f_indirect (at fb off)) 0) = Some s'"
    "grows s s'" "file_ok s' fb off" "ind (lmem s') (at fb off) = 0"
    "\<And>j. j < 1024 \<Longrightarrow> fblock (lmem s') (at fb off) j = fblock (lmem s) (at fb off) j"
    "free_set s' = insert (ind (lmem s) (at fb off)) (free_set s)" "same_data {fb} s s'"
proof -
  let ?F = "at fb off" and ?i = "ind (lmem s) (at fb off)"
  note ok = file_okD [OF assms(1)]
  note own = ok(7) [OF ind_owned [OF assms(3)]]
  obtain s1 where s1: "free_block (of_nat ?i) s = Some s1" "grows s s1" "free_set s1 = insert ?i (free_set s)"
    "same_data {} s s1" "\<And>x. cached s1 x = cached s x"
    by (rule free_block_spec [OF assms(2), of ?i]) (use own in blast)+
  have pc: "ind (lmem s1) ?F = ?i" "\<And>j. j < 1024 \<Longrightarrow> fblock (lmem s1) ?F j = fblock (lmem s) ?F j"
    by (rule pointers_cong [OF s1(4) assms(1)]; simp)+
  have ok1: "fs_ok s1" using s1(2) by (simp add: grows_def)
  have d1: "data s1 fb" "cached s1 (of_nat fb)" using ok(2,3) grows_data [OF s1(2)] s1(5) by simp_all
  obtain s2 where s2: "put32 (at fb (off + 176)) 0 s1 = Some s2"
    "lmem s2 = store_le 4 (lmem s1) (at fb (off + 176)) (ucast (0 :: u32))"
    "grows s1 s2" "free_set s2 = free_set s1" "same_data {fb} s1 s2"
    by (rule put32_block [OF ok1 d1, of "off + 176" 0]) (use ok(5,6) in auto)
  have pl: "placed (lmem s1) fb off" using file_ok_placed [OF assms(1,2)] by (simp add: placed_def pc(1))
  note fs = fblock_store_ind [OF pl s2(2) [folded file_fields(2)]]
  have I: "ind (lmem s2) ?F = 0" using fs(1) by simp
  have B: "fblock (lmem s2) ?F j = fblock (lmem s) ?F j" if "j < 1024" for j
    using fs(2) pc(2) [OF that] assms(4) [OF _ that] I by (cases "j < 10") (auto simp: fblock_def)
  have g: "grows s s2" by (rule grows_trans [OF s1(2) s2(3)])
  have inj: "inj_on (fblock (lmem s2) ?F) {i. i < 1024 \<and> fblock (lmem s2) ?F i \<noteq> 0}"
  proof -
    have "{i. i < 1024 \<and> fblock (lmem s2) ?F i \<noteq> 0} = {i. i < 1024 \<and> fblock (lmem s) ?F i \<noteq> 0}" using B by auto
    moreover have "inj_on (fblock (lmem s2) ?F) {i. i < 1024 \<and> fblock (lmem s) ?F i \<noteq> 0}"
      by (subst inj_on_cong [of _ _ "fblock (lmem s) ?F"]) (use B assms(1) in \<open>auto simp: file_ok_def\<close>)
    ultimately show ?thesis by simp
  qed
  have f2: "file_ok s2 fb off"
    unfolding file_ok_def
  proof (intro conjI ballI allI impI)
    show "file_at s2 fb off" using ok(1) own grows_data [OF g] grows_cached [OF g] s2(4) s1(3) by (auto simp: file_at_def)
    show "fblock (lmem s2) ?F k \<noteq> ind (lmem s2) ?F" if "fblock (lmem s2) ?F k \<noteq> 0" for k using that I by simp
  next
    fix x assume "x \<in> owns (lmem s2) ?F"
    then obtain k where k: "k < 1024" "x = fblock (lmem s) ?F k" "x \<noteq> 0" unfolding owns_def I by (auto simp: B)
    then have "x \<noteq> ?i" using assms(1) by (auto simp: file_ok_def)
    with ok(7) [of x] k fblock_owned show "data s2 x" "x \<noteq> 1" "x \<notin> free_set s2" "x \<noteq> fb"
      by (auto simp: grows_data [OF g] s2(4) s1(3))
  qed (rule inj)
  show thesis
    by (rule that [of s2]) (use s1(1,3) s2(1,4) g f2 I B same_data_comp [OF s1(4) s2(5) s1(2)] in \<open>simp_all add: file_fields(2)\<close>)
qed

lemma nblocks_of_eq: "nblocks_of sz = (unat sz + 4095) div 4096"
proof -
  have lt: "unat sz < 2 ^ LENGTH(32)" by (rule unsigned_less)
  have e: "ROUND (ucast sz) (of_nat BLOCK_SIZE) = (ucast sz + 4095) AND NOT (mask 12)"
    by (simp add: ROUND_def BLOCK_SIZE_def mask_eq_exp_minus_1 add.commute)
  have "uvpn (w AND NOT (mask 12)) = uvpn w" for w
    unfolding uvpn_def by (rule bit_word_eqI) (auto simp: bit_simps dest: bit_imp_le_length)
  then have "unat (ROUND (ucast sz) (of_nat BLOCK_SIZE)) div 4096 = unat (ucast sz + 4095 :: u64) div 4096"
    unfolding e by (metis unat_uvpn)
  moreover have "unat (ucast sz + 4095 :: u64) = unat sz + 4095"
    using lt by (subst unat_add_lem [THEN iffD1]) (simp_all add: unsigned_ucast_eq take_bit_nat_eq_self)
  ultimately show ?thesis by (simp add: nblocks_of_def BLOCK_SIZE_def)
qed

text \<open>Setting the size field.\<close>

lemma put_size:
  assumes "file_ok s fb off" "fs_ok s"
  obtains s' where "put32 (f_size (at fb off)) v s = Some s'" "grows s s'" "file_ok s' fb off" "free_set s' = free_set s"
    "ind (lmem s') (at fb off) = ind (lmem s) (at fb off)" "same_data {fb} s s'"
    "\<And>j. j < 1024 \<Longrightarrow> fblock (lmem s') (at fb off) j = fblock (lmem s) (at fb off) j"
    "fld (lmem s') (f_size (at fb off)) = unat v"
proof -
  note ok = file_okD [OF assms(1)]
  obtain s' where s': "put32 (at fb (off + 128)) v s = Some s'"
    "lmem s' = store_le 4 (lmem s) (at fb (off + 128)) (ucast v)" "grows s s'" "free_set s' = free_set s" "same_data {fb} s s'"
    by (rule put32_block [OF assms(2) ok(2,3), of "off + 128" v]) (use ok(5,6) in auto)
  note ps = pointers_store_size [OF file_ok_placed [OF assms] s'(2) [folded file_fields(3)]]
  have "file_ok s' fb off" by (rule file_ok_cong [OF assms(1) s'(3) _ ps]) (use s'(4) in simp_all)
  then show thesis
    using that [of s'] s' ps by (simp add: file_fields(3) [symmetric] fld_store_same del: of_nat_add)
qed

text \<open>The size field, and what a consistent file promises about it.\<close>

definition fsize :: "memory \<Rightarrow> u64 \<Rightarrow> nat" where "fsize m f = fld m (f_size f)"

definition sized :: "fsstate \<Rightarrow> nat \<Rightarrow> nat \<Rightarrow> bool" where
  "sized s fb off \<longleftrightarrow> (let n = (fsize (lmem s) (at fb off) + 4095) div 4096 in
     (\<forall>i<n. slot_ready s fb off i) \<and> (\<forall>i. n \<le> i \<longrightarrow> i < 1024 \<longrightarrow> fblock (lmem s) (at fb off) i = 0))"

lemma get32_size:
  assumes "file_ok s fb off" "fs_ok s"
  shows "get32 s (f_size (at fb off)) = Some (of_nat (fsize (lmem s) (at fb off)))"
proof -
  note ok = file_okD [OF assms(1)]
  show ?thesis unfolding fsize_def file_fields
    by (rule get32_block [OF unat_block(2) [OF ok(2) assms(2)] ok(3)]) (use ok(5) in simp)
qed

text \<open>The second step of \<^verbatim>\<open>file_truncate\<close>, with or without indirect block to release.\<close>

lemma truncate_indirect:
  assumes "file_ok s fb off" "fs_ok s" "n \<le> 10 \<Longrightarrow> \<forall>j. 10 \<le> j \<longrightarrow> j < 1024 \<longrightarrow> fblock (lmem s) (at fb off) j = 0"
  obtains s' where "(if n \<le> NDIRECT
       then do { ind \<leftarrow> get32 s (f_indirect (at fb off));
                 if ind \<noteq> 0 then do { s \<leftarrow> free_block ind s; put32 (f_indirect (at fb off)) 0 s } else Some s }
       else Some s) = Some s'"
    "grows s s'" "file_ok s' fb off" "ind (lmem s') (at fb off) = (if n \<le> 10 then 0 else ind (lmem s) (at fb off))"
    "\<And>j. j < 1024 \<Longrightarrow> fblock (lmem s') (at fb off) j = fblock (lmem s) (at fb off) j"
    "free_set s' = free_set s \<union> (if n \<le> 10 then {ind (lmem s) (at fb off)} - {0} else {})" "same_data {fb} s s'"
proof (cases "n \<le> 10 \<and> ind (lmem s) (at fb off) \<noteq> 0")
  case True
  have z: "\<And>j. 10 \<le> j \<Longrightarrow> j < 1024 \<Longrightarrow> fblock (lmem s) (at fb off) j = 0" using assms(3) True by blast
  obtain s' where "Option.bind (free_block (of_nat (ind (lmem s) (at fb off))) s) (put32 (f_indirect (at fb off)) 0) = Some s'"
    "grows s s'" "file_ok s' fb off" "ind (lmem s') (at fb off) = 0"
    "\<And>j. j < 1024 \<Longrightarrow> fblock (lmem s') (at fb off) j = fblock (lmem s) (at fb off) j"
    "free_set s' = insert (ind (lmem s) (at fb off)) (free_set s)" "same_data {fb} s s'"
    by (rule release_indirect [OF assms(1,2) _ z]) (use True in blast)+
  with True show thesis
    by (intro that [of s']) (simp_all add: NDIRECT_def get32_ind [OF assms(1,2)] ind_word_0)
next
  case False
  then show thesis
    using that [of s] assms(1,2) by (auto simp: NDIRECT_def get32_ind [OF assms(1,2)] grows_refl)
qed

lemma file_truncate_spec:
  assumes "file_ok s fb off" "fs_ok s" "sized s fb off"
    and n: "n = (unat newsize + 4095) div 4096"
  obtains s' where "file_truncate (at fb off) newsize s = Some s'" "grows s s'" "file_ok s' fb off"
    "fsize (lmem s') (at fb off) = unat newsize"
    "\<And>j. j < 1024 \<Longrightarrow> fblock (lmem s') (at fb off) j = (if j < n then fblock (lmem s) (at fb off) j else 0)"
    "free_set s' = free_set s \<union> (fblock (lmem s) (at fb off) ` {n..<1024} - {0})
       \<union> (if n \<le> 10 then {ind (lmem s) (at fb off)} - {0} else {})"
    "same_data {fb, ind (lmem s) (at fb off)} s s'"
proof -
  let ?F = "at fb off"
  define old where "old = (fsize (lmem s) ?F + 4095) div 4096"
  have so: "\<forall>i<old. slot_ready s fb off i" "\<And>i. old \<le> i \<Longrightarrow> i < 1024 \<Longrightarrow> fblock (lmem s) ?F i = 0"
    using assms(3) by (auto simp: sized_def old_def Let_def)
  have o1: "i < 1024" if "i < old" for i using so(1) that by (simp add: slot_ready_def)
  have nn: "(if newsize = 0 then 0 else nblocks_of newsize) = n" "nblocks_of (of_nat (fsize (lmem s) ?F)) = old"
    by (simp_all add: nblocks_of_eq n old_def fsize_def)
  obtain s1 where s1: "for_each [n..<old] (clear_or_panic ?F) s = Some s1" "cleared fb off (set [n..<old]) s s1"
    by (rule clear_range [OF assms(1,2), of "[n..<old]"]) (use so(1) in auto)
  have c: "grows s s1" "file_ok s1 fb off" "ind (lmem s1) ?F = ind (lmem s) ?F"
    "\<And>j. j < 1024 \<Longrightarrow> fblock (lmem s1) ?F j = (if j \<in> {n..<old} then 0 else fblock (lmem s) ?F j)"
    "free_set s1 = free_set s \<union> {b. b \<noteq> 0 \<and> b \<in> fblock (lmem s) ?F ` {n..<old}}" "same_data {fb, ind (lmem s) ?F} s s1"
    using s1(2) unfolding cleared_def set_upt by blast+
  have B: "fblock (lmem s1) ?F j = (if j < n then fblock (lmem s) ?F j else 0)" if "j < 1024" for j
    using c(4) [OF that] so(2) [OF _ that] by (cases "j < old") auto
  have im: "{b. b \<noteq> 0 \<and> b \<in> fblock (lmem s) ?F ` {n..<old}} = fblock (lmem s) ?F ` {n..<1024} - {0}"
  proof (intro set_eqI iffI)
    fix b assume "b \<in> {b. b \<noteq> 0 \<and> b \<in> fblock (lmem s) ?F ` {n..<old}}"
    then obtain j where "n \<le> j" "j < old" "b = fblock (lmem s) ?F j" "b \<noteq> 0" by auto
    then show "b \<in> fblock (lmem s) ?F ` {n..<1024} - {0}" using o1 [of j] by auto
  next
    fix b assume "b \<in> fblock (lmem s) ?F ` {n..<1024} - {0}"
    then obtain j where j: "n \<le> j" "j < 1024" "b = fblock (lmem s) ?F j" "b \<noteq> 0" by auto
    then have "j < old" using so(2) [of j] by linarith
    with j show "b \<in> {b. b \<noteq> 0 \<and> b \<in> fblock (lmem s) ?F ` {n..<old}}" by auto
  qed
  have ok1: "fs_ok s1" using c(1) by (simp add: grows_def)
  obtain s2 where s2: "(if n \<le> NDIRECT
       then do { ind \<leftarrow> get32 s1 (f_indirect ?F);
                 if ind \<noteq> 0 then do { s \<leftarrow> free_block ind s1; put32 (f_indirect ?F) 0 s } else Some s1 }
       else Some s1) = Some s2"
    "grows s1 s2" "file_ok s2 fb off" "\<And>j. j < 1024 \<Longrightarrow> fblock (lmem s2) ?F j = fblock (lmem s1) ?F j"
    "free_set s2 = free_set s1 \<union> (if n \<le> 10 then {ind (lmem s1) ?F} - {0} else {})" "same_data {fb} s1 s2"
    by (rule truncate_indirect [OF c(2) ok1, of n]) (use B in auto)
  have ok2: "fs_ok s2" using s2(2) by (simp add: grows_def)
  obtain s3 where s3: "put32 (f_size ?F) newsize s2 = Some s3" "grows s2 s3" "file_ok s3 fb off" "free_set s3 = free_set s2"
    "same_data {fb} s2 s3" "\<And>j. j < 1024 \<Longrightarrow> fblock (lmem s3) ?F j = fblock (lmem s2) ?F j"
    "fld (lmem s3) (f_size ?F) = unat newsize"
    by (rule put_size [OF s2(3) ok2, of newsize]) blast
  have g: "grows s s3" by (meson c(1) s2(2) s3(2) grows_trans)
  have "same_data ({fb, ind (lmem s) ?F} \<union> {fb}) s s2" by (rule same_data_trans [OF c(6) s2(6) c(1)])
  then have sd: "same_data {fb, ind (lmem s) ?F} s s3"
    by (rule same_data_comp [OF _ s3(5)]) (use grows_trans [OF c(1) s2(2)] in auto)
  have "file_truncate ?F newsize s = Some s3"
    using s1(1) s2(1) s3(1) by (simp add: file_truncate_def get32_size [OF assms(1,2)] nn Let_def)
  then show thesis
    by (rule that [OF _ g s3(3)]) (use s3(4,6,7) s2(4,5) B c(3,5) im sd in \<open>auto simp: fsize_def\<close>)
qed

end
