(* ===== verification/FsDir.thy ===== *)
theory FsDir
  imports FsMap
begin

text \<open>
  Directories and paths of the file-system server: a lookup against the list of directory entries,
  and the walk along a path against the list of its components.
\<close>

section \<open>Directory entries\<close>

text \<open>The addresses of the entries in the first \<open>n\<close> blocks, and whether an entry has a given name.\<close>

definition dir_entries :: "fsstate \<Rightarrow> u64 \<Rightarrow> nat list \<Rightarrow> u64 list" where
  "dir_entries s dir is = concat (map (\<lambda>i. map (\<lambda>j. at (fblock (lmem s) dir i) (256 * j)) [0..<16]) is)"

definition has_name :: "fsstate \<Rightarrow> u8 list \<Rightarrow> u64 \<Rightarrow> bool" where
  "has_name s name f \<longleftrightarrow> umem s f \<noteq> 0 \<and> str_eq (umem s) f name"

text \<open>A directory whose blocks are all there and cached.\<close>

definition dir_cached :: "fsstate \<Rightarrow> nat \<Rightarrow> nat \<Rightarrow> nat \<Rightarrow> bool" where
  "dir_cached s fb off n \<longleftrightarrow> (\<forall>i<n. slot_ready s fb off i \<and> fblock (lmem s) (at fb off) i \<noteq> 0
     \<and> cached s (of_nat (fblock (lmem s) (at fb off) i)))"

lemma str_eq_cstr: "0 \<notin> set name \<Longrightarrow> str_eq m a name = cstr m a name"
  by (induction name arbitrary: a) auto

lemma walk_ready:
  assumes "file_ok s fb off" "fs_ok s" "slot_ready s fb off i"
  shows "file_block_walk (at fb off) i a s = Some (Inr (fslot (lmem s) (at fb off) i), s)"
proof (cases "i < 10")
  case True
  then show ?thesis by (rule walk_direct(1) [OF assms(1,2)])
next
  case False
  let ?i = "ind (lmem s) (at fb off)"
  have nz: "?i \<noteq> 0" and c: "cached s (of_nat ?i)" and i: "i < 1024" using assms(3) False by (auto simp: slot_ready_def)
  note own = file_okD(7) [OF assms(1) ind_owned [OF nz]]
  have "read_block (of_nat ?i) s = Some (Inr (disk_addr (of_nat ?i), 0), s)"
    using own c unat_block(1) [OF conjunct1 [OF own] assms(2)]
    by (simp add: read_block_eq [OF assms(2)]) (simp add: data_def free_set_def)
  then show ?thesis
    using False i nz
    by (simp add: file_block_walk_def NDIRECT_def NINDIRECT_def BLOCK_SIZE_def get32_ind [OF assms(1,2)] ind_word_0 fslot_def)
qed

lemma file_get_block_cached:
  assumes "file_ok s fb off" "fs_ok s" "dir_cached s fb off n" "i < n"
  shows "file_get_block (at fb off) i s = Some (Inr (disk_addr (of_nat (fblock (lmem s) (at fb off) i))), s)"
proof -
  let ?b = "fblock (lmem s) (at fb off) i"
  have r: "slot_ready s fb off i" and nz: "?b \<noteq> 0" and c: "cached s (of_nat ?b)"
    using assms(3,4) by (auto simp: dir_cached_def)
  have i: "i < 1024" using r by (simp add: slot_ready_def)
  note own = file_okD(7) [OF assms(1) fblock_owned [OF i nz]]
  have bw: "(of_nat ?b :: u32) \<noteq> 0" using nz by (simp add: fblock_def fld_0_iff split: if_splits)
  have "read_block (of_nat ?b) s = Some (Inr (disk_addr (of_nat ?b), 0), s)"
    using own c unat_block(1) [OF conjunct1 [OF own] assms(2)]
    by (simp add: read_block_eq [OF assms(2)]) (simp add: data_def free_set_def)
  then show ?thesis
    using bw by (simp add: file_get_block_def file_map_block_def walk_ready [OF assms(1,2) r] get32_slot [OF assms(1,2) r])
qed

lemma byte_0 [simp]: "(ucast (x :: u8) :: u64) = 0 \<longleftrightarrow> x = 0"
proof -
  have "unat x < 2 ^ LENGTH(8)" by (rule unsigned_less)
  then show ?thesis by (simp add: word_unat_eq_iff unsigned_ucast_eq take_bit_nat_eq_self)
qed

lemma find_entry_eq:
  assumes "b < max_blocks" "cached s (of_nat b)" "\<forall>j\<in>set js. j < 16"
  shows "find_entry js (disk_addr (of_nat b)) name s = Some (find (has_name s name) (map (\<lambda>j. at b (256 * j)) js))"
  using assms(3)
proof (induction js)
  case (Cons j js)
  have "256 * j < 4096" using Cons.prems by simp
  from mapped_at [OF assms(1) this, of s] assms(2) have "mapped s (at b (256 * j))" by simp
  with Cons show ?case
    by (auto simp: uload_def f_name_def FILE_STRUCT_SIZE_def has_name_def Let_def)
qed simp

lemma dir_lookup_blocks_eq:
  assumes "file_ok s fb off" "fs_ok s" "dir_cached s fb off n" "\<forall>i\<in>set is. i < n"
  shows "dir_lookup_blocks is (at fb off) name s =
    (case find (has_name s name) (dir_entries s (at fb off) is) of
       None \<Rightarrow> Some (Inl (- E_NOT_FOUND), s)
     | Some f \<Rightarrow> map_option (\<lambda>s. (Inr f, s)) (ustore 8 (f_dir f) (at fb off) s))"
  using assms(4)
proof (induction "is")
  case Nil
  then show ?case by (simp add: dir_entries_def)
next
  case (Cons i js)
  let ?b = "fblock (lmem s) (at fb off) i"
  have i: "i < n" using Cons.prems by simp
  then have r: "i < 1024" "?b \<noteq> 0" "cached s (of_nat ?b)" using assms(3) by (auto simp: dir_cached_def slot_ready_def)
  have b: "?b < max_blocks"
    using file_okD(7) [OF assms(1) fblock_owned [OF r(1,2)]] unat_block(2) [OF _ assms(2)] by blast
  define es where "es = map (\<lambda>j. at ?b (256 * j)) [0..<16]"
  have e: "find_entry [0..<FILE2BLK] (disk_addr (of_nat ?b)) name s = Some (find (has_name s name) es)"
    using find_entry_eq [OF b r(3), of "[0..<16]"]
    by (simp add: FILE2BLK_def BLOCK_SIZE_def FILE_STRUCT_SIZE_def es_def)
  have split: "find P (xs @ ys) = (case find P xs of None \<Rightarrow> find P ys | Some x \<Rightarrow> Some x)" for P and xs ys :: "u64 list"
    by (induction xs) auto
  have d: "dir_entries s (at fb off) (i # js) = es @ dir_entries s (at fb off) js"
    by (simp only: dir_entries_def list.map concat.simps es_def)
  show ?case
  proof (cases "find (has_name s name) es")
    case None
    with Cons show ?thesis by (simp add: file_get_block_cached [OF assms(1-3) i] e d split)
  next
    case (Some f)
    then show ?thesis
      by (simp add: file_get_block_cached [OF assms(1-3) i] e d split)
         (cases "ustore 8 (f_dir f) (at fb off) s", simp_all)
  qed
qed

section \<open>Path components\<close>

text \<open>The names between the slashes, without empty ones.\<close>

fun split_path :: "u8 list \<Rightarrow> u8 list \<Rightarrow> u8 list list" where
  "split_path acc [] = (if acc = [] then [] else [rev acc])"
| "split_path acc (c # cs) =
     (if c = slash then (if acc = [] then [] else [rev acc]) @ split_path [] cs else split_path (c # acc) cs)"

definition components :: "u8 list \<Rightarrow> u8 list list" where "components p = split_path [] p"

text \<open>The walk over a list of names.\<close>

fun walk_names :: "u8 list list \<Rightarrow> u64 \<Rightarrow> u64 \<Rightarrow> fsstate \<Rightarrow> (walk_result \<times> fsstate) option" where
  "walk_names [] dir fl s = Some ((0, dir, fl, None), s)"
| "walk_names (name # names) dir fl s =
     (if length name \<ge> MAXNAMELEN then Some ((- E_BAD_PATH, 0, 0, None), s)
      else do { t \<leftarrow> get32 s (f_type fl);
                if t \<noteq> FTYPE_DIR then Some ((- E_NOT_FOUND, 0, 0, None), s)
                else do { (r, s) \<leftarrow> dir_lookup fl name s;
                          (case r of
                             Inl e \<Rightarrow> Some (if e = - E_NOT_FOUND \<and> names = [] then (e, fl, 0, Some name)
                                            else (e, 0, 0, None), s)
                           | Inr fl2 \<Rightarrow> walk_names names fl fl2 s) } })"

lemma split_path_acc:
  "split_path acc p = (let (n, r) = next_component p in
     (if rev acc @ n = [] then [] else [rev acc @ n]) @ split_path [] (skip_slash r))"
proof (induction p arbitrary: acc)
  case (Cons c cs)
  show ?case
  proof (cases "c = slash")
    case True
    have "split_path [] (skip_slash cs) = split_path [] cs" by (induction cs) auto
    with True show ?thesis by simp
  next
    case False
    with Cons [of "c # acc"] show ?thesis by (simp add: split_beta Let_def)
  qed
qed simp

lemma components_step:
  assumes "p \<noteq> []" "hd p \<noteq> slash"
  shows "components p = fst (next_component p) # components (skip_slash (snd (next_component p)))"
  using assms split_path_acc [of "[]" p] by (cases p) (auto simp: components_def split_beta Let_def)

lemma components_skip: "components (skip_slash p) = components p"
  by (induction p) (auto simp: components_def)

lemma components_eq_Nil: "components (skip_slash p) = [] \<longleftrightarrow> skip_slash p = []"
proof (cases "skip_slash p = []")
  case False
  then have "hd (skip_slash p) \<noteq> slash" by (induction p) (auto split: if_splits)
  with False show ?thesis by (simp add: components_step)
qed (simp add: components_def)

lemma hd_skip_slash: "skip_slash p \<noteq> [] \<Longrightarrow> hd (skip_slash p) \<noteq> slash"
  by (induction p) (auto split: if_splits)

lemma walk_loop_names:
  "skip_slash p = p \<Longrightarrow> walk_loop p dir fl s = walk_names (components p) dir fl s"
proof (induction p dir fl s rule: walk_loop.induct)
  case (1 p dir fl s)
  show ?case
  proof (cases "p = []")
    case True
    then show ?thesis by (simp add: walk_loop.simps components_def)
  next
    case False
    let ?n = "fst (next_component p)" and ?r = "skip_slash (snd (next_component p))"
    have c: "components p = ?n # components ?r"
      using False hd_skip_slash [of p] "1.prems" by (intro components_step) auto
    have rr: "skip_slash ?r = ?r"
    proof -
      have "skip_slash (skip_slash q) = skip_slash q" for q by (induction q) auto
      then show ?thesis .
    qed
    have ih: "walk_loop ?r fl fl2 s' = walk_names (components ?r) fl fl2 s'"
      if "\<not> MAXNAMELEN \<le> length ?n" "get32 s (f_type fl) = Some FTYPE_DIR"
        "dir_lookup fl ?n s = Some (Inr fl2, s')" for fl2 s'
      using "1.IH" [OF False refl refl refl _ _ _ _ refl _ rr] that by fastforce
    show ?thesis
      using False ih unfolding c
      by (subst walk_loop.simps)
         (auto simp: Let_def components_eq_Nil split: Option.bind_split sum.split)
  qed
qed

end
