(* ===== verification/FsProps.thy ===== *)
theory FsProps
  imports FsDir
begin

text \<open>The properties of the file-system server, with a small mounted disk to apply them to.\<close>

section \<open>A sample disk\<close>

text \<open>
  Five blocks, the super block and the bitmap cached; \<open>m\<close> is the memory, \<open>P\<close> the pages mapped
  beside these two.
\<close>

definition sample_fs :: "memory \<Rightarrow> u64 set \<Rightarrow> fsstate" where
  "sample_fs m P = \<lparr>umem = m, upt = (\<lambda>v. if v \<in> {0x10001, 0x10002} \<union> P then Some (cache_flags OR PTE_DIRTY) else None),
     grants = [True, True], disk = (\<lambda>_. 0), super = disk_addr 1, bitmap = disk_addr 2\<rparr>"

text \<open>An empty root directory, blocks 3 and 4 free.\<close>

definition empty_mem :: memory where
  "empty_mem = (\<lambda>_. 0)(0x10001004 := 5, 0x10002000 := 24)"

text \<open>A root directory of one block, block 3; block 4 free.\<close>

definition root_mem :: memory where
  "root_mem = (\<lambda>_. 0)(0x10001004 := 5, 0x10002000 := 16, 0x10001089 := 16, 0x10001090 := 3)"

lemma disk_addr_numeral: "disk_addr 1 = 0x10001000" "disk_addr 2 = 0x10002000" "disk_addr 3 = 0x10003000" "disk_addr 4 = 0x10004000"
  by (simp_all add: disk_addr_def fsconst)

lemma sample_fs_mapped: "mapped (sample_fs m P) a \<longleftrightarrow> uvpn a \<in> {0x10001, 0x10002} \<union> P"
  by (simp add: mapped_def sample_fs_def)

lemma uvpn_numeral: "uvpn 0x10001000 = 0x10001" "uvpn 0x10002000 = 0x10002" "uvpn 0x10003000 = 0x10003" "uvpn 0x10004000 = 0x10004"
  by (simp_all add: uvpn_def)

lemma sample_nblk:
  assumes "m 0x10001004 = 5" "m 0x10001005 = 0" "m 0x10001006 = 0" "m 0x10001007 = 0"
  shows "nblk (sample_fs m P) = 5" "nbitmap (sample_fs m P) = 1"
proof -
  show "nblk (sample_fs m P) = 5"
    using assms by (simp add: nblk_def sample_fs_def disk_addr_numeral fsconst load4_byte)
  then show "nbitmap (sample_fs m P) = 1" by (simp add: nbitmap_def)
qed

lemma sample_free:
  assumes "m 0x10002001 = 0" "m 0x10002002 = 0" "m 0x10002003 = 0" "b < 5"
  shows "is_free (sample_fs m P) b \<longleftrightarrow> bit (m 0x10002000) b"
proof -
  have "bm_word b = 0x10002000" "b mod 32 = b" using assms(4) by (simp_all add: bm_word_def disk_addr_numeral)
  then show ?thesis
    using assms by (simp add: is_free_def sample_fs_def load4_byte bit_simps)
qed

lemma sample_ok:
  assumes "m 0x10001004 = 5" "m 0x10001005 = 0" "m 0x10001006 = 0" "m 0x10001007 = 0"
    "m 0x10002001 = 0" "m 0x10002002 = 0" "m 0x10002003 = 0" "\<not> bit (m 0x10002000) 0" "\<not> bit (m 0x10002000) 1" "\<not> bit (m 0x10002000) 2"
  shows "fs_ok (sample_fs m P)"
proof -
  note n = sample_nblk [OF assms(1-4)]
  have three: "b = 0 \<or> b = 1 \<or> b = 2" if "b < 3" for b :: nat using that by auto
  have "\<not> is_free (sample_fs m P) b" if "b < 3" for b
    using three [OF that] assms by (auto simp: sample_free)
  moreover have "cached (sample_fs m P) (of_nat b)" if "b < 3" "0 < b" for b
    using three [OF that(1)] that(2) by (auto simp: cached_def sample_fs_mapped disk_addr_numeral uvpn_numeral)
  ultimately show ?thesis
    unfolding fs_ok_def n by (auto simp: sample_fs_def)
qed

lemma empty_ok: "fs_ok (sample_fs empty_mem P)"
  by (rule sample_ok) (simp_all add: empty_mem_def)

lemma root_ok: "fs_ok (sample_fs root_mem P)"
  by (rule sample_ok) (simp_all add: root_mem_def)

lemma fld_zero: "(\<And>k. k < 4 \<Longrightarrow> m (a + of_nat k) = 0) \<Longrightarrow> fld m a = 0"
  using fld_cong [of "\<lambda>_. 0" a m] by (simp add: fld_def load4_byte)

text \<open>A memory that is zero behind offset \<open>n\<close> of the super block has no pointers there.\<close>

lemma fld_at_1:
  assumes "\<And>x. 0x10001000 + n0 \<le> unat x \<Longrightarrow> unat x < 0x10002000 \<Longrightarrow> m x = 0" "n0 \<le> n" "n + 4 \<le> 4096"
  shows "fld m (at 1 n) = 0"
proof (rule fld_zero)
  fix k :: nat assume k: "k < 4"
  have e: "at 1 n + of_nat k = at 1 (n + k)" by (simp add: add.assoc)
  show "m (at 1 n + of_nat k) = 0" unfolding e
    by (rule assms(1)) (use k assms(2,3) unat_at [of 1 "n + k"] in simp_all)
qed

lemma sample_lmem:
  assumes "\<And>x. m x \<noteq> 0 \<Longrightarrow> uvpn x \<in> {0x10001, 0x10002} \<union> P"
  shows "lmem (sample_fs m P) = m"
proof
  fix x
  show "lmem (sample_fs m P) x = m x"
    using assms [of x] by (cases "m x = 0") (auto simp: lmem_def sample_fs_mapped, auto simp: sample_fs_def)
qed

lemma sample_file_ok:
  assumes "fs_ok (sample_fs m P)" "nblk (sample_fs m P) = 5" "lmem (sample_fs m P) = m"
    "fld m (at 1 184) = 0" "\<And>i. i < 10 \<Longrightarrow> 1 \<le> i \<Longrightarrow> fld m (at 1 (144 + 4 * i)) = 0"
    "fld m (at 1 144) = 0 \<or> fld m (at 1 144) = 3 \<and> \<not> is_free (sample_fs m P) 3"
  shows "file_ok (sample_fs m P) 1 8" "ind m (at 1 8) = 0"
    "fblock m (at 1 8) i = (if i = 0 then fld m (at 1 144) else 0)"
proof -
  let ?s = "sample_fs m P"
  show i: "ind m (at 1 8) = 0"
  proof -
    have "8 + 176 = (184 :: nat)" by simp
    with assms(4) show ?thesis unfolding ind_def file_fields by (simp only:)
  qed
  have d: "fslot m (at 1 8) i = at 1 (144 + 4 * i)" if "i < 10" for i
  proof -
    have "fslot m (at 1 8) i = at 1 (8 + 136 + 4 * i)" using that unfolding fslot_at by (simp only: if_True)
    moreover have "8 + 136 + 4 * i = 144 + 4 * i" by simp
    ultimately show ?thesis by (simp only:)
  qed
  have b: "fblock m (at 1 8) i = (if i = 0 then fld m (at 1 144) else 0)" for i
    using d [of i] assms(5) [of i] i by (cases "i = 0") (auto simp: fblock_def simp del: of_nat_add of_nat_mult of_nat_1)
  then show "fblock m (at 1 8) i = (if i = 0 then fld m (at 1 144) else 0)" .
  define F v where "F = at 1 8" and "v = fld m (at 1 144)"
  have bF: "fblock m F i = (if i = 0 then v else 0)" and iF: "ind m F = 0" for i
    unfolding F_def v_def by (rule b, rule i)
  have bm: "nbitmap ?s = 1" using assms(2) by (simp add: nbitmap_def)
  have at: "file_at ?s 1 8"
    using fs_okD(7) [OF assms(1)] fs_okD(5) [OF assms(1), of 1] assms(2) bm
    by (simp add: file_at_def data_def free_set_def)
  have o: "owns m F = {v} - {0}"
    unfolding owns_def iF by (auto simp: bF image_iff intro: bexI [of _ 0])
  have inj: "inj_on (fblock m F) {i. i < 1024 \<and> fblock m F i \<noteq> 0}"
    by (rule inj_onI) (auto simp: bF split: if_splits)
  show "file_ok ?s 1 8"
    unfolding file_ok_def assms(3) F_def [symmetric] o iF
    using at inj assms(6) [folded v_def] by (auto simp: data_def assms(2) bm free_set_def)
qed

lemma uvpn_pages: "0x10001000 \<le> x \<Longrightarrow> x < 0x10002000 \<Longrightarrow> uvpn x = 0x10001"
  by (rule word_unat_eq_iff [THEN iffD2]) (simp add: unat_uvpn word_le_nat_alt word_less_nat_alt)


lemma root_file: "file_ok (sample_fs root_mem P) 1 8" "lmem (sample_fs root_mem P) = root_mem"
  "ind root_mem (at 1 8) = 0" "fblock root_mem (at 1 8) i = (if i = 0 then 3 else 0)" "nblk (sample_fs root_mem P) = 5"
proof -
  show n: "nblk (sample_fs root_mem P) = 5" by (rule sample_nblk) (simp_all add: root_mem_def)
  show l: "lmem (sample_fs root_mem P) = root_mem"
    by (rule sample_lmem) (auto simp: root_mem_def uvpn_def split: if_splits)
  have z: "root_mem x = 0" if "0x10001000 + 148 \<le> unat x" "unat x < 0x10002000" for x
    using that by (auto simp: root_mem_def)
  have f: "fld root_mem (at 1 n) = 0" if "148 \<le> n" "n + 4 \<le> 4096" for n by (rule fld_at_1 [OF z that])
  have a: "fld root_mem (at 1 184) = 0" by (rule f; simp)
  have b: "fld root_mem (at 1 (144 + 4 * i)) = 0" if "i < 10" "1 \<le> i" for i by (rule f) (use that in simp_all)
  have "load_le 4 root_mem 0x10001090 = ucast (root_mem 0x10001090)"
    by (rule load4_byte) (simp_all add: root_mem_def)
  then have c: "fld root_mem (at 1 144) = 3"
    by (simp add: fld_def disk_addr_numeral root_mem_def)
  have nf: "\<not> is_free (sample_fs root_mem P) 3"
  proof -
    have "is_free (sample_fs root_mem P) 3 = bit (root_mem 0x10002000) 3"
      by (rule sample_free) (simp_all add: root_mem_def)
    then show ?thesis by (simp add: root_mem_def)
  qed
  note sf = sample_file_ok [OF root_ok n l a b disjI2 [OF conjI [OF c nf]]]
  show "file_ok (sample_fs root_mem P) 1 8" "ind root_mem (at 1 8) = 0" by (rule sf; assumption)+
  show "fblock root_mem (at 1 8) i = (if i = 0 then 3 else 0)" using sf(3) [of i] c by simp
qed

section \<open>Blocks\<close>

text \<open>Allocation takes the least free block, caches it, removes exactly it from the free set (the
  bitmap) and leaves every other data block alone; without a free block the call reports -E_NO_DISK,
  without memory for the cache page -E_NO_MEM, and in both cases the free set is as before.\<close>

theorem alloc_block_correct:
  assumes "fs_ok s"
  shows "\<exists>r s'. alloc_block s = Some (r, s') \<and> fs_ok s' \<and>
    (if r < 0
     then (r = - E_NO_DISK \<and> free_set s = {} \<or> r = - E_NO_MEM \<and> free_set s \<noteq> {})
       \<and> free_set s' = free_set s \<and> same_data {} s s'
     else nat r \<in> free_set s \<and> nat r = Min (free_set s) \<and> free_set s' = free_set s - {nat r}
       \<and> cached s' (of_int r) \<and> same_data {nat r} s s')"
proof (rule alloc_block_spec [OF assms])
  fix s' assume "alloc_block s = Some (- E_NO_DISK, s')" "unchanged s s'" "free_set s = {}"
  then show ?thesis by (intro exI [of _ "- E_NO_DISK"] exI [of _ s']) (auto simp: errno unchanged_def grows_def)
next
  fix s' assume "alloc_block s = Some (- E_NO_MEM, s')" "unchanged s s'" "free_set s \<noteq> {}"
  then show ?thesis by (intro exI [of _ "- E_NO_MEM"] exI [of _ s']) (auto simp: errno unchanged_def grows_def)
next
  fix b s' assume a: "alloc_block s = Some (int b, s')" "allocated b s s'"
  from a(2) have "b \<in> free_set s" "b = Min (free_set s)" "fs_ok s'" "free_set s' = free_set s - {b}" "same_data {b} s s'" "cached s' (of_nat b)"
    unfolding allocated_def grows_def by blast+
  with a(1) show ?thesis by (intro exI [of _ "int b"] exI [of _ s']) simp
qed

theorem alloc_block_correct_witness:
  "\<exists>r s'. alloc_block (sample_fs empty_mem {}) = Some (r, s') \<and> fs_ok s' \<and>
    (if r < 0
     then (r = - E_NO_DISK \<and> free_set (sample_fs empty_mem {}) = {} \<or> r = - E_NO_MEM \<and> free_set (sample_fs empty_mem {}) \<noteq> {})
       \<and> free_set s' = free_set (sample_fs empty_mem {}) \<and> same_data {} (sample_fs empty_mem {}) s'
     else nat r \<in> free_set (sample_fs empty_mem {}) \<and> nat r = Min (free_set (sample_fs empty_mem {}))
       \<and> free_set s' = free_set (sample_fs empty_mem {}) - {nat r}
       \<and> cached s' (of_int r) \<and> same_data {nat r} (sample_fs empty_mem {}) s')"
  by (rule alloc_block_correct [OF empty_ok])

text \<open>C16: A dirty block in use that is dropped from the cache and read again has the bytes it had:
  \<^verbatim>\<open>unmap_block\<close> writes it back and \<^verbatim>\<open>read_block\<close> loads it.\<close>

theorem unmap_read_roundtrip:
  assumes "fs_ok s" "data s b" "b \<noteq> 1" "b \<notin> free_set s" "cached s (of_nat b)" "block_is_dirty (of_nat b) s" "granted s"
  shows "\<exists>s' s''. unmap_block (of_nat b) s = Some s' \<and> \<not> cached s' (of_nat b)
    \<and> read_block (of_nat b) s' = Some (Inr (disk_addr (of_nat b), 1), s'') \<and> same_block (of_nat b) s s''"
proof -
  let ?b = "of_nat b :: u32"
  note u = unat_block [OF assms(2,1)]
  have bm: "unat ?b < max_blocks" using u by simp
  define s1 where "s1 = s\<lparr>disk := blit (disk s) (disk_off ?b) (umem s) (disk_addr ?b) 4096\<rparr>"
  define s2 where "s2 = s1\<lparr>upt := (upt s1)(uvpn (disk_addr ?b) := None)\<rparr>"
  have nf: "block_is_free ?b s = Some False"
    using assms(4) u by (simp add: block_is_free_eq [OF assms(1)]) (simp add: free_set_def)
  have w: "write_block ?b s = Some s1" unfolding s1_def by (rule write_block_eq [OF bm assms(5)])
  have c2: "\<not> cached s2 ?b" by (simp add: cached_def mapped_def s2_def)
  have m: "block_is_mapped ?b s = disk_addr ?b" "block_is_mapped ?b s2 = 0"
    using assms(5) c2 by (simp_all add: block_is_mapped_def va_is_mapped_def cached_def)
  have un: "unmap_block ?b s = Some s2"
    using nf assms(6) w m disk_addr_nonzero [OF bm] legal_disk_addr [OF bm]
    by (simp add: unmap_block_def syscall_mem_unmap_def s2_def [symmetric])
  have n2: "nblk s2 = nblk s" "\<And>c. is_free s2 c = is_free s c" by (simp_all add: nblk_def is_free_def s2_def s1_def)
  have b2: "nbitmap s + 2 \<le> b" using assms(2,3) by (auto simp: data_def)
  have ok2: "fs_ok s2"
    unfolding fs_ok_def
  proof (intro conjI allI impI)
    fix c assume "c < nbitmap s2 + 2"
    then have c: "c < nbitmap s + 2" by (simp add: nbitmap_def n2)
    then show "\<not> is_free s2 c" using fs_okD(5) [OF assms(1) c] by (simp add: n2)
    have cu: "unat (of_nat c :: u32) = c" by (rule unat_of_nat32) (use c b2 u in simp)
    then have ne: "(of_nat c :: u32) \<noteq> ?b" using c b2 u by auto
    show "cached s2 (of_nat c)" if "0 < c"
      using fs_okD(6) [OF assms(1) c that] ne cu u c b2
      by (simp add: cached_def mapped_def s2_def s1_def uvpn_disk_addr_inject)
  qed (use fs_okD [OF assms(1)] n2 in \<open>simp_all add: nbitmap_def s2_def s1_def\<close>)
  have g: "granted s2" using assms(7) by (simp add: granted_def s2_def s1_def)
  have r: "read_block ?b s2 = Some (Inr (disk_addr ?b, 1), loaded ?b s2)"
    using assms(2,4) u c2 g by (simp add: read_block_eq [OF ok2] n2) (simp add: data_def free_set_def)
  have "same_block ?b s (loaded ?b s2)"
    by (simp add: same_block_def loaded_def s2_def s1_def blit_def)
  with un c2 r show ?thesis by blast
qed

theorem unmap_read_roundtrip_witness:
  "\<exists>s' s''. unmap_block (of_nat 3) (sample_fs root_mem {0x10003}) = Some s' \<and> \<not> cached s' (of_nat 3)
    \<and> read_block (of_nat 3) s' = Some (Inr (disk_addr (of_nat 3), 1), s'')
    \<and> same_block (of_nat 3) (sample_fs root_mem {0x10003}) s''"
proof (rule unmap_read_roundtrip [OF root_ok])
  let ?s = "sample_fs root_mem {0x10003}"
  show "data ?s 3" by (simp add: data_def nbitmap_def root_file(5))
  have "is_free ?s 3 = bit (root_mem 0x10002000) 3" by (rule sample_free) (simp_all add: root_mem_def)
  then show "3 \<notin> free_set ?s" by (simp add: free_set_def root_mem_def)
  show "cached ?s (of_nat 3)" by (simp add: cached_def sample_fs_mapped disk_addr_numeral uvpn_numeral)
  show "block_is_dirty (of_nat 3) ?s"
    by (simp add: block_is_dirty_def va_is_dirty_def syscall_is_dirty_def sample_fs_def disk_addr_numeral uvpn_numeral
        cache_flags_def pteflags user_perm_def GENMASK_def)
qed (simp_all add: granted_def sample_fs_def)

section \<open>Files\<close>








text \<open>A file whose size covers more than ten blocks but which has no indirect block (a size that
  \<^verbatim>\<open>file_set_size\<close> has raised without writing) cannot be truncated below that size: clearing
  block 10 reports -E_NOT_FOUND and \<^verbatim>\<open>panic_on\<close> stops the server.\<close>

theorem file_truncate_sparse_panics:
  assumes "fs_ok s" "file_ok s fb off" "ind (lmem s) (at fb off) = 0"
    "fsize (lmem s) (at fb off) = sz" "40960 < sz" "(unat newsize + 4095) div 4096 \<le> 10"
  shows "file_truncate (at fb off) newsize s = None"
proof -
  let ?F = "at fb off" and ?n = "(unat newsize + 4095) div 4096" and ?old = "(sz + 4095) div 4096"
  have nn: "(if newsize = 0 then 0 else nblocks_of newsize) = ?n" "nblocks_of (of_nat (fsize (lmem s) ?F)) = ?old"
    using assms(4) [symmetric] by (simp_all add: nblocks_of_eq fsize_def)
  have old: "10 < ?old" using assms(5) by simp
  have up: "[?n..<?old] = [?n..<10] @ 10 # [11..<?old]"
  proof -
    have "[?n..<?old] = [?n..<10] @ [10..<?old]"
      using upt_add_eq_append [OF assms(6), of "?old - 10"] old by simp
    then show ?thesis using upt_conv_Cons [OF old] by simp
  qed
  obtain s1 where s1: "for_each [?n..<10] (clear_or_panic ?F) s = Some s1" "cleared fb off (set [?n..<10]) s s1"
    by (rule clear_range [OF assms(2,1), of "[?n..<10]"]) (auto simp: slot_ready_def)
  have c: "file_ok s1 fb off" "fs_ok s1" "ind (lmem s1) ?F = 0"
    using s1(2) assms(3) by (auto simp: cleared_def grows_def)
  have "clear_or_panic ?F 10 s1 = None"
    by (rule file_clear_block_spec [OF c(1,2), of 10])
       (use c(3) in \<open>auto simp: clear_or_panic_def user_assert_def errno file_clear_block_def file_block_walk_def
          NDIRECT_def NINDIRECT_def BLOCK_SIZE_def get32_ind [OF c(1,2)]\<close>)
  then have "for_each [?n..<?old] (clear_or_panic ?F) s = None"
    unfolding up by (simp add: for_each_append s1(1))
  then show ?thesis
    by (simp add: file_truncate_def get32_size [OF assms(2,1)] nn Let_def)
qed

text \<open>A root directory of 11 blocks' size without a block.\<close>

definition sparse_mem :: memory where "sparse_mem = empty_mem(0x10001089 := 176)"

lemma sparse_file: "fs_ok (sample_fs sparse_mem P)" "file_ok (sample_fs sparse_mem P) 1 8"
  "lmem (sample_fs sparse_mem P) = sparse_mem" "ind sparse_mem (at 1 8) = 0" "fsize sparse_mem (at 1 8) = 45056"
proof -
  show ok: "fs_ok (sample_fs sparse_mem P)" by (rule sample_ok) (simp_all add: sparse_mem_def empty_mem_def)
  have n: "nblk (sample_fs sparse_mem P) = 5" by (rule sample_nblk) (simp_all add: sparse_mem_def empty_mem_def)
  show l: "lmem (sample_fs sparse_mem P) = sparse_mem"
    by (rule sample_lmem) (auto simp: sparse_mem_def empty_mem_def uvpn_def split: if_splits)
  have z: "sparse_mem x = 0" if "0x10001000 + 138 \<le> unat x" "unat x < 0x10002000" for x
    using that by (auto simp: sparse_mem_def empty_mem_def)
  have f: "fld sparse_mem (at 1 n) = 0" if "138 \<le> n" "n + 4 \<le> 4096" for n by (rule fld_at_1 [OF z that])
  have a: "fld sparse_mem (at 1 184) = 0" "fld sparse_mem (at 1 144) = 0" by (rule f; simp)+
  have b: "fld sparse_mem (at 1 (144 + 4 * i)) = 0" if "i < 10" "1 \<le> i" for i by (rule f) (use that in simp_all)
  note sf = sample_file_ok [OF ok n l a(1) b disjI1 [OF a(2)]]
  show "file_ok (sample_fs sparse_mem P) 1 8" "ind sparse_mem (at 1 8) = 0" by (rule sf; assumption)+
  have "load_le (Suc (Suc (Suc (Suc 0)))) sparse_mem 0x10001088 = 45056"
    by (simp only: load_le.simps) (simp add: sparse_mem_def empty_mem_def)
  moreover have "Suc (Suc (Suc (Suc 0))) = 4" by simp
  ultimately have "load_le 4 sparse_mem 0x10001088 = 45056" by (simp only:)
  then show "fsize sparse_mem (at 1 8) = 45056" by (simp add: fsize_def fld_def f_size_def disk_addr_numeral)
qed

theorem file_truncate_sparse_panics_witness: "file_truncate (at 1 8) 0 (sample_fs sparse_mem {}) = None"
  by (rule file_truncate_sparse_panics [OF sparse_file(1,2)]) (simp_all only: sparse_file(3-5), simp_all)

text \<open>When the least free block is still cached, a file without indirect block that needs one gets it
  with its old bytes: \<^verbatim>\<open>file_map_block\<close> returns whatever number the old bytes hold in the slot, as if
  it were a block of the file.\<close>

theorem file_map_block_stale_indirect:
  assumes "fs_ok s" "file_ok s fb off" "ind (lmem s) (at fb off) = 0" "10 \<le> i" "i < 1024"
    "free_set s \<noteq> {}" "cached s (of_nat (Min (free_set s)))"
    "v = fld (lmem s) (at (Min (free_set s)) (4 * i))" "v \<noteq> 0"
  shows "\<exists>s'. file_map_block (at fb off) i True s = Some (Inr (of_nat v), s')"
proof (rule alloc_block_spec [OF assms(1)])
  let ?F = "at fb off"
  note ok = file_okD [OF assms(2)]
  fix b s1 assume a: "alloc_block s = Some (int b, s1)" "allocated b s s1"
  have al: "b \<in> free_set s" "b = Min (free_set s)" "grows s s1" "same_data {} s s1" "cached s1 (of_nat b)"
    using a(2) assms(7) unfolding allocated_def by blast+
  note d = free_data [OF assms(1) al(1)]
  have ok1: "fs_ok s1" using al(3) by (simp add: grows_def)
  have f1: "data s1 fb" "cached s1 (of_nat fb)" using ok(2,3) grows_data [OF al(3)] grows_cached [OF al(3)] by simp_all
  obtain s2 where s2: "put32 (at fb (off + 176)) (of_nat b) s1 = Some s2"
    "lmem s2 = store_le 4 (lmem s1) (at fb (off + 176)) (ucast (of_nat b :: u32))"
    "grows s1 s2" "free_set s2 = free_set s1" "\<And>x. cached s2 x = cached s1 x"
    by (rule put32_block [OF ok1 f1, of "off + 176" "of_nat b"]) (use ok(5,6) in auto)
  have g2: "fs_ok s2" "nblk s2 = nblk s" using s2(3) al(3) by (auto simp: grows_def)
  note ub = unat_block [OF d(1) assms(1)] and ufb = unat_block [OF ok(2) assms(1)]
  have nb: "fb \<noteq> b" using al(1) ok(4) by auto
  have p: "put32 (f_indirect ?F) (of_nat b) s1 = Some s2" unfolding file_fields by (rule s2(1))
  have "get32 s2 (at fb (off + 176)) = Some (of_nat b)"
    using get32_block [OF ufb(2), of s2 "off + 176"] f1(2) s2(2,5) ok(5) ub by (simp add: fld_store_same del: of_nat_add)
  then have g: "get32 s2 (f_indirect ?F) = Some (of_nat b)" unfolding file_fields .
  have r: "read_block (of_nat b) s2 = Some (Inr (disk_addr (of_nat b), 0), s2)"
  proof -
    have "b \<notin> free_set s2" using s2(4) a(2) by (simp add: allocated_def)
    then show ?thesis using g2 d(1) ub s2(5) al(5)
      by (simp add: read_block_eq) (simp add: data_def free_set_def)
  qed
  have v: "get32 s2 (at b (4 * i)) = Some (of_nat v)"
  proof -
    have "fld (lmem s2) (at b (4 * i)) = fld (lmem s1) (at b (4 * i))"
      unfolding s2(2) by (rule fld_store_at [OF ufb(2) ub(2)]) (use nb ok(5) assms(5) in auto)
    also have "\<dots> = v" using fld_same_data [OF al(4) d(1), of "4 * i"] assms(5,8) al(2) by simp
    finally show ?thesis using get32_block [OF ub(2), of s2 "4 * i"] s2(5) al(5) assms(5) by simp
  qed
  have "(of_nat v :: u32) \<noteq> 0" using assms(8,9) by (simp add: fld_0_iff)
  then have "file_map_block ?F i True s = Some (Inr (of_nat v), s2)"
    using assms(3-5) a(1) p g r v
    by (simp add: file_map_block_def file_block_walk_def NDIRECT_def NINDIRECT_def BLOCK_SIZE_def get32_ind [OF assms(2,1)])
  then show ?thesis by blast
qed (use assms(6,7) in auto)

definition stale_mem :: memory where "stale_mem = empty_mem(0x10003030 := 9)"

lemma stale_file: "fs_ok (sample_fs stale_mem {0x10003})" "file_ok (sample_fs stale_mem {0x10003}) 1 8"
  "lmem (sample_fs stale_mem {0x10003}) = stale_mem" "ind stale_mem (at 1 8) = 0"
  "free_set (sample_fs stale_mem {0x10003}) = {3, 4}" "fld stale_mem (at 3 48) = 9"
proof -
  let ?s = "sample_fs stale_mem {0x10003}"
  show ok: "fs_ok ?s" by (rule sample_ok) (simp_all add: stale_mem_def empty_mem_def)
  have n: "nblk ?s = 5" by (rule sample_nblk) (simp_all add: stale_mem_def empty_mem_def)
  show l: "lmem ?s = stale_mem"
    by (rule sample_lmem) (auto simp: stale_mem_def empty_mem_def uvpn_def split: if_splits)
  have z: "stale_mem x = 0" if "0x10001000 + 8 \<le> unat x" "unat x < 0x10002000" for x
    using that by (auto simp: stale_mem_def empty_mem_def)
  have f: "fld stale_mem (at 1 n) = 0" if "8 \<le> n" "n + 4 \<le> 4096" for n by (rule fld_at_1 [OF z that])
  have a: "fld stale_mem (at 1 184) = 0" "fld stale_mem (at 1 144) = 0" by (rule f; simp)+
  have b: "fld stale_mem (at 1 (144 + 4 * i)) = 0" if "i < 10" "1 \<le> i" for i by (rule f) (use that in simp_all)
  note sf = sample_file_ok [OF ok n l a(1) b disjI1 [OF a(2)]]
  show "file_ok ?s 1 8" "ind stale_mem (at 1 8) = 0" by (rule sf; assumption)+
  have fr: "is_free ?s b \<longleftrightarrow> bit (24 :: u8) b" if "b < 5" for b
    using sample_free [of stale_mem b] that by (simp add: stale_mem_def empty_mem_def)
  have five: "b = 0 \<or> b = 1 \<or> b = 2 \<or> b = 3 \<or> b = 4" if "b < 5" for b :: nat using that by auto
  show "free_set ?s = {3, 4}"
  proof (intro set_eqI iffI)
    fix b assume "b \<in> free_set ?s"
    then have "b < 5" "bit (24 :: u8) b" using fr by (auto simp: free_set_def n)
    with five show "b \<in> {3, 4}" by fastforce
  next
    fix b :: nat assume "b \<in> {3, 4}"
    then show "b \<in> free_set ?s" using fr [of b] by (auto simp: free_set_def n)
  qed
  have "load_le 4 stale_mem 0x10003030 = ucast (stale_mem 0x10003030)"
    by (rule load4_byte) (simp_all add: stale_mem_def empty_mem_def)
  then show "fld stale_mem (at 3 48) = 9" by (simp add: fld_def disk_addr_numeral stale_mem_def)
qed

theorem file_map_block_stale_indirect_witness:
  "\<exists>s'. file_map_block (at 1 8) 12 True (sample_fs stale_mem {0x10003}) = Some (Inr (of_nat 9), s')"
proof (rule file_map_block_stale_indirect [OF stale_file(1,2)])
  show "cached (sample_fs stale_mem {0x10003}) (of_nat (Min (free_set (sample_fs stale_mem {0x10003}))))"
    by (simp add: stale_file(5) cached_def sample_fs_mapped disk_addr_numeral uvpn_numeral)
  show "9 = fld (lmem (sample_fs stale_mem {0x10003})) (at (Min (free_set (sample_fs stale_mem {0x10003}))) (4 * 12))"
    using stale_file(6) by (simp add: stale_file(3,5))
qed (simp_all only: stale_file(3-5), simp_all)

section \<open>Directories and paths\<close>




end
