(* ===== verification/Serv.thy ===== *)
theory Serv
  imports Fs
begin

text \<open>
  The request loop of the file-system server (\<^verbatim>\<open>fs/serv.c\<close>): the table of open files, one handler per
  request, and the dispatch.  An open file is in use while some client maps its page, so the
  number of other mappings of the server's pages (\<open>shared\<close>) is part of the state; the answers
  sent with \<^verbatim>\<open>ipc_send\<close> are recorded in order, with the page they share.
\<close>

section \<open>State\<close>

definition MAXOPEN :: nat where "MAXOPEN = 1024"
definition FILEVA :: u64 where "FILEVA = 0x60000000"
definition REQVA :: u64 where "REQVA = 0x0ffff000"
definition MAXPATHLEN :: nat where "MAXPATHLEN = 1024"
definition O_CREAT :: u32 where "O_CREAT = 0x100"
definition O_TRUNC :: u32 where "O_TRUNC = 0x200"
definition DEV_FILE :: u32 where "DEV_FILE = 102"

definition PERM_SHARE :: u32 where
  "PERM_SHARE = ucast (PTE_V OR PTE_RW OR PTE_USER OR PTE_LIBRARY)"

record Open =
  o_file :: u64
  o_fileid :: u32
  o_mode :: u32
  o_ff :: u64

text \<open>An answer: receiver, value, page (0 for none).\<close>

type_synonym reply = "u32 \<times> int \<times> u64"

record server =
  fs :: fsstate
  opentab :: "nat \<Rightarrow> Open"
  shared :: "u64 \<Rightarrow> nat"
  replies :: "reply list"

text \<open>\<^verbatim>\<open>struct Filefd\<close>: the descriptor, the file number and a copy of the file.\<close>

definition ff_dev_id :: "u64 \<Rightarrow> u64" where "ff_dev_id ff = ff"
definition ff_omode :: "u64 \<Rightarrow> u64" where "ff_omode ff = ff + 8"
definition ff_fileid :: "u64 \<Rightarrow> u64" where "ff_fileid ff = ff + 12"
definition ff_file :: "u64 \<Rightarrow> u64" where "ff_file ff = ff + 16"

definition pageref :: "u64 \<Rightarrow> server \<Rightarrow> nat" where
  "pageref va s = (if mapped (fs s) va then 1 + shared s (uvpn va) else 0)"

text \<open>\<^verbatim>\<open>ipc_send\<close> to a waiting client: the value, and a mapping of the page at \<open>va\<close> unless it is 0.\<close>

definition ipc_send :: "u32 \<Rightarrow> int \<Rightarrow> u64 \<Rightarrow> server \<Rightarrow> server" where
  "ipc_send whom val va s =
     s\<lparr>replies := replies s @ [(whom, val, va)],
       shared := (if va = 0 then shared s else (shared s)(uvpn va := shared s (uvpn va) + 1))\<rparr>"

text \<open>A file operation that may stop the server, lifted to its state.\<close>

definition on_fs :: "(fsstate \<Rightarrow> ('a \<times> fsstate) option) \<Rightarrow> server \<Rightarrow> ('a \<times> server) option" where
  "on_fs f s = map_option (\<lambda>(r, t). (r, s\<lparr>fs := t\<rparr>)) (f (fs s))"

definition do_fs :: "(fsstate \<Rightarrow> fsstate option) \<Rightarrow> server \<Rightarrow> server option" where
  "do_fs f s = map_option (\<lambda>t. s\<lparr>fs := t\<rparr>) (f (fs s))"

definition serve_init :: "server \<Rightarrow> server" where
  "serve_init s =
     s\<lparr>opentab := (\<lambda>i. if i < MAXOPEN
                        then (opentab s i)\<lparr>o_fileid := of_nat i, o_ff := FILEVA + of_nat i * of_nat BLOCK_SIZE\<rparr>
                        else opentab s i)\<rparr>"

section \<open>Open files\<close>

definition clear_page :: "u64 \<Rightarrow> server \<Rightarrow> server" where
  "clear_page va s = s\<lparr>fs := set_dirty va ((fs s)\<lparr>umem := memset (umem (fs s)) va 0 BLOCK_SIZE\<rparr>)\<rparr>"

text \<open>The loop of \<^verbatim>\<open>open_alloc\<close>; the case 0 of its switch falls through to the case 1.\<close>

fun open_scan :: "nat list \<Rightarrow> server \<Rightarrow> (int + nat) \<times> server" where
  "open_scan [] s = (Inl (- E_MAX_OPEN), s)"
| "open_scan (i # is) s =
     (let ff = o_ff (opentab s i) in
      if pageref ff s = 0
      then (let (r, t) = syscall_mem_alloc ff PERM_SHARE (fs s);
                s = s\<lparr>fs := t, shared := (if r < 0 then shared s else (shared s)(uvpn ff := 0))\<rparr>
            in if r < 0 then (Inl r, s) else (Inr i, clear_page ff s))
      else if pageref ff s = 1 then (Inr i, clear_page ff s)
      else open_scan is s)"

definition open_alloc :: "server \<Rightarrow> (int + nat) \<times> server" where
  "open_alloc s = open_scan [0..<MAXOPEN] s"

definition open_lookup :: "u32 \<Rightarrow> u32 \<Rightarrow> server \<Rightarrow> int + nat" where
  "open_lookup envid fileid s =
     (if unat fileid \<ge> MAXOPEN then Inl (- E_INVAL)
      else if pageref (o_ff (opentab s (unat fileid))) s \<le> 1 then Inl (- E_INVAL)
      else Inr (unat fileid))"

section \<open>Handlers\<close>

text \<open>The bytes before the NUL of the string at \<open>a\<close>.\<close>

partial_function (option) ustring :: "fsstate \<Rightarrow> u64 \<Rightarrow> u8 list option" where
  "ustring s a =
     (if \<not> mapped s a then None
      else if umem s a = 0 then Some []
      else do { xs \<leftarrow> ustring s (a + 1); Some (umem s a # xs) })"

definition fill_filefd :: "nat \<Rightarrow> u64 \<Rightarrow> u32 \<Rightarrow> server \<Rightarrow> server option" where
  "fill_filefd i f omode s =
     do { let ff = o_ff (opentab s i);
          s \<leftarrow> do_fs (umemcpy (ff_file ff) f FILE_STRUCT_SIZE) s;
          s \<leftarrow> do_fs (put32 (ff_fileid ff) (o_fileid (opentab s i))) s;
          let s = s\<lparr>opentab := (opentab s)(i := (opentab s i)\<lparr>o_mode := omode\<rparr>)\<rparr>;
          s \<leftarrow> do_fs (put32 (ff_omode ff) (o_mode (opentab s i))) s;
          do_fs (put32 (ff_dev_id ff) DEV_FILE) s }"

text \<open>
  The part of \<^verbatim>\<open>serve_open\<close> after the creation.  \<^verbatim>\<open>file_set_size\<close> has no failing return, so the
  branch that would answer twice is not taken.
\<close>

definition serve_open_file :: "u32 \<Rightarrow> nat \<Rightarrow> u8 list \<Rightarrow> u32 \<Rightarrow> server \<Rightarrow> server option" where
  "serve_open_file envid i pth omode s =
     do { ((r, f), s) \<leftarrow> on_fs (file_open pth) s;
          if r < 0 then Some (ipc_send envid r 0 s)
          else
            do { let s = s\<lparr>opentab := (opentab s)(i := (opentab s i)\<lparr>o_file := f\<rparr>)\<rparr>;
                 s \<leftarrow> (if omode AND O_TRUNC \<noteq> 0 then do_fs (file_set_size f 0) s else Some s);
                 s \<leftarrow> fill_filefd i f omode s;
                 Some (ipc_send envid 0 (o_ff (opentab s i)) s) } }"

definition serve_open :: "u32 \<Rightarrow> server \<Rightarrow> server option" where
  "serve_open envid s =
     do { let (o', s) = open_alloc s;
          (case o' of
             Inl r \<Rightarrow> Some (ipc_send envid r 0 s)
           | Inr i \<Rightarrow>
               do { pth \<leftarrow> ustring (fs s) REQVA;
                    omode \<leftarrow> get32 (fs s) (REQVA + of_nat MAXPATHLEN);
                    (c, s) \<leftarrow> (if omode AND O_CREAT \<noteq> 0 then on_fs (file_create pth) s else Some (Inr 0, s));
                    (case c of
                       Inl r \<Rightarrow>
                         if r \<noteq> - E_FILE_EXISTS then Some (ipc_send envid r 0 s)
                         else serve_open_file envid i pth omode s
                     | Inr _ \<Rightarrow> serve_open_file envid i pth omode s) }) }"

text \<open>The requests on an open file start with its number.\<close>

definition with_open :: "u32 \<Rightarrow> (nat \<Rightarrow> server \<Rightarrow> server option) \<Rightarrow> server \<Rightarrow> server option" where
  "with_open envid body s =
     do { fileid \<leftarrow> get32 (fs s) REQVA;
          (case open_lookup envid fileid s of
             Inl r \<Rightarrow> Some (ipc_send envid r 0 s)
           | Inr i \<Rightarrow> body i s) }"

definition serve_map :: "u32 \<Rightarrow> server \<Rightarrow> server option" where
  "serve_map envid = with_open envid (\<lambda>i s.
     do { offset \<leftarrow> get32 (fs s) (REQVA + 4);
          (b, s) \<leftarrow> on_fs (file_get_block (o_file (opentab s i)) (unat offset div BLOCK_SIZE)) s;
          (case b of
             Inl r \<Rightarrow> Some (ipc_send envid r 0 s)
           | Inr blk \<Rightarrow> Some (ipc_send envid 0 blk s)) })"

definition serve_set_size :: "u32 \<Rightarrow> server \<Rightarrow> server option" where
  "serve_set_size envid = with_open envid (\<lambda>i s.
     do { size \<leftarrow> get32 (fs s) (REQVA + 4);
          s \<leftarrow> do_fs (file_set_size (o_file (opentab s i)) size) s;
          Some (ipc_send envid 0 0 s) })"

definition serve_close :: "u32 \<Rightarrow> server \<Rightarrow> server option" where
  "serve_close envid = with_open envid (\<lambda>i s.
     do { s \<leftarrow> do_fs (file_close (o_file (opentab s i))) s;
          Some (ipc_send envid 0 0 s) })"

definition serve_remove :: "u32 \<Rightarrow> server \<Rightarrow> server option" where
  "serve_remove envid s =
     do { pth \<leftarrow> ustring (fs s) REQVA;
          (r, s) \<leftarrow> on_fs (file_remove pth) s;
          Some (ipc_send envid r 0 s) }"

definition serve_dirty :: "u32 \<Rightarrow> server \<Rightarrow> server option" where
  "serve_dirty envid = with_open envid (\<lambda>i s.
     do { offset \<leftarrow> get32 (fs s) (REQVA + 4);
          (r, s) \<leftarrow> on_fs (file_dirty (o_file (opentab s i)) offset) s;
          Some (ipc_send envid (if r < 0 then r else 0) 0 s) })"

definition serve_sync :: "u32 \<Rightarrow> server \<Rightarrow> server option" where
  "serve_sync envid s = do { s \<leftarrow> do_fs fs_sync s; Some (ipc_send envid 0 0 s) }"

section \<open>The loop\<close>

definition MAX_FSREQNO :: nat where "MAX_FSREQNO = 7"

definition serve_table :: "(u32 \<Rightarrow> server \<Rightarrow> server option) list" where
  "serve_table = [serve_open, serve_map, serve_set_size, serve_close, serve_dirty, serve_remove, serve_sync]"

text \<open>
  What \<^verbatim>\<open>ipc_recv\<close> delivered: its return value, the sender, the request number, the permissions of
  the page (0 without one) and the bytes of the page, now mapped at \<^verbatim>\<open>REQVA\<close>.
\<close>

record message =
  m_ret :: int
  m_whom :: u32
  m_req :: u64
  m_perm :: u32
  m_page :: "u64 \<Rightarrow> u8"

definition receive :: "message \<Rightarrow> server \<Rightarrow> server" where
  "receive m s =
     (if m_perm m AND ucast PTE_V \<noteq> 0
      then s\<lparr>fs := (fs s)\<lparr>umem := blit (umem (fs s)) REQVA (m_page m) 0 4096,
                          upt := (upt (fs s))(uvpn REQVA \<mapsto> ucast (m_perm m))\<rparr>\<rparr>
      else s)"

definition unmap_request :: "server \<Rightarrow> server option" where
  "unmap_request s =
     (let (r, t) = syscall_mem_unmap REQVA (fs s) in do { user_assert (r = 0); Some (s\<lparr>fs := t\<rparr>) })"

text \<open>
  One round of \<^verbatim>\<open>serve\<close>.  After a failed \<^verbatim>\<open>ipc_recv\<close> other than an interruption the old values
  are used; \<open>perm\<close> is 0 then, so the round ends at the next test.
\<close>

definition serve_round :: "message \<Rightarrow> server \<Rightarrow> server option" where
  "serve_round m s =
     (if m_ret m \<noteq> 0 then Some s
      else
        (let s = receive m s in
         if m_perm m AND ucast PTE_V = 0 then Some s
         else if unat (m_req m) \<ge> MAX_FSREQNO then unmap_request s
         else do { s \<leftarrow> (serve_table ! unat (m_req m)) (m_whom m) s; unmap_request s }))"

fun serve :: "message list \<Rightarrow> server \<Rightarrow> server option" where
  "serve [] s = Some s"
| "serve (m # ms) s = do { s \<leftarrow> serve_round m s; serve ms s }"

definition fs_main :: "message list \<Rightarrow> server \<Rightarrow> server option" where
  "fs_main ms s = do { s \<leftarrow> do_fs fs_init (serve_init s); serve ms s }"

end
