(* ===== verification/ServInv.thy ===== *)
theory ServInv
  imports Serv
begin

text \<open>
  No file operation gives up a page of the server: the pages mapped before are mapped after.
  So the reference counts that say which files are open survive every request, which the
  locale \<open>request_handler\<close> states for the seven handlers of \<^verbatim>\<open>fs/serv.c\<close> at once.
\<close>

section \<open>Postconditions of computations that may stop\<close>

definition okp :: "('a \<Rightarrow> bool) \<Rightarrow> 'a option \<Rightarrow> bool" where
  "okp P m \<longleftrightarrow> (\<forall>x. m = Some x \<longrightarrow> P x)"

lemma okp_mono: "okp Q m \<Longrightarrow> (\<And>x. Q x \<Longrightarrow> P x) \<Longrightarrow> okp P m"
  by (auto simp: okp_def)

lemma okpD: "okp P m \<Longrightarrow> m = Some x \<Longrightarrow> P x"
  by (simp add: okp_def)

lemma okp_any: "(\<And>x. P x) \<Longrightarrow> okp P m"
  by (simp add: okp_def)

lemma okp_bind: "okp (\<lambda>x. okp P (f x)) m \<Longrightarrow> okp P (Option.bind m f)"
  by (auto simp: okp_def)

lemma okp_prod: "(\<And>a b. p = (a, b) \<Longrightarrow> okp P (g a b)) \<Longrightarrow> okp P (case p of (a, b) \<Rightarrow> g a b)"
  by (cases p) simp

lemma okp_sum:
  "(\<And>a. e = Inl a \<Longrightarrow> okp P (h a)) \<Longrightarrow> (\<And>b. e = Inr b \<Longrightarrow> okp P (k b)) \<Longrightarrow> okp P (case e of Inl a \<Rightarrow> h a | Inr b \<Rightarrow> k b)"
  by (cases e) simp_all

lemma okp_option:
  "(v = None \<Longrightarrow> okp P m) \<Longrightarrow> (\<And>y. v = Some y \<Longrightarrow> okp P (l y)) \<Longrightarrow> okp P (case v of None \<Rightarrow> m | Some y \<Rightarrow> l y)"
  by (cases v) simp_all

lemma okp_basic:
  "P x \<Longrightarrow> okp P (Some x)" "okp P None"
  "(c \<Longrightarrow> okp P m) \<Longrightarrow> (\<not> c \<Longrightarrow> okp P n) \<Longrightarrow> okp P (if c then m else n)"
  by (auto simp: okp_def)

lemmas okp_rules = okp_basic okp_bind okp_prod okp_sum okp_option

lemma okp_map_option: "okp (\<lambda>x. P (f x)) m \<Longrightarrow> okp P (map_option f m)"
  by (auto simp: okp_def)

section \<open>Pages\<close>

definition pages :: "fsstate \<Rightarrow> u64 set" where "pages s = dom (upt s)"

named_theorems keep "the pages mapped before an operation are mapped after it"

lemma mapped_pages: "mapped s va \<longleftrightarrow> uvpn va \<in> pages s"
  by (auto simp: mapped_def pages_def)

lemma pages_simps [simp]:
  "pages (s\<lparr>umem := m\<rparr>) = pages s" "pages (s\<lparr>disk := d\<rparr>) = pages s"
  "pages (s\<lparr>grants := g\<rparr>) = pages s" "pages (s\<lparr>upt := (upt s)(p \<mapsto> fl)\<rparr>) = insert p (pages s)"
  "pages (set_dirty va s) = pages s"
  by (auto simp: pages_def set_dirty_def split: if_splits)

lemma pages_alloc: "pages s \<subseteq> pages (snd (syscall_mem_alloc va perm s))"
  by (auto simp: syscall_mem_alloc_def Let_def pages_def split: list.splits)

lemma pages_remap: "pages s \<subseteq> pages (snd (syscall_mem_remap va perm s))"
  by (auto simp: syscall_mem_remap_def)

lemma keep_uload [THEN okp_mono, keep]: "okp (\<lambda>_. True) (uload n s a)"
  by (simp add: okp_any)

lemma keep_get32 [THEN okp_mono, keep]: "okp (\<lambda>_. True) (get32 s a)"
  by (simp add: okp_any)

lemma keep_assert [THEN okp_mono, keep]: "okp (\<lambda>_. True) (user_assert b)"
  by (simp add: okp_any)

lemma keep_is_free [THEN okp_mono, keep]: "okp (\<lambda>_. True) (block_is_free b s)"
  by (simp add: okp_any)

lemma keep_ustore [THEN okp_mono, keep]: "okp (\<lambda>t. pages s \<subseteq> pages t) (ustore n a v s)"
  by (simp add: ustore_def okp_def)

lemma keep_put32 [THEN okp_mono, keep]: "okp (\<lambda>t. pages s \<subseteq> pages t) (put32 a v s)"
  unfolding put32_def by (auto intro!: okp_rules keep)

lemma keep_umemcpy [THEN okp_mono, keep]: "okp (\<lambda>t. pages s \<subseteq> pages t) (umemcpy d a n s)"
  by (simp add: umemcpy_def okp_def)

lemma keep_ustrcpy [THEN okp_mono, keep]: "okp (\<lambda>t. pages s \<subseteq> pages t) (ustrcpy d xs s)"
  by (simp add: ustrcpy_def okp_def)

lemma keep_sector_loop:
  assumes "\<And>c b s. okp (\<lambda>t. pages s \<subseteq> pages t) (op c b s)"
  shows "okp (\<lambda>t. pages s \<subseteq> pages t) (sector_loop op cur stop buf s)"
  using assms
proof (induction op cur stop buf s rule: sector_loop.induct)
  case (1 op cur stop buf s)
  show ?case
  proof (cases "cur < stop")
    case True
    have "okp (\<lambda>t. pages s \<subseteq> pages t) (sector_loop op (cur + 1) stop (buf + of_nat SECTOR_SIZE) u)"
      if "pages s \<subseteq> pages u" "op cur buf s = Some u" for u
      by (rule okp_mono [OF "1.IH" [OF True that(2) "1.prems"]]) (use that(1) in blast)
    moreover have "okp (\<lambda>t. pages s \<subseteq> pages t) (op cur buf s)" by (rule "1.prems")
    ultimately show ?thesis using True by (subst sector_loop.simps) (auto simp: okp_def)
  qed (subst sector_loop.simps, simp add: okp_def)
qed

lemma keep_sector_read [THEN okp_mono, keep]: "okp (\<lambda>t. pages s \<subseteq> pages t) (sector_read a va n s)"
  unfolding sector_read_def by (rule keep_sector_loop) (simp add: virtio_read_sector_def okp_def)

lemma keep_sector_write [THEN okp_mono, keep]: "okp (\<lambda>t. pages s \<subseteq> pages t) (sector_write a va n s)"
  unfolding sector_write_def by (rule keep_sector_loop) (simp add: virtio_write_sector_def okp_def)

section \<open>File operations\<close>

lemma keep_write_block [THEN okp_mono, keep]: "okp (\<lambda>t. pages s \<subseteq> pages t) (write_block b s)"
  unfolding write_block_def by (auto intro!: okp_rules keep)

lemma pages_dirty_block: "pages s \<subseteq> pages (snd (dirty_block b s))"
  by (simp add: dirty_block_def Let_def pages_remap)

lemma pages_map_block: "pages s \<subseteq> pages (snd (map_block b s))"
  by (simp add: map_block_def pages_alloc)

lemma keep_free_block [THEN okp_mono, keep]: "okp (\<lambda>t. pages s \<subseteq> pages t) (free_block b s)"
  unfolding free_block_def by (auto intro!: okp_rules keep)

lemma keep_read_block [THEN okp_mono, keep]: "okp (\<lambda>x. pages s \<subseteq> pages (snd x)) (read_block b s)"
proof -
  let ?va = "disk_addr b"
  let ?a = "syscall_mem_alloc ?va (ucast (PTE_V OR PTE_RW OR PTE_USER)) s"
  have "pages s \<subseteq> pages (snd ?a)" by (rule pages_alloc)
  then show ?thesis
    unfolding read_block_def Let_def
    by (cases ?a) (auto intro!: okp_rules keep; blast)
qed

lemma keep_alloc_scan [THEN okp_mono, keep]: "okp (\<lambda>x. pages s \<subseteq> pages (snd x)) (alloc_scan bs s)"
  by (induction bs) (auto intro!: okp_rules keep)

lemma keep_alloc_block [THEN okp_mono, keep]: "okp (\<lambda>x. pages s \<subseteq> pages (snd x)) (alloc_block s)"
proof -
  have "okp (\<lambda>x. pages t \<subseteq> pages (snd x))
      (let (r, s) = map_block b t in if r < 0 then do { s \<leftarrow> free_block b s; Some (r, s) } else Some (c, s))" for b c t
    using pages_map_block [of t b] unfolding Let_def by (cases "map_block b t") (auto intro!: okp_rules keep)
  from this [THEN okp_mono] show ?thesis
    unfolding alloc_block_def alloc_block_num_def by (auto intro!: okp_rules keep)
qed

lemma keep_walk [THEN okp_mono, keep]: "okp (\<lambda>x. pages s \<subseteq> pages (snd x)) (file_block_walk f b a s)"
  unfolding file_block_walk_def by (auto intro!: okp_rules keep; blast)

lemma keep_map_block [THEN okp_mono, keep]: "okp (\<lambda>x. pages s \<subseteq> pages (snd x)) (file_map_block f b a s)"
  unfolding file_map_block_def by (auto intro!: okp_rules keep; blast)

lemma keep_clear_block [THEN okp_mono, keep]: "okp (\<lambda>x. pages s \<subseteq> pages (snd x)) (file_clear_block f b s)"
  unfolding file_clear_block_def by (auto intro!: okp_rules keep; blast)

lemma keep_get_block [THEN okp_mono, keep]: "okp (\<lambda>x. pages s \<subseteq> pages (snd x)) (file_get_block f b s)"
  unfolding file_get_block_def by (auto intro!: okp_rules keep; blast)

lemma keep_file_dirty [THEN okp_mono, keep]: "okp (\<lambda>x. pages s \<subseteq> pages (snd x)) (file_dirty f b s)"
  unfolding file_dirty_def using pages_dirty_block by (fastforce intro!: okp_rules keep)

lemma keep_find_entry [THEN okp_mono, keep]: "okp (\<lambda>_. True) (find_entry js files name s)"
  by (simp add: okp_any)

lemma keep_find_free [THEN okp_mono, keep]: "okp (\<lambda>_. True) (find_free_entry js files s)"
  by (simp add: okp_any)

lemma keep_dir_lookup_blocks [THEN okp_mono, keep]:
  "okp (\<lambda>x. pages s \<subseteq> pages (snd x)) (dir_lookup_blocks bs d n s)"
proof (induction bs arbitrary: s)
  case (Cons b bs)
  from Cons [THEN okp_mono] show ?case by (auto intro!: okp_rules keep; blast)
qed (simp add: okp_basic)

lemma keep_dir_alloc_blocks [THEN okp_mono, keep]:
  "okp (\<lambda>x. pages s \<subseteq> pages (snd x)) (dir_alloc_blocks bs d s)"
proof (induction bs arbitrary: s)
  case (Cons b bs)
  from Cons [THEN okp_mono] show ?case by (auto intro!: okp_rules keep; blast)
qed (simp add: okp_basic)

lemma keep_dir_lookup [THEN okp_mono, keep]: "okp (\<lambda>x. pages s \<subseteq> pages (snd x)) (dir_lookup d n s)"
  unfolding dir_lookup_def by (auto intro!: okp_rules keep)

lemma keep_dir_alloc_file [THEN okp_mono, keep]: "okp (\<lambda>x. pages s \<subseteq> pages (snd x)) (dir_alloc_file d s)"
  unfolding dir_alloc_file_def Let_def by (auto intro!: okp_rules keep; blast)

lemma keep_walk_loop [THEN okp_mono, keep]: "okp (\<lambda>x. pages s \<subseteq> pages (snd x)) (walk_loop p d f s)"
proof (induction "length p" arbitrary: p d f s rule: less_induct)
  case less
  show ?case
  proof (cases "p = []")
    case False
    from less [OF walk_decreases [OF False], THEN okp_mono] False show ?thesis
      by (subst walk_loop.simps) (auto simp: Let_def intro!: okp_rules keep; blast)
  qed (subst walk_loop.simps, simp add: okp_basic)
qed

lemma keep_file_open [THEN okp_mono, keep]: "okp (\<lambda>x. pages s \<subseteq> pages (snd x)) (file_open p s)"
  unfolding file_open_def walk_path_def by (auto intro!: okp_rules keep)

lemma keep_file_create [THEN okp_mono, keep]: "okp (\<lambda>x. pages s \<subseteq> pages (snd x)) (file_create p s)"
proof -
  have "okp (\<lambda>x. pages s \<subseteq> pages (snd x))
      (do { name \<leftarrow> l; (a, s) \<leftarrow> dir_alloc_file dir s;
            (case a of Inl _ \<Rightarrow> Some (Inl r, s) | Inr f \<Rightarrow> do { s \<leftarrow> ustrcpy (f_name f) name s; Some (Inr f, s) }) })"
    for s l dir and r :: int
    by (cases l; auto intro!: okp_rules keep; blast)
  note this [THEN okp_mono]
  then show ?thesis unfolding file_create_def walk_path_def by (auto intro!: okp_basic okp_prod keep okp_bind [of _ _ "walk_loop _ _ _ _"])
qed

lemma keep_for_each:
  assumes "\<And>x s. okp (\<lambda>t. pages s \<subseteq> pages t) (f x s)"
  shows "okp (\<lambda>t. pages s \<subseteq> pages t) (for_each xs f s)"
proof -
  have "pages s \<subseteq> pages t" if "for_each xs f s = Some t" for t
    by (rule for_each_inv [where I = "\<lambda>t. pages s \<subseteq> pages t", OF that])
      (auto dest!: okpD [OF assms])
  then show ?thesis by (simp add: okp_def)
qed

lemma keep_clear_or_panic: "okp (\<lambda>t. pages s \<subseteq> pages t) (clear_or_panic f b s)"
  unfolding clear_or_panic_def by (auto intro!: okp_rules keep)

lemma keep_flush_block: "okp (\<lambda>t. pages s \<subseteq> pages t) (flush_block f b s)"
  unfolding flush_block_def by (auto intro!: okp_rules keep; blast)

lemmas keep_loops [keep] = keep_for_each [OF keep_clear_or_panic, THEN okp_mono]
  keep_for_each [OF keep_flush_block, THEN okp_mono]

lemma keep_truncate [THEN okp_mono, keep]: "okp (\<lambda>t. pages s \<subseteq> pages t) (file_truncate f n s)"
  unfolding file_truncate_def Let_def by (auto intro!: okp_rules keep; blast)

lemma keep_flush [THEN okp_mono, keep]: "okp (\<lambda>t. pages s \<subseteq> pages t) (file_flush f s)"
  unfolding file_flush_def by (auto intro!: okp_rules keep)

lemma keep_set_size [THEN okp_mono, keep]: "okp (\<lambda>t. pages s \<subseteq> pages t) (file_set_size f n s)"
  unfolding file_set_size_def by (auto intro!: okp_rules keep; blast)

lemma keep_fs_sync [THEN okp_mono, keep]: "okp (\<lambda>t. pages s \<subseteq> pages t) (fs_sync s)"
proof -
  have "okp (\<lambda>t. pages s \<subseteq> pages t) (if block_is_dirty (of_nat i) s then write_block (of_nat i) s else Some s)" for i s
    by (auto intro!: okp_rules keep)
  note keep_for_each [of "\<lambda>i s. if block_is_dirty (of_nat i) s then write_block (of_nat i) s else Some s", OF this, THEN okp_mono]
  then show ?thesis unfolding fs_sync_def by (auto intro!: okp_bind keep_get32)
qed

lemma keep_close_scan [THEN okp_mono, keep]: "okp (\<lambda>t. pages s \<subseteq> pages t) (close_scan bs f s)"
proof (induction bs arbitrary: s)
  case (Cons b bs)
  have d: "pages s \<subseteq> pages u \<Longrightarrow> pages s \<subseteq> pages (snd (dirty_block n u))" for s u n
    using pages_dirty_block [of u n] by blast
  from Cons [THEN okp_mono] show ?case by (auto intro!: okp_rules keep d; blast)
qed (simp add: okp_basic)

lemma keep_file_close [THEN okp_mono, keep]: "okp (\<lambda>t. pages s \<subseteq> pages t) (file_close f s)"
  unfolding file_close_def by (auto intro!: okp_rules keep; blast)

lemma keep_file_remove [THEN okp_mono, keep]: "okp (\<lambda>x. pages s \<subseteq> pages (snd x)) (file_remove p s)"
  unfolding file_remove_def walk_path_def by (auto intro!: okp_rules keep; blast)

section \<open>The state of the server\<close>

definition table_ok :: "server \<Rightarrow> bool" where
  "table_ok s \<longleftrightarrow> (\<forall>i < MAXOPEN. o_fileid (opentab s i) = of_nat i \<and> o_ff (opentab s i) = FILEVA + of_nat (i * 4096))"

text \<open>A client has the file open: it maps the page beside the server.\<close>

definition held :: "nat \<Rightarrow> server \<Rightarrow> bool" where
  "held i s \<longleftrightarrow> i < MAXOPEN \<and> 2 \<le> pageref (o_ff (opentab s i)) s"

text \<open>File operations change nothing but the server's memory and the disk.\<close>

definition grow :: "server \<Rightarrow> server \<Rightarrow> bool" where
  "grow s t \<longleftrightarrow> replies t = replies s \<and> opentab t = opentab s \<and> shared t = shared s \<and> pages (fs s) \<subseteq> pages (fs t)"

text \<open>
  What every handler does: one answer to the client, the table stays well formed, no mapping
  is lost, and the entries of files that clients have open stay as they are.
\<close>

definition served :: "u32 \<Rightarrow> server \<Rightarrow> server \<Rightarrow> bool" where
  "served whom s t \<longleftrightarrow> (\<exists>v va. replies t = replies s @ [(whom, v, va)]) \<and> table_ok t
     \<and> pages (fs s) \<subseteq> pages (fs t) \<and> (\<forall>p \<in> pages (fs s). shared s p \<le> shared t p)
     \<and> (\<forall>i. held i s \<longrightarrow> opentab t i = opentab s i)"

lemma grow_refl [simp]: "grow s s"
  by (simp add: grow_def)

lemma grow_trans: "grow s t \<Longrightarrow> grow t u \<Longrightarrow> grow s u"
  by (auto simp: grow_def)

lemma okp_on_fs:
  "okp (\<lambda>x. pages (fs s) \<subseteq> pages (snd x)) (f (fs s)) \<Longrightarrow> (\<And>r t. grow s t \<Longrightarrow> P (r, t)) \<Longrightarrow> okp P (on_fs f s)"
  by (auto simp: okp_def on_fs_def grow_def)

lemma okp_do_fs:
  "okp (\<lambda>t. pages (fs s) \<subseteq> pages t) (f (fs s)) \<Longrightarrow> (\<And>t. grow s t \<Longrightarrow> P t) \<Longrightarrow> okp P (do_fs f s)"
  by (auto simp: okp_def do_fs_def grow_def)

lemma grow_send:
  assumes "table_ok s" "grow s t"
  shows "served whom s (ipc_send whom v va t)"
  using assms by (auto simp: served_def grow_def ipc_send_def table_ok_def)

lemma with_open_served:
  assumes "table_ok s" "\<And>i. okp (served whom s) (body i s)"
  shows "okp (served whom s) (with_open whom body s)"
  unfolding with_open_def
  by (auto intro!: okp_rules keep grow_send assms)

lemmas file_keeps = keep_get_block keep_set_size keep_file_close keep_file_dirty keep_file_remove keep_fs_sync
  keep_file_create keep_file_open keep_umemcpy keep_put32

lemma serve_map_served: "table_ok s \<Longrightarrow> okp (served whom s) (serve_map whom s)"
  unfolding serve_map_def
  by (rule with_open_served) (auto intro!: okp_rules okp_on_fs file_keeps keep_get32 grow_send)

lemma serve_set_size_served: "table_ok s \<Longrightarrow> okp (served whom s) (serve_set_size whom s)"
  unfolding serve_set_size_def
  by (rule with_open_served) (auto intro!: okp_rules okp_do_fs file_keeps keep_get32 grow_send)

lemma serve_close_served: "table_ok s \<Longrightarrow> okp (served whom s) (serve_close whom s)"
  unfolding serve_close_def
  by (rule with_open_served) (auto intro!: okp_rules okp_do_fs file_keeps grow_send)

lemma serve_dirty_served: "table_ok s \<Longrightarrow> okp (served whom s) (serve_dirty whom s)"
  unfolding serve_dirty_def
  by (rule with_open_served) (auto intro!: okp_rules okp_on_fs file_keeps keep_get32 grow_send)

lemma serve_sync_served: "table_ok s \<Longrightarrow> okp (served whom s) (serve_sync whom s)"
  unfolding serve_sync_def by (auto intro!: okp_rules okp_do_fs file_keeps grow_send)

lemma serve_remove_served:
  assumes "table_ok s"
  shows "okp (served whom s) (serve_remove whom s)"
proof -
  have "okp (served whom s) (do { (r, s) \<leftarrow> on_fs (file_remove p) s; Some (ipc_send whom r 0 s) })" for p
    using assms by (auto intro!: okp_rules okp_on_fs file_keeps grow_send)
  then show ?thesis unfolding serve_remove_def by (rule okp_bind [OF okp_any])
qed

subsection \<open>Opening\<close>

text \<open>The page of an entry is not the page of another, nor the request page.\<close>

lemma uvpn_ff:
  assumes "table_ok s" "i < MAXOPEN" "j < MAXOPEN"
  shows "uvpn (o_ff (opentab s i)) = uvpn (o_ff (opentab s j)) \<longleftrightarrow> i = j" "uvpn (o_ff (opentab s i)) \<noteq> uvpn REQVA"
proof -
  have u: "unat (uvpn (FILEVA + of_nat (k * 4096))) = 0x60000 + k" if "k < MAXOPEN" for k
  proof -
    have "unat (FILEVA + of_nat (k * 4096)) = 0x60000000 + k * 4096"
      using that by (simp add: FILEVA_def MAXOPEN_def unat_word_ariths unsigned_of_nat take_bit_nat_eq_self)
    then show ?thesis by (simp add: uvpn_def drop_bit_eq_div unat_div)
  qed
  have f: "o_ff (opentab s k) = FILEVA + of_nat (k * 4096)" if "k < MAXOPEN" for k using assms(1) that by (simp add: table_ok_def)
  show "uvpn (o_ff (opentab s i)) = uvpn (o_ff (opentab s j)) \<longleftrightarrow> i = j"
    using u [OF assms(2)] u [OF assms(3)] unfolding f [OF assms(2)] f [OF assms(3)] by (metis add_left_cancel)
  have "unat (uvpn REQVA) = 0xffff" by (simp add: uvpn_def REQVA_def)
  with u [OF assms(2)] show "uvpn (o_ff (opentab s i)) \<noteq> uvpn REQVA" unfolding f [OF assms(2)] by auto
qed

lemma open_scan_spec:
  assumes "open_scan is s = (r, t)" "set is \<subseteq> {..<MAXOPEN}"
  shows "replies t = replies s \<and> opentab t = opentab s \<and> pages (fs s) \<subseteq> pages (fs t)
    \<and> (\<forall>p \<in> pages (fs s). shared t p = shared s p)
    \<and> (\<forall>i. r = Inr i \<longrightarrow> i \<in> set is \<and> \<not> held i s \<and> pageref (o_ff (opentab s i)) s \<le> 1)"
  using assms
proof (induction "is" arbitrary: r t)
  case (Cons i is')
  let ?ff = "o_ff (opentab s i)"
  obtain q u where a: "syscall_mem_alloc ?ff PERM_SHARE (fs s) = (q, u)" by force
  have u: "pages (fs s) \<subseteq> pages u" using pages_alloc [of "fs s" ?ff PERM_SHARE] by (simp add: a)
  consider "pageref ?ff s = 0" | "pageref ?ff s = 1" | "2 \<le> pageref ?ff s" by linarith
  then show ?case
  proof cases
    case 1
    then have "uvpn ?ff \<notin> pages (fs s)" by (auto simp: pageref_def mapped_pages split: if_splits)
    with 1 u Cons.prems show ?thesis by (auto simp: a Let_def clear_page_def held_def split: if_splits)
  next
    case 2
    with Cons.prems show ?thesis by (auto simp: clear_page_def held_def Let_def)
  next
    case 3
    with Cons.prems have "open_scan is' s = (r, t)" by simp
    from Cons.IH [OF this] Cons.prems(2) show ?thesis by auto
  qed
qed (auto simp: held_def)

lemma open_scan_mapped:
  assumes "open_scan is s = (Inr i, t)"
  shows "uvpn (o_ff (opentab s i)) \<in> pages (fs t)"
  using assms
proof (induction "is")
  case (Cons j is')
  let ?ff = "o_ff (opentab s j)"
  obtain q u where a: "syscall_mem_alloc ?ff PERM_SHARE (fs s) = (q, u)" by force
  then have "q < 0 \<or> uvpn ?ff \<in> pages u"
    by (auto simp: syscall_mem_alloc_def Let_def pages_def errno split: if_splits list.splits)
  moreover have "uvpn ?ff \<in> pages (fs s)" if "pageref ?ff s \<noteq> 0"
    using that by (auto simp: pageref_def mapped_pages split: if_splits)
  ultimately show ?case using Cons by (auto simp: a Let_def clear_page_def split: if_splits)
qed simp

text \<open>\<open>serve_open\<close> after the allocation of entry \<open>i\<close>: nothing else has changed since \<open>s\<close>.\<close>

definition taken_for :: "nat \<Rightarrow> server \<Rightarrow> server \<Rightarrow> bool" where
  "taken_for i s t \<longleftrightarrow> i < MAXOPEN \<and> \<not> held i s \<and> replies t = replies s \<and> table_ok t
     \<and> (\<forall>j. j \<noteq> i \<longrightarrow> opentab t j = opentab s j)
     \<and> pages (fs s) \<subseteq> pages (fs t) \<and> uvpn (o_ff (opentab t i)) \<in> pages (fs t)
     \<and> (\<forall>p \<in> pages (fs s). shared t p = shared s p)"

lemma entry_grow: "taken_for i s t \<Longrightarrow> grow t u \<Longrightarrow> taken_for i s u"
  by (auto simp: taken_for_def grow_def table_ok_def)

lemma entry_set:
  "taken_for i s t \<Longrightarrow> taken_for i s (t\<lparr>opentab := (opentab t)(i := (opentab t i)\<lparr>o_file := f\<rparr>)\<rparr>)"
  "taken_for i s t \<Longrightarrow> taken_for i s (t\<lparr>opentab := (opentab t)(i := (opentab t i)\<lparr>o_mode := m\<rparr>)\<rparr>)"
  by (auto simp: taken_for_def table_ok_def)

lemma entry_send:
  assumes "taken_for i s t"
  shows "served whom s (ipc_send whom v va t)"
proof -
  have "opentab t j = opentab s j" if "held j s" for j using assms that by (cases "j = i") (auto simp: taken_for_def)
  with assms show ?thesis by (auto simp: served_def taken_for_def ipc_send_def table_ok_def)
qed

lemma open_alloc_entry:
  assumes "table_ok s" "open_alloc s = (Inr i, t)"
  shows "taken_for i s t"
proof -
  have o: "open_scan [0..<MAXOPEN] s = (Inr i, t)" using assms(2) by (simp add: open_alloc_def)
  have "set [0..<MAXOPEN] \<subseteq> {..<MAXOPEN}" by auto
  from open_scan_spec [OF o this] open_scan_mapped [OF o] assms(1) show ?thesis
    by (simp add: taken_for_def table_ok_def)
qed

text \<open>With the file that was opened recorded.\<close>

definition entry_file :: "nat \<Rightarrow> u64 \<Rightarrow> server \<Rightarrow> server \<Rightarrow> bool" where
  "entry_file i f s t \<longleftrightarrow> taken_for i s t \<and> o_file (opentab t i) = f"

lemma entry_file_do_fs:
  assumes "entry_file i f s t" "okp (\<lambda>u. pages (fs t) \<subseteq> pages u) (g (fs t))" "\<And>u. entry_file i f s u \<Longrightarrow> P u"
  shows "okp P (do_fs g t)"
proof (rule okp_do_fs [of t g, OF assms(2)])
  fix u
  assume "grow t u"
  with assms(1) have "entry_file i f s u" using entry_grow [of i s t u] by (auto simp: entry_file_def grow_def)
  then show "P u" by (rule assms(3))
qed

lemma fill_filefd_entry:
  assumes "entry_file i f s t"
  shows "okp (entry_file i f s) (fill_filefd i a m t)"
proof -
  have "entry_file i f s u \<Longrightarrow> entry_file i f s (u\<lparr>opentab := (opentab u)(i := (opentab u i)\<lparr>o_mode := m\<rparr>)\<rparr>)" for u
    using entry_set(2) [of i s u m] by (simp add: entry_file_def)
  then show ?thesis
    unfolding fill_filefd_def Let_def by (auto intro!: okp_bind entry_file_do_fs file_keeps assms)
qed

text \<open>The handler either reports an error or shares the page of an entry nobody had open.\<close>

definition opened :: "u32 \<Rightarrow> server \<Rightarrow> server \<Rightarrow> bool" where
  "opened whom s t \<longleftrightarrow>
     (\<exists>i u v va. taken_for i s u \<and> t = ipc_send whom v va u
        \<and> (va = 0 \<or> v = 0 \<and> va = o_ff (opentab u i)))"

lemma openedI:
  "taken_for i s u \<Longrightarrow> opened whom s (ipc_send whom v 0 u)"
  "taken_for i s u \<Longrightarrow> opened whom s (ipc_send whom 0 (o_ff (opentab u i)) u)"
  by (auto simp: opened_def)

lemma serve_open_file_opened:
  assumes "taken_for i s t"
  shows "okp (opened whom s) (serve_open_file whom i p m t)"
proof -
  have e: "grow t u \<Longrightarrow> entry_file i f s (u\<lparr>opentab := (opentab u)(i := (opentab u i)\<lparr>o_file := f\<rparr>)\<rparr>)" for u f
    using entry_set(1) [OF entry_grow [OF assms], of u f] by (simp add: entry_file_def)
  have fill: "entry_file i f s u \<Longrightarrow> (\<And>x. entry_file i f s x \<Longrightarrow> P x) \<Longrightarrow> okp P (fill_filefd i a m u)" for f u a P
    by (rule okp_mono [OF fill_filefd_entry])
  have last: "entry_file i f s u \<Longrightarrow> okp (opened whom s) (Some (ipc_send whom 0 (o_ff (opentab u i)) u))" for f u
    by (auto simp: entry_file_def intro!: okp_basic openedI)
  show ?thesis
    unfolding serve_open_file_def Let_def
    by (auto intro!: okp_basic(3) okp_bind okp_prod okp_on_fs file_keeps
        intro: okp_basic(1) openedI(1) entry_grow [OF assms] entry_file_do_fs e fill last)
qed

lemma opened_served: "opened whom s t \<Longrightarrow> served whom s t"
  by (auto simp: opened_def intro: entry_send)

lemma serve_open_cases:
  assumes "table_ok s" "serve_open whom s = Some t"
  shows "opened whom s t \<or> (\<exists>r u. open_alloc s = (Inl r, u) \<and> t = ipc_send whom r 0 u)"
proof (cases "open_alloc s")
  case (Pair o' u)
  show ?thesis
  proof (cases o')
    case (Inl r)
    with assms(2) Pair show ?thesis by (auto simp: serve_open_def)
  next
    case (Inr i)
    with Pair have u: "taken_for i s u" using open_alloc_entry [OF assms(1)] by simp
    have "okp (opened whom s) (do { omode \<leftarrow> get32 (fs u) (REQVA + of_nat MAXPATHLEN);
        (c, s) \<leftarrow> (if omode AND O_CREAT \<noteq> 0 then on_fs (file_create p) u else Some (Inr 0, u));
        (case c of
           Inl r \<Rightarrow> if r \<noteq> - E_FILE_EXISTS then Some (ipc_send whom r 0 s) else serve_open_file whom i p omode s
         | Inr _ \<Rightarrow> serve_open_file whom i p omode s) })" for p
      by (auto intro!: okp_rules keep_get32 okp_on_fs file_keeps serve_open_file_opened
          intro: openedI entry_grow [OF u] u)
    from okp_bind [OF okp_any [OF this], of "ustring (fs u) REQVA"]
    have "okp (opened whom s) (serve_open whom s)" using Pair Inr by (simp add: serve_open_def)
    with assms(2) show ?thesis by (auto simp: okp_def)
  qed
qed

lemma serve_open_served:
  assumes "table_ok s"
  shows "okp (served whom s) (serve_open whom s)"
proof -
  have "served whom s t" if t: "serve_open whom s = Some t" for t
  proof (cases "opened whom s t")
    case True
    then show ?thesis by (rule opened_served)
  next
    case False
    with serve_open_cases [OF assms t] obtain r u where
      u: "open_scan [0..<MAXOPEN] s = (Inl r, u)" "t = ipc_send whom r 0 u" by (auto simp: open_alloc_def)
    have "set [0..<MAXOPEN] \<subseteq> {..<MAXOPEN}" by auto
    from open_scan_spec [OF u(1) this] assms u(2) show ?thesis by (auto simp: served_def ipc_send_def table_ok_def)
  qed
  then show ?thesis by (simp add: okp_def)
qed

section \<open>The contract of the handlers\<close>

locale request_handler =
  fixes handle :: "u32 \<Rightarrow> server \<Rightarrow> server option"
  assumes handled: "table_ok s \<Longrightarrow> okp (served whom s) (handle whom s)"
begin

lemma one_reply:
  assumes "table_ok s" "handle whom s = Some t"
  shows "\<exists>v va. replies t = replies s @ [(whom, v, va)]"
  using okpD [OF handled [OF assms(1)] assms(2)] by (auto simp: served_def)

lemma table_kept: "table_ok s \<Longrightarrow> handle whom s = Some t \<Longrightarrow> table_ok t"
  by (auto simp: served_def dest: okpD [OF handled])

text \<open>A file that a client has open stays open, with the same entry.\<close>

lemma held_kept:
  assumes "table_ok s" "handle whom s = Some t" "held i s"
  shows "held i t \<and> opentab t i = opentab s i"
proof -
  let ?p = "uvpn (o_ff (opentab s i))"
  from okpD [OF handled [OF assms(1)] assms(2)] have t: "served whom s t" .
  from assms(3) have p: "?p \<in> pages (fs s)" "2 \<le> 1 + shared s ?p" "i < MAXOPEN"
    by (auto simp: held_def pageref_def mapped_pages split: if_splits)
  from t assms(3) have e: "opentab t i = opentab s i" by (simp add: served_def)
  from t p(1) have "?p \<in> pages (fs t)" "shared s ?p \<le> shared t ?p" by (auto simp: served_def)
  with p e show ?thesis by (simp add: held_def pageref_def mapped_pages)
qed

end

interpretation sv_open: request_handler serve_open
  by unfold_locales (rule serve_open_served)

interpretation sv_map: request_handler serve_map
  by unfold_locales (rule serve_map_served)

interpretation sv_set_size: request_handler serve_set_size
  by unfold_locales (rule serve_set_size_served)

interpretation sv_close: request_handler serve_close
  by unfold_locales (rule serve_close_served)

interpretation sv_dirty: request_handler serve_dirty
  by unfold_locales (rule serve_dirty_served)

interpretation sv_remove: request_handler serve_remove
  by unfold_locales (rule serve_remove_served)

interpretation sv_sync: request_handler serve_sync
  by unfold_locales (rule serve_sync_served)

lemma serve_table_handler:
  assumes "k < MAX_FSREQNO"
  shows "request_handler (serve_table ! k)"
proof -
  have "k \<in> {0, 1, 2, 3, 4, 5, 6}" using assms by (auto simp: MAX_FSREQNO_def)
  then show ?thesis
    using sv_open.request_handler_axioms sv_map.request_handler_axioms sv_set_size.request_handler_axioms
      sv_close.request_handler_axioms sv_dirty.request_handler_axioms sv_remove.request_handler_axioms sv_sync.request_handler_axioms
    by (auto simp: serve_table_def)
qed

section \<open>Rounds of the loop\<close>

lemma receive_simps [simp]:
  "opentab (receive m s) = opentab s" "shared (receive m s) = shared s" "replies (receive m s) = replies s"
  by (simp_all add: receive_def)

lemma receive_table [simp]: "table_ok (receive m s) \<longleftrightarrow> table_ok s"
  by (simp add: table_ok_def)

lemma receive_held:
  assumes "table_ok s"
  shows "held i (receive m s) \<longleftrightarrow> held i s"
proof (cases "i < MAXOPEN")
  case True
  from uvpn_ff(2) [OF assms True True] have "upt (fs (receive m s)) (uvpn (o_ff (opentab s i))) = upt (fs s) (uvpn (o_ff (opentab s i)))"
    by (simp add: receive_def)
  then show ?thesis by (simp add: held_def pageref_def mapped_def)
qed (simp add: held_def)

lemma unmap_request_eq:
  "unmap_request s = Some (s\<lparr>fs := (fs s)\<lparr>upt := (upt (fs s))(uvpn REQVA := None)\<rparr>\<rparr>)"
  by (simp add: unmap_request_def syscall_mem_unmap_def is_illegal_va_def user_assert_def REQVA_def layout)

lemma unmap_request_held:
  assumes "table_ok s" "unmap_request s = Some t"
  shows "table_ok t" "held i t \<longleftrightarrow> held i s" "opentab t = opentab s" "replies t = replies s" "\<not> mapped (fs t) REQVA"
proof -
  from assms(2) have t: "t = s\<lparr>fs := (fs s)\<lparr>upt := (upt (fs s))(uvpn REQVA := None)\<rparr>\<rparr>"
    by (simp add: unmap_request_eq)
  from assms(1) t show "table_ok t" "opentab t = opentab s" "replies t = replies s" "\<not> mapped (fs t) REQVA"
    by (simp_all add: table_ok_def mapped_def)
  show "held i t \<longleftrightarrow> held i s"
  proof (cases "i < MAXOPEN")
    case True
    with uvpn_ff(2) [OF assms(1) True True] show ?thesis by (simp add: t held_def pageref_def mapped_def)
  qed (simp add: held_def)
qed

end
