(* ===== verification/ServProps.thy ===== *)
theory ServProps
  imports ServInv
begin

text \<open>The properties of the request loop of the file-system server.\<close>

section \<open>A sample server\<close>

text \<open>The table after \<^verbatim>\<open>serve_init\<close>; the pages in \<open>P\<close> are mapped, those in \<open>C\<close> also by one client.\<close>

definition sample_server :: "u64 set \<Rightarrow> u64 set \<Rightarrow> server" where
  "sample_server P C =
     serve_init \<lparr>fs = \<lparr>umem = \<lambda>_. 0, upt = \<lambda>p. if p \<in> P then Some 0 else None, grants = [True], disk = \<lambda>_. 0,
         super = 0x10001000, bitmap = 0x10002000\<rparr>,
       opentab = \<lambda>_. \<lparr>o_file = 0, o_fileid = 0, o_mode = 0, o_ff = 0\<rparr>,
       shared = \<lambda>p. if p \<in> C then 1 else 0, replies = []\<rparr>"

lemma serve_init_table: "table_ok (serve_init s)"
  by (simp add: table_ok_def serve_init_def BLOCK_SIZE_def)

lemma sample_table: "table_ok (sample_server P C)"
  by (simp add: sample_server_def serve_init_table)

text \<open>A request to close file 7.\<close>

definition close_message :: message where
  "close_message = \<lparr>m_ret = 0, m_whom = 0x800, m_req = 3, m_perm = ucast PTE_V, m_page = \<lambda>a. if a = 0 then 7 else 0\<rparr>"

lemma close_message_request:
  assumes "table_ok s" "\<not> held 7 s"
  shows "\<exists>t. serve_round close_message s = Some t"
proof -
  let ?r = "receive close_message s"
  have m: "mapped (fs ?r) REQVA" by (simp add: receive_def close_message_def mapped_def pteflags)
  have "umem (fs ?r) = blit (umem (fs s)) REQVA (\<lambda>a. if a = 0 then 7 else 0) 0 4096"
    by (simp add: receive_def close_message_def pteflags)
  then have "umem (fs ?r) REQVA = 7" "umem (fs ?r) (REQVA + 1) = 0" "umem (fs ?r) (REQVA + 2) = 0" "umem (fs ?r) (REQVA + 3) = 0"
    by (simp_all add: blit_def)
  then have "load_le 4 (umem (fs ?r)) REQVA = 7" by (simp add: load4_byte)
  with m have g: "get32 (fs ?r) REQVA = Some 7" by (simp add: get32_def uload_def)
  have "\<not> held 7 ?r" using assms receive_held by simp
  then have "open_lookup w 7 ?r = Inl (- E_INVAL)" for w by (auto simp: open_lookup_def held_def MAXOPEN_def)
  with g have "serve_close w ?r = Some (ipc_send w (- E_INVAL) 0 ?r)" for w by (simp add: serve_close_def with_open_def)
  then show ?thesis
    by (simp add: serve_round_def Let_def unmap_request_eq close_message_def serve_table_def MAX_FSREQNO_def pteflags)
qed

section \<open>The protocol\<close>

lemma serve_round_cases:
  assumes "table_ok s" "serve_round m s = Some t"
  shows "table_ok t"
    "if m_ret m = 0 \<and> m_perm m AND ucast PTE_V \<noteq> 0 \<and> unat (m_req m) < MAX_FSREQNO
     then \<exists>v va. replies t = replies s @ [(m_whom m, v, va)] else replies t = replies s"
    "m_ret m = 0 \<and> m_perm m AND ucast PTE_V \<noteq> 0 \<longrightarrow> \<not> mapped (fs t) REQVA"
    "held i s \<Longrightarrow> held i t \<and> opentab t i = opentab s i"
proof -
  let ?r = "receive m s" and ?h = "serve_table ! unat (m_req m)"
  let ?goal = "table_ok t \<and>
    (if m_ret m = 0 \<and> m_perm m AND ucast PTE_V \<noteq> 0 \<and> unat (m_req m) < MAX_FSREQNO
     then \<exists>v va. replies t = replies s @ [(m_whom m, v, va)] else replies t = replies s)
    \<and> (m_ret m = 0 \<and> m_perm m AND ucast PTE_V \<noteq> 0 \<longrightarrow> \<not> mapped (fs t) REQVA)
    \<and> (held i s \<longrightarrow> held i t \<and> opentab t i = opentab s i)"
  have r: "table_ok ?r" using assms(1) by simp
  consider (fail) "m_ret m \<noteq> 0" | (nopage) "m_ret m = 0" "m_perm m AND ucast PTE_V = 0"
    | (bad) "m_ret m = 0" "m_perm m AND ucast PTE_V \<noteq> 0" "MAX_FSREQNO \<le> unat (m_req m)"
    | (good) "m_ret m = 0" "m_perm m AND ucast PTE_V \<noteq> 0" "unat (m_req m) < MAX_FSREQNO" by linarith
  then have ?goal
  proof cases
    case fail
    with assms show ?thesis by (simp add: serve_round_def)
  next
    case nopage
    with assms show ?thesis by (auto simp: serve_round_def receive_def)
  next
    case bad
    with assms(2) have "unmap_request ?r = Some t" by (simp add: serve_round_def)
    from unmap_request_held [OF r this] bad receive_held [OF assms(1), of i m] show ?thesis by auto
  next
    case good
    with assms(2) obtain u where u: "?h (m_whom m) ?r = Some u" "unmap_request u = Some t"
      by (auto simp: serve_round_def)
    have h: "request_handler ?h" by (rule serve_table_handler [OF good(3)])
    have "table_ok u" by (rule request_handler.table_kept [OF h r u(1)])
    note t = unmap_request_held [OF this u(2)]
    from request_handler.one_reply [OF h r u(1)] t(4) have "\<exists>v va. replies t = replies s @ [(m_whom m, v, va)]" by simp
    moreover have "held i t \<and> opentab t i = opentab s i" if "held i s"
      using request_handler.held_kept [OF h r u(1), of i] that receive_held [OF assms(1), of i m] t(2,3) by simp
    ultimately show ?thesis using good t(1,5) by simp
  qed
  then show "table_ok t"
    "if m_ret m = 0 \<and> m_perm m AND ucast PTE_V \<noteq> 0 \<and> unat (m_req m) < MAX_FSREQNO
     then \<exists>v va. replies t = replies s @ [(m_whom m, v, va)] else replies t = replies s"
    "m_ret m = 0 \<and> m_perm m AND ucast PTE_V \<noteq> 0 \<longrightarrow> \<not> mapped (fs t) REQVA"
    "held i s \<Longrightarrow> held i t \<and> opentab t i = opentab s i" by blast+
qed

text \<open>C25: A round of the server answers a valid request with exactly one message to its sender, takes
  the request page out of its address space, and keeps the table of open files well formed.
  A request without a page or with an unknown number gets no answer at all.
\<close>

theorem serve_round_protocol:
  assumes "table_ok s" "serve_round m s = Some t"
  shows "table_ok t \<and>
    (if m_ret m = 0 \<and> m_perm m AND ucast PTE_V \<noteq> 0 \<and> unat (m_req m) < MAX_FSREQNO
     then \<exists>v va. replies t = replies s @ [(m_whom m, v, va)] else replies t = replies s) \<and>
    (m_ret m = 0 \<and> m_perm m AND ucast PTE_V \<noteq> 0 \<longrightarrow> \<not> mapped (fs t) REQVA)"
  using serve_round_cases(1-3) [OF assms] by blast

theorem serve_round_protocol_witness:
  "\<exists>t v va. serve_round close_message (sample_server {} {}) = Some t \<and> replies t = [(0x800, v, va)]
     \<and> \<not> mapped (fs t) REQVA"
proof -
  have "\<not> held 7 (sample_server {} {})" by (simp add: held_def pageref_def mapped_def sample_server_def serve_init_def)
  from close_message_request [OF sample_table this] obtain t where
    t: "serve_round close_message (sample_server {} {}) = Some t" by blast
  from serve_round_protocol [OF sample_table t] have "\<exists>v va. replies t = [(0x800, v, va)]" "\<not> mapped (fs t) REQVA"
    by (simp_all add: close_message_def MAX_FSREQNO_def pteflags sample_server_def serve_init_def)
  with t show ?thesis by blast
qed

section \<open>Open files\<close>

lemma held_lookup:
  assumes "held i s"
  shows "open_lookup envid (of_nat i) s = Inr i"
proof -
  have "i < 1024" using assms by (simp add: held_def MAXOPEN_def)
  then have "unat (of_nat i :: u32) = i" by (simp add: unsigned_of_nat take_bit_nat_eq_self)
  with assms show ?thesis by (simp add: open_lookup_def held_def)
qed

text \<open>C23: A file a client has open stays open through any sequence of requests, from whatever
  clients: its entry does not change and the file number keeps finding it.
\<close>

theorem open_files_survive:
  assumes "table_ok s" "serve ms s = Some t" "held i s"
  shows "held i t \<and> opentab t i = opentab s i \<and> open_lookup envid (of_nat i) t = Inr i"
proof -
  have "held i t \<and> opentab t i = opentab s i"
    using assms
  proof (induction ms arbitrary: s)
    case (Cons m ms)
    then obtain u where u: "serve_round m s = Some u" "serve ms u = Some t" by auto
    note c = serve_round_cases(1,4) [OF Cons.prems(1) u(1)]
    from Cons.IH [OF c(1) u(2)] c(2) [OF Cons.prems(3)] show ?case by simp
  qed simp
  then show ?thesis by (simp add: held_lookup)
qed

lemma sample_held:
  assumes "i < MAXOPEN"
  shows "held i (sample_server {0x60000} {0x60000}) \<longleftrightarrow> i = 0"
proof -
  have z: "0 < MAXOPEN" by (simp add: MAXOPEN_def)
  let ?s = "sample_server {0x60000} {0x60000}"
  have "uvpn (o_ff (opentab ?s 0)) = 0x60000"
    by (simp add: sample_server_def serve_init_def MAXOPEN_def FILEVA_def uvpn_def)
  with uvpn_ff(1) [OF sample_table [of "{0x60000}" "{0x60000}"] assms z]
  have "uvpn (o_ff (opentab ?s i)) = 0x60000 \<longleftrightarrow> i = 0" by simp
  then show ?thesis using assms by (simp add: held_def pageref_def mapped_def) (simp add: sample_server_def serve_init_def)
qed

theorem open_files_survive_witness:
  "\<exists>t. serve [close_message] (sample_server {0x60000} {0x60000}) = Some t \<and> open_lookup 0x800 (of_nat 0) t = Inr 0"
proof -
  let ?s = "sample_server {0x60000} {0x60000}"
  have h: "held 0 ?s" "\<not> held 7 ?s" using sample_held [of 0] sample_held [of 7] by (simp_all add: MAXOPEN_def)
  from close_message_request [OF sample_table h(2)] obtain t where "serve [close_message] ?s = Some t" by auto
  with open_files_survive [where envid = "0x800", OF sample_table this h(1)] show ?thesis by blast
qed





end
