(* ===== verification/Ring.thy ===== *)
theory Ring
  imports Prelude
begin

text \<open>
  Ring buffers.  The serial driver queues characters in \<^verbatim>\<open>struct CharQueue\<close>
  (\<^verbatim>\<open>driver/serial/char_queue.c\<close>), a pipe keeps its bytes in \<^verbatim>\<open>struct Pipe\<close> (\<^verbatim>\<open>user/lib/pipe.c\<close>).  The
  locale \<open>byte_ring\<close> is the contract both meet for one transfer at a time, \<open>bounded_queue\<close>
  adds that a non-empty buffer is always seen to be so; the loops that copy several bytes
  are proved once inside them.
\<close>

lemma ring_index_neq:
  assumes "i < j" "j - i < (m :: nat)"
  shows "(f + i) mod m \<noteq> (f + j) mod m"
proof
  assume "(f + i) mod m = (f + j) mod m"
  then have "m dvd (f + j) - (f + i)" using assms(1) by (metis add_le_cancel_left less_imp_le mod_eq_dvd_iff_nat)
  with assms show False by (auto dest: dvd_imp_le)
qed

section \<open>The loops over a buffer\<close>

text \<open>\<^verbatim>\<open>while (ready && i < n)\<close> taking a byte per round; what was taken.\<close>

fun drain :: "('q \<Rightarrow> bool) \<Rightarrow> ('q \<Rightarrow> 'a \<times> 'q) \<Rightarrow> nat \<Rightarrow> 'q \<Rightarrow> 'a list \<times> 'q" where
  "drain ready deq 0 q = ([], q)"
| "drain ready deq (Suc n) q =
     (if ready q
      then (let (x, q) = deq q; (xs, q) = drain ready deq n q in (x # xs, q))
      else ([], q))"

text \<open>\<^verbatim>\<open>while (room && i < n)\<close> storing a byte per round; what was not stored.\<close>

fun fill :: "('q \<Rightarrow> bool) \<Rightarrow> ('a \<Rightarrow> 'q \<Rightarrow> 'q) \<Rightarrow> 'a list \<Rightarrow> 'q \<Rightarrow> 'a list \<times> 'q" where
  "fill room enq [] q = ([], q)"
| "fill room enq (x # xs) q = (if room q then fill room enq xs (enq x q) else (x # xs, q))"

section \<open>The contract\<close>

locale byte_ring =
  fixes rep :: "'q \<Rightarrow> 'a list \<Rightarrow> bool"
    and cap :: nat
    and ready room :: "'q \<Rightarrow> bool"
    and enq :: "'a \<Rightarrow> 'q \<Rightarrow> 'q"
    and deq :: "'q \<Rightarrow> 'a \<times> 'q"
  assumes rep_length: "rep q xs \<Longrightarrow> length xs \<le> cap"
    and ready_sound: "rep q xs \<Longrightarrow> ready q \<Longrightarrow> xs \<noteq> []"
    and room_iff: "rep q xs \<Longrightarrow> room q \<longleftrightarrow> length xs < cap"
    and enq_rep: "rep q xs \<Longrightarrow> length xs < cap \<Longrightarrow> rep (enq x q) (xs @ [x])"
    and deq_rep: "rep q (x # xs) \<Longrightarrow> fst (deq q) = x \<and> rep (snd (deq q)) xs"
begin

text \<open>Taking bytes yields a prefix of the contents, in order.\<close>

lemma drain_prefix:
  assumes "rep q xs" "drain ready deq n q = (ys, q')"
  shows "\<exists>zs. xs = ys @ zs \<and> length ys \<le> n \<and> rep q' zs"
  using assms
proof (induction n arbitrary: q xs ys)
  case (Suc n)
  show ?case
  proof (cases "ready q")
    case True
    with ready_sound [OF Suc.prems(1)] obtain x xs' where xs: "xs = x # xs'" by (cases xs) auto
    obtain ys' where ys: "ys = x # ys'" "drain ready deq n (snd (deq q)) = (ys', q')"
      using Suc.prems True deq_rep [of q x xs'] by (auto simp: xs split_beta)
    from deq_rep Suc.prems(1) xs have "rep (snd (deq q)) xs'" by auto
    from Suc.IH [OF this ys(2)] show ?thesis by (auto simp: xs ys)
  qed (use Suc.prems in auto)
qed auto

text \<open>Storing bytes appends as many as there is room for.\<close>

lemma fill_take:
  assumes "rep q xs"
  shows "fst (fill room enq ys q) = drop (cap - length xs) ys \<and>
    rep (snd (fill room enq ys q)) (xs @ take (cap - length xs) ys)"
  using assms
proof (induction ys arbitrary: q xs)
  case (Cons y ys)
  show ?case
  proof (cases "length xs < cap")
    case True
    then obtain k where k: "cap - length xs = Suc k" by (cases "cap - length xs") auto
    then have "cap - Suc (length xs) = k" by simp
    with Cons.IH [OF enq_rep [OF Cons.prems True, of y]] k
    show ?thesis using True room_iff [OF Cons.prems] by simp
  qed (use Cons.prems room_iff [OF Cons.prems] in auto)
qed auto

end

locale bounded_queue = byte_ring rep cap ready room enq deq
  for rep :: "'q \<Rightarrow> 'a list \<Rightarrow> bool"
    and cap :: nat
    and ready room :: "'q \<Rightarrow> bool"
    and enq :: "'a \<Rightarrow> 'q \<Rightarrow> 'q"
    and deq :: "'q \<Rightarrow> 'a \<times> 'q" +
  assumes ready_complete: "rep q xs \<Longrightarrow> xs \<noteq> [] \<Longrightarrow> ready q"
begin

lemma drain_take:
  assumes "rep q xs"
  shows "fst (drain ready deq n q) = take n xs \<and> rep (snd (drain ready deq n q)) (drop n xs)"
  using assms
proof (induction n arbitrary: q xs)
  case (Suc n)
  show ?case
  proof (cases xs)
    case Nil
    with ready_sound [OF Suc.prems] Suc.prems show ?thesis by auto
  next
    case (Cons x xs')
    with ready_complete [OF Suc.prems] deq_rep [of q x xs'] Suc.prems Suc.IH [of "snd (deq q)" xs']
    show ?thesis by (simp add: split_beta)
  qed
qed auto

text \<open>What one side stored the other takes out again, in the same order.\<close>

lemma fill_drain:
  assumes "rep q []" "length ys \<le> cap"
  shows "fst (drain ready deq (length ys) (snd (fill room enq ys q))) = ys \<and>
    rep (snd (drain ready deq (length ys) (snd (fill room enq ys q)))) []"
  using fill_take [OF assms(1), of ys] drain_take [of "snd (fill room enq ys q)" ys "length ys"] assms(2)
  by simp

end

section \<open>\<^verbatim>\<open>struct CharQueue\<close>\<close>

definition BUFFER_SIZE :: nat where "BUFFER_SIZE = 4096"

record CharQueue =
  cq_buffer :: "nat \<Rightarrow> u8"
  cq_front :: u64
  cq_rear :: u64
  cq_count :: u64

definition queue_init :: "CharQueue \<Rightarrow> CharQueue" where
  "queue_init q = q\<lparr>cq_count := 0, cq_front := 0, cq_rear := of_nat (BUFFER_SIZE - 1)\<rparr>"

definition is_full :: "CharQueue \<Rightarrow> bool" where "is_full q \<longleftrightarrow> cq_count q = of_nat BUFFER_SIZE"

definition is_empty :: "CharQueue \<Rightarrow> bool" where "is_empty q \<longleftrightarrow> cq_count q = 0"

definition enqueue :: "u8 \<Rightarrow> CharQueue \<Rightarrow> CharQueue" where
  "enqueue data q =
     (let q = q\<lparr>cq_rear := (cq_rear q + 1) mod of_nat BUFFER_SIZE\<rparr>;
          q = q\<lparr>cq_buffer := (cq_buffer q)(unat (cq_rear q) := data)\<rparr>
      in q\<lparr>cq_count := cq_count q + 1\<rparr>)"

definition dequeue :: "CharQueue \<Rightarrow> u8 \<times> CharQueue" where
  "dequeue q =
     (let data = cq_buffer q (unat (cq_front q));
          q = q\<lparr>cq_front := (cq_front q + 1) mod of_nat BUFFER_SIZE\<rparr>
      in (data, q\<lparr>cq_count := cq_count q - 1\<rparr>))"

text \<open>The contents: \<open>count\<close> bytes from \<open>front\<close> on, around the end of the buffer.\<close>

definition cq_rep :: "CharQueue \<Rightarrow> u8 list \<Rightarrow> bool" where
  "cq_rep q xs \<longleftrightarrow> length xs \<le> 4096 \<and> cq_count q = of_nat (length xs) \<and> unat (cq_front q) < 4096
     \<and> unat (cq_rear q) = (unat (cq_front q) + length xs + 4095) mod 4096
     \<and> (\<forall>i < length xs. cq_buffer q ((unat (cq_front q) + i) mod 4096) = xs ! i)"

lemma unat_next_index:
  assumes "unat w < 4096"
  shows "unat ((w + 1) mod of_nat BUFFER_SIZE :: u64) = (unat w + 1) mod 4096"
proof -
  have "unat (w + 1) = unat w + 1" using assms by (subst unat_word_ariths(1)) simp
  then show ?thesis by (simp add: BUFFER_SIZE_def unat_mod)
qed

lemma cq_init_rep: "cq_rep (queue_init q) []"
  by (simp add: cq_rep_def queue_init_def BUFFER_SIZE_def)

lemma cq_enqueue_rep:
  assumes "cq_rep q xs" "length xs < 4096"
  shows "cq_rep (enqueue x q) (xs @ [x])"
proof -
  note q = assms(1) [unfolded cq_rep_def]
  let ?f = "unat (cq_front q)" and ?r = "(cq_rear q + 1) mod of_nat BUFFER_SIZE"
  have wrap: "(a + 4096) mod 4096 = a mod 4096" for a :: nat by simp
  have "unat (cq_rear q) < 4096" using q by simp
  then have "unat ?r = (unat (cq_rear q) + 1) mod 4096" by (rule unat_next_index)
  also have "\<dots> = ((?f + length xs + 4095) + 1) mod 4096" using q by (simp only: mod_add_left_eq)
  also have "\<dots> = (?f + length xs) mod 4096" using wrap [of "?f + length xs"] by simp
  finally have r: "unat ?r = (?f + length xs) mod 4096" .
  let ?b = "(cq_buffer q)((?f + length xs) mod 4096 := x)"
  have e: "enqueue x q = q\<lparr>cq_rear := ?r, cq_buffer := ?b, cq_count := cq_count q + 1\<rparr>"
    by (simp add: enqueue_def Let_def r)
  have "?b ((?f + i) mod 4096) = (xs @ [x]) ! i" if "i < length (xs @ [x])" for i
  proof (cases "i < length xs")
    case True
    then have "(?f + i) mod 4096 \<noteq> (?f + length xs) mod 4096"
      using assms(2) by (intro ring_index_neq) linarith+
    with True q show ?thesis by (simp add: nth_append)
  next
    case False
    with that have "i = length xs" by simp
    then show ?thesis by simp
  qed
  then show ?thesis
    using q assms(2) wrap [of "?f + length xs"] unfolding e cq_rep_def by (simp add: r)
qed

lemma cq_dequeue_rep:
  assumes "cq_rep q (x # xs)"
  shows "fst (dequeue q) = x \<and> cq_rep (snd (dequeue q)) xs"
proof -
  note q = assms [unfolded cq_rep_def]
  let ?f = "unat (cq_front q)"
  have f: "unat ((cq_front q + 1) mod of_nat BUFFER_SIZE) = (?f + 1) mod 4096"
    using q by (intro unat_next_index) simp
  have "cq_buffer q (((?f + 1) mod 4096 + i) mod 4096) = xs ! i" if "i < length xs" for i
  proof -
    have "cq_buffer q ((?f + Suc i) mod 4096) = (x # xs) ! Suc i" using q that by fastforce
    then show ?thesis by (simp add: mod_simps)
  qed
  moreover have "unat (cq_rear q) = ((?f + 1) mod 4096 + length xs + 4095) mod 4096"
  proof -
    have "((?f + 1) mod 4096 + length xs + 4095) mod 4096 = ((?f + 1) mod 4096 + (length xs + 4095)) mod 4096"
      by (simp only: add.assoc)
    also have "\<dots> = (?f + 1 + (length xs + 4095)) mod 4096" by (rule mod_add_left_eq)
    finally show ?thesis using q by (simp add: ac_simps)
  qed
  moreover have "cq_buffer q ?f = x" using q by (metis length_Cons mod_less nth_Cons_0 zero_less_Suc add.right_neutral)
  ultimately show ?thesis using q f by (simp add: cq_rep_def dequeue_def Let_def)
qed

interpretation cq: bounded_queue cq_rep 4096 "\<lambda>q. \<not> is_empty q" "\<lambda>q. \<not> is_full q" enqueue dequeue
proof
  show "length xs \<le> 4096" if "cq_rep q xs" for q xs using that by (simp add: cq_rep_def)
  show "xs \<noteq> []" if "cq_rep q xs" "\<not> is_empty q" for q xs using that by (auto simp: cq_rep_def is_empty_def)
  show "(\<not> is_full q) = (length xs < 4096)" if "cq_rep q xs" for q xs
  proof -
    have l: "length xs \<le> 4096" "cq_count q = of_nat (length xs)" using that by (auto simp: cq_rep_def)
    then have "unat (cq_count q) = length xs" by simp
    then have "is_full q \<longleftrightarrow> length xs = 4096" by (simp add: is_full_def BUFFER_SIZE_def word_unat_eq_iff)
    with l show ?thesis by linarith
  qed
  show "cq_rep (enqueue x q) (xs @ [x])" if "cq_rep q xs" "length xs < 4096" for q xs x
    using that by (rule cq_enqueue_rep)
  show "fst (dequeue q) = x \<and> cq_rep (snd (dequeue q)) xs" if "cq_rep q (x # xs)" for q x xs
    using that by (rule cq_dequeue_rep)
  show "\<not> is_empty q" if "cq_rep q xs" "xs \<noteq> []" for q xs
  proof -
    have l: "length xs \<le> 4096" "cq_count q = of_nat (length xs)" using that by (auto simp: cq_rep_def)
    then have "unat (cq_count q) = length xs" by simp
    with that(2) show ?thesis by (auto simp: is_empty_def)
  qed
qed

end
