(* ===== verification/Pipe.thy ===== *)
theory Pipe
  imports Ring
begin

text \<open>
  Pipes (\<^verbatim>\<open>user/lib/pipe.c\<close>) between a reading and a writing process that share the page of
  \<^verbatim>\<open>struct Pipe\<close>.  Each C statement that touches shared memory, a reference count or
  \<^verbatim>\<open>env_runs\<close> is one step, and the kernel may switch processes between any two steps, so the
  relation \<open>step\<close> has every interleaving of a single-CPU machine.  The invariants are proved
  by rule induction over it.
\<close>

section \<open>The buffer\<close>

definition PIPE_SIZE :: nat where "PIPE_SIZE = 32"

record Pipe =
  p_rpos :: u32
  p_wpos :: u32
  p_buf :: "nat \<Rightarrow> u8"

definition pipe_ready :: "Pipe \<Rightarrow> bool" where "pipe_ready p \<longleftrightarrow> p_rpos p < p_wpos p"

definition pipe_room :: "Pipe \<Rightarrow> bool" where "pipe_room p \<longleftrightarrow> p_wpos p - p_rpos p < of_nat PIPE_SIZE"

definition pipe_peek :: "Pipe \<Rightarrow> u8" where
  "pipe_peek p = p_buf p (unat (p_rpos p mod of_nat PIPE_SIZE))"

definition pipe_poke :: "u8 \<Rightarrow> Pipe \<Rightarrow> Pipe" where
  "pipe_poke x p = p\<lparr>p_buf := (p_buf p)(unat (p_wpos p mod of_nat PIPE_SIZE) := x)\<rparr>"

definition pipe_put :: "u8 \<Rightarrow> Pipe \<Rightarrow> Pipe" where
  "pipe_put x p = (let p = pipe_poke x p in p\<lparr>p_wpos := p_wpos p + 1\<rparr>)"

definition pipe_take :: "Pipe \<Rightarrow> u8 \<times> Pipe" where
  "pipe_take p = (pipe_peek p, p\<lparr>p_rpos := p_rpos p + 1\<rparr>)"

text \<open>
  The contents: as many bytes as the write position is ahead, modulo \<open>2 ^ 32\<close>.  The size of
  the buffer divides \<open>2 ^ 32\<close>, so indices stay right when a position wraps.
\<close>

definition pipe_rep :: "Pipe \<Rightarrow> u8 list \<Rightarrow> bool" where
  "pipe_rep p xs \<longleftrightarrow> length xs \<le> 32 \<and> p_wpos p = p_rpos p + of_nat (length xs)
     \<and> (\<forall>i < length xs. p_buf p ((unat (p_rpos p) + i) mod 32) = xs ! i)"

lemma unat_pos: "unat ((w + of_nat k :: u32) mod of_nat PIPE_SIZE) = (unat w + k) mod 32"
proof -
  have "unat (w + of_nat k :: u32) mod 32 = (unat w + k) mod 2 ^ 32 mod 32"
    by (simp add: unat_word_ariths unsigned_of_nat take_bit_eq_mod mod_simps)
  also have "\<dots> = (unat w + k) mod 32" by (rule mod_mod_cancel) simp
  finally show ?thesis by (simp add: PIPE_SIZE_def unat_mod)
qed

lemmas unat_pos0 = unat_pos [where k = 0, simplified]

lemma unat_pos_next: "(unat (w + 1 :: u32) + k) mod 32 = (unat w + Suc k) mod 32"
proof -
  have "(unat (w + 1) + k) mod 32 = (unat (w + 1) mod 32 + k) mod 32" by (simp only: mod_add_left_eq)
  also have "unat (w + 1) mod 32 = (unat w + 1) mod 32"
    using unat_pos [of w 1] by (simp add: PIPE_SIZE_def unat_mod)
  also have "((unat w + 1) mod 32 + k) mod 32 = (unat w + 1 + k) mod 32" by (simp only: mod_add_left_eq)
  finally show ?thesis by simp
qed

lemma pipe_rep_diff:
  assumes "pipe_rep p xs"
  shows "unat (p_wpos p - p_rpos p) = length xs"
  using assms by (simp add: pipe_rep_def unsigned_of_nat take_bit_nat_eq_self)

lemma pipe_rep_poke:
  assumes "pipe_rep p xs" "length xs < 32"
  shows "pipe_rep (pipe_poke x p) xs"
proof -
  have w: "unat (p_wpos p mod of_nat PIPE_SIZE) = (unat (p_rpos p) + length xs) mod 32"
    using assms(1) by (simp add: pipe_rep_def unat_pos)
  have "(unat (p_rpos p) + i) mod 32 \<noteq> (unat (p_rpos p) + length xs) mod 32" if "i < length xs" for i
    using that assms(2) by (intro ring_index_neq) linarith+
  then show ?thesis using assms(1) unfolding pipe_poke_def w pipe_rep_def by simp
qed

lemma pipe_rep_advance_w:
  assumes "pipe_rep p xs" "length xs < 32" "p_buf p (unat (p_wpos p mod of_nat PIPE_SIZE)) = x"
  shows "pipe_rep (p\<lparr>p_wpos := p_wpos p + 1\<rparr>) (xs @ [x])"
proof -
  have w: "unat (p_wpos p mod of_nat PIPE_SIZE) = (unat (p_rpos p) + length xs) mod 32"
    using assms(1) by (simp add: pipe_rep_def unat_pos)
  have "p_buf p ((unat (p_rpos p) + i) mod 32) = (xs @ [x]) ! i" if "i < Suc (length xs)" for i
    using assms(1) assms(3) [unfolded w] that by (cases "i = length xs") (simp_all add: pipe_rep_def nth_append less_Suc_eq)
  then show ?thesis using assms(1,2) by (simp add: pipe_rep_def)
qed

lemma pipe_rep_peek: "pipe_rep p (x # xs) \<Longrightarrow> pipe_peek p = x"
  by (auto simp: pipe_rep_def pipe_peek_def unat_pos0)

lemma pipe_rep_advance_r:
  assumes "pipe_rep p (x # xs)"
  shows "pipe_rep (p\<lparr>p_rpos := p_rpos p + 1\<rparr>) xs"
  using assms unfolding pipe_rep_def by (auto simp: unat_pos_next)

interpretation pq: byte_ring pipe_rep 32 pipe_ready pipe_room pipe_put pipe_take
proof
  show "length xs \<le> 32" if "pipe_rep p xs" for p xs using that by (simp add: pipe_rep_def)
  show "xs \<noteq> []" if "pipe_rep p xs" "pipe_ready p" for p xs using that by (auto simp: pipe_rep_def pipe_ready_def)
  show "pipe_room p = (length xs < 32)" if "pipe_rep p xs" for p xs
    using pipe_rep_diff [OF that] by (simp add: pipe_room_def word_less_nat_alt PIPE_SIZE_def)
  show "pipe_rep (pipe_put x p) (xs @ [x])" if "pipe_rep p xs" "length xs < 32" for p xs x
    using pipe_rep_advance_w [OF pipe_rep_poke [OF that]] that(2)
    by (simp add: pipe_put_def Let_def) (simp add: pipe_poke_def)
  show "fst (pipe_take p) = x \<and> pipe_rep (snd (pipe_take p)) xs" if "pipe_rep p (x # xs)" for p x xs
    using pipe_rep_peek [OF that] pipe_rep_advance_r [OF that] by (simp add: pipe_take_def)
qed

section \<open>Two processes and their steps\<close>

datatype role = Reader | Writer

text \<open>The two file descriptors of a pipe; each has a descriptor page and a mapping of the data page.\<close>

datatype pend = REnd | WEnd

fun own :: "role \<Rightarrow> pend" where
  "own Reader = REnd"
| "own Writer = WEnd"

fun other :: "role \<Rightarrow> role" where
  "other Reader = Writer"
| "other Writer = Reader"

text \<open>Where a process is inside \<^verbatim>\<open>pipe_read\<close>, \<^verbatim>\<open>pipe_write\<close>, \<^verbatim>\<open>_pipe_is_closed\<close> or \<^verbatim>\<open>pipe_close\<close>.\<close>

datatype pc = Idle | Outer | Test | Copy | Advance | After | Wait
  | Before | FdRef | PipeRef | Runs | Yield | UnmapFd pend | UnmapData pend

text \<open>The local variables of a call; \<open>vret\<close> is what the last call returned.\<close>

record vars =
  vpc :: pc
  vn :: nat
  vi :: nat
  vbuf :: "u8 list"
  before_env_run :: u32
  fd_ref :: int
  pipe_ref :: int
  vret :: "nat option"

text \<open>
  \<open>nruns\<close> counts how often the kernel gave the CPU to a process; \<^verbatim>\<open>env_runs\<close> is that number
  truncated to 32 bits.  \<open>sent\<close> and \<open>received\<close> record the bytes put into and taken out of the
  pipe since its creation.
\<close>

record sys =
  s_pipe :: Pipe
  maps_fd :: "role \<Rightarrow> pend \<Rightarrow> bool"
  maps_data :: "role \<Rightarrow> pend \<Rightarrow> bool"
  running :: role
  nruns :: "role \<Rightarrow> nat"
  procs :: "role \<Rightarrow> vars"
  sent :: "u8 list"
  received :: "u8 list"

definition set_proc :: "role \<Rightarrow> (vars \<Rightarrow> vars) \<Rightarrow> sys \<Rightarrow> sys" where
  "set_proc r f s = s\<lparr>procs := (procs s)(r := f (procs s r))\<rparr>"

definition goto :: "role \<Rightarrow> pc \<Rightarrow> sys \<Rightarrow> sys" where "goto r c = set_proc r (vpc_update (\<lambda>_. c))"

definition return :: "role \<Rightarrow> nat \<Rightarrow> sys \<Rightarrow> sys" where
  "return r k = set_proc r (\<lambda>v. v\<lparr>vpc := Idle, vret := Some k\<rparr>)"

definition env_runs32 :: "sys \<Rightarrow> role \<Rightarrow> u32" where "env_runs32 s r = of_nat (nruns s r)"

text \<open>\<^verbatim>\<open>pageref\<close> of a descriptor page and of the data page, which a process may map twice.\<close>

definition fd_refs :: "sys \<Rightarrow> pend \<Rightarrow> int" where
  "fd_refs s e = of_bool (maps_fd s Reader e) + of_bool (maps_fd s Writer e)"

definition pipe_refs :: "sys \<Rightarrow> int" where
  "pipe_refs s = of_bool (maps_data s Reader REnd) + of_bool (maps_data s Reader WEnd)
     + of_bool (maps_data s Writer REnd) + of_bool (maps_data s Writer WEnd)"

text \<open>The kernel gives the CPU to a process (\<^verbatim>\<open>env_run\<close>).\<close>

definition switch :: "role \<Rightarrow> sys \<Rightarrow> sys" where
  "switch r s = s\<lparr>running := r, nruns := (nruns s)(r := nruns s r + 1)\<rparr>"

definition unmap_fd :: "role \<Rightarrow> pend \<Rightarrow> sys \<Rightarrow> sys" where
  "unmap_fd r e s = s\<lparr>maps_fd := (maps_fd s)(r := (maps_fd s r)(e := False))\<rparr>"

definition unmap_data :: "role \<Rightarrow> pend \<Rightarrow> sys \<Rightarrow> sys" where
  "unmap_data r e s = s\<lparr>maps_data := (maps_data s)(r := (maps_data s r)(e := False))\<rparr>"

text \<open>\<^verbatim>\<open>_pipe_is_closed\<close>, called when there is nothing to transfer, and what its callers do with the answer.\<close>

definition closed_step :: "role \<Rightarrow> sys \<Rightarrow> sys" where
  "closed_step r s =
     (let v = procs s r in
      case vpc v of
        Before \<Rightarrow> set_proc r (\<lambda>v. v\<lparr>vpc := FdRef, before_env_run := env_runs32 s r\<rparr>) s
      | FdRef \<Rightarrow> set_proc r (\<lambda>v. v\<lparr>vpc := PipeRef, fd_ref := fd_refs s (own r)\<rparr>) s
      | PipeRef \<Rightarrow> set_proc r (\<lambda>v. v\<lparr>vpc := Runs, pipe_ref := pipe_refs s\<rparr>) s
      | Runs \<Rightarrow>
          (if env_runs32 s r = before_env_run v
           then if fd_ref v = pipe_ref v then return r (vi v) s else goto r Yield s
           else goto r FdRef s)
      | Yield \<Rightarrow> switch (other r) (goto r Wait s)
      | _ \<Rightarrow> s)"

text \<open>\<^verbatim>\<open>pipe_close\<close>: the descriptor page first, then the data page.\<close>

definition close_step :: "role \<Rightarrow> sys \<Rightarrow> sys" where
  "close_step r s =
     (case vpc (procs s r) of
        UnmapFd e \<Rightarrow> goto r (UnmapData e) (unmap_fd r e s)
      | UnmapData e \<Rightarrow> goto r Idle (unmap_data r e s)
      | _ \<Rightarrow> s)"

definition read_step :: "sys \<Rightarrow> sys" where
  "read_step s =
     (let v = procs s Reader; p = s_pipe s in
      case vpc v of
        Outer \<Rightarrow> if vi v < vn v then goto Reader Test s else return Reader 0 s
      | Test \<Rightarrow> goto Reader (if pipe_ready p \<and> vi v < vn v then Copy else After) s
      | Copy \<Rightarrow> set_proc Reader (\<lambda>v. v\<lparr>vpc := Advance, vbuf := vbuf v @ [pipe_peek p]\<rparr>) s
      | Advance \<Rightarrow>
          (set_proc Reader (\<lambda>v. v\<lparr>vpc := Test, vi := vi v + 1\<rparr>) s)
            \<lparr>s_pipe := p\<lparr>p_rpos := p_rpos p + 1\<rparr>, received := received s @ [last (vbuf v)]\<rparr>
      | After \<Rightarrow> if vi v = vn v then return Reader (vi v) s else goto Reader Wait s
      | Wait \<Rightarrow>
          (if p_rpos p = p_wpos p
           then if vi v \<ge> 1 then return Reader (vi v) s else goto Reader Before s
           else goto Reader Outer s)
      | _ \<Rightarrow> s)"

definition write_step :: "sys \<Rightarrow> sys" where
  "write_step s =
     (let v = procs s Writer; p = s_pipe s in
      case vpc v of
        Outer \<Rightarrow> if vi v < vn v then goto Writer Test s else return Writer (vn v) s
      | Test \<Rightarrow> goto Writer (if pipe_room p \<and> vi v < vn v then Copy else After) s
      | Copy \<Rightarrow> goto Writer Advance (s\<lparr>s_pipe := pipe_poke (vbuf v ! vi v) p\<rparr>)
      | Advance \<Rightarrow>
          (set_proc Writer (\<lambda>v. v\<lparr>vpc := Test, vi := vi v + 1\<rparr>) s)
            \<lparr>s_pipe := p\<lparr>p_wpos := p_wpos p + 1\<rparr>, sent := sent s @ [vbuf v ! vi v]\<rparr>
      | After \<Rightarrow> if vi v = vn v then return Writer (vi v) s else goto Writer Wait s
      | Wait \<Rightarrow> goto Writer (if p_wpos p - p_rpos p = of_nat PIPE_SIZE then Before else Outer) s
      | _ \<Rightarrow> s)"

fun transfer_step :: "role \<Rightarrow> sys \<Rightarrow> sys" where
  "transfer_step Reader = read_step"
| "transfer_step Writer = write_step"

text \<open>Calls of \<^verbatim>\<open>pipe_read\<close> for \<open>n\<close> bytes, of \<^verbatim>\<open>pipe_write\<close> with a buffer, of \<^verbatim>\<open>close\<close>.\<close>

definition call :: "role \<Rightarrow> nat \<Rightarrow> u8 list \<Rightarrow> sys \<Rightarrow> sys" where
  "call r n b = set_proc r (\<lambda>v. v\<lparr>vpc := Outer, vn := n, vi := 0, vbuf := b, vret := None\<rparr>)"

definition transferring :: "pc \<Rightarrow> bool" where "transferring c \<longleftrightarrow> c \<in> {Outer, Test, Copy, Advance, After, Wait}"

definition in_check :: "pc \<Rightarrow> bool" where "in_check c \<longleftrightarrow> c \<in> {Before, FdRef, PipeRef, Runs, Yield}"

inductive step :: "sys \<Rightarrow> sys \<Rightarrow> bool" where
  start_read: "running s = Reader \<Longrightarrow> vpc (procs s Reader) = Idle \<Longrightarrow> maps_fd s Reader REnd \<Longrightarrow> n < 2 ^ 32
    \<Longrightarrow> step s (call Reader n [] s)"
| start_write: "running s = Writer \<Longrightarrow> vpc (procs s Writer) = Idle \<Longrightarrow> maps_fd s Writer WEnd \<Longrightarrow> length b < 2 ^ 31
    \<Longrightarrow> step s (call Writer (length b) b s)"
| start_close: "running s = r \<Longrightarrow> vpc (procs s r) = Idle \<Longrightarrow> maps_fd s r e \<Longrightarrow> step s (goto r (UnmapFd e) s)"
| transfer: "running s = r \<Longrightarrow> transferring (vpc (procs s r)) \<Longrightarrow> step s (transfer_step r s)"
| closed: "running s = r \<Longrightarrow> in_check (vpc (procs s r)) \<Longrightarrow> step s (closed_step r s)"
| closing: "running s = r \<Longrightarrow> vpc (procs s r) = UnmapFd e \<or> vpc (procs s r) = UnmapData e \<Longrightarrow> step s (close_step r s)"
| preempt: "step s (switch r s)"

text \<open>After \<^verbatim>\<open>pipe\<close> and \<^verbatim>\<open>fork\<close>: the page is zeroed, both processes have both ends.\<close>

definition initial :: "sys \<Rightarrow> bool" where
  "initial s \<longleftrightarrow> p_rpos (s_pipe s) = 0 \<and> p_wpos (s_pipe s) = 0 \<and> sent s = [] \<and> received s = []
     \<and> (\<forall>r. vpc (procs s r) = Idle \<and> vi (procs s r) = 0 \<and> vn (procs s r) = 0 \<and> vbuf (procs s r) = [] \<and> vret (procs s r) = None)
     \<and> (\<forall>r e. maps_fd s r e \<and> maps_data s r e)"

inductive reachable :: "sys \<Rightarrow> bool" where
  init: "initial s \<Longrightarrow> reachable s"
| step: "reachable s \<Longrightarrow> step s t \<Longrightarrow> reachable t"

lemmas step_defs = call_def goto_def return_def set_proc_def switch_def unmap_fd_def unmap_data_def
  read_step_def write_step_def closed_step_def close_step_def transferring_def in_check_def Let_def

section \<open>Invariants\<close>

text \<open>
  The bytes in the buffer are those sent and not yet received.  A reader between its test and
  the advance of its position has a byte to take, a writer there has a slot to fill.
\<close>

definition data_inv :: "sys \<Rightarrow> bool" where
  "data_inv s \<longleftrightarrow>
     (let v = procs s Reader; w = procs s Writer; p = s_pipe s in
      \<exists>xs. sent s = received s @ xs \<and> pipe_rep p xs
        \<and> (vpc v \<in> {Copy, Advance} \<longrightarrow> xs \<noteq> [])
        \<and> (vpc v = Advance \<longrightarrow> last (vbuf v) = hd xs)
        \<and> (vpc w \<in> {Copy, Advance} \<longrightarrow> length xs < 32)
        \<and> (vpc w = Advance \<longrightarrow> p_buf p (unat (p_wpos p mod of_nat PIPE_SIZE)) = vbuf w ! vi w))"

lemma data_inv_read:
  assumes "data_inv s" "transferring (vpc (procs s Reader))"
  shows "data_inv (read_step s)"
proof -
  from assms(1) obtain xs where xs: "sent s = received s @ xs" "pipe_rep (s_pipe s) xs"
    "vpc (procs s Reader) \<in> {Copy, Advance} \<longrightarrow> xs \<noteq> []"
    "vpc (procs s Reader) = Advance \<longrightarrow> last (vbuf (procs s Reader)) = hd xs"
    "vpc (procs s Writer) \<in> {Copy, Advance} \<longrightarrow> length xs < 32"
    "vpc (procs s Writer) = Advance \<longrightarrow> p_buf (s_pipe s) (unat (p_wpos (s_pipe s) mod of_nat PIPE_SIZE))
       = vbuf (procs s Writer) ! vi (procs s Writer)"
    unfolding data_inv_def Let_def by blast
  show ?thesis
  proof (cases "vpc (procs s Reader)")
    case Test
    with xs pq.ready_sound [OF xs(2)] show ?thesis
      by (auto simp: data_inv_def step_defs intro!: exI [of _ xs])
  next
    case Copy
    with xs obtain x xs' where x: "xs = x # xs'" by (cases xs) auto
    from pipe_rep_peek [OF xs(2) [unfolded x]] Copy xs show ?thesis
      by (auto simp: data_inv_def step_defs x intro!: exI [of _ "x # xs'"])
  next
    case Advance
    with xs obtain x xs' where x: "xs = x # xs'" by (cases xs) auto
    from pipe_rep_advance_r [OF xs(2) [unfolded x]] Advance xs show ?thesis
      by (auto simp: data_inv_def step_defs x intro!: exI [of _ xs'])
  qed (use xs assms(2) in \<open>auto simp: data_inv_def step_defs intro!: exI [of _ xs]\<close>)
qed

lemma data_inv_write:
  assumes "data_inv s" "transferring (vpc (procs s Writer))"
  shows "data_inv (write_step s)"
proof -
  from assms(1) obtain xs where xs: "sent s = received s @ xs" "pipe_rep (s_pipe s) xs"
    "vpc (procs s Reader) \<in> {Copy, Advance} \<longrightarrow> xs \<noteq> []"
    "vpc (procs s Reader) = Advance \<longrightarrow> last (vbuf (procs s Reader)) = hd xs"
    "vpc (procs s Writer) \<in> {Copy, Advance} \<longrightarrow> length xs < 32"
    "vpc (procs s Writer) = Advance \<longrightarrow> p_buf (s_pipe s) (unat (p_wpos (s_pipe s) mod of_nat PIPE_SIZE))
       = vbuf (procs s Writer) ! vi (procs s Writer)"
    unfolding data_inv_def Let_def by blast
  show ?thesis
  proof (cases "vpc (procs s Writer)")
    case Test
    with xs pq.room_iff [OF xs(2)] show ?thesis
      by (auto simp: data_inv_def step_defs intro!: exI [of _ xs])
  next
    case Copy
    with xs have "pipe_rep (pipe_poke (vbuf (procs s Writer) ! vi (procs s Writer)) (s_pipe s)) xs"
      by (intro pipe_rep_poke) auto
    with Copy xs show ?thesis
      by (auto simp: data_inv_def step_defs intro!: exI [of _ xs]) (auto simp: pipe_poke_def)
  next
    case Advance
    with xs have "pipe_rep ((s_pipe s)\<lparr>p_wpos := p_wpos (s_pipe s) + 1\<rparr>) (xs @ [vbuf (procs s Writer) ! vi (procs s Writer)])"
      by (intro pipe_rep_advance_w) auto
    with Advance xs show ?thesis
      by (auto simp: data_inv_def step_defs intro!: exI [of _ "xs @ [vbuf (procs s Writer) ! vi (procs s Writer)]"])
  qed (use xs assms(2) in \<open>auto simp: data_inv_def step_defs intro!: exI [of _ xs]\<close>)
qed

text \<open>The other steps leave the buffer, the histories and the local copies of a transfer alone.\<close>

lemma data_inv_frame:
  assumes "data_inv s" "s_pipe t = s_pipe s" "sent t = sent s" "received t = received s"
    and "\<And>r. procs t r = procs s r \<or> vpc (procs t r) \<notin> {Copy, Advance}"
  shows "data_inv t"
proof -
  have same: "procs t r = procs s r" if "vpc (procs t r) \<in> {Copy, Advance} \<or> vpc (procs t r) = Advance" for r
    using assms(5) [of r] that by auto
  from assms(1) obtain xs where x: "sent s = received s @ xs" "pipe_rep (s_pipe s) xs"
    "vpc (procs s Reader) \<in> {Copy, Advance} \<longrightarrow> xs \<noteq> []"
    "vpc (procs s Reader) = Advance \<longrightarrow> last (vbuf (procs s Reader)) = hd xs"
    "vpc (procs s Writer) \<in> {Copy, Advance} \<longrightarrow> length xs < 32"
    "vpc (procs s Writer) = Advance \<longrightarrow> p_buf (s_pipe s) (unat (p_wpos (s_pipe s) mod of_nat PIPE_SIZE))
       = vbuf (procs s Writer) ! vi (procs s Writer)"
    unfolding data_inv_def Let_def by blast
  show ?thesis unfolding data_inv_def Let_def assms(2-4)
  proof (intro exI [of _ xs] conjI impI x(1,2))
    assume p: "vpc (procs t Reader) \<in> {Copy, Advance}"
    with same [of Reader] x(3) show "xs \<noteq> []" by metis
  next
    assume p: "vpc (procs t Reader) = Advance"
    with same [of Reader] x(4) show "last (vbuf (procs t Reader)) = hd xs" by metis
  next
    assume p: "vpc (procs t Writer) \<in> {Copy, Advance}"
    with same [of Writer] x(5) show "length xs < 32" by metis
  next
    assume p: "vpc (procs t Writer) = Advance"
    with same [of Writer] x(6) show "p_buf (s_pipe s) (unat (p_wpos (s_pipe s) mod of_nat PIPE_SIZE))
       = vbuf (procs t Writer) ! vi (procs t Writer)" by metis
  qed
qed

lemma other_ne [simp]: "other r \<noteq> r" "r \<noteq> other r"
  by (cases r; simp)+

lemma closed_frame:
  "sent (closed_step r s) = sent s \<and> received (closed_step r s) = received s \<and> s_pipe (closed_step r s) = s_pipe s
   \<and> procs (closed_step r s) (other r) = procs s (other r)"
  by (cases "vpc (procs s r)") (simp_all add: closed_step_def goto_def return_def set_proc_def switch_def Let_def)

lemma close_frame:
  "sent (close_step r s) = sent s \<and> received (close_step r s) = received s \<and> s_pipe (close_step r s) = s_pipe s
   \<and> procs (close_step r s) (other r) = procs s (other r)"
  by (cases "vpc (procs s r)") (simp_all add: close_step_def goto_def set_proc_def unmap_fd_def unmap_data_def Let_def)

lemma closed_pc:
  assumes "in_check (vpc (procs s r))"
  shows "vpc (procs (closed_step r s) r) \<in> {Idle, FdRef, PipeRef, Runs, Yield, Wait}"
  using assms
  by (cases "vpc (procs s r)") (simp_all add: closed_step_def goto_def return_def set_proc_def switch_def Let_def in_check_def)

lemma data_inv_frame1:
  assumes "data_inv s" "s_pipe t = s_pipe s" "sent t = sent s" "received t = received s"
    and "procs t (other r) = procs s (other r)" "vpc (procs t r) \<notin> {Copy, Advance}"
  shows "data_inv t"
proof (rule data_inv_frame [OF assms(1-4)])
  fix q
  have "q = r \<or> q = other r" by (cases q; cases r) auto
  with assms(5,6) show "procs t q = procs s q \<or> vpc (procs t q) \<notin> {Copy, Advance}" by auto
qed

lemma data_inv_step:
  assumes "step s t" "data_inv s"
  shows "data_inv t"
  using assms
proof (cases rule: step.cases)
  case (transfer r)
  with assms(2) show ?thesis by (cases r) (simp_all add: data_inv_read data_inv_write)
next
  case (closed r)
  have "data_inv (closed_step r s)"
    by (rule data_inv_frame1 [OF assms(2), of _ r]) (use closed_frame [of r s] closed_pc [OF closed(3)] in auto)
  with closed(1) show ?thesis by simp
next
  case (closing r e)
  then show ?thesis
    by (intro data_inv_frame1 [OF assms(2), of t r]) (auto simp: close_frame, auto simp: close_step_def goto_def set_proc_def)
next
  case (start_close r e)
  then show ?thesis by (intro data_inv_frame1 [OF assms(2), of t r]) (auto simp: goto_def set_proc_def)
next
  case (start_read n)
  then show ?thesis by (intro data_inv_frame1 [OF assms(2), of t Reader]) (auto simp: call_def set_proc_def)
next
  case (start_write b)
  then show ?thesis by (intro data_inv_frame1 [OF assms(2), of t Writer]) (auto simp: call_def set_proc_def)
next
  case (preempt r)
  then show ?thesis by (intro data_inv_frame [OF assms(2)]) (auto simp: switch_def)
qed

lemma data_inv_reachable: "reachable s \<Longrightarrow> data_inv s"
proof (induction rule: reachable.induct)
  case (init s)
  then have "pipe_rep (s_pipe s) []" by (simp add: initial_def pipe_rep_def)
  with init show ?case by (auto simp: initial_def data_inv_def Let_def)
qed (rule data_inv_step)

text \<open>
  What a call has transferred so far is the end of the history, and what it returns is how
  much that was.
\<close>

definition mid_wait :: "pc \<Rightarrow> bool" where "mid_wait c \<longleftrightarrow> c = Wait \<or> in_check c"

definition call_ok :: "vars \<Rightarrow> bool" where
  "call_ok v \<longleftrightarrow> vi v \<le> vn v \<and> (vpc v \<in> {Copy, Advance} \<longrightarrow> vi v < vn v) \<and> (mid_wait (vpc v) \<longrightarrow> vi v < vn v)
     \<and> (vpc v = Outer \<longrightarrow> vi v = 0 \<or> vi v < vn v) \<and> (\<forall>k. vret v = Some k \<longrightarrow> k = vi v \<and> \<not> transferring (vpc v) \<and> \<not> in_check (vpc v))"

definition read_inv :: "sys \<Rightarrow> bool" where
  "read_inv s \<longleftrightarrow>
     (let v = procs s Reader in
      call_ok v \<and> length (vbuf v) = vi v + of_bool (vpc v = Advance)
      \<and> (\<exists>pre. received s = pre @ take (vi v) (vbuf v)))"

definition write_inv :: "sys \<Rightarrow> bool" where
  "write_inv s \<longleftrightarrow>
     (let v = procs s Writer in
      call_ok v \<and> length (vbuf v) = vn v \<and> (\<exists>pre. sent s = pre @ take (vi v) (vbuf v)))"

lemma read_inv_read:
  assumes "read_inv s" "transferring (vpc (procs s Reader))"
  shows "read_inv (read_step s)"
proof (cases "vpc (procs s Reader)")
  case Copy
  with assms show ?thesis
    by (auto simp: read_inv_def call_ok_def step_defs mid_wait_def)
next
  case Advance
  let ?v = "procs s Reader"
  from assms(1) Advance obtain pre where v: "length (vbuf ?v) = Suc (vi ?v)" "received s = pre @ take (vi ?v) (vbuf ?v)"
    by (auto simp: read_inv_def Let_def)
  from v(1) have "last (vbuf ?v) = vbuf ?v ! vi ?v" by (subst last_conv_nth) auto
  with take_Suc_conv_app_nth [of "vi ?v" "vbuf ?v"] v(1)
  have "take (Suc (vi ?v)) (vbuf ?v) = take (vi ?v) (vbuf ?v) @ [last (vbuf ?v)]" by simp
  with v have "received s @ [last (vbuf ?v)] = pre @ take (Suc (vi ?v)) (vbuf ?v)" by simp
  with assms Advance v(1) show ?thesis
    by (auto simp: read_inv_def call_ok_def step_defs mid_wait_def)
qed (use assms in \<open>auto simp: read_inv_def call_ok_def step_defs mid_wait_def split: if_splits\<close>)

lemma write_inv_write:
  assumes "write_inv s" "transferring (vpc (procs s Writer))"
  shows "write_inv (write_step s)"
proof (cases "vpc (procs s Writer)")
  case Advance
  let ?v = "procs s Writer"
  from assms(1) Advance obtain pre where v: "vi ?v < length (vbuf ?v)" "sent s = pre @ take (vi ?v) (vbuf ?v)"
    by (auto simp: write_inv_def call_ok_def Let_def)
  then have "sent s @ [vbuf ?v ! vi ?v] = pre @ take (Suc (vi ?v)) (vbuf ?v)"
    by (simp add: take_Suc_conv_app_nth)
  with assms Advance v(1) show ?thesis
    by (auto simp: write_inv_def call_ok_def step_defs mid_wait_def)
qed (use assms in \<open>auto simp: write_inv_def call_ok_def step_defs mid_wait_def split: if_splits\<close>)

lemma read_frame: "procs (read_step s) Writer = procs s Writer \<and> sent (read_step s) = sent s"
  by (cases "vpc (procs s Reader)") (simp_all add: read_step_def goto_def return_def set_proc_def Let_def)

lemma write_frame: "procs (write_step s) Reader = procs s Reader \<and> received (write_step s) = received s"
  by (cases "vpc (procs s Writer)") (simp_all add: write_step_def goto_def return_def set_proc_def Let_def)

lemma inv_cong:
  "procs t Reader = procs s Reader \<Longrightarrow> received t = received s \<Longrightarrow> read_inv t \<longleftrightarrow> read_inv s"
  "procs t Writer = procs s Writer \<Longrightarrow> sent t = sent s \<Longrightarrow> write_inv t \<longleftrightarrow> write_inv s"
  by (simp_all add: read_inv_def write_inv_def)

text \<open>A step inside the closed check or a close only moves the program counter, or ends the call.\<close>

definition moved :: "vars \<Rightarrow> vars \<Rightarrow> bool" where
  "moved v v' \<longleftrightarrow> (call_ok v \<longrightarrow> call_ok v') \<and> vpc v \<noteq> Advance \<and> vpc v' \<noteq> Advance \<and> vi v' = vi v \<and> vn v' = vn v \<and> vbuf v' = vbuf v"

lemma closed_moved:
  assumes "in_check (vpc (procs s r))"
  shows "moved (procs s r) (procs (closed_step r s) r)"
proof -
  from assms have "vpc (procs s r) \<in> {Before, FdRef, PipeRef, Runs, Yield}" by (simp add: in_check_def)
  then show ?thesis
    by (elim insertE emptyE)
      (simp_all add: moved_def call_ok_def mid_wait_def closed_step_def goto_def return_def set_proc_def switch_def Let_def transferring_def in_check_def)
qed

lemma close_moved:
  assumes "vpc (procs s r) = UnmapFd e \<or> vpc (procs s r) = UnmapData e"
  shows "moved (procs s r) (procs (close_step r s) r)"
  using assms
  by (elim disjE)
    (simp_all add: moved_def call_ok_def mid_wait_def close_step_def goto_def set_proc_def unmap_fd_def unmap_data_def transferring_def in_check_def)

lemma call_inv_keep:
  assumes "read_inv s" "write_inv s" "received t = received s" "sent t = sent s"
    and "moved (procs s r) (procs t r)" "procs t (other r) = procs s (other r)"
  shows "read_inv t \<and> write_inv t"
  using assms by (cases r) (auto simp: read_inv_def write_inv_def moved_def Let_def)

lemma call_inv_step:
  assumes "step s t" "read_inv s" "write_inv s"
  shows "read_inv t \<and> write_inv t"
  using assms(1)
proof (cases rule: step.cases)
  case (transfer r)
  show ?thesis
  proof (cases r)
    case Reader
    with transfer read_inv_read [OF assms(2)] assms(3) read_frame [of s] show ?thesis
      by (simp add: inv_cong(2) [of "read_step s" s])
  next
    case Writer
    with transfer write_inv_write [OF assms(3)] assms(2) write_frame [of s] show ?thesis
      by (simp add: inv_cong(1) [of "write_step s" s])
  qed
next
  case (closed r)
  with closed_moved [of s r] closed_frame [of r s] show ?thesis
    by (intro call_inv_keep [OF assms(2,3), of t r]) simp_all
next
  case (closing r e)
  with close_moved [of s r e] close_frame [of r s] show ?thesis
    by (intro call_inv_keep [OF assms(2,3), of t r]) simp_all
next
  case (start_close r e)
  then show ?thesis
    by (intro call_inv_keep [OF assms(2,3), of t r])
      (simp_all add: goto_def set_proc_def moved_def call_ok_def mid_wait_def transferring_def in_check_def)
next
  case (start_read n)
  then have "write_inv t" using assms(3) by (subst inv_cong(2) [of t s]) (simp_all add: call_def set_proc_def)
  with start_read show ?thesis by (simp add: call_def set_proc_def read_inv_def call_ok_def mid_wait_def in_check_def)
next
  case (start_write b)
  then have "read_inv t" using assms(2) by (subst inv_cong(1) [of t s]) (simp_all add: call_def set_proc_def)
  with start_write show ?thesis by (simp add: call_def set_proc_def write_inv_def call_ok_def mid_wait_def in_check_def)
next
  case (preempt r)
  then have "read_inv t \<longleftrightarrow> read_inv s" "write_inv t \<longleftrightarrow> write_inv s"
    by (intro inv_cong; simp add: switch_def)+
  with assms(2,3) show ?thesis by simp
qed

lemma call_inv_reachable: "reachable s \<Longrightarrow> read_inv s \<and> write_inv s"
proof (induction rule: reachable.induct)
  case (init s)
  then show ?case by (auto simp: initial_def read_inv_def write_inv_def call_ok_def mid_wait_def in_check_def)
qed (auto dest: call_inv_step)

text \<open>
  A process that maps a descriptor page maps the data page behind it, because \<^verbatim>\<open>pipe_close\<close>
  gives up the descriptor first.  While a process has the CPU without interruption since it
  read \<^verbatim>\<open>env_runs\<close>, the counts it has read are current.
\<close>

definition map_inv :: "sys \<Rightarrow> bool" where
  "map_inv s \<longleftrightarrow> (\<forall>r e. maps_fd s r e \<longrightarrow> maps_data s r e \<and> vpc (procs s r) \<noteq> UnmapData e)"

definition check_inv :: "role \<Rightarrow> sys \<Rightarrow> bool" where
  "check_inv r s \<longleftrightarrow>
     (let v = procs s r in
      vpc v \<in> {FdRef, PipeRef, Runs} \<longrightarrow>
        (\<exists>j \<le> nruns s r. before_env_run v = of_nat j
          \<and> (j = nruns s r \<and> running s = r \<longrightarrow>
               (vpc v \<in> {PipeRef, Runs} \<longrightarrow> fd_ref v = fd_refs s (own r))
             \<and> (vpc v = Runs \<longrightarrow> pipe_ref v = pipe_refs s))))"

lemma transfer_maps [simp]:
  "maps_fd (transfer_step r s) = maps_fd s" "maps_data (transfer_step r s) = maps_data s"
  "running (transfer_step r s) = running s" "nruns (transfer_step r s) = nruns s"
  "procs (transfer_step r s) (other r) = procs s (other r)"
  by (cases r; cases "vpc (procs s r)";
      simp add: read_step_def write_step_def goto_def return_def set_proc_def Let_def)+

lemma transfer_pc:
  assumes "transferring (vpc (procs s r))"
  shows "vpc (procs (transfer_step r s) r) \<in> {Idle, Outer, Test, Copy, Advance, After, Wait, Before}"
  using assms
  by (cases r; cases "vpc (procs s r)")
    (simp_all add: read_step_def write_step_def goto_def return_def set_proc_def Let_def transferring_def)

lemma closed_maps [simp]: "maps_fd (closed_step r s) = maps_fd s" "maps_data (closed_step r s) = maps_data s"
  by (cases "vpc (procs s r)"; simp add: closed_step_def goto_def return_def set_proc_def switch_def Let_def)+

lemma map_inv_frame:
  assumes "map_inv s" "maps_fd t = maps_fd s" "maps_data t = maps_data s"
    and "procs t (other r) = procs s (other r)" "\<And>e. vpc (procs t r) \<noteq> UnmapData e"
  shows "map_inv t"
  unfolding map_inv_def
proof (intro allI impI)
  fix q e
  assume "maps_fd t q e"
  with assms(1-3) have q: "maps_data t q e" "vpc (procs s q) \<noteq> UnmapData e" by (auto simp: map_inv_def)
  have "q = r \<or> q = other r" by (cases q; cases r) auto
  with q assms(4,5) show "maps_data t q e \<and> vpc (procs t q) \<noteq> UnmapData e" by auto
qed

lemma map_inv_step:
  assumes "step s t" "map_inv s"
  shows "map_inv t"
  using assms(1)
proof (cases rule: step.cases)
  case (transfer r)
  have "map_inv (transfer_step r s)"
    by (rule map_inv_frame [OF assms(2), of _ r]) (use transfer_pc [OF transfer(3)] in auto)
  with transfer(1) show ?thesis by simp
next
  case (closed r)
  have "map_inv (closed_step r s)"
    by (rule map_inv_frame [OF assms(2), of _ r]) (use closed_frame [of r s] closed_pc [OF closed(3)] in auto)
  with closed(1) show ?thesis by simp
next
  case (closing r e)
  then show ?thesis using assms(2)
    by (auto simp: map_inv_def close_step_def goto_def set_proc_def unmap_fd_def unmap_data_def split: if_splits)
qed (use assms(2) in \<open>auto simp: map_inv_def call_def goto_def set_proc_def switch_def split: if_splits\<close>)

lemma map_inv_reachable: "reachable s \<Longrightarrow> map_inv s"
  by (induction rule: reachable.induct) (auto simp: map_inv_step, auto simp: map_inv_def initial_def)

lemma check_inv_idle: "vpc (procs s r) \<notin> {FdRef, PipeRef, Runs} \<Longrightarrow> check_inv r s"
  by (simp add: check_inv_def Let_def)

text \<open>Whatever the other process does happens without the CPU.\<close>

lemma check_inv_other:
  assumes "check_inv r s" "running s \<noteq> r" "running t \<noteq> r" "procs t r = procs s r" "nruns t r = nruns s r"
  shows "check_inv r t"
  using assms by (auto simp: check_inv_def Let_def)

lemma check_inv_switch:
  assumes "check_inv r s" "procs t r = procs s r" "nruns t r = nruns s r + 1"
  shows "check_inv r t"
  unfolding check_inv_def Let_def
proof
  assume "vpc (procs t r) \<in> {FdRef, PipeRef, Runs}"
  with assms(1,2) obtain j where "j \<le> nruns s r" "before_env_run (procs t r) = of_nat j"
    by (auto simp: check_inv_def Let_def)
  with assms(3) show "\<exists>j\<le>nruns t r. before_env_run (procs t r) = of_nat j \<and>
      (j = nruns t r \<and> running t = r \<longrightarrow>
         (vpc (procs t r) \<in> {PipeRef, Runs} \<longrightarrow> fd_ref (procs t r) = fd_refs t (own r))
       \<and> (vpc (procs t r) = Runs \<longrightarrow> pipe_ref (procs t r) = pipe_refs t))"
    by (intro exI [of _ j]) simp
qed

lemma check_inv_closed:
  assumes "check_inv r s" "running s = r" "in_check (vpc (procs s r))"
  shows "check_inv r (closed_step r s)"
proof -
  note d = closed_step_def goto_def return_def set_proc_def switch_def Let_def check_inv_def env_runs32_def fd_refs_def pipe_refs_def
  from assms(3) consider "vpc (procs s r) = Before" | "vpc (procs s r) = FdRef" | "vpc (procs s r) = PipeRef"
    | "vpc (procs s r) = Runs" | "vpc (procs s r) = Yield" by (auto simp: in_check_def)
  then show ?thesis
  proof cases
    case 2
    with assms(1) show ?thesis by (auto simp: d)
  next
    case 3
    with assms(1) show ?thesis by (auto simp: d)
  next
    case 4
    with assms(1) show ?thesis by (auto simp: d)
  qed (auto simp: d)
qed

lemma check_inv_local:
  assumes "check_inv r s" "running s = q" "running t = q" "nruns t = nruns s"
    and "procs t (other q) = procs s (other q)" "vpc (procs t q) \<notin> {FdRef, PipeRef, Runs}"
  shows "check_inv r t"
proof (cases "q = r")
  case True
  with assms(6) show ?thesis by (simp add: check_inv_idle)
next
  case False
  then have "r = other q" by (cases q; cases r) auto
  with assms show ?thesis by (intro check_inv_other [OF assms(1)]) simp_all
qed

lemma check_inv_closed_step:
  assumes "check_inv r s" "running s = q" "in_check (vpc (procs s q))"
  shows "check_inv r (closed_step q s)"
proof (cases "q = r")
  case True
  with assms check_inv_closed show ?thesis by simp
next
  case False
  then have r: "r = other q" by (cases q; cases r) auto
  show ?thesis
  proof (cases "vpc (procs s q) = Yield")
    case True
    with r show ?thesis
      by (intro check_inv_switch [OF assms(1)]) (simp_all add: closed_step_def goto_def set_proc_def switch_def Let_def)
  next
    case False
    with assms(2,3) r closed_frame [of q s] show ?thesis
      by (intro check_inv_other [OF assms(1)]; cases "vpc (procs s q)")
        (simp_all add: closed_step_def goto_def return_def set_proc_def Let_def in_check_def)
  qed
qed

lemma check_inv_step:
  assumes "step s t" "check_inv r s"
  shows "check_inv r t"
  using assms(1)
proof (cases rule: step.cases)
  case (transfer q)
  have "check_inv r (transfer_step q s)"
    by (rule check_inv_local [OF assms(2) transfer(2)]) (use transfer(2) transfer_pc [OF transfer(3)] in auto)
  with transfer(1) show ?thesis by simp
next
  case (closed q)
  with check_inv_closed_step [OF assms(2)] show ?thesis by simp
next
  case (closing q e)
  then show ?thesis
    by (intro check_inv_local [OF assms(2) closing(2)]) (auto simp: close_step_def goto_def set_proc_def unmap_fd_def unmap_data_def)
next
  case (start_close q e)
  then show ?thesis by (intro check_inv_local [OF assms(2) start_close(2)]) (auto simp: goto_def set_proc_def)
next
  case (preempt q)
  show ?thesis
  proof (cases "q = r")
    case True
    with preempt show ?thesis by (intro check_inv_switch [OF assms(2)]) (simp_all add: switch_def)
  next
    case False
    with preempt assms(2) show ?thesis by (auto simp: switch_def check_inv_def Let_def)
  qed
next
  case (start_read n)
  then show ?thesis by (intro check_inv_local [OF assms(2) start_read(2)]) (auto simp: call_def set_proc_def)
next
  case (start_write b)
  then show ?thesis by (intro check_inv_local [OF assms(2) start_write(2)]) (auto simp: call_def set_proc_def)
qed

lemma check_inv_reachable: "reachable s \<Longrightarrow> check_inv r s"
  by (induction rule: reachable.induct) (auto simp: check_inv_step, auto simp: check_inv_def initial_def Let_def)

end
