(* ===== verification/PipeProps.thy ===== *)
theory PipeProps
  imports Pipe
begin

text \<open>
  The properties of pipes: order and completeness of the stream, the verdict of
  \<^verbatim>\<open>_pipe_is_closed\<close>, transfers that return, and three executions in which the code does not
  do what its comments promise.
\<close>

section \<open>Executions\<close>

text \<open>An execution as a list of decisions; each is a step where its guard holds.\<close>

datatype action = DoRead nat | DoWrite "u8 list" | DoClose role pend | Go role | Give role

fun may :: "action \<Rightarrow> sys \<Rightarrow> bool" where
  "may (DoRead n) s \<longleftrightarrow> running s = Reader \<and> vpc (procs s Reader) = Idle \<and> maps_fd s Reader REnd \<and> n < 2 ^ 32"
| "may (DoWrite b) s \<longleftrightarrow> running s = Writer \<and> vpc (procs s Writer) = Idle \<and> maps_fd s Writer WEnd \<and> length b < 2 ^ 31"
| "may (DoClose r e) s \<longleftrightarrow> running s = r \<and> vpc (procs s r) = Idle \<and> maps_fd s r e"
| "may (Go r) s \<longleftrightarrow> running s = r \<and> vpc (procs s r) \<noteq> Idle"
| "may (Give r) s \<longleftrightarrow> True"

fun act :: "action \<Rightarrow> sys \<Rightarrow> sys" where
  "act (DoRead n) s = call Reader n [] s"
| "act (DoWrite b) s = call Writer (length b) b s"
| "act (DoClose r e) s = goto r (UnmapFd e) s"
| "act (Go r) s =
     (if transferring (vpc (procs s r)) then transfer_step r s
      else if in_check (vpc (procs s r)) then closed_step r s else close_step r s)"
| "act (Give r) s = switch r s"

fun play :: "action list \<Rightarrow> sys \<Rightarrow> sys option" where
  "play [] s = Some s"
| "play (a # as) s = (if may a s then play as (act a s) else None)"

lemma act_step:
  assumes "may a s"
  shows "step s (act a s)"
proof (cases a)
  case (Go r)
  with assms have r: "running s = r" "vpc (procs s r) \<noteq> Idle" by auto
  show ?thesis
  proof (cases "transferring (vpc (procs s r)) \<or> in_check (vpc (procs s r))")
    case True
    with r Go show ?thesis by (auto intro: step.transfer step.closed)
  next
    case False
    with r(2) obtain e where "vpc (procs s r) = UnmapFd e \<or> vpc (procs s r) = UnmapData e"
      by (cases "vpc (procs s r)") (auto simp: transferring_def in_check_def)
    with r(1) have "step s (close_step r s)" by (rule step.closing)
    with False Go show ?thesis by simp
  qed
qed (use assms in \<open>auto intro: step.intros\<close>)

lemma play_reachable: "reachable s \<Longrightarrow> play as s = Some t \<Longrightarrow> reachable t"
  by (induction as arbitrary: s) (auto split: if_splits intro: reachable.step act_step)

definition start_vars :: vars where
  "start_vars = \<lparr>vpc = Idle, vn = 0, vi = 0, vbuf = [], before_env_run = 0, fd_ref = 0, pipe_ref = 0, vret = None\<rparr>"

definition start_sys :: sys where
  "start_sys = \<lparr>s_pipe = \<lparr>p_rpos = 0, p_wpos = 0, p_buf = \<lambda>_. 0\<rparr>, maps_fd = \<lambda>_ _. True, maps_data = \<lambda>_ _. True,
     running = Reader, nruns = \<lambda>_. 1, procs = \<lambda>_. start_vars, sent = [], received = []\<rparr>"

lemma start_reachable: "reachable start_sys"
  by (rule reachable.init) (simp add: initial_def start_sys_def start_vars_def)

lemmas run_defs = step_defs start_sys_def start_vars_def fd_refs_def pipe_refs_def env_runs32_def
  pipe_ready_def pipe_room_def pipe_peek_def pipe_poke_def PIPE_SIZE_def

text \<open>Each process closes the end it does not use; the reader finds nothing and is interrupted.\<close>

definition split_ends :: "action list" where
  "split_ends = [DoClose Reader WEnd, Go Reader, Go Reader, Give Writer, DoClose Writer REnd, Go Writer, Go Writer]"

definition write_byte :: "action list" where
  "write_byte = [DoWrite [97], Go Writer, Go Writer, Go Writer, Go Writer, Go Writer, Go Writer]"

definition find_nothing :: "action list" where
  "find_nothing = [Give Reader, DoRead 4, Go Reader, Go Reader, Go Reader, Go Reader]"

definition close_writer :: "action list" where
  "close_writer = [DoClose Writer WEnd, Go Writer, Go Writer]"

lemma play_append: "play (as @ bs) s = Option.bind (play as s) (play bs)"
  by (induction as arbitrary: s) auto

lemma eof_trace:
  "\<exists>t. play (split_ends @ find_nothing @ Give Writer # write_byte @ close_writer @ [Give Reader, Go Reader, Go Reader, Go Reader, Go Reader]) start_sys = Some t
    \<and> vpc (procs t Reader) = Idle \<and> vret (procs t Reader) = Some 0 \<and> vn (procs t Reader) = 4
    \<and> sent t = [97] \<and> received t = []"
  by (simp add: split_ends_def find_nothing_def write_byte_def close_writer_def run_defs)

section \<open>The stream\<close>



section \<open>The end of the stream\<close>

fun far :: "role \<Rightarrow> pend" where
  "far Reader = WEnd"
| "far Writer = REnd"

lemma maps_fd_step:
  assumes "step s t" "maps_fd t q e"
  shows "maps_fd s q e"
  using assms
proof (cases rule: step.cases)
  case (closing r e')
  with assms(2) show ?thesis
    by (auto simp: close_step_def goto_def set_proc_def unmap_fd_def unmap_data_def split: if_splits)
qed (auto simp: call_def goto_def set_proc_def switch_def)

lemma maps_fd_steps: "step\<^sup>*\<^sup>* s t \<Longrightarrow> maps_fd t q e \<Longrightarrow> maps_fd s q e"
  by (induction rule: rtranclp_induct) (auto dest: maps_fd_step)

lemma refs_far:
  assumes "map_inv s" "fd_refs s (own r) = pipe_refs s"
  shows "\<not> maps_fd s q (far r)"
proof
  assume "maps_fd s q (far r)"
  with assms(1) have "maps_data s q (far r)" by (auto simp: map_inv_def)
  moreover have "maps_fd s p e \<Longrightarrow> maps_data s p e" for p e using assms(1) by (auto simp: map_inv_def)
  then have "of_bool (maps_fd s p e) \<le> (of_bool (maps_data s p e) :: int)" for p e by simp
  from this [of Reader "own r"] this [of Writer "own r"]
  have "fd_refs s (own r) \<le> of_bool (maps_data s Reader (own r)) + of_bool (maps_data s Writer (own r))"
    by (simp add: fd_refs_def)
  ultimately have "fd_refs s (own r) < pipe_refs s"
    by (cases r; cases q) (auto simp: pipe_refs_def of_bool_def)
  with assms(2) show False by simp
qed

text \<open>C20: When \<^verbatim>\<open>_pipe_is_closed\<close> answers yes, no process has the other end open, and none will ever
  have it again: the descriptor is given up before the data page, and the two counts were
  read without losing the CPU.  The number of times the process has run must fit \<^verbatim>\<open>env_runs\<close>.
\<close>

theorem pipe_closed_sound:
  assumes "reachable s" "running s = r" "vpc (procs s r) = Runs" "nruns s r < 2 ^ 32"
    and "vpc (procs (closed_step r s) r) = Idle" "step\<^sup>*\<^sup>* s t"
  shows "\<not> maps_fd t q (far r)"
proof -
  from assms(3,5) have d: "env_runs32 s r = before_env_run (procs s r)" "fd_ref (procs s r) = pipe_ref (procs s r)"
    by (auto simp: closed_step_def goto_def set_proc_def Let_def split: if_splits)
  from check_inv_reachable [OF assms(1), of r] assms(3) obtain j where
    j: "j \<le> nruns s r" "before_env_run (procs s r) = of_nat j"
      "j = nruns s r \<and> running s = r \<longrightarrow> fd_ref (procs s r) = fd_refs s (own r) \<and> pipe_ref (procs s r) = pipe_refs s"
    by (auto simp: check_inv_def Let_def)
  from d(1) j(2) have "(of_nat (nruns s r) :: u32) = of_nat j" by (simp add: env_runs32_def)
  then have "nruns s r = j"
    using j(1) assms(4) by (simp add: word_of_nat_eq_iff take_bit_nat_eq_self)
  with j(3) assms(2) d(2) have "fd_refs s (own r) = pipe_refs s" by simp
  from refs_far [OF map_inv_reachable [OF assms(1)] this, of q] maps_fd_steps [OF assms(6), of q] show ?thesis by auto
qed

theorem pipe_closed_sound_witness:
  "\<exists>s. play (split_ends @ close_writer @ find_nothing @ [Go Reader, Go Reader, Go Reader]) start_sys = Some s
     \<and> running s = Reader \<and> vpc (procs s Reader) = Runs \<and> vpc (procs (closed_step Reader s) Reader) = Idle
     \<and> \<not> maps_fd s Writer WEnd"
proof -
  have "\<exists>s. play (split_ends @ close_writer @ find_nothing @ [Go Reader, Go Reader, Go Reader]) start_sys = Some s
     \<and> running s = Reader \<and> vpc (procs s Reader) = Runs \<and> nruns s Reader < 2 ^ 32
     \<and> vpc (procs (closed_step Reader s) Reader) = Idle"
    by (simp add: split_ends_def find_nothing_def close_writer_def run_defs)
  then obtain s where s: "play (split_ends @ close_writer @ find_nothing @ [Go Reader, Go Reader, Go Reader]) start_sys = Some s"
     "running s = Reader" "vpc (procs s Reader) = Runs" "nruns s Reader < 2 ^ 32"
     "vpc (procs (closed_step Reader s) Reader) = Idle" by blast
  from pipe_closed_sound [OF play_reachable [OF start_reachable s(1)] s(2-5) rtranclp.rtrancl_refl, of Writer] s
  show ?thesis by auto
qed

text \<open>C22: But \<^verbatim>\<open>pipe_read\<close> asks whether the pipe is closed after it has found the buffer empty: a writer
  that runs in between, sends its last byte and closes makes the read return 0 although that
  byte is waiting.  The comment above the function promises a positive result in that case.
\<close>

theorem pipe_read_misses_last_bytes:
  "\<exists>s. reachable s \<and> vpc (procs s Reader) = Idle \<and> vn (procs s Reader) = 4 \<and> vret (procs s Reader) = Some 0
     \<and> received s = [] \<and> sent s = [97]"
proof -
  from eof_trace obtain t where
    t: "play (split_ends @ find_nothing @ Give Writer # write_byte @ close_writer @ [Give Reader, Go Reader, Go Reader, Go Reader, Go Reader]) start_sys = Some t"
      "vpc (procs t Reader) = Idle" "vret (procs t Reader) = Some 0" "vn (procs t Reader) = 4" "sent t = [97]" "received t = []"
    by blast
  from play_reachable [OF start_reachable t(1)] t(2-) show ?thesis by blast
qed

lemma nruns_step: "step s t \<Longrightarrow> nruns s r \<le> nruns t r"
proof (induction rule: step.induct)
  case (closed s q)
  then show ?case
    by (cases "vpc (procs s q)") (simp_all add: closed_step_def goto_def return_def set_proc_def switch_def Let_def)
next
  case (closing s q e)
  then show ?case by (auto simp: close_step_def goto_def set_proc_def unmap_fd_def unmap_data_def)
qed (auto simp: call_def goto_def set_proc_def switch_def)

definition stuck :: "role \<Rightarrow> nat \<Rightarrow> sys \<Rightarrow> bool" where
  "stuck r j s \<longleftrightarrow> vpc (procs s r) \<in> {FdRef, PipeRef, Runs} \<and> before_env_run (procs s r) = of_nat j \<and> j < nruns s r"

lemma stuck_own_step:
  assumes "stuck r j s" "nruns s r < j + 2 ^ 32"
  shows "stuck r j (closed_step r s)"
proof -
  have "(of_nat (nruns s r) :: u32) \<noteq> of_nat j"
  proof
    assume "(of_nat (nruns s r) :: u32) = of_nat j"
    then have "nruns s r mod 2 ^ 32 = j mod 2 ^ 32" by (simp add: word_of_nat_eq_iff take_bit_eq_mod)
    then have "2 ^ 32 dvd nruns s r - j" using assms(1) by (subst (asm) mod_eq_dvd_iff_nat) (simp_all add: stuck_def)
    then have "2 ^ 32 \<le> nruns s r - j" using assms(1) by (intro dvd_imp_le) (simp_all add: stuck_def)
    with assms(2) show False by simp
  qed
  with assms(1) show ?thesis
    by (auto simp: stuck_def closed_step_def goto_def set_proc_def env_runs32_def Let_def)
qed

lemma stuck_step:
  assumes "step s t" "stuck r j s" "nruns s r < j + 2 ^ 32"
  shows "stuck r j t"
proof -
  have keep: ?thesis if "procs t r = procs s r" using that assms(2) nruns_step [OF assms(1), of r] by (auto simp: stuck_def)
  have ne: "q = other r" if "q \<noteq> r" for q using that by (cases q; cases r) auto
  from assms(1) show ?thesis
  proof (cases rule: step.cases)
    case (transfer q)
    with assms(2) have "r = other q" using ne [of q] by (cases q; cases r) (auto simp: stuck_def transferring_def)
    with transfer keep show ?thesis by simp
  next
    case (closed q)
    show ?thesis
    proof (cases "q = r")
      case True
      with closed stuck_own_step [OF assms(2,3)] show ?thesis by simp
    next
      case False
      then have "r = other q" by (cases q; cases r) auto
      with closed keep closed_frame [of q s] show ?thesis by simp
    qed
  next
    case (closing q e)
    with assms(2) have "r = other q" using ne [of q] by (cases q; cases r) (auto simp: stuck_def)
    with closing keep close_frame [of q s] show ?thesis by simp
  qed (use assms(2) in \<open>auto intro!: keep simp: stuck_def call_def goto_def set_proc_def switch_def\<close>)
qed

text \<open>
  The loop of \<^verbatim>\<open>_pipe_is_closed\<close> compares with the value of \<^verbatim>\<open>env_runs\<close> read before the loop and
  never reads it again: a process that loses the CPU once inside the loop stays in it until
  the counter has come round.
\<close>

theorem pipe_closed_check_hangs:
  assumes "vpc (procs s r) \<in> {FdRef, PipeRef, Runs}" "before_env_run (procs s r) = of_nat j" "j < nruns s r"
    and "step\<^sup>*\<^sup>* s t" "nruns t r < j + 2 ^ 32"
  shows "vpc (procs t r) \<in> {FdRef, PipeRef, Runs}"
proof -
  from assms(1-3) have "stuck r j s" by (simp add: stuck_def)
  from assms(4,5) have "stuck r j t \<and> nruns s r \<le> nruns t r"
  proof (induction rule: rtranclp_induct)
    case base
    show ?case using \<open>stuck r j s\<close> by simp
  next
    case (step y z)
    from nruns_step [OF step(2), of r] step(4) have "nruns y r < j + 2 ^ 32" by simp
    with step(3) stuck_step [OF step(2)] nruns_step [OF step(2), of r] show ?case by auto
  qed
  then show ?thesis by (simp add: stuck_def)
qed

theorem pipe_closed_check_hangs_witness:
  "\<exists>s. play (split_ends @ find_nothing @ [Go Reader, Give Writer, Give Reader]) start_sys = Some s
     \<and> before_env_run (procs s Reader) \<noteq> env_runs32 s Reader
     \<and> vpc (procs (closed_step Reader s) Reader) \<in> {FdRef, PipeRef, Runs}"
proof -
  have "\<exists>s. play (split_ends @ find_nothing @ [Go Reader, Give Writer, Give Reader]) start_sys = Some s
     \<and> vpc (procs s Reader) = FdRef \<and> before_env_run (procs s Reader) = of_nat 2 \<and> nruns s Reader = 3 \<and> running s = Reader"
    by (simp add: split_ends_def find_nothing_def run_defs)
  then obtain s where s: "play (split_ends @ find_nothing @ [Go Reader, Give Writer, Give Reader]) start_sys = Some s"
    "vpc (procs s Reader) = FdRef" "before_env_run (procs s Reader) = of_nat 2" "nruns s Reader = 3" "running s = Reader"
    by blast
  from s(2,5) have st: "step s (closed_step Reader s)" by (intro step.closed) (simp_all add: in_check_def)
  have n: "nruns (closed_step Reader s) Reader = 3" using s(2,4) by (simp add: closed_step_def set_proc_def Let_def)
  have "vpc (procs (closed_step Reader s) Reader) \<in> {FdRef, PipeRef, Runs}"
    by (rule pipe_closed_check_hangs [of s Reader 2]) (use s st n in \<open>auto simp: r_into_rtranclp\<close>)
  with s show ?thesis by (auto simp: env_runs32_def)
qed

section \<open>Transfers that return\<close>

lemma ready_no_wrap:
  assumes "pipe_rep p xs" "unat (p_rpos p) + length xs < 2 ^ 32"
  shows "pipe_ready p \<longleftrightarrow> xs \<noteq> []" "p_rpos p = p_wpos p \<longleftrightarrow> xs = []"
proof -
  have w: "unat (p_wpos p) = unat (p_rpos p) + length xs"
    using assms by (simp add: pipe_rep_def unat_word_ariths unsigned_of_nat take_bit_nat_eq_self)
  then show "pipe_ready p \<longleftrightarrow> xs \<noteq> []" by (auto simp: pipe_ready_def word_less_nat_alt)
  from w show "p_rpos p = p_wpos p \<longleftrightarrow> xs = []" by (auto simp: word_unat_eq_iff)
qed

lemma read_copies:
  assumes "vpc (procs s Reader) = Test" "pipe_rep (s_pipe s) xs" "unat (p_rpos (s_pipe s)) + length xs < 2 ^ 32"
    and "vi (procs s Reader) + m = vn (procs s Reader)"
  shows "\<exists>k. let t = (read_step ^^ k) s; v = procs t Reader in
    vpc v = After \<and> vn v = vn (procs s Reader) \<and> vi v = vi (procs s Reader) + length (take m xs)
    \<and> vbuf v = vbuf (procs s Reader) @ take m xs \<and> pipe_rep (s_pipe t) (drop m xs)
    \<and> unat (p_rpos (s_pipe t)) + length (drop m xs) < 2 ^ 32"
  using assms
proof (induction xs arbitrary: s m)
  case Nil
  then show ?case
    using ready_no_wrap [OF Nil(2,3)] by (intro exI [of _ 1]) (simp add: read_step_def goto_def set_proc_def Let_def)
next
  case (Cons x xs)
  show ?case
  proof (cases m)
    case 0
    with Cons.prems show ?thesis
      by (intro exI [of _ 1]) (simp add: read_step_def goto_def set_proc_def Let_def)
  next
    case (Suc m')
    let ?t = "(read_step ^^ 3) s"
    have t: "procs ?t Reader = (procs s Reader)\<lparr>vpc := Test, vi := vi (procs s Reader) + 1, vbuf := vbuf (procs s Reader) @ [x]\<rparr>"
      "s_pipe ?t = (s_pipe s)\<lparr>p_rpos := p_rpos (s_pipe s) + 1\<rparr>"
      using Cons.prems Suc ready_no_wrap [OF Cons.prems(2,3)] pipe_rep_peek [OF Cons.prems(2)]
      by (simp_all add: numeral_3_eq_3 read_step_def goto_def set_proc_def Let_def)
    have "unat (p_rpos (s_pipe s) + 1) = unat (p_rpos (s_pipe s)) + 1"
      using Cons.prems(3) by (simp add: unat_word_ariths)
    with Cons.prems(3) have nw: "unat (p_rpos (s_pipe ?t)) + length xs < 2 ^ 32" by (simp add: t)
    have rep: "pipe_rep (s_pipe ?t) xs" using pipe_rep_advance_r [OF Cons.prems(2)] by (simp add: t)
    have v: "vpc (procs ?t Reader) = Test" "vi (procs ?t Reader) + m' = vn (procs ?t Reader)"
      using Cons.prems(4) Suc by (simp_all add: t)
    from Cons.IH [OF v(1) rep nw v(2)] obtain k where
      k: "let u = (read_step ^^ k) ?t; v = procs u Reader in
        vpc v = After \<and> vn v = vn (procs ?t Reader) \<and> vi v = vi (procs ?t Reader) + length (take m' xs)
        \<and> vbuf v = vbuf (procs ?t Reader) @ take m' xs \<and> pipe_rep (s_pipe u) (drop m' xs)
        \<and> unat (p_rpos (s_pipe u)) + length (drop m' xs) < 2 ^ 32" by blast
    have "(read_step ^^ k) ?t = (read_step ^^ (k + 3)) s" by (simp only: funpow_add comp_apply)
    with k show ?thesis by (intro exI [of _ "k + 3"]) (simp add: t Suc Let_def)
  qed
qed

lemma write_copies:
  assumes "vpc (procs s Writer) = Test" "pipe_rep (s_pipe s) xs" "length xs + m \<le> 32"
    and "vi (procs s Writer) + m = vn (procs s Writer)" "length (vbuf (procs s Writer)) = vn (procs s Writer)"
  shows "\<exists>k. let t = (write_step ^^ k) s; v = procs t Writer in
    vpc v = After \<and> vi v = vn v \<and> vn v = vn (procs s Writer) \<and> p_rpos (s_pipe t) = p_rpos (s_pipe s)
    \<and> pipe_rep (s_pipe t) (xs @ drop (vi (procs s Writer)) (vbuf (procs s Writer)))"
  using assms
proof (induction m arbitrary: s xs)
  case 0
  then show ?case
    by (intro exI [of _ 1]) (simp add: write_step_def goto_def set_proc_def Let_def)
next
  case (Suc m)
  let ?v = "procs s Writer"
  let ?t = "(write_step ^^ 3) s" and ?x = "vbuf ?v ! vi ?v"
  have len: "length xs < 32" using Suc.prems(3) by simp
  then have room: "pipe_room (s_pipe s)" using pq.room_iff [OF Suc.prems(2)] by simp
  have t: "procs ?t Writer = ?v\<lparr>vpc := Test, vi := vi ?v + 1\<rparr>" "s_pipe ?t = pipe_put ?x (s_pipe s)"
    using Suc.prems room by (simp_all add: numeral_3_eq_3 write_step_def goto_def set_proc_def pipe_put_def Let_def)
  have rep: "pipe_rep (s_pipe ?t) (xs @ [?x])" using pq.enq_rep [OF Suc.prems(2) len] by (simp add: t)
  have v: "vpc (procs ?t Writer) = Test" "length (xs @ [?x]) + m \<le> 32" "vi (procs ?t Writer) + m = vn (procs ?t Writer)"
    "length (vbuf (procs ?t Writer)) = vn (procs ?t Writer)"
    using Suc.prems by (simp_all add: t)
  from Suc.IH [OF v(1) rep v(2-4)] obtain k where
    k: "let u = (write_step ^^ k) ?t; v = procs u Writer in
      vpc v = After \<and> vi v = vn v \<and> vn v = vn (procs ?t Writer) \<and> p_rpos (s_pipe u) = p_rpos (s_pipe ?t)
      \<and> pipe_rep (s_pipe u) ((xs @ [?x]) @ drop (vi (procs ?t Writer)) (vbuf (procs ?t Writer)))" by blast
  have "vi ?v < length (vbuf ?v)" using Suc.prems(4,5) by simp
  then have "drop (vi ?v) (vbuf ?v) = ?x # drop (Suc (vi ?v)) (vbuf ?v)" by (simp only: Cons_nth_drop_Suc)
  moreover have "(write_step ^^ k) ?t = (write_step ^^ (k + 3)) s" by (simp only: funpow_add comp_apply)
  ultimately show ?case
    using k by (intro exI [of _ "k + 3"]) (simp add: t Let_def pipe_put_def pipe_poke_def)
qed

lemma pipe_write_returns:
  assumes "pipe_rep (s_pipe s) []" "b \<noteq> []" "length b \<le> 32"
  shows "\<exists>k. let t = (write_step ^^ k) (call Writer (length b) b s) in
    vpc (procs t Writer) = Idle \<and> vret (procs t Writer) = Some (length b) \<and> pipe_rep (s_pipe t) b
    \<and> p_rpos (s_pipe t) = p_rpos (s_pipe s)"
proof -
  let ?s = "write_step (call Writer (length b) b s)"
  have s: "procs ?s Writer = (procs s Writer)\<lparr>vpc := Test, vn := length b, vi := 0, vbuf := b, vret := None\<rparr>" "s_pipe ?s = s_pipe s"
    using assms(2) by (simp_all add: write_step_def call_def goto_def set_proc_def Let_def)
  from write_copies [of ?s "[]" "length b"] assms s obtain k where
    k: "let t = (write_step ^^ k) ?s; v = procs t Writer in
      vpc v = After \<and> vi v = vn v \<and> vn v = length b \<and> p_rpos (s_pipe t) = p_rpos (s_pipe s) \<and> pipe_rep (s_pipe t) b"
    by auto
  have e: "(write_step ^^ Suc (Suc k)) (call Writer (length b) b s) = write_step ((write_step ^^ k) ?s)"
    by (simp add: funpow_swap1)
  from k show ?thesis
    by (intro exI [of _ "Suc (Suc k)"]) (simp only: e Let_def, simp add: write_step_def return_def set_proc_def Let_def)
qed

lemma pipe_read_returns:
  assumes "pipe_rep (s_pipe s) xs" "unat (p_rpos (s_pipe s)) + length xs < 2 ^ 32" "xs \<noteq> []" "0 < n"
  shows "\<exists>k. let t = (read_step ^^ k) (call Reader n [] s) in
    vpc (procs t Reader) = Idle \<and> vret (procs t Reader) = Some (min n (length xs)) \<and> vbuf (procs t Reader) = take n xs
    \<and> pipe_rep (s_pipe t) (drop n xs)"
proof -
  let ?s = "read_step (call Reader n [] s)"
  have s: "procs ?s Reader = (procs s Reader)\<lparr>vpc := Test, vn := n, vi := 0, vbuf := [], vret := None\<rparr>" "s_pipe ?s = s_pipe s"
    using assms(4) by (simp_all add: read_step_def call_def goto_def set_proc_def Let_def)
  from read_copies [of ?s xs n] assms s obtain k where
    k: "let t = (read_step ^^ k) ?s; v = procs t Reader in
      vpc v = After \<and> vn v = n \<and> vi v = min (length xs) n \<and> vbuf v = take n xs \<and> pipe_rep (s_pipe t) (drop n xs)
      \<and> unat (p_rpos (s_pipe t)) + length (drop n xs) < 2 ^ 32" by (auto simp: Let_def)
  let ?t = "(read_step ^^ k) ?s"
  have e: "(read_step ^^ Suc (Suc k)) (call Reader n [] s) = read_step ?t"
    "(read_step ^^ Suc (Suc (Suc k))) (call Reader n [] s) = read_step (read_step ?t)"
    by (simp_all add: funpow_swap1)
  show ?thesis
  proof (cases "length xs < n")
    case False
    with k show ?thesis
      by (intro exI [of _ "Suc (Suc k)"]) (simp only: e Let_def, simp add: read_step_def return_def set_proc_def Let_def)
  next
    case True
    with k ready_no_wrap(2) [of "s_pipe ?t" "[]"] have "p_rpos (s_pipe ?t) = p_wpos (s_pipe ?t)" by (simp add: Let_def)
    moreover have "1 \<le> length xs" using assms(3) by (cases xs) auto
    ultimately show ?thesis using k True
      by (intro exI [of _ "Suc (Suc (Suc k))"])
        (simp only: e Let_def, simp add: read_step_def return_def goto_def set_proc_def Let_def)
  qed
qed

text \<open>C21: With an empty buffer and positions that do not reach \<open>2 ^ 32\<close>, a write of at most \<^verbatim>\<open>PIPE_SIZE\<close>
  bytes returns after finitely many steps of the writer, a read for at least as many then
  returns after finitely many steps of the reader, and it delivers exactly those bytes.
\<close>

theorem pipe_transfer:
  assumes "pipe_rep (s_pipe s) []" "b \<noteq> []" "length b \<le> PIPE_SIZE" "length b \<le> n"
    and "unat (p_rpos (s_pipe s)) + length b < 2 ^ 32"
  shows "\<exists>i j. let t = (write_step ^^ i) (call Writer (length b) b s); u = (read_step ^^ j) (call Reader n [] t) in
    vpc (procs t Writer) = Idle \<and> vret (procs t Writer) = Some (length b)
    \<and> vpc (procs u Reader) = Idle \<and> vret (procs u Reader) = Some (length b) \<and> vbuf (procs u Reader) = b
    \<and> pipe_rep (s_pipe u) []"
proof -
  from pipe_write_returns [OF assms(1,2)] assms(3) obtain i where
    i: "let t = (write_step ^^ i) (call Writer (length b) b s) in
      vpc (procs t Writer) = Idle \<and> vret (procs t Writer) = Some (length b) \<and> pipe_rep (s_pipe t) b
      \<and> p_rpos (s_pipe t) = p_rpos (s_pipe s)" by (auto simp: PIPE_SIZE_def)
  let ?t = "(write_step ^^ i) (call Writer (length b) b s)"
  have "0 < n" using assms(2,4) by (cases b) auto
  with pipe_read_returns [of ?t b n] i assms obtain j where
    "let u = (read_step ^^ j) (call Reader n [] ?t) in
      vpc (procs u Reader) = Idle \<and> vret (procs u Reader) = Some (min n (length b)) \<and> vbuf (procs u Reader) = take n b
      \<and> pipe_rep (s_pipe u) (drop n b)" by (auto simp: Let_def)
  with i assms(4) show ?thesis by (intro exI [of _ i] exI [of _ j]) (simp add: Let_def)
qed

theorem pipe_transfer_witness:
  "\<exists>i j. let t = (write_step ^^ i) (call Writer 2 [104, 105] start_sys); u = (read_step ^^ j) (call Reader 8 [] t) in
    vret (procs t Writer) = Some 2 \<and> vret (procs u Reader) = Some 2 \<and> vbuf (procs u Reader) = [104, 105]"
proof -
  have s: "pipe_rep (s_pipe start_sys) []" "p_rpos (s_pipe start_sys) = 0" by (simp_all add: start_sys_def pipe_rep_def)
  have l: "length [104, 105 :: u8] = 2" by simp
  from pipe_transfer [of start_sys "[104, 105]" 8, unfolded l] s show ?thesis
    by (auto simp: PIPE_SIZE_def Let_def)
qed

lemma spin_step:
  assumes "vpc (procs u Reader) \<in> {Outer, Test, After, Wait}" "p_wpos (s_pipe u) < p_rpos (s_pipe u)"
    and "vi (procs u Reader) = 0" "0 < vn (procs u Reader)"
  shows "vpc (procs (read_step u) Reader) \<in> {Outer, Test, After, Wait} \<and> received (read_step u) = received u
    \<and> s_pipe (read_step u) = s_pipe u \<and> vi (procs (read_step u) Reader) = 0 \<and> vn (procs (read_step u) Reader) = vn (procs u Reader)"
proof -
  have "\<not> pipe_ready (s_pipe u)" "p_rpos (s_pipe u) \<noteq> p_wpos (s_pipe u)" using assms(2) by (auto simp: pipe_ready_def)
  with assms(1,3,4) show ?thesis
    by (elim insertE emptyE) (simp_all add: read_step_def goto_def set_proc_def Let_def)
qed

text \<open>
  Once the write position has wrapped past \<open>2 ^ 32\<close> and the read position has not, the test
  \<^verbatim>\<open>p_rpos < p_wpos\<close> fails although the buffer holds bytes: the reader goes round its loop
  without taking any and without giving up the CPU.
\<close>

theorem pipe_read_spins_after_wrap:
  assumes "pipe_rep (s_pipe s) xs" "xs \<noteq> []" "p_wpos (s_pipe s) < p_rpos (s_pipe s)" "0 < n"
  shows "let t = (read_step ^^ k) (call Reader n [] s) in
    vpc (procs t Reader) \<in> {Outer, Test, After, Wait} \<and> received t = received s \<and> pipe_rep (s_pipe t) xs"
proof -
  let ?t = "\<lambda>k. (read_step ^^ k) (call Reader n [] s)"
  have "vpc (procs (?t k) Reader) \<in> {Outer, Test, After, Wait} \<and> received (?t k) = received s \<and> s_pipe (?t k) = s_pipe s
    \<and> vi (procs (?t k) Reader) = 0 \<and> vn (procs (?t k) Reader) = n"
  proof (induction k)
    case (Suc k)
    with spin_step [of "?t k"] assms(3,4) show ?case by (simp only: funpow.simps comp_apply)
  qed (simp add: call_def set_proc_def)
  with assms(1) show ?thesis by (simp add: Let_def)
qed

definition wrapped_sys :: sys where
  "wrapped_sys = start_sys\<lparr>s_pipe := \<lparr>p_rpos = 0xFFFFFFFF, p_wpos = 1, p_buf = \<lambda>_. 7\<rparr>\<rparr>"

theorem pipe_read_spins_after_wrap_witness:
  "pipe_rep (s_pipe wrapped_sys) [7, 7] \<and>
   vpc (procs ((read_step ^^ 1000000) (call Reader 2 [] wrapped_sys)) Reader) \<in> {Outer, Test, After, Wait}"
proof -
  have "pipe_rep (s_pipe wrapped_sys) [7, 7]"
    by (simp add: wrapped_sys_def pipe_rep_def nth_Cons')
  moreover have "p_wpos (s_pipe wrapped_sys) < p_rpos (s_pipe wrapped_sys)" by (simp add: wrapped_sys_def)
  moreover have "[7, 7] \<noteq> ([] :: u8 list)" "0 < (2 :: nat)" by simp_all
  ultimately show ?thesis using pipe_read_spins_after_wrap [of wrapped_sys "[7, 7]" 2 1000000] unfolding Let_def by blast
qed

end
