(* ===== verification/Client.thy ===== *)
theory Client
  imports Syscall
begin

text \<open>
  The address space of a user process, for the user library: virtual pages map to physical
  pages that several addresses may share, as \<^verbatim>\<open>dup\<close> and pipes make them do.  Accesses are at
  most eight bytes and stay inside a page.

  What other parties decide is in the state: \<open>cgrants\<close>, the answers of the kernel to requests for
  memory; \<open>answers\<close>, those of the file-system server, with the page it shares; \<open>keys\<close>, what the
  console will deliver.  \<open>requests\<close> and \<open>console\<close> record what the process sends.  \<^term>\<open>None\<close> is
  \<^verbatim>\<open>user_panic\<close>, an access to an unmapped page, or waiting for an answer that never comes.
\<close>

section \<open>State\<close>

datatype request =
    Rq_open "u8 list" u32
  | Rq_map u32 u32
  | Rq_set_size u32 u32
  | Rq_close u32
  | Rq_dirty u32 u32
  | Rq_remove "u8 list"
  | Rq_sync

text \<open>The value of an answer, and the page with its permissions.\<close>

type_synonym answer = "int \<times> (nat \<times> u32) option"

record client =
  cpt :: "u64 \<Rightarrow> nat option"
  cphys :: "nat \<Rightarrow> u64 \<Rightarrow> u8"
  cfresh :: nat
  cgrants :: "bool list"
  answers :: "answer list"
  requests :: "request list"
  keys :: "u32 list"
  console :: "u8 list"

definition cvpn :: "u64 \<Rightarrow> u64" where "cvpn va = drop_bit 12 va"

definition coff :: "u64 \<Rightarrow> u64" where "coff va = take_bit 12 va"

definition cmapped :: "client \<Rightarrow> u64 \<Rightarrow> bool" where "cmapped s va \<longleftrightarrow> cpt s (cvpn va) \<noteq> None"

text \<open>The bytes as the process sees them.\<close>

definition view :: "client \<Rightarrow> memory" where
  "view s va = (case cpt s (cvpn va) of None \<Rightarrow> 0 | Some p \<Rightarrow> cphys s p (coff va))"

definition cload :: "nat \<Rightarrow> client \<Rightarrow> u64 \<Rightarrow> u64 option" where
  "cload n s a = (if cmapped s a then Some (load_le n (view s) a) else None)"

definition cstore :: "nat \<Rightarrow> u64 \<Rightarrow> u64 \<Rightarrow> client \<Rightarrow> client option" where
  "cstore n a v s =
     (case cpt s (cvpn a) of
        None \<Rightarrow> None
      | Some p \<Rightarrow>
          Some (s\<lparr>cphys := (cphys s)(p := (\<lambda>o'. if unat (o' - coff a) < n
                                                  then byte_of (unat (o' - coff a)) v else cphys s p o'))\<rparr>))"

definition cload32 :: "client \<Rightarrow> u64 \<Rightarrow> u32 option" where
  "cload32 s a = map_option ucast (cload 4 s a)"

definition cstore32 :: "u64 \<Rightarrow> u32 \<Rightarrow> client \<Rightarrow> client option" where
  "cstore32 a v = cstore 4 a (ucast v)"

text \<open>\<^verbatim>\<open>memcpy\<close> byte by byte, to which the theory of strings shows it equal.\<close>

primrec cmemcpy :: "u64 \<Rightarrow> u64 \<Rightarrow> nat \<Rightarrow> client \<Rightarrow> client option" where
  "cmemcpy d a 0 s = Some s"
| "cmemcpy d a (Suc n) s =
     do { b \<leftarrow> cload 1 s a; s \<leftarrow> cstore 1 d b s; cmemcpy (d + 1) (a + 1) n s }"

section \<open>System calls on the caller\<close>

text \<open>
  The calls with process 0, the caller, by their effect on its mappings.  The library maps all its
  pages with the same permissions, so that they are not kept; the kernel's own model of the calls
  has them.
\<close>

definition cgrant :: "client \<Rightarrow> bool \<times> client" where
  "cgrant s = (case cgrants s of [] \<Rightarrow> (False, s) | g # gs \<Rightarrow> (g, s\<lparr>cgrants := gs\<rparr>))"

definition sys_mem_alloc0 :: "u64 \<Rightarrow> client \<Rightarrow> int \<times> client" where
  "sys_mem_alloc0 va s =
     (if is_illegal_va va then (- E_INVAL, s)
      else
        (let (ok, s) = cgrant s in
         if \<not> ok then (- E_NO_MEM, s)
         else (0, s\<lparr>cpt := (cpt s)(cvpn va \<mapsto> cfresh s), cphys := (cphys s)(cfresh s := (\<lambda>_. 0)), cfresh := cfresh s + 1\<rparr>)))"

definition sys_mem_map0 :: "u64 \<Rightarrow> u64 \<Rightarrow> client \<Rightarrow> int \<times> client" where
  "sys_mem_map0 src dst s =
     (if is_illegal_va src \<or> is_illegal_va dst then (- E_INVAL, s)
      else
        (case cpt s (cvpn src) of
           None \<Rightarrow> (- E_INVAL, s)
         | Some p \<Rightarrow>
             (let (ok, s) = cgrant s in
              if \<not> ok then (- E_NO_MEM, s) else (0, s\<lparr>cpt := (cpt s)(cvpn dst \<mapsto> p)\<rparr>))))"

definition sys_mem_unmap0 :: "u64 \<Rightarrow> client \<Rightarrow> int \<times> client" where
  "sys_mem_unmap0 va s =
     (if is_illegal_va va then (- E_INVAL, s) else (0, s\<lparr>cpt := (cpt s)(cvpn va := None)\<rparr>))"

end
