(* ===== verification/Fd.thy ===== *)
theory Fd
  imports Client
begin

text \<open>
  File descriptors and files of the user library: \<^verbatim>\<open>user/lib/fd.c\<close>, \<^verbatim>\<open>file.c\<close>, \<^verbatim>\<open>fsipc.c\<close>,
  \<^verbatim>\<open>console.c\<close> and the creation of a pipe.  A device is the record of its operations, as in
  \<^verbatim>\<open>struct Dev\<close>, with the address at which it is linked; the operations of descriptors take the
  device table as an argument.
\<close>

section \<open>Descriptors (\<^verbatim>\<open>user/include/fd.h\<close>)\<close>

definition MAXFD :: nat where "MAXFD = 32"
definition FILEBASE :: u64 where "FILEBASE = 0x60000000"
definition PTMAP :: u64 where "PTMAP = 4096"
definition PDMAP :: u64 where "PDMAP = 0x400000"
definition FDTABLE :: u64 where "FDTABLE = FILEBASE - PDMAP"
definition INDEX2FD :: "int \<Rightarrow> u64" where "INDEX2FD i = FDTABLE + of_int i * PTMAP"
definition INDEX2DATA :: "int \<Rightarrow> u64" where "INDEX2DATA i = FILEBASE + of_int i * PDMAP"

definition fd_dev_id :: "u64 \<Rightarrow> u64" where "fd_dev_id fd = fd"
definition fd_offset :: "u64 \<Rightarrow> u64" where "fd_offset fd = fd + 4"
definition fd_omode :: "u64 \<Rightarrow> u64" where "fd_omode fd = fd + 8"
definition f_fileid :: "u64 \<Rightarrow> u64" where "f_fileid fd = fd + 12"
definition ffd_name :: "u64 \<Rightarrow> u64" where "ffd_name fd = fd + 16"
definition ffd_size :: "u64 \<Rightarrow> u64" where "ffd_size fd = fd + 144"
definition ffd_type :: "u64 \<Rightarrow> u64" where "ffd_type fd = fd + 148"

definition st_size :: "u64 \<Rightarrow> u64" where "st_size st = st + 128"
definition st_isdir :: "u64 \<Rightarrow> u64" where "st_isdir st = st + 132"
definition st_dev :: "u64 \<Rightarrow> u64" where "st_dev st = st + 136"

definition O_RDONLY :: u32 where "O_RDONLY = 0"
definition O_WRONLY :: u32 where "O_WRONLY = 1"
definition O_RDWR :: u32 where "O_RDWR = 2"
definition O_ACCMODE :: u32 where "O_ACCMODE = 3"

text \<open>An operation of the process: its return value and the new state.\<close>

type_synonym op = "client \<Rightarrow> (int \<times> client) option"

record Dev =
  dev_id :: u32
  dev_addr :: u64
  dev_read :: "u64 \<Rightarrow> u64 \<Rightarrow> u32 \<Rightarrow> u32 \<Rightarrow> op"
  dev_write :: "u64 \<Rightarrow> u64 \<Rightarrow> u32 \<Rightarrow> u32 \<Rightarrow> op"
  dev_close :: "u64 \<Rightarrow> op"
  dev_stat :: "u64 \<Rightarrow> u64 \<Rightarrow> op"

fun dev_lookup :: "Dev list \<Rightarrow> u32 \<Rightarrow> int + Dev" where
  "dev_lookup [] i = Inl (- E_INVAL)"
| "dev_lookup (d # ds) i = (if dev_id d = i then Inr d else dev_lookup ds i)"

fun fd_scan :: "nat list \<Rightarrow> client \<Rightarrow> int + u64" where
  "fd_scan [] s = Inl (- E_MAX_OPEN)"
| "fd_scan (i # is) s = (if \<not> cmapped s (INDEX2FD (int i)) then Inr (INDEX2FD (int i)) else fd_scan is s)"

definition fd_alloc :: "client \<Rightarrow> int + u64" where "fd_alloc s = fd_scan [0..<MAXFD - 1] s"

definition fd_close :: "u64 \<Rightarrow> client \<Rightarrow> client option" where
  "fd_close fd s = (let (r, s) = sys_mem_unmap0 fd s in if r \<noteq> 0 then None else Some s)"

definition fd_lookup :: "int \<Rightarrow> client \<Rightarrow> int + u64" where
  "fd_lookup fdnum s =
     (if fdnum \<ge> int MAXFD then Inl (- E_INVAL)
      else if cmapped s (INDEX2FD fdnum) then Inr (INDEX2FD fdnum) else Inl (- E_INVAL))"

definition fd2num :: "u64 \<Rightarrow> int" where "fd2num fd = sint (ucast ((fd - FDTABLE) div PTMAP) :: u32)"

definition fd2data :: "u64 \<Rightarrow> u64" where "fd2data fd = INDEX2DATA (fd2num fd)"

definition num2fd :: "int \<Rightarrow> int" where
  "num2fd fd = sint (ucast (of_int fd * PTMAP + FDTABLE) :: u32)"

text \<open>\<^verbatim>\<open>fd_lookup\<close> and \<^verbatim>\<open>dev_lookup\<close>, the start of most operations.\<close>

definition with_dev :: "Dev list \<Rightarrow> int \<Rightarrow> (u64 \<Rightarrow> Dev \<Rightarrow> op) \<Rightarrow> op" where
  "with_dev devs fdnum body s =
     (case fd_lookup fdnum s of
        Inl r \<Rightarrow> Some (r, s)
      | Inr fd \<Rightarrow>
          do { i \<leftarrow> cload32 s (fd_dev_id fd);
               (case dev_lookup devs i of Inl r \<Rightarrow> Some (r, s) | Inr dev \<Rightarrow> body fd dev s) })"

definition close :: "Dev list \<Rightarrow> int \<Rightarrow> op" where
  "close devs fdnum = with_dev devs fdnum (\<lambda>fd dev s.
     do { (r, s) \<leftarrow> dev_close dev fd s; s \<leftarrow> fd_close fd s; Some (r, s) })"

definition close_all :: "Dev list \<Rightarrow> client \<Rightarrow> client option" where
  "close_all devs = for_each [0..<MAXFD] (\<lambda>i s. map_option snd (close devs (int i) s))"

text \<open>The loop of \<^verbatim>\<open>dup\<close> over the data pages; the first error ends it.\<close>

fun dup_pages :: "nat list \<Rightarrow> u64 \<Rightarrow> u64 \<Rightarrow> client \<Rightarrow> int \<times> client" where
  "dup_pages [] ova nva s = (0, s)"
| "dup_pages (i # is) ova nva s =
     (let off = of_nat i * PTMAP in
      if cmapped s (ova + off)
      then (let (r, s) = sys_mem_map0 (ova + off) (nva + off) s in
            if r < 0 then (r, s) else dup_pages is ova nva s)
      else dup_pages is ova nva s)"

definition dup_undo :: "u64 \<Rightarrow> u64 \<Rightarrow> client \<Rightarrow> client option" where
  "dup_undo newfd nva s =
     do { s \<leftarrow> fd_close newfd s; for_each [0..<1024] (\<lambda>i s. fd_close (nva + of_nat i * PTMAP) s) s }"

definition dup :: "Dev list \<Rightarrow> int \<Rightarrow> int \<Rightarrow> op" where
  "dup devs oldfdnum newfdnum s =
     (case fd_lookup oldfdnum s of
        Inl r \<Rightarrow> Some (r, s)
      | Inr oldfd \<Rightarrow>
          do { (_, s) \<leftarrow> close devs newfdnum s;
               let newfd = INDEX2FD newfdnum;
               let ova = fd2data oldfd;
               let nva = fd2data newfd;
               let (r, s) = (if cmapped s ova then dup_pages [0..<1024] ova nva s else (0, s));
               if r < 0 then do { s \<leftarrow> dup_undo newfd nva s; Some (r, s) }
               else
                 (let (r, s) = sys_mem_map0 oldfd newfd s in
                  if r < 0 then do { s \<leftarrow> dup_undo newfd nva s; Some (r, s) }
                  else Some (newfdnum, s)) })"

definition fd_read :: "Dev list \<Rightarrow> int \<Rightarrow> u64 \<Rightarrow> u32 \<Rightarrow> op" where
  "fd_read devs fdnum buf n = with_dev devs fdnum (\<lambda>fd dev s.
     do { m \<leftarrow> cload32 s (fd_omode fd);
          if m AND O_ACCMODE = O_WRONLY then Some (- E_INVAL, s)
          else
            do { off \<leftarrow> cload32 s (fd_offset fd);
                 (r, s) \<leftarrow> dev_read dev fd buf n off s;
                 if r < 0 then Some (r, s)
                 else do { off \<leftarrow> cload32 s (fd_offset fd);
                           s \<leftarrow> cstore32 (fd_offset fd) (off + of_int r) s;
                           Some (r, s) } } })"

definition fd_write :: "Dev list \<Rightarrow> int \<Rightarrow> u64 \<Rightarrow> u32 \<Rightarrow> op" where
  "fd_write devs fdnum buf n = with_dev devs fdnum (\<lambda>fd dev s.
     do { m \<leftarrow> cload32 s (fd_omode fd);
          if m AND O_ACCMODE = O_RDONLY then Some (- E_INVAL, s)
          else
            do { off \<leftarrow> cload32 s (fd_offset fd);
                 (r, s) \<leftarrow> dev_write dev fd buf n off s;
                 if r > 0
                 then do { off \<leftarrow> cload32 s (fd_offset fd);
                           s \<leftarrow> cstore32 (fd_offset fd) (off + of_int r) s;
                           Some (r, s) }
                 else Some (r, s) } })"

text \<open>The loop of \<^verbatim>\<open>readn\<close>; \<open>tot\<close> grows in every round.\<close>

partial_function (option) readn_loop :: "Dev list \<Rightarrow> int \<Rightarrow> u64 \<Rightarrow> u32 \<Rightarrow> int \<Rightarrow> op" where
  "readn_loop devs fdnum buf n tot s =
     (if tot < uint n
      then do { (m, s) \<leftarrow> fd_read devs fdnum (buf + of_int tot) (n - of_int tot) s;
                if m < 0 then Some (m, s)
                else if m = 0 then Some (tot, s)
                else readn_loop devs fdnum buf n (tot + m) s }
      else Some (tot, s))"

definition readn :: "Dev list \<Rightarrow> int \<Rightarrow> u64 \<Rightarrow> u32 \<Rightarrow> op" where
  "readn devs fdnum buf n = readn_loop devs fdnum buf n 0"

definition seek :: "int \<Rightarrow> u32 \<Rightarrow> op" where
  "seek fdnum offset s =
     (case fd_lookup fdnum s of
        Inl r \<Rightarrow> Some (r, s)
      | Inr fd \<Rightarrow> do { s \<leftarrow> cstore32 (fd_offset fd) offset s; Some (0, s) })"

definition fstat :: "Dev list \<Rightarrow> int \<Rightarrow> u64 \<Rightarrow> op" where
  "fstat devs fdnum st = with_dev devs fdnum (\<lambda>fd dev s.
     do { s \<leftarrow> cstore 1 st 0 s;
          s \<leftarrow> cstore32 (st_size st) 0 s;
          s \<leftarrow> cstore32 (st_isdir st) 0 s;
          s \<leftarrow> cstore 8 (st_dev st) (dev_addr dev) s;
          dev_stat dev fd st s })"

section \<open>Requests to the file-system server (\<^verbatim>\<open>user/lib/fsipc.c\<close>)\<close>

text \<open>
  \<^verbatim>\<open>fsipc\<close>: the request is sent, the next answer received; a page that comes with it is
  mapped at \<open>dstva\<close>, and 0 there accepts none.  The value and the permissions of the page.
\<close>

definition fsipc :: "request \<Rightarrow> u64 \<Rightarrow> client \<Rightarrow> ((int \<times> u32) \<times> client) option" where
  "fsipc rq dstva s =
     (case answers s of
        [] \<Rightarrow> None
      | (v, pg) # as \<Rightarrow>
          (let s = s\<lparr>requests := requests s @ [rq], answers := as\<rparr> in
           case pg of
             Some (p, perm) \<Rightarrow>
               if dstva \<noteq> 0 then Some ((v, perm), s\<lparr>cpt := (cpt s)(cvpn dstva \<mapsto> p)\<rparr>) else Some ((v, 0), s)
           | None \<Rightarrow> Some ((v, 0), s)))"

definition MAXPATH :: nat where "MAXPATH = 1024"

definition fsipc_value :: "request \<Rightarrow> op" where
  "fsipc_value rq s = do { ((r, _), s) \<leftarrow> fsipc rq 0 s; Some (r, s) }"

definition fsipc_open :: "u8 list \<Rightarrow> u32 \<Rightarrow> u64 \<Rightarrow> op" where
  "fsipc_open pth omode fd s =
     (if length pth \<ge> MAXPATH then Some (- E_BAD_PATH, s)
      else do { ((r, _), s) \<leftarrow> fsipc (Rq_open pth omode) fd s; Some (r, s) })"

definition fsipc_map :: "u32 \<Rightarrow> u32 \<Rightarrow> u64 \<Rightarrow> op" where
  "fsipc_map fileid offset dstva s =
     do { ((r, perm), s) \<leftarrow> fsipc (Rq_map fileid offset) dstva s;
          if r < 0 then Some (r, s)
          else if perm AND NOT (ucast (PTE_RW OR PTE_USER OR PTE_LIBRARY)) \<noteq> ucast PTE_V then None
          else Some (0, s) }"

definition fsipc_set_size :: "u32 \<Rightarrow> u32 \<Rightarrow> op" where
  "fsipc_set_size fileid size' = fsipc_value (Rq_set_size fileid size')"

definition fsipc_close :: "u32 \<Rightarrow> op" where "fsipc_close fileid = fsipc_value (Rq_close fileid)"

definition fsipc_dirty :: "u32 \<Rightarrow> u32 \<Rightarrow> op" where
  "fsipc_dirty fileid offset = fsipc_value (Rq_dirty fileid offset)"

definition fsipc_remove :: "u8 list \<Rightarrow> op" where
  "fsipc_remove pth s =
     (if pth = [] \<or> length pth > MAXPATH then Some (- E_BAD_PATH, s) else fsipc_value (Rq_remove pth) s)"

definition fsipc_sync :: op where "fsipc_sync = fsipc_value Rq_sync"

section \<open>Files (\<^verbatim>\<open>user/lib/file.c\<close>)\<close>

definition MAXFILESIZE :: u32 where "MAXFILESIZE = 1024 * 4096"
definition DEVFILE :: u32 where "DEVFILE = 102"

text \<open>The loop of \<^verbatim>\<open>open\<close> that maps the blocks of the file: \<open>i\<close> is an \<^verbatim>\<open>int\<close> compared with an unsigned size.\<close>

fun open_map :: "nat list \<Rightarrow> u32 \<Rightarrow> u64 \<Rightarrow> op" where
  "open_map [] fileid va s = Some (0, s)"
| "open_map (i # is) fileid va s =
     do { (r, s) \<leftarrow> fsipc_map fileid (of_nat (i * 4096)) (va + of_nat (i * 4096)) s;
          if r \<noteq> 0 then Some (r, s) else open_map is fileid va s }"

definition blocks_of :: "u32 \<Rightarrow> nat" where "blocks_of size' = (unat size' + 4095) div 4096"

definition open_file :: "u8 list \<Rightarrow> u32 \<Rightarrow> op" where
  "open_file pth mode s =
     (case fd_alloc s of
        Inl r \<Rightarrow> Some (r, s)
      | Inr fd \<Rightarrow>
          do { (r, s) \<leftarrow> fsipc_open pth mode fd s;
               if r \<noteq> 0 then Some (r, s)
               else
                 do { size' \<leftarrow> cload32 s (ffd_size fd);
                      fileid \<leftarrow> cload32 s (f_fileid fd);
                      (r, s) \<leftarrow> open_map [0..<blocks_of size'] fileid (fd2data fd) s;
                      Some (if r \<noteq> 0 then r else fd2num fd, s) } })"

fun close_dirty :: "nat list \<Rightarrow> u32 \<Rightarrow> op" where
  "close_dirty [] fileid s = Some (0, s)"
| "close_dirty (i # is) fileid s =
     do { (r, s) \<leftarrow> fsipc_dirty fileid (of_nat (i * 4096)) s;
          if r < 0 then Some (r, s) else close_dirty is fileid s }"

fun close_unmap :: "nat list \<Rightarrow> u64 \<Rightarrow> client \<Rightarrow> int \<times> client" where
  "close_unmap [] va s = (0, s)"
| "close_unmap (i # is) va s =
     (let (r, s) = sys_mem_unmap0 (va + of_nat (i * 4096)) s in
      if r < 0 then (r, s) else close_unmap is va s)"

definition fd_file_close :: "u64 \<Rightarrow> op" where
  "fd_file_close fd s =
     do { fileid \<leftarrow> cload32 s (f_fileid fd);
          size' \<leftarrow> cload32 s (ffd_size fd);
          (r, s) \<leftarrow> close_dirty [0..<blocks_of size'] fileid s;
          if r < 0 then Some (r, s)
          else
            do { (r, s) \<leftarrow> fsipc_close fileid s;
                 if r < 0 then Some (r, s)
                 else Some (close_unmap [0..<blocks_of size'] (fd2data fd) s) } }"

definition file_read :: "u64 \<Rightarrow> u64 \<Rightarrow> u32 \<Rightarrow> u32 \<Rightarrow> op" where
  "file_read fd buf n offset s =
     do { size' \<leftarrow> cload32 s (ffd_size fd);
          if offset > size' then Some (0, s)
          else
            (let n = (if offset + n > size' then size' - offset else n) in
             do { s \<leftarrow> cmemcpy buf (fd2data fd + ucast offset) (unat n) s; Some (sint n, s) }) }"

definition read_map :: "int \<Rightarrow> u32 \<Rightarrow> client \<Rightarrow> (int + u64) option" where
  "read_map fdnum offset s =
     (case fd_lookup fdnum s of
        Inl r \<Rightarrow> Some (Inl r)
      | Inr fd \<Rightarrow>
          do { i \<leftarrow> cload32 s (fd_dev_id fd);
               let va = fd2data fd + ucast offset;
               Some (if i \<noteq> DEVFILE then Inl (- E_INVAL)
                     else if offset \<ge> MAXFILESIZE then Inl (- E_NO_DISK)
                     else if \<not> cmapped s va then Inl (- E_NO_DISK)
                     else Inr va) })"

text \<open>The loop of \<^verbatim>\<open>ftruncate\<close> that maps new blocks; on an error it asks for the old size again.\<close>

fun truncate_map :: "nat list \<Rightarrow> u32 \<Rightarrow> u32 \<Rightarrow> u64 \<Rightarrow> op" where
  "truncate_map [] fileid oldsize va s = Some (0, s)"
| "truncate_map (i # is) fileid oldsize va s =
     do { (r, s) \<leftarrow> fsipc_map fileid (of_nat (i * 4096)) (va + of_nat (i * 4096)) s;
          if r < 0
          then do { (r', s) \<leftarrow> fsipc_set_size fileid oldsize s; Some (if r' < 0 then r' else r, s) }
          else truncate_map is fileid oldsize va s }"

definition ftruncate :: "int \<Rightarrow> u32 \<Rightarrow> op" where
  "ftruncate fdnum size' s =
     (if size' > MAXFILESIZE then Some (- E_NO_DISK, s)
      else
        (case fd_lookup fdnum s of
           Inl r \<Rightarrow> Some (r, s)
         | Inr fd \<Rightarrow>
             do { i \<leftarrow> cload32 s (fd_dev_id fd);
                  if i \<noteq> DEVFILE then Some (- E_INVAL, s)
                  else
                    do { fileid \<leftarrow> cload32 s (f_fileid fd);
                         oldsize \<leftarrow> cload32 s (ffd_size fd);
                         s \<leftarrow> cstore32 (ffd_size fd) size' s;
                         (r, s) \<leftarrow> fsipc_set_size fileid size' s;
                         if r < 0 then Some (r, s)
                         else
                           do { let va = fd2data fd;
                                (r, s) \<leftarrow> truncate_map [blocks_of oldsize..<blocks_of size'] fileid oldsize va s;
                                if r < 0 then Some (r, s)
                                else
                                  (let (r, s) = close_unmap [blocks_of size'..<blocks_of oldsize] va s in
                                   if r < 0 then None else Some (0, s)) } } }))"

definition file_write :: "u64 \<Rightarrow> u64 \<Rightarrow> u32 \<Rightarrow> u32 \<Rightarrow> op" where
  "file_write fd buf n offset s =
     (let tot = offset + n in
      if tot > MAXFILESIZE then Some (- E_NO_DISK, s)
      else
        do { size' \<leftarrow> cload32 s (ffd_size fd);
             (r, s) \<leftarrow> (if tot > size' then ftruncate (fd2num fd) tot s else Some (0, s));
             if r < 0 then Some (r, s)
             else do { s \<leftarrow> cmemcpy (fd2data fd + ucast offset) buf (unat n) s; Some (sint n, s) } })"

text \<open>\<^verbatim>\<open>strcpy\<close> within the process.\<close>

partial_function (option) cstrcpy :: "u64 \<Rightarrow> u64 \<Rightarrow> client \<Rightarrow> client option" where
  "cstrcpy d a s =
     do { b \<leftarrow> cload 1 s a; s \<leftarrow> cstore 1 d b s; if b = 0 then Some s else cstrcpy (d + 1) (a + 1) s }"

definition file_stat :: "u64 \<Rightarrow> u64 \<Rightarrow> op" where
  "file_stat fd st s =
     do { s \<leftarrow> cstrcpy st (ffd_name fd) s;
          size' \<leftarrow> cload32 s (ffd_size fd);
          s \<leftarrow> cstore32 (st_size st) size' s;
          t \<leftarrow> cload32 s (ffd_type fd);
          s \<leftarrow> cstore32 (st_isdir st) (if t = 1 then 1 else 0) s;
          Some (0, s) }"

definition devfile :: "u64 \<Rightarrow> Dev" where
  "devfile a = \<lparr>dev_id = DEVFILE, dev_addr = a, dev_read = file_read, dev_write = file_write,
     dev_close = fd_file_close, dev_stat = file_stat\<rparr>"

definition remove_file :: "u8 list \<Rightarrow> op" where "remove_file = fsipc_remove"

definition sync :: op where "sync = fsipc_sync"

definition stat :: "Dev list \<Rightarrow> u8 list \<Rightarrow> u64 \<Rightarrow> op" where
  "stat devs pth st s =
     do { (fd, s) \<leftarrow> open_file pth O_RDONLY s;
          if fd < 0 then Some (fd, s)
          else do { (r, s) \<leftarrow> fstat devs fd st s; (_, s) \<leftarrow> close devs fd s; Some (r, s) } }"

section \<open>The console (\<^verbatim>\<open>user/lib/console.c\<close>)\<close>

definition DEVCONS :: u32 where "DEVCONS = 99"

definition iscons :: "int \<Rightarrow> client \<Rightarrow> int option" where
  "iscons fdnum s =
     (case fd_lookup fdnum s of
        Inl r \<Rightarrow> Some r
      | Inr fd \<Rightarrow> do { i \<leftarrow> cload32 s (fd_dev_id fd); Some (of_bool (i = DEVCONS)) })"

definition opencons :: op where
  "opencons s =
     (case fd_alloc s of
        Inl r \<Rightarrow> Some (r, s)
      | Inr fd \<Rightarrow>
          (let (r, s) = sys_mem_alloc0 fd s in
           if r < 0 then Some (r, s)
           else do { s \<leftarrow> cstore32 (fd_dev_id fd) DEVCONS s;
                     s \<leftarrow> cstore32 (fd_omode fd) O_RDWR s;
                     Some (fd2num fd, s) }))"

text \<open>The character is echoed; control-D is the end of the input.\<close>

fun next_key :: "u32 list \<Rightarrow> (u32 \<times> u32 list) option" where
  "next_key [] = None"
| "next_key (c # cs) = (if c = 0 then next_key cs else Some (c, cs))"

definition cons_read :: "u64 \<Rightarrow> u64 \<Rightarrow> u32 \<Rightarrow> u32 \<Rightarrow> op" where
  "cons_read fd buf n offset s =
     (if n = 0 then Some (0, s)
      else
        do { (c, ks) \<leftarrow> next_key (keys s);
             let s = s\<lparr>keys := ks, console := console s @ [if c \<noteq> 13 then ucast c else 10]\<rparr>;
             if sint c < 0 then Some (sint c, s)
             else if c = 4 then Some (0, s)
             else do { s \<leftarrow> cstore 1 buf (ucast c) s; Some (1, s) } })"

definition cons_write :: "u64 \<Rightarrow> u64 \<Rightarrow> u32 \<Rightarrow> u32 \<Rightarrow> op" where
  "cons_write fd buf n offset s =
     (if is_illegal_va_range buf (ucast n) then Some (- E_INVAL, s)
      else Some (sint n, s\<lparr>console := console s @ map (\<lambda>i. view s (buf + of_nat i)) [0..<unat n]\<rparr>))"

definition cons_close :: "u64 \<Rightarrow> op" where "cons_close fd s = Some (0, s)"

definition cons_text :: "u8 list" where "cons_text = [60, 99, 111, 110, 115, 62, 0]"

definition cons_stat :: "u64 \<Rightarrow> u64 \<Rightarrow> op" where
  "cons_stat fd st s =
     do { s \<leftarrow> for_each [0..<length cons_text] (\<lambda>i s. cstore 1 (st + of_nat i) (ucast (cons_text ! i)) s) s; Some (0, s) }"

definition devcons :: "u64 \<Rightarrow> Dev" where
  "devcons a = \<lparr>dev_id = DEVCONS, dev_addr = a, dev_read = cons_read, dev_write = cons_write,
     dev_close = cons_close, dev_stat = cons_stat\<rparr>"

section \<open>Creating a pipe (\<^verbatim>\<open>user/lib/pipe.c\<close>)\<close>

definition DEVPIPE :: u32 where "DEVPIPE = 112"

definition alloc_fd_page :: "client \<Rightarrow> (int + u64) \<times> client" where
  "alloc_fd_page s =
     (case fd_alloc s of
        Inl r \<Rightarrow> (Inl r, s)
      | Inr fd \<Rightarrow> (let (r, s) = sys_mem_alloc0 fd s in (if r < 0 then Inl r else Inr fd, s)))"

text \<open>The result, and the two descriptor numbers on success.\<close>

definition pipe :: "client \<Rightarrow> ((int + int \<times> int) \<times> client) option" where
  "pipe s =
     (case alloc_fd_page s of
        (Inl r, s) \<Rightarrow> Some (Inl r, s)
      | (Inr fd0, s) \<Rightarrow>
         (case alloc_fd_page s of
            (Inl r, s) \<Rightarrow> Some (Inl r, snd (sys_mem_unmap0 fd0 s))
          | (Inr fd1, s) \<Rightarrow>
              (let va = fd2data fd0; (r, s) = sys_mem_alloc0 va s in
               if r < 0 then Some (Inl r, snd (sys_mem_unmap0 fd0 (snd (sys_mem_unmap0 fd1 s))))
               else
                 (let (r, s) = sys_mem_map0 va (fd2data fd1) s in
                  if r < 0
                  then Some (Inl r, snd (sys_mem_unmap0 fd0 (snd (sys_mem_unmap0 fd1 (snd (sys_mem_unmap0 va s))))))
                  else
                    do { s \<leftarrow> cstore32 (fd_dev_id fd0) DEVPIPE s;
                         s \<leftarrow> cstore32 (fd_omode fd0) O_RDONLY s;
                         s \<leftarrow> cstore32 (fd_dev_id fd1) DEVPIPE s;
                         s \<leftarrow> cstore32 (fd_omode fd1) O_WRONLY s;
                         Some (Inr (fd2num fd0, fd2num fd1), s) }))))"

end
