(* ===== verification/FdMem.thy ===== *)
theory FdMem
  imports Fd
begin

text \<open>
  Memory of a user process by physical cells: a store changes the cells of its bytes, a copy
  moves the bytes of one range of cells to another, and the pages of the descriptor table are
  apart from each other.
\<close>

section \<open>Cells\<close>

definition loc :: "client \<Rightarrow> u64 \<Rightarrow> nat \<times> u64" where "loc s va = (the (cpt s (cvpn va)), coff va)"

definition cell :: "client \<Rightarrow> nat \<times> u64 \<Rightarrow> u8" where "cell s l = cphys s (fst l) (snd l)"

definition locs :: "client \<Rightarrow> u64 \<Rightarrow> nat \<Rightarrow> (nat \<times> u64) set" where
  "locs s a n = (\<lambda>k. loc s (a + of_nat k)) ` {..<n}"

text \<open>Only the contents of physical pages differ.\<close>

definition same_maps :: "client \<Rightarrow> client \<Rightarrow> bool" where "same_maps s t \<longleftrightarrow> t = s\<lparr>cphys := cphys t\<rparr>"

lemma same_maps_refl [simp]: "same_maps s s"
  by (simp add: same_maps_def)

lemma same_maps_trans: "same_maps s t \<Longrightarrow> same_maps t u \<Longrightarrow> same_maps s u"
  by (cases s; cases t; cases u) (simp add: same_maps_def)

lemma same_mapsD:
  assumes "same_maps s t"
  shows "cpt t = cpt s" "cmapped t a = cmapped s a" "loc t a = loc s a" "locs t a n = locs s a n"
    "answers t = answers s" "cgrants t = cgrants s"
proof -
  show c: "cpt t = cpt s" "answers t = answers s" "cgrants t = cgrants s"
    using assms unfolding same_maps_def by (metis client.select_convs client.surjective client.update_convs(2))+
  then show "cmapped t a = cmapped s a" "loc t a = loc s a" "locs t a n = locs s a n"
    by (simp_all add: cmapped_def loc_def locs_def)
qed

lemma view_cell: "cmapped s a \<Longrightarrow> view s a = cell s (loc s a)"
  by (auto simp: cmapped_def view_def cell_def loc_def)

lemma cload_1: "cmapped s a \<Longrightarrow> cload 1 s a = Some (ucast (cell s (loc s a)))"
  by (simp add: cload_def view_cell)

lemma cstore_cells:
  assumes "cmapped s a"
  shows "\<exists>t. cstore n a v s = Some t \<and> same_maps s t \<and>
    (\<forall>p o'. cell t (p, o') = (if p = fst (loc s a) \<and> unat (o' - coff a) < n then byte_of (unat (o' - coff a)) v else cell s (p, o')))"
  using assms by (auto simp: cmapped_def cstore_def same_maps_def cell_def loc_def)

lemma ucast_back [simp]: "ucast (ucast (b :: u8) :: u64) = b"
  by (rule bit_word_eqI) (simp add: bit_simps)

lemma cstore_1:
  assumes "cmapped s a"
  shows "\<exists>t. cstore 1 a (ucast b) s = Some t \<and> same_maps s t \<and> (\<forall>l. cell t l = (if l = loc s a then b else cell s l))"
proof -
  from cstore_cells [OF assms, of 1 "ucast b"] obtain t where
    t: "cstore 1 a (ucast b) s = Some t" "same_maps s t"
      "\<forall>p o'. cell t (p, o') = (if p = fst (loc s a) \<and> unat (o' - coff a) < 1 then byte_of (unat (o' - coff a)) (ucast b) else cell s (p, o'))"
    by blast
  have "cell t l = (if l = loc s a then b else cell s l)" for l
  proof (cases l)
    case (Pair p o')
    have "unat (o' - coff a) < 1 \<longleftrightarrow> o' = coff a" by (simp add: unat_eq_0)
    with t(3) Pair show ?thesis by (auto simp: loc_def byte_of_def)
  qed
  with t show ?thesis by blast
qed

lemma cmemcpy_cells:
  assumes "\<And>k. k < n \<Longrightarrow> cmapped s (d + of_nat k)" "\<And>k. k < n \<Longrightarrow> cmapped s (a + of_nat k)"
    and "inj_on (\<lambda>k. loc s (d + of_nat k)) {..<n}" "locs s d n \<inter> locs s a n = {}"
  shows "\<exists>t. cmemcpy d a n s = Some t \<and> same_maps s t
    \<and> (\<forall>k < n. cell t (loc s (d + of_nat k)) = cell s (loc s (a + of_nat k)))
    \<and> (\<forall>l. l \<notin> locs s d n \<longrightarrow> cell t l = cell s l)"
  using assms
proof (induction n arbitrary: d a s)
  case (Suc n)
  let ?b = "cell s (loc s a)"
  have ma: "cmapped s a" "cmapped s d" using Suc.prems(1,2) [of 0] by simp_all
  from cstore_1 [OF ma(2), of ?b] obtain u where
    u: "cstore 1 d (ucast ?b) s = Some u" "same_maps s u" "\<forall>l. cell u l = (if l = loc s d then ?b else cell s l)" by blast
  have split: "locs s x (Suc n) = insert (loc s x) (locs s (x + 1) n)" for x
  proof -
    have "{..<Suc n} = insert 0 (Suc ` {..<n})" by (simp add: lessThan_Suc_eq_insert_0)
    then show ?thesis by (simp add: locs_def image_image add.assoc)
  qed
  have inj: "loc s d \<notin> locs s (d + 1) n" "inj_on (\<lambda>k. loc s (d + 1 + of_nat k)) {..<n}"
  proof -
    have i: "loc s (d + of_nat j) = loc s (d + of_nat k) \<Longrightarrow> j \<le> n \<Longrightarrow> k \<le> n \<Longrightarrow> j = k" for j k
      using Suc.prems(3) by (auto simp: inj_on_def)
    show "loc s d \<notin> locs s (d + 1) n"
    proof
      assume "loc s d \<in> locs s (d + 1) n"
      then obtain k where "k < n" "loc s (d + of_nat 0) = loc s (d + of_nat (Suc k))" by (auto simp: locs_def add.assoc)
      with i [of 0 "Suc k"] show False by simp
    qed
    show "inj_on (\<lambda>k. loc s (d + 1 + of_nat k)) {..<n}"
    proof (rule inj_onI)
      fix j k
      assume "j \<in> {..<n}" "k \<in> {..<n}" "loc s (d + 1 + of_nat j) = loc s (d + 1 + of_nat k)"
      then show "j = k" using i [of "Suc j" "Suc k"] by (simp add: add.assoc)
    qed
  qed
  note m = same_mapsD [OF u(2)]
  have pre: "cmapped u (d + 1 + of_nat k)" "cmapped u (a + 1 + of_nat k)" if "k < n" for k
    using Suc.prems(1,2) [of "Suc k"] that by (simp_all add: m add.assoc)
  have "\<exists>t. cmemcpy (d + 1) (a + 1) n u = Some t \<and> same_maps u t
    \<and> (\<forall>k < n. cell t (loc u (d + 1 + of_nat k)) = cell u (loc u (a + 1 + of_nat k)))
    \<and> (\<forall>l. l \<notin> locs u (d + 1) n \<longrightarrow> cell t l = cell u l)"
    by (rule Suc.IH) (use pre inj(2) Suc.prems(4) in \<open>auto simp: m split\<close>)
  then obtain t where
    t: "cmemcpy (d + 1) (a + 1) n u = Some t" "same_maps u t"
      "\<forall>k < n. cell t (loc s (d + 1 + of_nat k)) = cell u (loc s (a + 1 + of_nat k))"
      "\<forall>l. l \<notin> locs s (d + 1) n \<longrightarrow> cell t l = cell u l" by (auto simp: m)
  have na: "loc s (a + of_nat k) \<noteq> loc s d" if "k < Suc n" for k
  proof -
    have "loc s (a + of_nat k) \<in> locs s a (Suc n)" using that by (auto simp: locs_def)
    moreover have "loc s d \<in> locs s d (Suc n)" by (simp add: split)
    ultimately show ?thesis using Suc.prems(4) by auto
  qed
  have "cell t (loc s (d + of_nat k)) = cell s (loc s (a + of_nat k))" if "k < Suc n" for k
  proof (cases k)
    case 0
    from t(4) inj(1) have "cell t (loc s d) = cell u (loc s d)" by blast
    also from u(3) have "\<dots> = ?b" by metis
    finally show ?thesis using 0 by simp
  next
    case (Suc j)
    with that have "j < n" by simp
    with t(3) have "cell t (loc s (d + 1 + of_nat j)) = cell u (loc s (a + 1 + of_nat j))" by blast
    moreover from u(3) na [OF that] have "cell u (loc s (a + of_nat k)) = cell s (loc s (a + of_nat k))" by metis
    ultimately show ?thesis using Suc by (simp add: add.assoc)
  qed
  moreover have "cell t l = cell s l" if "l \<notin> locs s d (Suc n)" for l
    using that t(4) u(3) unfolding split by (metis insert_iff)
  moreover have "cmemcpy d a (Suc n) s = Some t" using u(1) t(1) by (simp add: cload_1 [OF ma(1), simplified])
  ultimately show ?case using same_maps_trans [OF u(2) t(2)] by blast
qed simp

section \<open>The pages of descriptors\<close>

lemma cvpn_page:
  assumes "coff b = 0" "c < 4096"
  shows "cvpn (b + of_nat c) = cvpn b" "coff (b + of_nat c) = of_nat c"
proof -
  have w: "unat (of_nat c :: u64) = c" using assms(2) by simp
  have b: "unat b mod 4096 = 0" using assms(1) unat_mask_eq [of b 12]
    by (simp add: coff_def take_bit_eq_mask)
  have nw: "unat b + c < 2 ^ 64"
  proof -
    have "unat b div 4096 < 2 ^ 52" using unat64_less [of b] by (simp add: less_mult_imp_div_less)
    then have "unat b div 4096 * 4096 + c < 2 ^ 64" using assms(2) by simp
    moreover have "unat b div 4096 * 4096 = unat b" using b by (simp add: mod_eq_0_iff_dvd)
    ultimately show ?thesis by simp
  qed
  then have u: "unat (b + of_nat c) = unat b + c" using w by (simp add: unat_word_ariths)
  have "unat (cvpn (b + of_nat c)) = (unat b + c) div 4096"
    by (simp add: cvpn_def drop_bit_eq_div unat_div u)
  also have "\<dots> = unat b div 4096" using b assms(2) by (simp add: div_add1_eq)
  finally show "cvpn (b + of_nat c) = cvpn b" by (simp add: cvpn_def drop_bit_eq_div unat_div word_unat_eq_iff)
  have "unat (coff (b + of_nat c)) = (unat b + c) mod 4096"
    using unat_mask_eq [of "b + of_nat c" 12] by (simp add: coff_def take_bit_eq_mask u)
  also have "\<dots> = c" using b assms(2) by (metis add.left_neutral mod_add_left_eq mod_less)
  finally show "coff (b + of_nat c) = of_nat c" using w by (simp only: word_unat_eq_iff)
qed

lemma unat_INDEX2FD:
  assumes "0 \<le> i" "i < 32"
  shows "unat (INDEX2FD i) = 0x5FC00000 + 4096 * nat i" "coff (INDEX2FD i) = 0" "cvpn (INDEX2FD i) = of_nat (0x5FC00 + nat i)"
    "fd2num (INDEX2FD i) = i" "\<not> is_illegal_va (INDEX2FD i)"
proof -
  obtain j where j: "i = int j" "j < 32" using assms by (metis nat_int nat_less_as_int zero_le_imp_eq_int of_nat_less_iff of_nat_numeral)
  have w: "unat (of_nat j * 4096 :: u64) = 4096 * j"
    using j(2) by (simp add: unat_word_ariths unsigned_of_nat take_bit_nat_eq_self)
  then show u: "unat (INDEX2FD i) = 0x5FC00000 + 4096 * nat i"
    using j by (simp add: INDEX2FD_def FDTABLE_def FILEBASE_def PDMAP_def PTMAP_def unat_word_ariths)
  have "unat (coff (INDEX2FD i)) = 0"
    using unat_mask_eq [of "INDEX2FD i" 12] by (simp add: coff_def take_bit_eq_mask u)
  then show "coff (INDEX2FD i) = 0" by (simp add: unat_eq_0)
  have "unat (cvpn (INDEX2FD i)) = 0x5FC00 + nat i"
    by (simp add: cvpn_def drop_bit_eq_div unat_div u)
  moreover have "unat (of_nat (0x5FC00 + nat i) :: u64) = 0x5FC00 + nat i" using assms by (intro unat_of_nat64) simp
  ultimately show "cvpn (INDEX2FD i) = of_nat (0x5FC00 + nat i)" by (simp only: word_unat_eq_iff)
  have d: "INDEX2FD i - FDTABLE = of_nat j * 4096" by (simp add: INDEX2FD_def PTMAP_def j(1))
  have "unat (of_nat j * 4096 div 4096 :: u64) = j" by (simp add: unat_div w)
  then have e: "of_nat j * 4096 div 4096 = (of_nat j :: u64)" using j(2) by (simp add: word_unat_eq_iff unsigned_of_nat take_bit_nat_eq_self)
  have "fd2num (INDEX2FD i) = sint (ucast (of_nat j :: u64) :: u32)" by (simp only: fd2num_def PTMAP_def d e)
  also have "(ucast (of_nat j :: u64) :: u32) = of_nat j" using j(2) by (simp add: word_unat_eq_iff unsigned_ucast_eq unsigned_of_nat take_bit_nat_eq_self)
  also have "sint (of_nat j :: u32) = i" using j by (simp add: signed_of_nat signed_take_bit_int_eq_self)
  finally show "fd2num (INDEX2FD i) = i" .
  show "\<not> is_illegal_va (INDEX2FD i)"
    using u assms by (simp add: is_illegal_va_def word_less_nat_alt word_le_nat_alt layout)
qed

text \<open>A 32-bit field of a page.\<close>

lemma view_page:
  assumes "coff b = 0" "c < 4096" "cmapped s b"
  shows "view s (b + of_nat c) = cell s (fst (loc s b), of_nat c)"
  using assms cvpn_page [OF assms(1,2)] by (auto simp: cmapped_def view_def cell_def loc_def)

definition field :: "client \<Rightarrow> nat \<Rightarrow> nat \<Rightarrow> u32" where
  "field s p c = ucast (load_le 4 (\<lambda>o'. cell s (p, o')) (of_nat c))"

lemma load_le_shift:
  assumes "\<And>k. k < n \<Longrightarrow> m (a + of_nat k) = m' (a' + of_nat k)"
  shows "load_le n m a = load_le n m' a'"
  using assms
proof (induction n arbitrary: a a')
  case (Suc n)
  have "load_le n m (a + 1) = load_le n m' (a' + 1)"
    by (rule Suc.IH) (use Suc.prems [of "Suc _"] in \<open>simp add: add.assoc\<close>)
  with Suc.prems [of 0] show ?case by simp
qed simp

lemma field_cong: "(\<And>k. k < 4 \<Longrightarrow> cell t (p, of_nat (c + k)) = cell s (p, of_nat (c + k))) \<Longrightarrow> field t p c = field s p c"
  unfolding field_def by (rule arg_cong [where f = ucast], rule load_le_shift) simp

lemma cload32_field:
  assumes "coff b = 0" "c + 4 \<le> 4096" "cmapped s b"
  shows "cload32 s (b + of_nat c) = Some (field s (fst (loc s b)) c)"
proof -
  have "view s (b + of_nat c + of_nat k) = cell s (fst (loc s b), of_nat c + of_nat k)" if "k < 4" for k
    using view_page [OF assms(1) _ assms(3), of "c + k"] that assms(2) by (simp add: add.assoc)
  then have "load_le 4 (view s) (b + of_nat c) = load_le 4 (\<lambda>o'. cell s (fst (loc s b), o')) (of_nat c)"
    by (rule load_le_shift)
  moreover have "cmapped s (b + of_nat c)" using assms cvpn_page [OF assms(1), of c] by (simp add: cmapped_def)
  ultimately show ?thesis by (simp add: cload32_def cload_def field_def)
qed

lemma load_le_bytes: "load_le 4 (\<lambda>o'. byte_of (unat (o' - a)) v) a = take_bit 32 v"
proof -
  have "load_le 4 (\<lambda>o'. byte_of (unat (o' - a)) v) a = load_le 4 (store_le 4 (\<lambda>_. 0) a v) a"
    by (rule load_le_cong) (simp add: store_le_apply)
  then show ?thesis using load_le_store_le_same [of 4] by simp
qed

lemma ucast_back32: "ucast (ucast (v :: u32) :: u64) = v"
  by (rule bit_word_eqI) (simp add: bit_simps)

lemma take_bit_ucast32: "take_bit 32 (ucast (v :: u32) :: u64) = ucast v"
  by (rule bit_word_eqI) (auto simp: bit_simps dest: bit_imp_le_length)

lemma cstore32_field:
  assumes "coff b = 0" "c + 4 \<le> 4096" "cmapped s b"
  shows "\<exists>t. cstore32 (b + of_nat c) v s = Some t \<and> same_maps s t \<and> field t (fst (loc s b)) c = v
    \<and> (\<forall>p o'. p \<noteq> fst (loc s b) \<or> unat o' < c \<or> c + 4 \<le> unat o' \<longrightarrow> cell t (p, o') = cell s (p, o'))"
proof -
  let ?a = "b + of_nat c" and ?p = "fst (loc s b)"
  have a: "coff ?a = of_nat c" "fst (loc s ?a) = ?p" "cmapped s ?a"
    using cvpn_page [OF assms(1), of c] assms(2,3) by (simp_all add: loc_def cmapped_def)
  from cstore_cells [OF a(3), of 4 "ucast v"] obtain t where
    t: "cstore 4 ?a (ucast v) s = Some t" "same_maps s t"
      "\<forall>p o'. cell t (p, o') = (if p = ?p \<and> unat (o' - of_nat c) < 4 then byte_of (unat (o' - of_nat c)) (ucast v) else cell s (p, o'))"
    by (auto simp: a)
  have "load_le 4 (\<lambda>o'. cell t (?p, o')) (of_nat c) = load_le 4 (\<lambda>o'. byte_of (unat (o' - of_nat c)) (ucast v)) (of_nat c)"
    by (rule load_le_shift) (use t(3) in simp)
  also have "\<dots> = ucast v" by (simp only: load_le_bytes take_bit_ucast32)
  finally have "field t ?p c = v" by (simp add: field_def ucast_back32)
  moreover have "cell t (p, o') = cell s (p, o')" if "p \<noteq> ?p \<or> unat o' < c \<or> c + 4 \<le> unat o'" for p o'
  proof (cases "p = ?p")
    case True
    have "\<not> unat (o' - of_nat c) < 4"
    proof
      assume l: "unat (o' - of_nat c) < 4"
      have "unat (of_nat c + (o' - of_nat c)) = unat (of_nat c :: u64) + unat (o' - of_nat c)"
        by (rule unat_add_lem [THEN iffD1]) (use l assms(2) in simp)
      then have "unat o' = c + unat (o' - of_nat c)" using assms(2) by simp
      with that True l show False by linarith
    qed
    with t(3) show ?thesis by simp
  qed (use t(3) in simp)
  ultimately show ?thesis using t(1,2) unfolding cstore32_def by blast
qed

section \<open>An open file\<close>

text \<open>Descriptor \<open>i\<close> is a file open for reading and writing, at offset \<open>off\<close>, of size \<open>sz\<close>.\<close>

definition file_fd :: "client \<Rightarrow> int \<Rightarrow> u32 \<Rightarrow> u32 \<Rightarrow> bool" where
  "file_fd s i off sz \<longleftrightarrow> 0 \<le> i \<and> i < 32 \<and> cmapped s (INDEX2FD i)
     \<and> (let p = fst (loc s (INDEX2FD i)) in
        field s p 0 = DEVFILE \<and> field s p 4 = off \<and> field s p 8 AND O_ACCMODE = O_RDWR \<and> field s p 144 = sz)"

lemma file_fd_loads:
  assumes "file_fd s i off sz"
  shows "fd_lookup i s = Inr (INDEX2FD i)" "cload32 s (fd_dev_id (INDEX2FD i)) = Some DEVFILE"
    "cload32 s (fd_offset (INDEX2FD i)) = Some off" "cload32 s (ffd_size (INDEX2FD i)) = Some sz"
    "\<exists>m. cload32 s (fd_omode (INDEX2FD i)) = Some m \<and> m AND O_ACCMODE = O_RDWR"
proof -
  from assms have i: "0 \<le> i" "i < 32" "cmapped s (INDEX2FD i)" by (simp_all add: file_fd_def)
  then show "fd_lookup i s = Inr (INDEX2FD i)" by (simp add: fd_lookup_def MAXFD_def)
  note l = cload32_field [OF unat_INDEX2FD(2) [OF i(1,2)] _ i(3)]
  from l [of 0] l [of 4] l [of 8] l [of 144] assms
  show "cload32 s (fd_dev_id (INDEX2FD i)) = Some DEVFILE" "cload32 s (fd_offset (INDEX2FD i)) = Some off"
    "cload32 s (ffd_size (INDEX2FD i)) = Some sz"
    "\<exists>m. cload32 s (fd_omode (INDEX2FD i)) = Some m \<and> m AND O_ACCMODE = O_RDWR"
    by (simp_all add: file_fd_def Let_def fd_dev_id_def fd_offset_def ffd_size_def fd_omode_def)
qed

lemma file_fd_cong:
  assumes "file_fd s i off sz" "same_maps s t" "\<And>l. fst l = fst (loc s (INDEX2FD i)) \<Longrightarrow> cell t l = cell s l"
  shows "file_fd t i off sz"
proof -
  have "field t (fst (loc s (INDEX2FD i))) c = field s (fst (loc s (INDEX2FD i))) c" for c
    by (rule field_cong) (simp add: assms(3))
  with assms(1) same_mapsD [OF assms(2)] show ?thesis by (simp add: file_fd_def)
qed

lemma file_fd_seek:
  assumes "file_fd s i off sz"
  shows "\<exists>t. cstore32 (fd_offset (INDEX2FD i)) v s = Some t \<and> same_maps s t \<and> file_fd t i v sz
    \<and> (\<forall>l. fst l \<noteq> fst (loc s (INDEX2FD i)) \<longrightarrow> cell t l = cell s l)"
proof -
  let ?p = "fst (loc s (INDEX2FD i))"
  from assms have i: "0 \<le> i" "i < 32" "cmapped s (INDEX2FD i)" by (simp_all add: file_fd_def)
  from cstore32_field [OF unat_INDEX2FD(2) [OF i(1,2)] _ i(3), of 4 v] obtain t where
    t: "cstore32 (INDEX2FD i + of_nat 4) v s = Some t" "same_maps s t" "field t ?p 4 = v"
      "\<forall>p o'. p \<noteq> ?p \<or> unat o' < 4 \<or> 8 \<le> unat o' \<longrightarrow> cell t (p, o') = cell s (p, o')" by auto
  have "field t ?p c = field s ?p c" if "c = 0 \<or> 8 \<le> c" "c < 4000" for c
  proof (rule field_cong)
    fix k :: nat
    assume "k < 4"
    with that have "unat (of_nat (c + k) :: u64) < 4 \<or> 8 \<le> unat (of_nat (c + k) :: u64)" by (subst (1 2) unat_of_nat64) auto
    with t(4) show "cell t (?p, of_nat (c + k)) = cell s (?p, of_nat (c + k))" by blast
  qed
  from this [of 0] this [of 8] this [of 144] assms same_mapsD [OF t(2)] t(3) have "file_fd t i v sz"
    by (simp add: file_fd_def Let_def)
  moreover have "cell t l = cell s l" if "fst l \<noteq> ?p" for l using t(4) that by (cases l) simp
  ultimately show ?thesis using t(1,2) by (auto simp: fd_offset_def)
qed

end
