(* ===== verification/FdProps.thy ===== *)
theory FdProps
  imports FdMem
begin

text \<open>
  Properties of the user library's files and descriptors: what is written to a file can be read
  back, a failed \<^verbatim>\<open>pipe\<close> leaves no mapping behind, a descriptor made by \<^verbatim>\<open>dup\<close> shares the
  pages of the old one, and where the checks of \<^verbatim>\<open>file_read\<close> and \<^verbatim>\<open>ftruncate\<close> fall short.
\<close>

section \<open>Reading and writing an open file\<close>

text \<open>The bytes of descriptor \<open>i\<close> at an offset, and a buffer apart from the page of the descriptor.\<close>

definition file_data :: "int \<Rightarrow> u32 \<Rightarrow> u64" where "file_data i off = fd2data (INDEX2FD i) + ucast off"

definition buffer :: "client \<Rightarrow> int \<Rightarrow> u64 \<Rightarrow> nat \<Rightarrow> bool" where
  "buffer s i a n \<longleftrightarrow> (\<forall>k \<in> set [0..<n]. cmapped s (a + of_nat k))
     \<and> distinct (map (\<lambda>k. loc s (a + of_nat k)) [0..<n])
     \<and> (\<forall>k \<in> set [0..<n]. fst (loc s (a + of_nat k)) \<noteq> fst (loc s (INDEX2FD i)))"

definition apart_buf :: "client \<Rightarrow> u64 \<Rightarrow> u64 \<Rightarrow> nat \<Rightarrow> bool" where
  "apart_buf s a b n \<longleftrightarrow>
     set (map (\<lambda>k. loc s (a + of_nat k)) [0..<n]) \<inter> set (map (\<lambda>k. loc s (b + of_nat k)) [0..<n]) = {}"

lemma bufferD:
  assumes "buffer s i a n"
  shows "k < n \<Longrightarrow> cmapped s (a + of_nat k)" "inj_on (\<lambda>k. loc s (a + of_nat k)) {..<n}"
    "l \<in> locs s a n \<Longrightarrow> fst l \<noteq> fst (loc s (INDEX2FD i))"
proof -
  have "inj_on (\<lambda>k. loc s (a + of_nat k)) (set [0..<n])" using assms by (simp add: buffer_def distinct_map)
  also have "set [0..<n] = {..<n}" by auto
  finally show "inj_on (\<lambda>k. loc s (a + of_nat k)) {..<n}" .
qed (use assms in \<open>auto simp: buffer_def locs_def\<close>)

lemma apart_locs: "apart_buf s a b n \<longleftrightarrow> locs s a n \<inter> locs s b n = {}"
  by (simp add: apart_buf_def locs_def atLeast0LessThan image_image)




lemma view_outside:
  assumes "same_maps s t" "\<forall>l. l \<notin> locs s d n \<longrightarrow> cell t l = cell s l" "apart_buf s a d n" "buffer s i a n" "k < n"
  shows "view t (a + of_nat k) = view s (a + of_nat k)"
proof -
  have "loc s (a + of_nat k) \<notin> locs s d n" using assms(3,5) by (auto simp: apart_locs locs_def)
  with assms(2) have "cell t (loc s (a + of_nat k)) = cell s (loc s (a + of_nat k))" by blast
  with bufferD(1) [OF assms(4,5)] show ?thesis by (simp add: view_cell same_mapsD [OF assms(1)])
qed








text \<open>A client whose descriptor 0 is a file of 100 bytes at offset 1, with its data in page 2 and buffers in page 3.\<close>

definition client_ex :: client where
  "client_ex =
     \<lparr>cpt = (\<lambda>v. if v = 0x5FC00 then Some 1 else if v = 0x60000 then Some 2 else if v = 0x400 then Some 3 else None),
      cphys = (\<lambda>p o'. if p = 1 \<and> o' = 0 then 102 else if p = 1 \<and> o' = 4 then 1 else if p = 1 \<and> o' = 8 then 2 else if p = 1 \<and> o' = 144 then 100
                       else if p = 3 \<and> o' = 0 then 7 else if p = 3 \<and> o' = 1 then 9 else 0),
      cfresh = 4, cgrants = [], answers = [], requests = [], keys = [], console = []\<rparr>"


section \<open>Creating a pipe\<close>

text \<open>Page \<open>k\<close> of the data of descriptor \<open>i\<close>.\<close>

definition data_page :: "int \<Rightarrow> nat \<Rightarrow> u64" where "data_page i k = INDEX2DATA i + of_nat k * PTMAP"

lemma unat_data_page:
  assumes "0 \<le> i" "i < 32" "k < 1024"
  shows "cvpn (data_page i k) = of_nat (0x60000 + 1024 * nat i + k)" "\<not> is_illegal_va (data_page i k)"
proof -
  obtain j where j: "i = int j" "j < 32" using assms by (metis nat_int nat_less_as_int zero_le_imp_eq_int of_nat_less_iff of_nat_numeral)
  have w: "unat (of_nat j * 0x400000 :: u64) = 0x400000 * j" "unat (of_nat k * 4096 :: u64) = 4096 * k"
    using j(2) assms(3) by (simp_all add: unat_word_ariths unsigned_of_nat take_bit_nat_eq_self)
  then have u: "unat (data_page i k) = 0x60000000 + 0x400000 * nat i + 4096 * k"
    using j assms(3) by (simp add: data_page_def INDEX2DATA_def FILEBASE_def PDMAP_def PTMAP_def unat_word_ariths)
  then have "unat (cvpn (data_page i k)) = 0x60000 + 1024 * nat i + k"
    by (simp add: cvpn_def drop_bit_eq_div unat_div)
  moreover have "unat (of_nat (0x60000 + 1024 * nat i + k) :: u64) = 0x60000 + 1024 * nat i + k"
    using assms by (intro unat_of_nat64) simp
  ultimately show "cvpn (data_page i k) = of_nat (0x60000 + 1024 * nat i + k)" by (simp only: word_unat_eq_iff)
  show "\<not> is_illegal_va (data_page i k)"
    using u assms by (simp add: is_illegal_va_def word_less_nat_alt word_le_nat_alt layout)
qed

lemma data_vpn_eq:
  assumes "0 \<le> i" "i < 32" "0 \<le> j" "j < 32" "k < 1024" "l < 1024"
  shows "cvpn (data_page i k) = cvpn (data_page j l) \<longleftrightarrow> i = j \<and> k = l"
    "cvpn (data_page i k) \<noteq> cvpn (INDEX2FD j)" "cvpn (INDEX2FD j) \<noteq> cvpn (data_page i k)"
proof -
  have w: "of_nat a = (of_nat b :: u64) \<longleftrightarrow> a = b" if "a < 0x100000" "b < 0x100000" for a b
    using that unat_of_nat64 [of a] unat_of_nat64 [of b] by (auto dest: arg_cong [where f = unat])
  have "nat i = nat j" if "1024 * nat i + k = 1024 * nat j + l"
    using arg_cong [where f = "\<lambda>x. x div 1024", OF that] assms(5,6) by simp
  then have "0x60000 + 1024 * nat i + k = 0x60000 + 1024 * nat j + l \<longleftrightarrow> i = j \<and> k = l" using assms(1,3) by auto
  with w [of "0x60000 + 1024 * nat i + k" "0x60000 + 1024 * nat j + l"] assms
  show "cvpn (data_page i k) = cvpn (data_page j l) \<longleftrightarrow> i = j \<and> k = l" by (simp add: unat_data_page)
  have "0x60000 + 1024 * nat i + k \<noteq> 0x5FC00 + nat j" using assms by linarith
  with w [of "0x60000 + 1024 * nat i + k" "0x5FC00 + nat j"] assms
  show "cvpn (data_page i k) \<noteq> cvpn (INDEX2FD j)" by (simp add: unat_data_page unat_INDEX2FD(3))
  then show "cvpn (INDEX2FD j) \<noteq> cvpn (data_page i k)" by simp
qed

lemma vpn_outside:
  assumes "0 \<le> i" "i < 32" "0 \<le> j" "j < 32" "A \<subseteq> {..<1024}"
  shows "cvpn (INDEX2FD j) \<notin> (\<lambda>l. cvpn (data_page i l)) ` A"
    "k < 1024 \<Longrightarrow> k \<notin> A \<Longrightarrow> cvpn (data_page i k) \<notin> (\<lambda>l. cvpn (data_page i l)) ` A"
proof -
  show "cvpn (INDEX2FD j) \<notin> (\<lambda>l. cvpn (data_page i l)) ` A"
  proof
    assume "cvpn (INDEX2FD j) \<in> (\<lambda>l. cvpn (data_page i l)) ` A"
    then obtain l where "l \<in> A" "cvpn (INDEX2FD j) = cvpn (data_page i l)" by blast
    with data_vpn_eq(3) [OF assms(1-4), of l 0] assms(5) show False by auto
  qed
  assume k: "k < 1024" "k \<notin> A"
  show "cvpn (data_page i k) \<notin> (\<lambda>l. cvpn (data_page i l)) ` A"
  proof
    assume "cvpn (data_page i k) \<in> (\<lambda>l. cvpn (data_page i l)) ` A"
    then obtain l where "l \<in> A" "cvpn (data_page i k) = cvpn (data_page i l)" by blast
    with data_vpn_eq(1) [OF assms(1,2,1,2), of k l] assms(5) k show False by auto
  qed
qed

lemma unat_INDEX2DATA:
  assumes "0 \<le> i" "i < 32"
  shows "cvpn (INDEX2DATA i) = of_nat (0x60000 + 1024 * nat i)" "\<not> is_illegal_va (INDEX2DATA i)"
  using unat_data_page [of i 0] assms by (simp_all add: data_page_def)

lemma fd_scan_result:
  "fd_scan is s = Inl r \<Longrightarrow> r = - E_MAX_OPEN"
  "fd_scan is s = Inr fd \<Longrightarrow> \<exists>i \<in> set is. fd = INDEX2FD (int i) \<and> \<not> cmapped s fd"
  by (induction "is") (auto split: if_splits)

lemma cgrant_maps: "cgrant s = (ok, t) \<Longrightarrow> cpt t = cpt s \<and> cphys t = cphys s \<and> cfresh t = cfresh s"
  by (auto simp: cgrant_def split: list.splits)

lemma sys_mem_alloc0_result:
  assumes "sys_mem_alloc0 va s = (r, t)"
  shows "r < 0 \<and> cpt t = cpt s \<or> r = 0 \<and> cpt t = (cpt s)(cvpn va \<mapsto> cfresh s) \<and> cfresh t = Suc (cfresh s)"
  using assms by (auto simp: sys_mem_alloc0_def E_INVAL_def E_NO_MEM_def dest: cgrant_maps split: if_splits prod.splits)

lemma sys_mem_map0_result:
  assumes "sys_mem_map0 a b s = (r, t)"
  shows "r < 0 \<and> cpt t = cpt s \<or> r = 0 \<and> cpt t = (cpt s)(cvpn b := cpt s (cvpn a)) \<and> cpt s (cvpn a) \<noteq> None"
  using assms by (auto simp: sys_mem_map0_def E_INVAL_def E_NO_MEM_def dest: cgrant_maps split: if_splits prod.splits option.splits)

lemma sys_mem_unmap0_legal: "\<not> is_illegal_va va \<Longrightarrow> cpt (snd (sys_mem_unmap0 va s)) = (cpt s)(cvpn va := None)"
  by (simp add: sys_mem_unmap0_def)

lemma alloc_fd_page_result:
  "alloc_fd_page s = (Inl r, t) \<Longrightarrow> r < 0 \<and> cpt t = cpt s"
  "alloc_fd_page s = (Inr fd, t) \<Longrightarrow>
     \<exists>i < 31. fd = INDEX2FD (int i) \<and> cpt s (cvpn fd) = None \<and> cpt t = (cpt s)(cvpn fd \<mapsto> cfresh s) \<and> cfresh t = Suc (cfresh s)"
  by (auto simp: alloc_fd_page_def fd_alloc_def MAXFD_def cmapped_def E_MAX_OPEN_def
      split: sum.splits prod.splits if_splits dest!: fd_scan_result sys_mem_alloc0_result)

text \<open>Two stores fill in a new descriptor; the pages of others stay.\<close>

lemma set_fd:
  assumes "coff fd = 0" "cmapped s fd"
  shows "\<exists>u t. cstore32 (fd_dev_id fd) d s = Some u \<and> cstore32 (fd_omode fd) m u = Some t \<and> same_maps s t
    \<and> field t (fst (loc s fd)) 0 = d \<and> field t (fst (loc s fd)) 8 = m
    \<and> (\<forall>p c. p \<noteq> fst (loc s fd) \<longrightarrow> field t p c = field s p c)"
proof -
  let ?p = "fst (loc s fd)"
  from cstore32_field [OF assms(1) _ assms(2), of 0 d] obtain u where
    u: "cstore32 fd d s = Some u" "same_maps s u" "field u ?p 0 = d"
      "\<And>p o'. p \<noteq> ?p \<Longrightarrow> cell u (p, o') = cell s (p, o')" by auto
  note mu = same_mapsD [OF u(2)]
  from cstore32_field [OF assms(1), of 8 u m] assms(2) obtain t where
    t: "cstore32 (fd + 8) m u = Some t" "same_maps u t" "field t ?p 8 = m"
      "\<And>p o'. p \<noteq> ?p \<or> unat o' < 8 \<Longrightarrow> cell t (p, o') = cell u (p, o')" by (auto simp: mu)
  have "field t ?p 0 = field u ?p 0"
    by (rule field_cong, rule t(4), rule disjI2) (simp add: unsigned_of_nat take_bit_nat_eq_self)
  moreover have "field t p c = field s p c" if "p \<noteq> ?p" for p c
    by (rule field_cong) (use that u(4) t(4) in simp)
  ultimately show ?thesis using u(1,3) t(1,3) same_maps_trans [OF u(2) t(2)]
    by (auto simp: fd_dev_id_def fd_omode_def)
qed

definition pipe_end :: "client \<Rightarrow> int \<Rightarrow> u32 \<Rightarrow> bool" where
  "pipe_end s i m \<longleftrightarrow> 0 \<le> i \<and> i < 31 \<and> cmapped s (INDEX2FD i)
     \<and> (let p = fst (loc s (INDEX2FD i)) in field s p 0 = DEVPIPE \<and> field s p 8 = m)"

text \<open>The descriptors' pages and the first data pages are all different.\<close>

lemma vpn_eq:
  assumes "i < 32" "j < 32"
  shows "cvpn (INDEX2FD (int i)) = cvpn (INDEX2FD (int j)) \<longleftrightarrow> i = j"
    "cvpn (INDEX2DATA (int i)) = cvpn (INDEX2DATA (int j)) \<longleftrightarrow> i = j"
    "cvpn (INDEX2DATA (int i)) \<noteq> cvpn (INDEX2FD (int j))" "cvpn (INDEX2FD (int j)) \<noteq> cvpn (INDEX2DATA (int i))"
  using assms data_vpn_eq [of "int i" "int j" 0 0] unat_INDEX2FD(3) [of "int i"] unat_INDEX2FD(3) [of "int j"]
    unat_of_nat64 [of "0x5FC00 + i"] unat_of_nat64 [of "0x5FC00 + j"]
  by (auto simp: data_page_def dest: arg_cong [where f = unat])

text \<open>What \<^verbatim>\<open>pipe\<close> delivers: two new descriptors, with one shared page of data.\<close>

definition new_pipe :: "client \<Rightarrow> client \<Rightarrow> int \<Rightarrow> int \<Rightarrow> bool" where
  "new_pipe s s' a b \<longleftrightarrow> a \<noteq> b \<and> pipe_end s' a O_RDONLY \<and> pipe_end s' b O_WRONLY
     \<and> \<not> cmapped s (INDEX2FD a) \<and> \<not> cmapped s (INDEX2FD b)
     \<and> cmapped s' (INDEX2DATA a) \<and> cpt s' (cvpn (INDEX2DATA a)) = cpt s' (cvpn (INDEX2DATA b))
     \<and> (\<forall>v. v \<notin> cvpn ` {INDEX2FD a, INDEX2FD b, INDEX2DATA a, INDEX2DATA b} \<longrightarrow> cpt s' v = cpt s v)"

lemma pipe_finish:
  assumes i: "i < 31" "j < 31" "i \<noteq> j"
    and s: "cpt s (cvpn (INDEX2FD (int i))) = None" "cpt s (cvpn (INDEX2FD (int j))) = None"
    and u: "cpt u = (cpt s)(cvpn (INDEX2FD (int i)) \<mapsto> p, cvpn (INDEX2FD (int j)) \<mapsto> Suc p,
      cvpn (INDEX2DATA (int i)) \<mapsto> q, cvpn (INDEX2DATA (int j)) \<mapsto> q)"
  shows "\<exists>s'. (do { u \<leftarrow> cstore32 (fd_dev_id (INDEX2FD (int i))) DEVPIPE u; u \<leftarrow> cstore32 (fd_omode (INDEX2FD (int i))) O_RDONLY u;
      u \<leftarrow> cstore32 (fd_dev_id (INDEX2FD (int j))) DEVPIPE u; u \<leftarrow> cstore32 (fd_omode (INDEX2FD (int j))) O_WRONLY u;
      Some (Inr (int i, int j), u) }) = Some (Inr (int i, int j) :: int + int \<times> int, s') \<and> new_pipe s s' (int i) (int j)"
proof -
  note v = vpn_eq [of i j] vpn_eq [of j i] vpn_eq [of i i] vpn_eq [of j j]
  have c: "coff (INDEX2FD (int i)) = 0" "coff (INDEX2FD (int j)) = 0" using i unat_INDEX2FD(2) by simp_all
  have m: "cmapped u (INDEX2FD (int i))" "cmapped u (INDEX2FD (int j))"
    "fst (loc u (INDEX2FD (int i))) = p" "fst (loc u (INDEX2FD (int j))) = Suc p"
    using i v by (auto simp: cmapped_def loc_def u)
  from set_fd [OF c(1) m(1), of DEVPIPE O_RDONLY] obtain u1 u2 where
    u2: "cstore32 (fd_dev_id (INDEX2FD (int i))) DEVPIPE u = Some u1" "cstore32 (fd_omode (INDEX2FD (int i))) O_RDONLY u1 = Some u2"
      "same_maps u u2" "field u2 p 0 = DEVPIPE" "field u2 p 8 = O_RDONLY" unfolding m by blast
  note m2 = same_mapsD [OF u2(3)]
  from set_fd [OF c(2), of u2 DEVPIPE O_WRONLY] m(2) obtain u3 s' where
    s': "cstore32 (fd_dev_id (INDEX2FD (int j))) DEVPIPE u2 = Some u3" "cstore32 (fd_omode (INDEX2FD (int j))) O_WRONLY u3 = Some s'"
      "same_maps u2 s'" "field s' (Suc p) 0 = DEVPIPE" "field s' (Suc p) 8 = O_WRONLY"
      "\<And>q c. q \<noteq> Suc p \<Longrightarrow> field s' q c = field u2 q c" unfolding m2 m by blast
  note m3 = same_mapsD [OF same_maps_trans [OF u2(3) s'(3)]]
  have "pipe_end s' (int i) O_RDONLY" "pipe_end s' (int j) O_WRONLY"
    using i u2(4,5) s'(4,5,6) m by (simp_all add: pipe_end_def m3)
  moreover have "cmapped s' (INDEX2DATA (int i))" "cpt s' (cvpn (INDEX2DATA (int i))) = cpt s' (cvpn (INDEX2DATA (int j)))"
    using i v by (simp_all add: m3 cmapped_def u)
  ultimately have "new_pipe s s' (int i) (int j)"
    using i(3) s by (simp add: new_pipe_def m3 u cmapped_def)
  with u2 s' show ?thesis by simp
qed

definition pipe_outcome :: "client \<Rightarrow> ((int + int \<times> int) \<times> client) option \<Rightarrow> bool" where
  "pipe_outcome s x \<longleftrightarrow>
     (case x of None \<Rightarrow> False | Some (Inl e, s') \<Rightarrow> e < 0 \<and> cpt s' = cpt s | Some (Inr (a, b), s') \<Rightarrow> new_pipe s s' a b)"

lemma pipe_both:
  assumes a: "alloc_fd_page s = (Inr (INDEX2FD (int i)), s1)" "alloc_fd_page s1 = (Inr (INDEX2FD (int j)), s2)"
    and i: "i < 31" "cpt s (cvpn (INDEX2FD (int i))) = None" "cpt s1 = (cpt s)(cvpn (INDEX2FD (int i)) \<mapsto> p)"
    and j: "j < 31" "cpt s1 (cvpn (INDEX2FD (int j))) = None" "cpt s2 = (cpt s1)(cvpn (INDEX2FD (int j)) \<mapsto> Suc p)"
    and d: "cpt s (cvpn (INDEX2DATA (int i))) = None"
  shows "pipe_outcome s (pipe s)"
proof -
  have l: "\<not> is_illegal_va (INDEX2FD (int i))" "\<not> is_illegal_va (INDEX2FD (int j))" "\<not> is_illegal_va (INDEX2DATA (int i))"
    "fd2data (INDEX2FD (int i)) = INDEX2DATA (int i)" "fd2num (INDEX2FD (int i)) = int i"
    "fd2data (INDEX2FD (int j)) = INDEX2DATA (int j)" "fd2num (INDEX2FD (int j)) = int j"
    using i(1) j(1) by (simp_all add: unat_INDEX2FD unat_INDEX2DATA fd2data_def)
  have ij: "i \<noteq> j" using i j by auto
  note v = vpn_eq [of i j] vpn_eq [of j i] vpn_eq [of i i] vpn_eq [of j j]
  have nd: "cpt s (cvpn (INDEX2FD (int j))) = None" using i j ij v by (auto split: if_splits)
  obtain r3 s3 where a3: "sys_mem_alloc0 (INDEX2DATA (int i)) s2 = (r3, s3)" by fastforce
  obtain r4 s4 where a4: "sys_mem_map0 (INDEX2DATA (int i)) (INDEX2DATA (int j)) s3 = (r4, s4)" by fastforce
  note facts = a i j l a3 nd d v ij
  consider "r3 < 0" "cpt s3 = cpt s2" | "r3 = 0" "cpt s3 = (cpt s2)(cvpn (INDEX2DATA (int i)) \<mapsto> cfresh s2)" "r4 < 0" "cpt s4 = cpt s3"
    | "r3 = 0" "r4 = 0" "cpt s4 = (cpt s2)(cvpn (INDEX2DATA (int i)) \<mapsto> cfresh s2, cvpn (INDEX2DATA (int j)) \<mapsto> cfresh s2)"
    using sys_mem_alloc0_result [OF a3] sys_mem_map0_result [OF a4] by fastforce
  then show ?thesis
  proof cases
    case 1
    then show ?thesis using facts
      by (simp add: pipe_outcome_def pipe_def sys_mem_unmap0_legal fun_upd_idem fun_upd_twist)
  next
    case 2
    then show ?thesis using facts a4
      by (simp add: pipe_outcome_def pipe_def sys_mem_unmap0_legal fun_upd_idem fun_upd_twist)
  next
    case 3
    have "cpt s4 = (cpt s)(cvpn (INDEX2FD (int i)) \<mapsto> p, cvpn (INDEX2FD (int j)) \<mapsto> Suc p,
      cvpn (INDEX2DATA (int i)) \<mapsto> cfresh s2, cvpn (INDEX2DATA (int j)) \<mapsto> cfresh s2)" using 3 i j by simp
    from pipe_finish [OF i(1) j(1) ij i(2) nd this] obtain s' where
      s': "pipe s = Some (Inr (int i, int j), s')" "new_pipe s s' (int i) (int j)"
      using 3 a l a3 a4 by (auto simp: pipe_def)
    then show ?thesis by (simp add: pipe_outcome_def)
  qed
qed

text \<open>C28: \<^verbatim>\<open>pipe\<close> always returns.  Either it fails with an error code and every virtual page is
  mapped as before, or it delivers two descriptors that were free, one to read and one to write,
  whose data areas share one page, and maps nothing else.  The data area of a free descriptor
  is unmapped before.
\<close>

theorem pipe_all_or_nothing:
  assumes "\<forall>i < 32. \<not> cmapped s (INDEX2FD (int i)) \<longrightarrow> \<not> cmapped s (INDEX2DATA (int i))"
  shows "\<exists>r s'. pipe s = Some (r, s') \<and>
    (case r of Inl e \<Rightarrow> e < 0 \<and> cpt s' = cpt s | Inr (a, b) \<Rightarrow> new_pipe s s' a b)"
proof -
  have "pipe_outcome s (pipe s)"
  proof (cases "alloc_fd_page s")
    case (Pair x s1)
    show ?thesis
    proof (cases x)
      case (Inl r)
      with Pair alloc_fd_page_result(1) [of s r s1] show ?thesis by (simp add: pipe_outcome_def pipe_def)
    next
      case x: (Inr fd0)
      with Pair alloc_fd_page_result(2) [of s fd0 s1] obtain i where
        i: "i < 31" "fd0 = INDEX2FD (int i)" "cpt s (cvpn fd0) = None" "cpt s1 = (cpt s)(cvpn fd0 \<mapsto> cfresh s)"
          "cfresh s1 = Suc (cfresh s)" by auto
      have d: "cpt s (cvpn (INDEX2DATA (int i))) = None" using assms i by (simp add: cmapped_def)
      show ?thesis
      proof (cases "alloc_fd_page s1")
        case P1: (Pair y s2)
        show ?thesis
        proof (cases y)
          case (Inl r)
          with P1 alloc_fd_page_result(1) [of s1 r s2] show ?thesis using i Pair x
            by (simp add: pipe_outcome_def pipe_def sys_mem_unmap0_legal unat_INDEX2FD fun_upd_idem)
        next
          case (Inr fd1)
          with P1 alloc_fd_page_result(2) [of s1 fd1 s2] i(5) obtain j where
            "j < 31" "fd1 = INDEX2FD (int j)" "cpt s1 (cvpn fd1) = None" "cpt s2 = (cpt s1)(cvpn fd1 \<mapsto> Suc (cfresh s))" by auto
          with pipe_both [of s i s1 j s2 "cfresh s"] i d Pair x P1 Inr show ?thesis by simp
        qed
      qed
    qed
  qed
  then obtain r s' where "pipe s = Some (r, s')" "pipe_outcome s (Some (r, s'))"
    by (cases "pipe s") (auto simp: pipe_outcome_def)
  then show ?thesis by (cases r) (auto simp: pipe_outcome_def)
qed

theorem pipe_all_or_nothing_witness:
  "\<exists>r s'. pipe (client_ex\<lparr>cgrants := [True, True, True, False]\<rparr>) = Some (r, s') \<and>
    (case r of Inl e \<Rightarrow> e < 0 \<and> cpt s' = cpt (client_ex\<lparr>cgrants := [True, True, True, False]\<rparr>)
     | Inr (a, b) \<Rightarrow> new_pipe (client_ex\<lparr>cgrants := [True, True, True, False]\<rparr>) s' a b)"
proof -
  have "\<not> cmapped (client_ex\<lparr>cgrants := [True, True, True, False]\<rparr>) (INDEX2DATA (int i))" if "i < 32" "i \<noteq> 0" for i
  proof -
    have "unat (cvpn (INDEX2DATA (int i))) = 0x60000 + 1024 * i" using that(1) unat_INDEX2DATA(1) [of "int i"] unat_of_nat64 [of "0x60000 + 1024 * i"] by simp
    with that(2) show ?thesis by (auto simp: cmapped_def client_ex_def)
  qed
  moreover have "cmapped (client_ex\<lparr>cgrants := [True, True, True, False]\<rparr>) (INDEX2FD (int 0))" by code_simp
  ultimately have "\<forall>i < 32. \<not> cmapped (client_ex\<lparr>cgrants := [True, True, True, False]\<rparr>) (INDEX2FD (int i))
    \<longrightarrow> \<not> cmapped (client_ex\<lparr>cgrants := [True, True, True, False]\<rparr>) (INDEX2DATA (int i))" by metis
  from pipe_all_or_nothing [OF this] show ?thesis .
qed

section \<open>Sharing a descriptor\<close>

text \<open>The pages of descriptor \<open>j\<close>: its own and its data.\<close>

definition fd_pages :: "int \<Rightarrow> u64 set" where
  "fd_pages j = insert (cvpn (INDEX2FD j)) ((\<lambda>k. cvpn (data_page j k)) ` {..<1024})"






section \<open>Opening a file\<close>

lemma open_map_result:
  assumes i: "0 \<le> i" "i < 32" and w: "perm AND NOT (ucast (PTE_RW OR PTE_USER OR PTE_LIBRARY)) = ucast PTE_V"
    and "answers s = map (\<lambda>q. (0, Some (q, perm))) qs @ rest" "k + length qs \<le> 1024"
  shows "\<exists>t. open_map [k..<k + length qs] fileid (INDEX2DATA i) s = Some (0, t) \<and> answers t = rest
    \<and> requests t = requests s @ map (\<lambda>k. Rq_map fileid (of_nat (k * 4096))) [k..<k + length qs] \<and> cphys t = cphys s
    \<and> (\<forall>j < length qs. cpt t (cvpn (data_page i (k + j))) = Some (qs ! j))
    \<and> (\<forall>v. v \<notin> (\<lambda>j. cvpn (data_page i j)) ` {k..<k + length qs} \<longrightarrow> cpt t v = cpt s v)"
  using assms(4,5)
proof (induction qs arbitrary: s k)
  case (Cons q qs)
  let ?s = "s\<lparr>requests := requests s @ [Rq_map fileid (of_nat (k * 4096))], answers := map (\<lambda>q. (0, Some (q, perm))) qs @ rest,
    cpt := (cpt s)(cvpn (data_page i k) \<mapsto> q)\<rparr>"
  have k: "k < 1024" using Cons.prems by simp
  have va: "INDEX2DATA i + of_nat (k * 4096) = data_page i k" by (simp add: data_page_def PTMAP_def)
  have "1024 * nat i + k < 0x10000" using i k by linarith
  then have "data_page i k \<noteq> 0" using unat_data_page(1) [OF i k] unat_of_nat64 [of "0x60000 + 1024 * nat i + k"]
    by (auto simp: cvpn_def)
  then have f: "fsipc_map fileid (of_nat (k * 4096)) (INDEX2DATA i + of_nat (k * 4096)) s = Some (0, ?s)"
    unfolding va using Cons.prems(1) w by (simp add: fsipc_map_def fsipc_def Let_def)
  have "\<exists>t. open_map [Suc k..<Suc k + length qs] fileid (INDEX2DATA i) ?s = Some (0, t) \<and> answers t = rest
    \<and> requests t = requests ?s @ map (\<lambda>k. Rq_map fileid (of_nat (k * 4096))) [Suc k..<Suc k + length qs] \<and> cphys t = cphys ?s
    \<and> (\<forall>j < length qs. cpt t (cvpn (data_page i (Suc k + j))) = Some (qs ! j))
    \<and> (\<forall>v. v \<notin> (\<lambda>j. cvpn (data_page i j)) ` {Suc k..<Suc k + length qs} \<longrightarrow> cpt t v = cpt ?s v)"
    by (rule Cons.IH) (use Cons.prems in simp_all)
  then obtain t where t: "open_map [Suc k..<Suc k + length qs] fileid (INDEX2DATA i) ?s = Some (0, t)" "answers t = rest"
    "requests t = requests ?s @ map (\<lambda>k. Rq_map fileid (of_nat (k * 4096))) [Suc k..<Suc k + length qs]" "cphys t = cphys ?s"
    "\<forall>j < length qs. cpt t (cvpn (data_page i (Suc k + j))) = Some (qs ! j)"
    "\<forall>v. v \<notin> (\<lambda>j. cvpn (data_page i j)) ` {Suc k..<Suc k + length qs} \<longrightarrow> cpt t v = cpt ?s v" by blast
  have up: "[k..<k + length (q # qs)] = k # [Suc k..<Suc k + length qs]" by (subst upt_conv_Cons) simp_all
  have "cvpn (data_page i k) \<notin> (\<lambda>j. cvpn (data_page i j)) ` {Suc k..<Suc k + length qs}"
    by (rule vpn_outside(2) [OF i i]) (use Cons.prems(2) in auto)
  with t(6) have "cpt t (cvpn (data_page i k)) = Some q" by simp
  with t(5) have "cpt t (cvpn (data_page i (k + j))) = Some ((q # qs) ! j)" if "j < length (q # qs)" for j
    using that by (cases j) auto
  moreover have "cpt t v = cpt s v" if "v \<notin> (\<lambda>j. cvpn (data_page i j)) ` {k..<k + length (q # qs)}" for v
    using that t(6) by (auto simp: image_def)
  ultimately show ?case using f t(1-4) unfolding up by auto
qed simp

text \<open>C27: when the server grants an \<^verbatim>\<open>open\<close> and then every block of the file, \<^verbatim>\<open>open\<close> returns
  the number of the free descriptor; the descriptor is the page that the server shares and block
  \<open>k\<close> of the file is visible at page \<open>k\<close> of the data area, as many blocks as the size in
  the descriptor needs, each asked for once and in order, and no other page is mapped.
\<close>

theorem open_maps_file:
  assumes "fd_alloc s = Inr (INDEX2FD i)" "0 \<le> i" "i < 32" "length pth < MAXPATH"
    and "answers s = (0, Some (p, perm)) # map (\<lambda>q. (0, Some (q, perm'))) qs @ rest"
    and "perm' AND NOT (ucast (PTE_RW OR PTE_USER OR PTE_LIBRARY)) = ucast PTE_V"
    and "field s p 144 \<le> MAXFILESIZE" "length qs = blocks_of (field s p 144)"
  shows "\<exists>t. open_file pth mode s = Some (i, t) \<and> cpt t (cvpn (INDEX2FD i)) = Some p
    \<and> (\<forall>k < length qs. cpt t (cvpn (data_page i k)) = Some (qs ! k))
    \<and> (\<forall>v. v \<notin> fd_pages i \<longrightarrow> cpt t v = cpt s v) \<and> cphys t = cphys s \<and> answers t = rest
    \<and> requests t = requests s @ Rq_open pth mode # map (\<lambda>k. Rq_map (field s p 12) (of_nat (k * 4096))) [0..<length qs]"
proof -
  note i = assms(2,3)
  let ?s = "s\<lparr>requests := requests s @ [Rq_open pth mode], answers := map (\<lambda>q. (0, Some (q, perm'))) qs @ rest,
    cpt := (cpt s)(cvpn (INDEX2FD i) \<mapsto> p)\<rparr>"
  have "INDEX2FD i \<noteq> 0" using unat_INDEX2FD(1) [OF i] by auto
  then have o': "fsipc_open pth mode (INDEX2FD i) s = Some (0, ?s)"
    using assms(4,5) by (simp add: fsipc_open_def fsipc_def Let_def)
  have m: "cmapped ?s (INDEX2FD i)" "fst (loc ?s (INDEX2FD i)) = p" by (simp_all add: cmapped_def loc_def)
  have fs: "field ?s p c = field s p c" for c by (rule field_cong) (simp add: cell_def)
  note l = cload32_field [OF unat_INDEX2FD(2) [OF i] _ m(1), unfolded m(2) fs]
  have ld: "cload32 ?s (ffd_size (INDEX2FD i)) = Some (field s p 144)" "cload32 ?s (f_fileid (INDEX2FD i)) = Some (field s p 12)"
    using l [of 144] l [of 12] by (simp_all add: ffd_size_def f_fileid_def)
  have n: "length qs \<le> 1024" using assms(7,8) by (simp add: blocks_of_def MAXFILESIZE_def word_le_nat_alt)
  from open_map_result [OF i assms(6), of ?s qs rest 0 "field s p 12"] n obtain t where
    t: "open_map [0..<length qs] (field s p 12) (INDEX2DATA i) ?s = Some (0, t)" "answers t = rest"
      "requests t = requests s @ Rq_open pth mode # map (\<lambda>k. Rq_map (field s p 12) (of_nat (k * 4096))) [0..<length qs]"
      "cphys t = cphys s" "\<forall>k < length qs. cpt t (cvpn (data_page i k)) = Some (qs ! k)"
      "\<forall>v. v \<notin> (\<lambda>j. cvpn (data_page i j)) ` {0..<length qs} \<longrightarrow> cpt t v = cpt ?s v" by auto
  have "open_file pth mode s = Some (i, t)"
    using o' ld t(1) assms(1,8) by (simp add: open_file_def fd2data_def unat_INDEX2FD [OF i])
  moreover have "cvpn (INDEX2FD i) \<notin> (\<lambda>j. cvpn (data_page i j)) ` {0..<length qs}"
    by (rule vpn_outside) (use i n in auto)
  with t(6) have "cpt t (cvpn (INDEX2FD i)) = Some p" by simp
  moreover have "cpt t v = cpt s v" if "v \<notin> fd_pages i" for v
    using that t(6) n by (auto simp: fd_pages_def image_def)
  ultimately show ?thesis using t by blast
qed

text \<open>Descriptor 0 is free, and page 5 is a descriptor of a file of 5000 bytes.\<close>

definition open_ex :: client where
  "open_ex = \<lparr>cpt = (\<lambda>_. None),
     cphys = (\<lambda>p o'. if p = 5 \<and> o' = 144 then 0x88 else if p = 5 \<and> o' = 145 then 0x13 else 0),
     cfresh = 9, cgrants = [], answers = [(0, Some (5, 0)), (0, Some (6, ucast PTE_V)), (0, Some (7, ucast PTE_V))], requests = [],
     keys = [], console = []\<rparr>"

theorem open_maps_file_witness:
  "\<exists>t. open_file [97] 0 open_ex = Some (0, t) \<and> cpt t (cvpn (INDEX2FD 0)) = Some 5
    \<and> (\<forall>k < length [6, 7 :: nat]. cpt t (cvpn (data_page 0 k)) = Some ([6, 7] ! k))
    \<and> (\<forall>v. v \<notin> fd_pages 0 \<longrightarrow> cpt t v = cpt open_ex v) \<and> cphys t = cphys open_ex \<and> answers t = []
    \<and> requests t = requests open_ex @ Rq_open [97] 0 #
        map (\<lambda>k. Rq_map (field open_ex 5 12) (of_nat (k * 4096))) [0..<length [6, 7 :: nat]]"
proof (rule open_maps_file)
  have "\<not> cmapped open_ex (INDEX2FD 0)" by code_simp
  then show "fd_alloc open_ex = Inr (INDEX2FD 0)" by (simp add: fd_alloc_def MAXFD_def upt_conv_Cons)
  show "length [97 :: u8] < MAXPATH" by (simp add: MAXPATH_def)
  show "answers open_ex = (0, Some (5, 0)) # map (\<lambda>q. (0, Some (q, ucast PTE_V))) [6, 7] @ []" by (simp add: open_ex_def)
  show "ucast PTE_V AND NOT (ucast (PTE_RW OR PTE_USER OR PTE_LIBRARY)) = (ucast PTE_V :: u32)" by code_simp
  show "field open_ex 5 144 \<le> MAXFILESIZE" "length [6, 7 :: nat] = blocks_of (field open_ex 5 144)" by code_simp+
qed simp_all

section \<open>Where the checks fall short\<close>

text \<open>C30: \<^verbatim>\<open>file_read\<close> does not stop at the end of the file when \<^verbatim>\<open>offset + n\<close> wraps around
  32 bits: it copies all \<open>n\<close> bytes, more than the file has after the offset.
\<close>

theorem file_read_past_end:
  assumes "file_fd s i off sz" "off \<le> sz" "2 ^ 32 \<le> unat off + unat n"
  shows "file_read (INDEX2FD i) buf n off s = map_option (\<lambda>t. (sint n, t)) (cmemcpy buf (file_data i off) (unat n) s)
    \<and> unat sz - unat off < unat n"
proof -
  have b: "unat n < 2 ^ 32" "unat off \<le> unat sz" "unat sz < 2 ^ 32"
    using assms(2) unsigned_less [of n] unsigned_less [of sz] by (simp_all add: word_le_nat_alt)
  have "unat (off + n) = unat off + unat n - 2 ^ 32"
    using b assms(3) by (simp add: unat_word_ariths mod_if)
  then have "\<not> off + n > sz" "\<not> off > sz" using b by (simp_all add: word_less_nat_alt)
  then have "file_read (INDEX2FD i) buf n off s = map_option (\<lambda>t. (sint n, t)) (cmemcpy buf (file_data i off) (unat n) s)"
    using file_fd_loads(4) [OF assms(1)] by (cases "cmemcpy buf (file_data i off) (unat n) s") (simp_all add: file_read_def file_data_def)
  with b assms(3) show ?thesis by linarith
qed

theorem file_read_past_end_witness:
  "file_read (INDEX2FD 0) 0x400000 0xFFFFFFFF 1 client_ex
     = map_option (\<lambda>t. (- 1, t)) (cmemcpy 0x400000 (file_data 0 1) (unat (0xFFFFFFFF :: u32)) client_ex)
   \<and> unat (100 :: u32) - unat (1 :: u32) < unat (0xFFFFFFFF :: u32)"
proof -
  have "file_fd client_ex 0 1 100" by code_simp
  moreover have "(1 :: u32) \<le> 100" "2 ^ 32 \<le> unat (1 :: u32) + unat (0xFFFFFFFF :: u32)" "sint (0xFFFFFFFF :: u32) = - 1" by simp_all
  ultimately show ?thesis using file_read_past_end [of client_ex 0 1 100 "0xFFFFFFFF" "0x400000"] by (simp only: simp_thms)
qed

lemma file_fd_resize:
  assumes "file_fd s i off sz"
  shows "\<exists>t. cstore32 (ffd_size (INDEX2FD i)) v s = Some t \<and> same_maps s t \<and> file_fd t i off v
    \<and> field t (fst (loc s (INDEX2FD i))) 12 = field s (fst (loc s (INDEX2FD i))) 12"
proof -
  let ?p = "fst (loc s (INDEX2FD i))"
  from assms have i: "0 \<le> i" "i < 32" "cmapped s (INDEX2FD i)" by (simp_all add: file_fd_def)
  from cstore32_field [OF unat_INDEX2FD(2) [OF i(1,2)] _ i(3), of 144 v] obtain t where
    t: "cstore32 (INDEX2FD i + of_nat 144) v s = Some t" "same_maps s t" "field t ?p 144 = v"
      "\<forall>p o'. p \<noteq> ?p \<or> unat o' < 144 \<or> 148 \<le> unat o' \<longrightarrow> cell t (p, o') = cell s (p, o')" by auto
  have f: "field t ?p c = field s ?p c" if "c < 100" for c
  proof (rule field_cong)
    fix k :: nat
    assume "k < 4"
    with that have "unat (of_nat (c + k) :: u64) < 144" by (subst unat_of_nat64) auto
    with t(4) show "cell t (?p, of_nat (c + k)) = cell s (?p, of_nat (c + k))" by blast
  qed
  from f [of 0] f [of 4] f [of 8] f [of 12] assms same_mapsD [OF t(2)] t(1,2,3) show ?thesis
    by (simp add: file_fd_def Let_def ffd_size_def)
qed

text \<open>
  when the server refuses to resize a file, \<^verbatim>\<open>ftruncate\<close> returns its error but leaves the
  new size in the descriptor: the process goes on with a size that the server never accepted.
\<close>

theorem ftruncate_refused_keeps_size:
  assumes "file_fd s i off sz" "size' \<le> MAXFILESIZE" "answers s = (e, pg) # as" "e < 0"
  shows "\<exists>t. ftruncate i size' s = Some (e, t) \<and> file_fd t i off size' \<and> cpt t = cpt s"
proof -
  let ?p = "fst (loc s (INDEX2FD i))"
  from assms(1) have i: "0 \<le> i" "i < 32" "cmapped s (INDEX2FD i)" by (simp_all add: file_fd_def)
  from cload32_field [OF unat_INDEX2FD(2) [OF i(1,2)] _ i(3), of 12]
  have l: "cload32 s (f_fileid (INDEX2FD i)) = Some (field s ?p 12)" by (simp add: f_fileid_def)
  from file_fd_resize [OF assms(1), of size'] obtain u where
    u: "cstore32 (ffd_size (INDEX2FD i)) size' s = Some u" "same_maps s u" "file_fd u i off size'" by blast
  let ?t = "u\<lparr>requests := requests u @ [Rq_set_size (field s ?p 12) size'], answers := as\<rparr>"
  have "fsipc_set_size (field s ?p 12) size' u = Some (e, ?t)"
    using assms(3) same_mapsD(5) [OF u(2)]
    by (cases pg) (auto simp: fsipc_set_size_def fsipc_value_def fsipc_def Let_def)
  then have "ftruncate i size' s = Some (e, ?t)"
    using assms(2,4) file_fd_loads [OF assms(1)] l u(1) by (simp add: ftruncate_def linorder_not_less [THEN iffD2])
  moreover have "file_fd ?t i off size'"
    using u(3) by (simp add: file_fd_def cmapped_def loc_def field_def cell_def)
  ultimately show ?thesis using same_mapsD(1) [OF u(2)] by (auto intro!: exI [of _ ?t])
qed

theorem ftruncate_refused_keeps_size_witness:
  "\<exists>t. ftruncate 0 5000 (client_ex\<lparr>answers := [(- E_NO_DISK, None)]\<rparr>) = Some (- E_NO_DISK, t) \<and> file_fd t 0 1 5000
    \<and> cpt t = cpt (client_ex\<lparr>answers := [(- E_NO_DISK, None)]\<rparr>)"
proof (rule ftruncate_refused_keeps_size)
  show "file_fd (client_ex\<lparr>answers := [(- E_NO_DISK, None)]\<rparr>) 0 1 100" by code_simp
qed (simp_all add: MAXFILESIZE_def E_NO_DISK_def)

end
