(* ===== verification/DeviceTree.thy ===== *)
theory DeviceTree
  imports Kmalloc
begin

text \<open>
  The device tree: \<^verbatim>\<open>kern/device_tree.c\<close> and \<^verbatim>\<open>include/device_tree.h\<close>.

  Nodes, properties and byte arrays are blocks of the kernel heap; their contents are typed
  stores indexed by the address that \<^verbatim>\<open>kmalloc\<close> returned, and \<^verbatim>\<open>NULL\<close> is address 0.  A string is
  the list of its bytes, stored with its terminator.  The flattened tree is read from a
  \<open>memory\<close>.  \<^term>\<open>None\<close> is a panic, an access outside an array or a block, or a walk that does not end.
\<close>

section \<open>Data\<close>

definition FDT_MAGIC :: u32 where "FDT_MAGIC = 0xd00dfeed"
definition FDT_BEGIN_NODE :: u32 where "FDT_BEGIN_NODE = 1"
definition FDT_END_NODE :: u32 where "FDT_END_NODE = 2"
definition FDT_PROP :: u32 where "FDT_PROP = 3"
definition FDT_NOP :: u32 where "FDT_NOP = 4"
definition FDT_END :: u32 where "FDT_END = 9"
definition NAME_BUFFER_LEN :: nat where "NAME_BUFFER_LEN = 32"
definition ITER_MAX_QUEUE_LEN :: nat where "ITER_MAX_QUEUE_LEN = 64"
definition MAX_STACK_DEPTH :: nat where "MAX_STACK_DEPTH = 64"

record device_node =
  dn_name :: u64
  dn_parent :: u64
  dn_child :: u64
  dn_sibling :: u64
  dn_properties :: u64

record property =
  pr_name :: u64
  pr_length :: u32
  pr_value :: u64
  pr_next :: u64

definition sizeof_device_node :: u64 where "sizeof_device_node = 40"
definition sizeof_property :: u64 where "sizeof_property = 32"

record dtstore =
  dt_heap :: kheap
  dt_node :: "u64 \<Rightarrow> device_node"
  dt_prop :: "u64 \<Rightarrow> property"
  dt_bytes :: "u64 \<Rightarrow> u8 list"

definition be32toh :: "u32 \<Rightarrow> u32" where "be32toh = swap_uint32"
definition be64toh :: "u64 \<Rightarrow> u64" where "be64toh = swap_uint64"

text \<open>The string in a block, and big-endian words inside a block.\<close>

definition str_at :: "dtstore \<Rightarrow> u64 \<Rightarrow> u8 list" where "str_at d p = takeWhile (\<lambda>b. b \<noteq> 0) (dt_bytes d p)"

definition block_mem :: "u8 list \<Rightarrow> memory" where "block_mem xs a = (if unat a < length xs then xs ! unat a else 0)"

definition block_be32 :: "dtstore \<Rightarrow> u64 \<Rightarrow> nat \<Rightarrow> u32 option" where
  "block_be32 d p off =
     (if off + 4 \<le> length (dt_bytes d p) then Some (be32toh (ucast (load32 (block_mem (dt_bytes d p)) (of_nat off)))) else None)"

definition block_be64 :: "dtstore \<Rightarrow> u64 \<Rightarrow> nat \<Rightarrow> u64 option" where
  "block_be64 d p off =
     (if off + 8 \<le> length (dt_bytes d p) then Some (be64toh (load64 (block_mem (dt_bytes d p)) (of_nat off))) else None)"

text \<open>\<^verbatim>\<open>kmalloc\<close> with the test that panics on \<^verbatim>\<open>NULL\<close>.\<close>

definition dt_alloc :: "u64 \<Rightarrow> dtstore \<Rightarrow> (u64 \<times> dtstore) option" where
  "dt_alloc sz d =
     do { (p, h) \<leftarrow> kmalloc sz (dt_heap d); if p = 0 then None else Some (p, d\<lparr>dt_heap := h\<rparr>) }"

definition dt_free :: "u64 \<Rightarrow> dtstore \<Rightarrow> dtstore option" where
  "dt_free p d = do { h \<leftarrow> kfree p (dt_heap d); Some (d\<lparr>dt_heap := h\<rparr>) }"

definition set_node :: "u64 \<Rightarrow> (device_node \<Rightarrow> device_node) \<Rightarrow> dtstore \<Rightarrow> dtstore" where
  "set_node a f d = d\<lparr>dt_node := (dt_node d)(a := f (dt_node d a))\<rparr>"

definition set_bytes :: "u64 \<Rightarrow> u8 list \<Rightarrow> dtstore \<Rightarrow> dtstore" where
  "set_bytes a xs d = d\<lparr>dt_bytes := (dt_bytes d)(a := xs)\<rparr>"

section \<open>Building and freeing\<close>

definition create_device_node :: "u8 list \<Rightarrow> dtstore \<Rightarrow> (u64 \<times> dtstore) option" where
  "create_device_node name d =
     do { (node, d) \<leftarrow> dt_alloc sizeof_device_node d;
          (name_field, d) \<leftarrow> dt_alloc (of_nat (length name + 1)) d;
          let d = set_bytes name_field (name @ [0]) d;
          Some (node, set_node node (\<lambda>_. \<lparr>dn_name = name_field, dn_parent = 0, dn_child = 0, dn_sibling = 0, dn_properties = 0\<rparr>) d) }"

definition device_node_insert_child :: "u64 \<Rightarrow> u64 \<Rightarrow> dtstore \<Rightarrow> dtstore" where
  "device_node_insert_child par chi d =
     (let d = set_node chi (\<lambda>n. n\<lparr>dn_parent := par\<rparr>) d;
          d = set_node chi (\<lambda>n. n\<lparr>dn_sibling := dn_child (dt_node d par)\<rparr>) d
      in set_node par (\<lambda>n. n\<lparr>dn_child := chi\<rparr>) d)"

definition device_node_insert_propertiy :: "u64 \<Rightarrow> u8 list \<Rightarrow> u32 \<Rightarrow> u8 list \<Rightarrow> dtstore \<Rightarrow> dtstore option" where
  "device_node_insert_propertiy node name len val d =
     do { (new_property, d) \<leftarrow> dt_alloc sizeof_property d;
          (name_field, d) \<leftarrow> dt_alloc (of_nat (length name + 1)) d;
          let d = set_bytes name_field (name @ [0]) d;
          (value_field, d) \<leftarrow> dt_alloc (ucast len) d;
          let d = set_bytes value_field val d;
          let d = d\<lparr>dt_prop := (dt_prop d)(new_property :=
                     \<lparr>pr_name = name_field, pr_length = len, pr_value = value_field, pr_next = dn_properties (dt_node d node)\<rparr>)\<rparr>;
          Some (set_node node (\<lambda>n. n\<lparr>dn_properties := new_property\<rparr>) d) }"

definition free_property :: "u64 \<Rightarrow> dtstore \<Rightarrow> dtstore option" where
  "free_property p d =
     do { d \<leftarrow> dt_free (pr_name (dt_prop d p)) d; d \<leftarrow> dt_free (pr_value (dt_prop d p)) d; dt_free p d }"

partial_function (option) free_properties :: "u64 \<Rightarrow> dtstore \<Rightarrow> dtstore option" where
  "free_properties p d =
     (if p = 0 then Some d
      else
        (let next_property = pr_next (dt_prop d p) in
         do { d \<leftarrow> free_property p d; free_properties next_property d }))"

definition free_device_node :: "u64 \<Rightarrow> dtstore \<Rightarrow> dtstore option" where
  "free_device_node node d =
     do { d \<leftarrow> free_properties (dn_properties (dt_node d node)) d;
          d \<leftarrow> dt_free (dn_name (dt_node d node)) d;
          dt_free node d }"

text \<open>The loop of \<^verbatim>\<open>_free_device_tree_node\<close> over siblings, with the recursive call on each.\<close>

partial_function (option) free_siblings :: "u64 \<Rightarrow> dtstore \<Rightarrow> dtstore option" where
  "free_siblings c d =
     (if c = 0 then Some d
      else
        (let next_child = dn_sibling (dt_node d c) in
         do { d \<leftarrow> free_siblings (dn_child (dt_node d c)) d;
              d \<leftarrow> free_device_node c d;
              free_siblings next_child d }))"

definition free_device_tree_node :: "u64 \<Rightarrow> dtstore \<Rightarrow> dtstore option" where
  "free_device_tree_node node d = do { d \<leftarrow> free_siblings (dn_child (dt_node d node)) d; free_device_node node d }"

definition free_device_tree :: "u64 \<Rightarrow> dtstore \<Rightarrow> dtstore option" where
  "free_device_tree root d = (if root = 0 then Some d else free_device_tree_node root d)"

section \<open>Searching\<close>

text \<open>Both strings without their terminators; 64 is \<^verbatim>\<open>@\<close>.\<close>

fun is_type_equal :: "u8 list \<Rightarrow> u8 list \<Rightarrow> bool" where
  "is_type_equal (h # hs) (n # ns) = (if h = n then is_type_equal hs ns else False)"
| "is_type_equal [] [] = True"
| "is_type_equal [] (n # ns) = False"
| "is_type_equal (h # hs) [] = (h = 64)"

text \<open>The array of a search, with its two indices and the number of waiting nodes.\<close>

record node_queue =
  nq :: "nat \<Rightarrow> u64"
  nq_front :: nat
  nq_rear :: nat
  nq_count :: nat

definition nq_push :: "u64 \<Rightarrow> node_queue \<Rightarrow> node_queue" where
  "nq_push x q =
     (let rear = (nq_rear q + 1) mod ITER_MAX_QUEUE_LEN in
      q\<lparr>nq := (nq q)(rear := x), nq_rear := rear, nq_count := nq_count q + 1\<rparr>)"

definition nq_init :: "u64 \<Rightarrow> node_queue" where
  "nq_init root = nq_push root \<lparr>nq = (\<lambda>_. 0), nq_front = 0, nq_rear = ITER_MAX_QUEUE_LEN - 1, nq_count = 0\<rparr>"

text \<open>The front index is not wrapped; beyond the array there is nothing to read.\<close>

definition nq_pop :: "node_queue \<Rightarrow> (u64 \<times> node_queue) option" where
  "nq_pop q =
     (if nq_front q \<ge> ITER_MAX_QUEUE_LEN then None
      else Some (nq q (nq_front q), q\<lparr>nq_front := nq_front q + 1, nq_count := nq_count q - 1\<rparr>))"

text \<open>The inner loop over the children; the flag says that the queue overflowed.\<close>

partial_function (option) push_children :: "dtstore \<Rightarrow> u64 \<Rightarrow> node_queue \<Rightarrow> (bool \<times> node_queue) option" where
  "push_children d c q =
     (if c = 0 then Some (False, q)
      else if nq_count q \<ge> ITER_MAX_QUEUE_LEN then Some (True, q)
      else push_children d (dn_sibling (dt_node d c)) (nq_push c q))"

partial_function (option) find_type_loop :: "dtstore \<Rightarrow> u8 list \<Rightarrow> nat \<Rightarrow> node_queue \<Rightarrow> u64 list \<Rightarrow> u64 list option" where
  "find_type_loop d type max_count q out =
     (if nq_count q = 0 then Some out
      else
        do { (cur, q) \<leftarrow> nq_pop q;
             let hit = is_type_equal (str_at d (dn_name (dt_node d cur))) type;
             if hit \<and> length out \<ge> max_count then Some out
             else
               do { let out = (if hit then out @ [cur] else out);
                    (overflow, q) \<leftarrow> push_children d (dn_child (dt_node d cur)) q;
                    if overflow then Some out else find_type_loop d type max_count q out } })"

text \<open>The output array is the list of nodes found; its length is the result.\<close>

definition find_by_type :: "dtstore \<Rightarrow> u64 \<Rightarrow> u8 list \<Rightarrow> nat \<Rightarrow> u64 list option" where
  "find_by_type d root type max_count =
     (if root = 0 then Some [] else find_type_loop d type max_count (nq_init root) [])"

partial_function (option) find_property :: "dtstore \<Rightarrow> u8 list \<Rightarrow> u64 \<Rightarrow> u64 option" where
  "find_property d name p =
     (if p = 0 then Some 0
      else if byte_compare (str_at d (pr_name (dt_prop d p))) name = 0 then Some p
      else find_property d name (pr_next (dt_prop d p)))"

definition get_property :: "dtstore \<Rightarrow> u64 \<Rightarrow> u8 list \<Rightarrow> u64 option" where
  "get_property d node property_name = find_property d property_name (dn_properties (dt_node d node))"

definition s_phandle :: "u8 list" where "s_phandle = [112, 104, 97, 110, 100, 108, 101]"

text \<open>
  The word read through \<^verbatim>\<open>property_value\<close> is the start of the property itself, the low half of its
  name pointer.
\<close>

definition phandle_word :: "dtstore \<Rightarrow> u64 \<Rightarrow> u32" where
  "phandle_word d p = be32toh (ucast (pr_name (dt_prop d p)))"

partial_function (option) find_handle_loop :: "dtstore \<Rightarrow> u32 \<Rightarrow> node_queue \<Rightarrow> u64 option" where
  "find_handle_loop d handle_id_le q =
     (if nq_count q = 0 then Some 0
      else
        do { (cur, q) \<leftarrow> nq_pop q;
             p \<leftarrow> get_property d cur s_phandle;
             if p \<noteq> 0 \<and> phandle_word d p = handle_id_le then Some cur
             else
               do { (overflow, q) \<leftarrow> push_children d (dn_child (dt_node d cur)) q;
                    if overflow then Some 0 else find_handle_loop d handle_id_le q } })"

definition find_by_handle_id :: "dtstore \<Rightarrow> u64 \<Rightarrow> u32 \<Rightarrow> u64 option" where
  "find_by_handle_id d root handle_id_le =
     (if root = 0 then Some 0 else find_handle_loop d handle_id_le (nq_init root))"

section \<open>Reading properties\<close>

text \<open>A list of strings; a last string without terminator is read beyond the list.\<close>

function contains_string :: "u8 list \<Rightarrow> u8 list \<Rightarrow> bool option" where
  "contains_string xs target =
     (if xs = [] then Some False
      else if 0 \<notin> set xs then None
      else
        (let p = takeWhile (\<lambda>b. b \<noteq> 0) xs in
         if byte_compare p target = 0 then Some True
         else contains_string (drop (length p + 1) xs) target))"
  by pat_completeness auto
termination by (relation "measure (length \<circ> fst)") auto

partial_function (option) cells_loop :: "dtstore \<Rightarrow> u8 list \<Rightarrow> u64 \<Rightarrow> u32 \<Rightarrow> u32 option" where
  "cells_loop d name node count =
     (if node = 0 then Some count
      else
        do { p \<leftarrow> get_property d node name;
             count \<leftarrow> (if p \<noteq> 0 then block_be32 d (pr_value (dt_prop d p)) 0 else Some count);
             cells_loop d name (dn_parent (dt_node d node)) count })"

definition cells_count :: "u8 list \<Rightarrow> dtstore \<Rightarrow> u64 \<Rightarrow> u32 option" where
  "cells_count name d node =
     (if dn_parent (dt_node d node) = 0 then None
      else do { count \<leftarrow> cells_loop d name (dn_parent (dt_node d node)) 0; if count = 0 then None else Some count })"

text \<open>\<^verbatim>\<open>#address-cells\<close>, \<^verbatim>\<open>#size-cells\<close> and \<^verbatim>\<open>reg\<close>.\<close>

definition s_address_cells :: "u8 list" where
  "s_address_cells = [35, 97, 100, 100, 114, 101, 115, 115, 45, 99, 101, 108, 108, 115]"
definition s_size_cells :: "u8 list" where "s_size_cells = [35, 115, 105, 122, 101, 45, 99, 101, 108, 108, 115]"
definition s_reg :: "u8 list" where "s_reg = [114, 101, 103]"

definition get_address_cells_count :: "dtstore \<Rightarrow> u64 \<Rightarrow> u32 option" where
  "get_address_cells_count = cells_count s_address_cells"

definition get_size_cells_count :: "dtstore \<Rightarrow> u64 \<Rightarrow> u32 option" where
  "get_size_cells_count = cells_count s_size_cells"

text \<open>A sum of the counts that wraps to 0 would be a division by 0.\<close>

definition get_reg_list_len :: "dtstore \<Rightarrow> u64 \<Rightarrow> u32 option" where
  "get_reg_list_len d node =
     do { reg \<leftarrow> get_property d node s_reg;
          if reg = 0 then Some 0
          else
            do { ac \<leftarrow> get_address_cells_count d node;
                 sc \<leftarrow> get_size_cells_count d node;
                 let len = pr_length (dt_prop d reg);
                 if ac + sc = 0 then None
                 else if len mod (ac + sc) \<noteq> 0 then Some 0
                 else Some (len div (ac + sc)) } }"

text \<open>One number of one or two cells: its value and the bytes read; other widths leave the output alone.\<close>

definition read_cells :: "dtstore \<Rightarrow> u64 \<Rightarrow> nat \<Rightarrow> u32 \<Rightarrow> u64 \<Rightarrow> (u64 \<times> nat) option" where
  "read_cells d p off count old =
     (if count = 1 then do { v \<leftarrow> block_be32 d p off; Some (ucast v, 4) }
      else if count = 2 then do { v \<leftarrow> block_be64 d p off; Some (v, 8) }
      else Some (old, 0))"

definition get_reg_item :: "dtstore \<Rightarrow> u64 \<Rightarrow> u32 \<Rightarrow> u64 \<Rightarrow> u64 \<Rightarrow> (int \<times> u64 \<times> u64) option" where
  "get_reg_item d node idx address size' =
     do { reg \<leftarrow> get_property d node s_reg;
          if reg = 0 then Some (1, address, size')
          else
            do { ac \<leftarrow> get_address_cells_count d node;
                 sc \<leftarrow> get_size_cells_count d node;
                 let len = pr_length (dt_prop d reg);
                 let skip_byte_count = idx * (ac + sc);
                 if ac + sc = 0 then None
                 else if len mod (ac + sc) \<noteq> 0 then Some (1, address, size')
                 else if skip_byte_count \<ge> len then Some (1, address, size')
                 else
                   do { (a, k) \<leftarrow> read_cells d (pr_value (dt_prop d reg)) (unat skip_byte_count) ac address;
                        (n, _) \<leftarrow> read_cells d (pr_value (dt_prop d reg)) (unat skip_byte_count + k) sc size';
                        Some (0, a, n) } } }"

section \<open>Parsing the flattened tree\<close>

definition fdt32 :: "memory \<Rightarrow> u64 \<Rightarrow> u32" where "fdt32 m a = be32toh (ucast (load32 m a))"

definition cstring :: "memory \<Rightarrow> u64 \<Rightarrow> u8 list option" where
  "cstring m a = do { n \<leftarrow> strlen m a; Some (map (\<lambda>i. m (a + of_nat i)) [0..<n]) }"

text \<open>The loop over the reserved ranges only prints them.\<close>

partial_function (option) skip_reserved :: "memory \<Rightarrow> u64 \<Rightarrow> u64 option" where
  "skip_reserved m a = (if load64 m a = 0 \<and> load64 m (a + 8) = 0 then Some a else skip_reserved m (a + 16))"

record parser =
  ps_root :: u64
  ps_stack :: "nat \<Rightarrow> u64"
  ps_top :: u64
  ps_store :: dtstore

text \<open>The open node, or 0; a top that has run below 0 is an index far behind the array.\<close>

definition open_node :: "parser \<Rightarrow> u64 option" where
  "open_node s =
     (if ps_top s = 0 then Some 0
      else if unat (ps_top s) > MAX_STACK_DEPTH then None
      else Some (ps_stack s (unat (ps_top s) - 1)))"

text \<open>A token: whether to go on, where, and the new state.  A name of 32 bytes or more does not fit the buffer.\<close>

definition parse_begin_node :: "memory \<Rightarrow> u64 \<Rightarrow> parser \<Rightarrow> (bool \<times> u64 \<times> parser) option" where
  "parse_begin_node m ptr s =
     do { name \<leftarrow> cstring m ptr;
          if length name + 1 > NAME_BUFFER_LEN then None
          else
            do { parent_node \<leftarrow> open_node s;
                 if unat (ps_top s) \<ge> MAX_STACK_DEPTH then Some (False, ptr + of_nat (length name), s)
                 else
                   do { (cur, d) \<leftarrow> create_device_node name (ps_store s);
                        let d = (if parent_node \<noteq> 0 then device_node_insert_child parent_node cur d else d);
                        Some (True, ROUND (ptr + of_nat (length name)) 4,
                              s\<lparr>ps_root := (if ps_root s = 0 then cur else ps_root s),
                                ps_stack := (ps_stack s)(unat (ps_top s) := cur), ps_top := ps_top s + 1, ps_store := d\<rparr>) } } }"

definition parse_prop :: "memory \<Rightarrow> u64 \<Rightarrow> u64 \<Rightarrow> parser \<Rightarrow> (bool \<times> u64 \<times> parser) option" where
  "parse_prop m string_ptr ptr s =
     do { let prop_len = fdt32 m ptr;
          let prop_name = string_ptr + ucast (fdt32 m (ptr + 4));
          if ps_top s = 0 then Some (False, ptr, s)
          else
            do { node \<leftarrow> open_node s;
                 let ptr = ptr + 8;
                 name \<leftarrow> cstring m prop_name;
                 d \<leftarrow> device_node_insert_propertiy node name prop_len
                       (map (\<lambda>i. m (ptr + of_nat i)) [0..<unat prop_len]) (ps_store s);
                 Some (True, ROUND (ptr + ucast prop_len) 4, s\<lparr>ps_store := d\<rparr>) } }"

definition parse_token :: "memory \<Rightarrow> u64 \<Rightarrow> u64 \<Rightarrow> parser \<Rightarrow> (bool \<times> u64 \<times> parser) option" where
  "parse_token m string_ptr ptr s =
     (let tok = fdt32 m ptr; ptr = ptr + 4 in
      if tok = 0 then Some (True, ptr, s)
      else if tok = FDT_BEGIN_NODE then parse_begin_node m ptr s
      else if tok = FDT_END_NODE then Some (True, ptr, s\<lparr>ps_top := ps_top s - 1\<rparr>)
      else if tok = FDT_PROP then parse_prop m string_ptr ptr s
      else if tok = FDT_NOP then Some (True, ptr, s)
      else Some (False, ptr, s))"

partial_function (option) parse_loop :: "memory \<Rightarrow> u64 \<Rightarrow> u64 \<Rightarrow> parser \<Rightarrow> parser option" where
  "parse_loop m string_ptr ptr s =
     do { (go, ptr, s) \<leftarrow> parse_token m string_ptr ptr s;
          if go then parse_loop m string_ptr ptr s else Some s }"

definition parse_tree :: "memory \<Rightarrow> u64 \<Rightarrow> dtstore \<Rightarrow> (u64 \<times> dtstore) option" where
  "parse_tree m start d =
     (if fdt32 m start \<noteq> FDT_MAGIC then Some (0, d)
      else
        do { _ \<leftarrow> skip_reserved m (start + ucast (fdt32 m (start + 16)));
             let struct_ptr = start + ucast (fdt32 m (start + 8));
             let string_ptr = start + ucast (fdt32 m (start + 12));
             s \<leftarrow> parse_loop m string_ptr struct_ptr \<lparr>ps_root = 0, ps_stack = (\<lambda>_. 0), ps_top = 0, ps_store = d\<rparr>;
             Some (ps_root s, ps_store s) })"

end
