(* ===== verification/Discovery.thy ===== *)
theory Discovery
  imports Dispatch DeviceTree
begin

text \<open>
  Device discovery at boot: the serial line (\<^verbatim>\<open>kern/serial.c\<close>), the virtio devices (\<^verbatim>\<open>kern/virtio.c\<close>), the
  interrupt controller (the initialisation in \<^verbatim>\<open>kern/plic.c\<close>) and the table of interrupt handlers
  (\<^verbatim>\<open>kern/interrupt.c\<close>).

  The device tree \<open>d\<close> is only read here, so its store is an argument; the heap that the registration
  allocates from is the machine's.  The initialisers ignore what the parsers return and register what
  they stored, as the code does.  Messages are left out.
\<close>

section \<open>Data\<close>

record SerialDeviceData =
  sd_interrupt_id :: u32
  sd_interrupt_parent_id :: u32
  sd_clock_frequency :: u32
  sd_begin_pa :: u64
  sd_len :: u64

record VirtioDeviceData =
  vd_interrupt_id :: u32
  vd_interrupt_parent_id :: u32
  vd_begin_pa :: u64
  vd_len :: u64

record PlicData =
  pd_interrupt_count :: u32
  pd_s_interrupt_code :: u64
  pd_base_pa :: u64
  pd_len :: u64

definition zero_serial :: SerialDeviceData where
  "zero_serial = \<lparr>sd_interrupt_id = 0, sd_interrupt_parent_id = 0, sd_clock_frequency = 0, sd_begin_pa = 0, sd_len = 0\<rparr>"

definition zero_virtio :: VirtioDeviceData where
  "zero_virtio = \<lparr>vd_interrupt_id = 0, vd_interrupt_parent_id = 0, vd_begin_pa = 0, vd_len = 0\<rparr>"

definition zero_plic :: PlicData where
  "zero_plic = \<lparr>pd_interrupt_count = 0, pd_s_interrupt_code = 0, pd_base_pa = 0, pd_len = 0\<rparr>"

definition MAX_VIRTIO_COUNT :: nat where "MAX_VIRTIO_COUNT = 64"
definition sizeof_SerialDeviceData :: u64 where "sizeof_SerialDeviceData = 32"
definition sizeof_VirtioDeviceData :: u64 where "sizeof_VirtioDeviceData = 24"

text \<open>The structures as bytes, padding included; the initialisers zero them first.\<close>

definition SerialDeviceData_bytes :: "SerialDeviceData \<Rightarrow> u8 list" where
  "SerialDeviceData_bytes x =
     le_bytes 4 (ucast (sd_interrupt_id x)) @ le_bytes 4 (ucast (sd_interrupt_parent_id x))
     @ le_bytes 4 (ucast (sd_clock_frequency x)) @ le_bytes 4 0 @ le_bytes 8 (sd_begin_pa x) @ le_bytes 8 (sd_len x)"

definition VirtioDeviceData_bytes :: "VirtioDeviceData \<Rightarrow> u8 list" where
  "VirtioDeviceData_bytes x =
     le_bytes 4 (ucast (vd_interrupt_id x)) @ le_bytes 4 (ucast (vd_interrupt_parent_id x))
     @ le_bytes 8 (vd_begin_pa x) @ le_bytes 8 (vd_len x)"

definition PlicData_bytes :: "PlicData \<Rightarrow> u8 list" where
  "PlicData_bytes x =
     le_bytes 4 (ucast (pd_interrupt_count x)) @ le_bytes 4 0 @ le_bytes 8 (pd_s_interrupt_code x)
     @ le_bytes 8 (pd_base_pa x) @ le_bytes 8 (pd_len x)"

text \<open>A string literal as bytes.\<close>

definition str :: "string \<Rightarrow> u8 list" where "str = map (\<lambda>c. word_of_int (of_char c))"

text \<open>The value of a property, and its first word.\<close>

definition prop_bytes :: "dtstore \<Rightarrow> u64 \<Rightarrow> u8 list" where
  "prop_bytes d p = take (unat (pr_length (dt_prop d p))) (dt_bytes d (pr_value (dt_prop d p)))"

definition prop_be32 :: "dtstore \<Rightarrow> u64 \<Rightarrow> nat \<Rightarrow> u32 option" where
  "prop_be32 d p off = block_be32 d (pr_value (dt_prop d p)) off"

section \<open>The serial line (\<^verbatim>\<open>kern/serial.c\<close>)\<close>

definition parse_serial_device :: "dtstore \<Rightarrow> u64 \<Rightarrow> SerialDeviceData \<Rightarrow> (int \<times> SerialDeviceData) option" where
  "parse_serial_device d node data =
     do { compatible \<leftarrow> get_property d node (str ''compatible'');
          if compatible = 0 then Some (1, data)
          else
            do { ok \<leftarrow> contains_string (prop_bytes d compatible) (str ''ns16550a'');
                 if \<not> ok then Some (1, data)
                 else
                   do { interrupts \<leftarrow> get_property d node (str ''interrupts'');
                        if interrupts = 0 then Some (1, data)
                        else if pr_length (dt_prop d interrupts) mod 4 \<noteq> 0 \<or> pr_length (dt_prop d interrupts) = 0 then Some (1, data)
                        else
                          do { interrupt_id \<leftarrow> prop_be32 d interrupts 0;
                               interrupt_parent \<leftarrow> get_property d node (str ''interrupt-parent'');
                               if interrupt_parent = 0 then Some (1, data)
                               else
                                 do { interrupt_parent_id \<leftarrow> prop_be32 d interrupt_parent 0;
                                      (ret, pa, len) \<leftarrow> get_reg_item d node 0 (sd_begin_pa data) (sd_len data);
                                      let data = data\<lparr>sd_begin_pa := pa, sd_len := len\<rparr>;
                                      if ret \<noteq> 0 then Some (ret, data)
                                      else
                                        do { let data = data\<lparr>sd_interrupt_id := interrupt_id,
                                                             sd_interrupt_parent_id := interrupt_parent_id\<rparr>;
                                             clock \<leftarrow> get_property d node (str ''clock-frequency'');
                                             if clock = 0 then Some (1, data)
                                             else if pr_length (dt_prop d clock) \<noteq> 4 then Some (1, data)
                                             else
                                               do { f \<leftarrow> prop_be32 d clock 0;
                                                    Some (0, data\<lparr>sd_clock_frequency := f\<rparr>) } } } } } } }"

text \<open>The clone is stored through a pointer that is not checked; \<^verbatim>\<open>NULL\<close> is a fault outside the heap.\<close>

definition register_data :: "u8 list \<Rightarrow> u8 list \<Rightarrow> u64 \<Rightarrow> machine \<Rightarrow> (nat \<times> machine) option" where
  "register_data ty bytes size' s =
     do { (cloned, h) \<leftarrow> kmalloc size' (heap s);
          if cloned = 0 then None
          else
            do { k \<leftarrow> kernel_write bytes cloned (kern s);
                 add_device ty cloned size' (s\<lparr>heap := h, kern := k\<rparr>) } }"

definition register_serial_device :: "SerialDeviceData \<Rightarrow> machine \<Rightarrow> machine option" where
  "register_serial_device data s =
     do { (slot, s) \<leftarrow> register_data (str ''serial'') (SerialDeviceData_bytes data) sizeof_SerialDeviceData s;
          add_mmio_range slot (sd_begin_pa data) (sd_len data) s }"

definition serial_init :: "dtstore \<Rightarrow> u64 \<Rightarrow> machine \<Rightarrow> machine option" where
  "serial_init d root s =
     do { nodes \<leftarrow> find_by_type d root (str ''serial'') 1;
          (case nodes of
             [] \<Rightarrow> Some s
           | serial_node # _ \<Rightarrow>
               do { (_, data) \<leftarrow> parse_serial_device d serial_node zero_serial;
                    register_serial_device data s }) }"

section \<open>Virtio devices (\<^verbatim>\<open>kern/virtio.c\<close>)\<close>

definition parse_virtio_device :: "dtstore \<Rightarrow> u64 \<Rightarrow> VirtioDeviceData \<Rightarrow> (int \<times> VirtioDeviceData) option" where
  "parse_virtio_device d node data =
     do { compatible \<leftarrow> get_property d node (str ''compatible'');
          if compatible = 0 then Some (1, data)
          else
            do { ok \<leftarrow> contains_string (prop_bytes d compatible) (str ''virtio,mmio'');
                 if \<not> ok then Some (1, data)
                 else
                   do { interrupts \<leftarrow> get_property d node (str ''interrupts'');
                        if interrupts = 0 then Some (1, data)
                        else if pr_length (dt_prop d interrupts) mod 4 \<noteq> 0 \<or> pr_length (dt_prop d interrupts) = 0 then Some (1, data)
                        else
                          do { interrupt_id \<leftarrow> prop_be32 d interrupts 0;
                               interrupt_parent \<leftarrow> get_property d node (str ''interrupt-parent'');
                               if interrupt_parent = 0 then Some (1, data)
                               else
                                 do { interrupt_parent_id \<leftarrow> prop_be32 d interrupt_parent 0;
                                      (ret, pa, len) \<leftarrow> get_reg_item d node 0 (vd_begin_pa data) (vd_len data);
                                      let data = data\<lparr>vd_begin_pa := pa, vd_len := len\<rparr>;
                                      if ret \<noteq> 0 then Some (ret, data)
                                      else Some (0, data\<lparr>vd_interrupt_id := interrupt_id,
                                                         vd_interrupt_parent_id := interrupt_parent_id\<rparr>) } } } } }"

definition register_virtio_device :: "VirtioDeviceData \<Rightarrow> machine \<Rightarrow> machine option" where
  "register_virtio_device data s =
     do { (slot, s) \<leftarrow> register_data (str ''virtio_mmio'') (VirtioDeviceData_bytes data) sizeof_VirtioDeviceData s;
          add_mmio_range slot (vd_begin_pa data) (vd_len data) s }"

definition virtio_init :: "dtstore \<Rightarrow> u64 \<Rightarrow> machine \<Rightarrow> machine option" where
  "virtio_init d root s =
     do { nodes \<leftarrow> find_by_type d root (str ''virtio_mmio'') MAX_VIRTIO_COUNT;
          for_each nodes (\<lambda>node s. do { (_, data) \<leftarrow> parse_virtio_device d node zero_virtio; register_virtio_device data s }) s }"

section \<open>Interrupt handlers of the kernel (\<^verbatim>\<open>kern/interrupt.c\<close>)\<close>

text \<open>The state of boot and traps: the machine, the table of handlers (only one is ever registered) and register \<^verbatim>\<open>sie\<close>.\<close>

datatype interrupt_handler_func = Handle_plic_interrupt

record boot =
  mach :: machine
  interrupt_handler_map :: "nat \<Rightarrow> interrupt_handler_func option"
  sie_csr :: u64

definition register_interrupt_handler :: "u64 \<Rightarrow> interrupt_handler_func \<Rightarrow> boot \<Rightarrow> boot option" where
  "register_interrupt_handler interrupt_code handler b =
     (if interrupt_code \<ge> 64 then None
      else Some (b\<lparr>interrupt_handler_map := (interrupt_handler_map b)(unat interrupt_code := Some handler)\<rparr>))"

definition enable_interrupt :: "u64 \<Rightarrow> boot \<Rightarrow> boot" where
  "enable_interrupt interrupt_code b = b\<lparr>sie_csr := sie_csr b OR interrupt_code\<rparr>"

definition disable_interrupt :: "u64 \<Rightarrow> boot \<Rightarrow> boot" where
  "disable_interrupt interrupt_code b = b\<lparr>sie_csr := sie_csr b AND NOT interrupt_code\<rparr>"

section \<open>The interrupt controller (\<^verbatim>\<open>kern/plic.c\<close>)\<close>

definition parse_plic_device :: "dtstore \<Rightarrow> u64 \<Rightarrow> PlicData \<Rightarrow> (int \<times> PlicData) option" where
  "parse_plic_device d node data =
     do { compatible \<leftarrow> get_property d node (str ''compatible'');
          if compatible = 0 then Some (1, data)
          else
            do { ok \<leftarrow> contains_string (prop_bytes d compatible) (str ''sifive,plic-1.0.0'');
                 if \<not> ok then Some (1, data)
                 else
                   do { ndev \<leftarrow> get_property d node (str ''riscv,ndev'');
                        if ndev = 0 then Some (1, data)
                        else if pr_length (dt_prop d ndev) \<noteq> 4 then Some (1, data)
                        else
                          do { interrupt_count \<leftarrow> prop_be32 d ndev 0;
                               let data = data\<lparr>pd_interrupt_count := interrupt_count\<rparr>;
                               (ret, pa, len) \<leftarrow> get_reg_item d node 0 (pd_base_pa data) (pd_len data);
                               let data = data\<lparr>pd_base_pa := pa, pd_len := len\<rparr>;
                               if ret \<noteq> 0 then Some (ret, data)
                               else
                                 do { ext \<leftarrow> get_property d node (str ''interrupts-extended'');
                                      if ext = 0 then Some (1, data)
                                      else if pr_length (dt_prop d ext) \<noteq> 16 \<and> pr_length (dt_prop d ext) \<noteq> 8 then Some (1, data)
                                      else
                                        do { code \<leftarrow> prop_be32 d ext (if pr_length (dt_prop d ext) = 16 then 12 else 4);
                                             let data = data\<lparr>pd_s_interrupt_code := ucast code\<rparr>;
                                             if pd_s_interrupt_code data \<ge> 64 then Some (1, data) else Some (0, data) } } } } } }"

text \<open>The copy of the device for the controller's own use is stored through an unchecked pointer, too.\<close>

definition register_plic_device :: "PlicData \<Rightarrow> machine \<Rightarrow> machine option" where
  "register_plic_device data s =
     do { (slot, s) \<leftarrow> register_data (str ''plic'') (PlicData_bytes data) sizeof_PlicData s;
          (dev, h) \<leftarrow> kmalloc sizeof_Device (heap s);
          s \<leftarrow> add_mmio_range slot (pd_base_pa data) (pd_len data) (s\<lparr>heap := h\<rparr>);
          if dev = 0 then None
          else Some (s\<lparr>plic_device := Some (dev_list (devices s) ! slot)\<rparr>) }"

definition plic_init :: "dtstore \<Rightarrow> u64 \<Rightarrow> boot \<Rightarrow> boot option" where
  "plic_init d root b =
     do { nodes \<leftarrow> find_by_type d root (str ''plic'') 1;
          (case nodes of
             [] \<Rightarrow> Some b
           | plic_node # _ \<Rightarrow>
               do { (_, data) \<leftarrow> parse_plic_device d plic_node zero_plic;
                    s \<leftarrow> register_plic_device data (mach b);
                    let count = pd_interrupt_count data;
                    let s = s\<lparr>plic_base_pa := pd_base_pa data, plic_interrupt_count := count\<rparr>;
                    (table, h) \<leftarrow> kmalloc (8 * ucast count) (heap s);
                    if table = 0 \<and> count \<noteq> 0 then None
                    else
                      do { let s = s\<lparr>heap := h, plic_handler_set := (\<lambda>i. if i < unat count then False else plic_handler_set s i)\<rparr>;
                           b \<leftarrow> register_interrupt_handler (pd_s_interrupt_code data) Handle_plic_interrupt (b\<lparr>mach := s\<rparr>);
                           let b = enable_interrupt (pd_s_interrupt_code data) b;
                           s \<leftarrow> plic_set_prority_threshold 0 (mach b);
                           Some (b\<lparr>mach := s\<rparr>) } }) }"

section \<open>Traps (\<^verbatim>\<open>kern/traps.c\<close>)\<close>

text \<open>
  The tables of entry points, and the choice made by \<^verbatim>\<open>exc_gen_entry\<close>; a cause beyond the tables has no value.
  \<^verbatim>\<open>do_reserved\<close> prints and panics on every path.
\<close>

datatype trap_entry = Handle_reserved | Handle_sys | Handle_page_fault | Handle_interrupt | Handle_clock

definition exception_handlers :: "nat \<Rightarrow> trap_entry" where
  "exception_handlers i =
     (if i = 8 then Handle_sys else if i = 12 \<or> i = 13 \<or> i = 15 then Handle_page_fault else Handle_reserved)"

definition interrupt_handlers :: "nat \<Rightarrow> trap_entry" where
  "interrupt_handlers i = (if i = 5 then Handle_clock else Handle_interrupt)"

definition do_reserved :: "boot \<Rightarrow> boot option" where "do_reserved b = None"

definition do_interrupt :: "u64 \<Rightarrow> boot \<Rightarrow> (bool \<times> boot) option" where
  "do_interrupt frame b =
     (let interrupt_code = scause (kstack_tf (kern (mach b))) AND NOT (push_bit 63 1) in
      do { b \<leftarrow> (if interrupt_code \<ge> 64 then do_reserved b else Some b);
           b \<leftarrow> (if interrupt_handler_map b (unat interrupt_code) = None then do_reserved b else Some b);
           (case interrupt_handler_map b (unat interrupt_code) of
              None \<Rightarrow> None
            | Some Handle_plic_interrupt \<Rightarrow>
                do { (returned, s) \<leftarrow> handle_plic_interrupt frame (mach b); Some (returned, b\<lparr>mach := s\<rparr>) }) })"

text \<open>One trap: whether the handler returned to the trap exit, and the state.\<close>

definition run_entry :: "ctx \<Rightarrow> u64 \<Rightarrow> trap_entry \<Rightarrow> boot \<Rightarrow> (bool \<times> boot) option" where
  "run_entry c kernel_end e b =
     (let s = mach b in
      case e of
        Handle_reserved \<Rightarrow> map_option (\<lambda>b. (True, b)) (do_reserved b)
      | Handle_sys \<Rightarrow> map_option (\<lambda>(r, s). (r, b\<lparr>mach := s\<rparr>)) (do_syscall c s)
      | Handle_page_fault \<Rightarrow> map_option (\<lambda>k. (True, b\<lparr>mach := s\<lparr>kern := k\<rparr>\<rparr>)) (do_page_fault kernel_end (kstack_tf (kern s)) (kern s))
      | Handle_interrupt \<Rightarrow> do_interrupt (tf_va c) b
      | Handle_clock \<Rightarrow> map_option (\<lambda>k. (False, b\<lparr>mach := s\<lparr>kern := k\<rparr>\<rparr>)) (do_clock (kern s)))"

definition exc_gen_entry :: "ctx \<Rightarrow> u64 \<Rightarrow> boot \<Rightarrow> (bool \<times> boot) option" where
  "exc_gen_entry c kernel_end b =
     (let cause = scause (kstack_tf (kern (mach b))); code = cause AND NOT (push_bit 63 1) in
      if code \<ge> 64 then None
      else run_entry c kernel_end (if bit cause 63 then interrupt_handlers (unat code) else exception_handlers (unat code)) b)"

end
