(* ===== verification/DtRep.thy ===== *)
theory DtRep
  imports DeviceTree "HOL-Library.Multiset"
begin

text \<open>
  What the stores of the device tree represent: trees with the addresses of their blocks, apart from
  each other and from every other block in use.  Allocation on a heap with enough room succeeds
  and leaves what is represented alone.
\<close>

section \<open>Room in the heap\<close>

text \<open>The blocks in use are \<open>A\<close>, and a free block of \<open>N\<close> bytes is left.\<close>

definition roomy :: "kheap \<Rightarrow> (nat \<times> nat) set \<Rightarrow> nat \<Rightarrow> bool" where
  "roomy h A N \<longleftrightarrow> (\<exists>bs. heap_rep h bs \<and> A = used (unat KMALLOC_BEGIN_VA) bs
     \<and> (N = 0 \<or> (\<exists>m. (m, True) \<in> set bs \<and> N \<le> m)))"

text \<open>What a request takes from the room: its size rounded up, and a header.\<close>

definition cost :: "nat \<Rightarrow> nat" where "cost n = (n + 7) div 8 * 8 + 40"

lemma roomy_live: "roomy h A N \<Longrightarrow> live h A"
  by (auto simp: roomy_def live_def)

lemma first_fit_room:
  assumes "first_fit n bs = Some (off, bs')" "(m, True) \<in> set bs" "n mod 8 = 0" "\<forall>(k, f) \<in> set bs. k mod 8 = 0" "N \<le> m"
  shows "N - (n + 40) = 0 \<or> (\<exists>k. (k, True) \<in> set bs' \<and> N - (n + 40) \<le> k)"
proof -
  from first_fit_Some [OF assms(1)] obtain xs k ys where
    b: "bs = xs @ (k, True) # ys" "n \<le> k" "bs' = xs @ split_block n k @ ys" by blast
  consider "(m, True) \<in> set xs \<union> set ys" | "m = k" using assms(2) b(1) by auto
  then show ?thesis
  proof cases
    case 1
    then have "(m, True) \<in> set bs'" using b(3) by auto
    moreover have "N - (n + 40) \<le> m" using assms(5) by simp
    ultimately show ?thesis by blast
  next
    case 2
    show ?thesis
    proof (cases "k - n < 48")
      case True
      have "(k - n) mod 8 = 0" using assms(3,4) b(1,2) by (auto simp: mod_eq_0_iff_dvd dvd_diff_nat)
      with True have "k - n \<le> 40" by presburger
      then show ?thesis using assms(5) 2 by simp
    next
      case False
      then have "(k - n - 40, True) \<in> set bs'" by (simp add: b(3) split_block_def)
      moreover have "N - (n + 40) \<le> k - n - 40" using assms(5) 2 by simp
      ultimately show ?thesis by blast
    qed
  qed
qed

lemma kmalloc_roomy:
  assumes "roomy h A N" "cost (unat sz) \<le> N"
  shows "\<exists>p h' n. kmalloc sz h = Some (p, h') \<and> p \<noteq> 0 \<and> unat sz \<le> n \<and> (unat p, n) \<notin> A
    \<and> roomy h' (insert (unat p, n) A) (N - cost (unat sz))"
proof -
  from assms(1) obtain bs m where bs: "heap_rep h bs" "A = used (unat KMALLOC_BEGIN_VA) bs" "(m, True) \<in> set bs" "N \<le> m"
    using assms(2) by (auto simp: roomy_def cost_def)
  have mod8: "\<forall>(k, f) \<in> set bs. k mod 8 = 0" using bs(1) by (simp add: heap_rep_def tiled_def)
  have "m \<le> extent bs" using bs(3) by (induction bs rule: extent.induct) auto
  then have "m \<le> 1073741824" using bs(1) by (simp add: heap_rep_def tiled_def)
  then have sz: "unat sz + 7 < 2 ^ 64" using assms(2) bs(4) by (simp add: cost_def)
  let ?n = "unat (ROUND sz 8)"
  have n: "?n = (unat sz + 7) div 8 * 8" "?n mod 8 = 0" using unat_ROUND8 [OF sz] by simp_all
  have ff: "first_fit ?n bs \<noteq> None" using bs(4) assms(2) n(1) by (auto simp: first_fit_None cost_def intro!: bexI [OF _ bs(3)])
  from kmalloc_live [OF bs(1) sz] ff obtain p h' bs' where
    k: "kmalloc sz h = Some (p, h')" "heap_rep h' bs'" "p \<noteq> 0"
      "first_fit ?n bs = Some (unat p - unat KMALLOC_BEGIN_VA - 40, bs')" "unat p \<ge> unat KMALLOC_BEGIN_VA + 40" by auto
  from first_fit_used [OF k(4), of "unat KMALLOC_BEGIN_VA"] k(5) bs(2) obtain l where
    l: "?n \<le> l" "(unat p, l) \<notin> A" "used (unat KMALLOC_BEGIN_VA) bs' = insert (unat p, l) A" by auto
  from first_fit_room [OF k(4) bs(3) n(2) mod8 bs(4)] l(3) k(2) n(1)
  have "roomy h' (insert (unat p, l) A) (N - cost (unat sz))" unfolding roomy_def cost_def by auto
  moreover have "unat sz \<le> l" using l(1) n(1) by linarith
  ultimately show ?thesis using k l by blast
qed

section \<open>Blocks of a store\<close>

text \<open>
  The heap of the store holds the foreign blocks \<open>B\<close> and one block at each address of \<open>L\<close>, and has
  room for \<open>N\<close> bytes.
\<close>

definition held :: "dtstore \<Rightarrow> (nat \<times> nat) set \<Rightarrow> u64 list \<Rightarrow> nat \<Rightarrow> bool" where
  "held d B L N \<longleftrightarrow> (\<exists>z. roomy (dt_heap d) (B \<union> (\<lambda>p. (unat p, z p)) ` set L) N) \<and> distinct L
     \<and> (\<forall>p \<in> set L. \<forall>n. (unat p, n) \<notin> B)"

text \<open>Two stores with the same contents at some addresses.\<close>

definition agree :: "dtstore \<Rightarrow> dtstore \<Rightarrow> u64 set \<Rightarrow> bool" where
  "agree d d' X \<longleftrightarrow> (\<forall>x \<in> X. dt_node d' x = dt_node d x \<and> dt_prop d' x = dt_prop d x \<and> dt_bytes d' x = dt_bytes d x)"

lemma agree_refl [simp]: "agree d d X"
  by (simp add: agree_def)

lemma agree_trans: "agree d d' X \<Longrightarrow> agree d' d'' Y \<Longrightarrow> X \<subseteq> Y \<Longrightarrow> agree d d'' X"
  by (auto simp: agree_def)

lemma agree_subset: "agree d d' X \<Longrightarrow> Y \<subseteq> X \<Longrightarrow> agree d d' Y"
  by (auto simp: agree_def)

lemma agree_heap [simp]: "agree d (d'\<lparr>dt_heap := h\<rparr>) X = agree d d' X" "agree (d\<lparr>dt_heap := h\<rparr>) d' X = agree d d' X"
  by (simp_all add: agree_def)

lemma held_contents [simp]:
  "held (set_node a f d) B L N = held d B L N" "held (set_bytes a xs d) B L N = held d B L N"
  "held (d\<lparr>dt_prop := g\<rparr>) B L N = held d B L N"
  by (simp_all add: held_def set_node_def set_bytes_def)

lemma dt_alloc_held:
  assumes "held d B L N" "cost (unat sz) \<le> N"
  shows "\<exists>p h. dt_alloc sz d = Some (p, d\<lparr>dt_heap := h\<rparr>) \<and> p \<noteq> 0 \<and> p \<notin> set L
    \<and> held (d\<lparr>dt_heap := h\<rparr>) B (p # L) (N - cost (unat sz))"
proof -
  from assms(1) obtain z where z: "roomy (dt_heap d) (B \<union> (\<lambda>p. (unat p, z p)) ` set L) N"
    and L: "distinct L" "\<forall>p \<in> set L. \<forall>n. (unat p, n) \<notin> B" by (auto simp: held_def)
  let ?A = "B \<union> (\<lambda>p. (unat p, z p)) ` set L"
  from kmalloc_roomy [OF z assms(2)] obtain p h n where
    k: "kmalloc sz (dt_heap d) = Some (p, h)" "p \<noteq> 0" "(unat p, n) \<notin> ?A" "roomy h (insert (unat p, n) ?A) (N - cost (unat sz))" by blast
  have fresh: "(unat p, i) \<notin> ?A" for i
  proof
    assume "(unat p, i) \<in> ?A"
    with k(3) kh.live_disjoint [OF roomy_live [OF k(4)], of "unat p" n "unat p" i] show False by auto
  qed
  then have "p \<notin> set L" "\<forall>n. (unat p, n) \<notin> B" by auto
  moreover have "insert (unat p, n) ?A = B \<union> (\<lambda>q. (unat q, (z(p := n)) q)) ` set (p # L)"
    using \<open>p \<notin> set L\<close> by (auto simp: image_def)
  with k(4) have "\<exists>z. roomy h (B \<union> (\<lambda>q. (unat q, z q)) ` set (p # L)) (N - cost (unat sz))" by metis
  ultimately show ?thesis using k(1,2) L by (auto simp: dt_alloc_def held_def)
qed

text \<open>A block given back is no longer held.\<close>

lemma dt_free_held:
  assumes "held d B (xs @ p # ys) 0"
  shows "\<exists>h. dt_free p d = Some (d\<lparr>dt_heap := h\<rparr>) \<and> held (d\<lparr>dt_heap := h\<rparr>) B (xs @ ys) 0"
proof -
  from assms obtain z where z: "live (dt_heap d) (B \<union> (\<lambda>p. (unat p, z p)) ` set (xs @ p # ys))"
    and L: "distinct (xs @ p # ys)" "\<forall>p \<in> set (xs @ p # ys). \<forall>n. (unat p, n) \<notin> B"
    using roomy_live by (fastforce simp: held_def)
  have "(unat p, z p) \<in> B \<union> (\<lambda>p. (unat p, z p)) ` set (xs @ p # ys)" by simp
  from kh.free_live [OF z this] obtain h where
    h: "kfree p (dt_heap d) = Some h" "live h (B \<union> (\<lambda>p. (unat p, z p)) ` set (xs @ p # ys) - {(unat p, z p)})" by blast
  have "B \<union> (\<lambda>p. (unat p, z p)) ` set (xs @ p # ys) - {(unat p, z p)} = B \<union> (\<lambda>p. (unat p, z p)) ` set (xs @ ys)"
    using L by (auto simp: image_def dest!: word_unat_eq_iff [THEN iffD2])
  with h(2) have "roomy h (B \<union> (\<lambda>p. (unat p, z p)) ` set (xs @ ys)) 0" by (auto simp: roomy_def live_def)
  with h(1) L show ?thesis by (auto simp: dt_free_def held_def)
qed

section \<open>Trees\<close>

text \<open>A property and a node with the addresses of their blocks; lists are in the order of the links.\<close>

datatype aprop = AProp (ap: u64) (ap_np: u64) (ap_vp: u64) (ap_name: "u8 list") (ap_val: "u8 list")

datatype anode = ANode (an: u64) (an_np: u64) (an_name: "u8 list") (an_props: "aprop list") (an_kids: "anode list")

definition phead :: "aprop list \<Rightarrow> u64" where "phead ps = (case ps of [] \<Rightarrow> 0 | p # _ \<Rightarrow> ap p)"

definition khead :: "anode list \<Rightarrow> u64" where "khead ks = (case ks of [] \<Rightarrow> 0 | k # _ \<Rightarrow> an k)"

lemma heads [simp]: "phead [] = 0" "phead (p # ps) = ap p" "khead [] = 0" "khead (k # ks) = an k"
  by (simp_all add: phead_def khead_def)

fun pfoot :: "aprop list \<Rightarrow> u64 list" where
  "pfoot [] = []"
| "pfoot (AProp a np vp n v # ps) = a # np # vp # pfoot ps"

fun foot :: "anode list \<Rightarrow> u64 list" where
  "foot [] = []"
| "foot (ANode a np n ps ks # r) = a # np # pfoot ps @ foot ks @ foot r"

lemma pfoot_append [simp]: "pfoot (ps @ qs) = pfoot ps @ pfoot qs"
  by (induction ps rule: pfoot.induct) auto

lemma foot_append [simp]: "foot (ks @ ls) = foot ks @ foot ls"
  by (induction ks rule: foot.induct) auto

fun props_ok :: "dtstore \<Rightarrow> aprop list \<Rightarrow> bool" where
  "props_ok d [] = True"
| "props_ok d (AProp a np vp n v # ps) \<longleftrightarrow> a \<noteq> 0
     \<and> dt_prop d a = \<lparr>pr_name = np, pr_length = of_nat (length v), pr_value = vp, pr_next = phead ps\<rparr>
     \<and> dt_bytes d np = n @ [0] \<and> 0 \<notin> set n \<and> dt_bytes d vp = v \<and> props_ok d ps"

fun nodes_ok :: "dtstore \<Rightarrow> u64 \<Rightarrow> anode list \<Rightarrow> bool" where
  "nodes_ok d par [] = True"
| "nodes_ok d par (ANode a np n ps ks # r) \<longleftrightarrow> a \<noteq> 0
     \<and> dt_node d a = \<lparr>dn_name = np, dn_parent = par, dn_child = khead ks, dn_sibling = khead r, dn_properties = phead ps\<rparr>
     \<and> dt_bytes d np = n @ [0] \<and> 0 \<notin> set n \<and> props_ok d ps \<and> nodes_ok d a ks \<and> nodes_ok d par r"

lemma props_ok_agree: "props_ok d ps \<Longrightarrow> agree d d' (set (pfoot ps)) \<Longrightarrow> props_ok d' ps"
  by (induction d ps rule: props_ok.induct) (auto simp: agree_def)

lemma nodes_ok_agree: "nodes_ok d par ks \<Longrightarrow> agree d d' (set (foot ks)) \<Longrightarrow> nodes_ok d' par ks"
proof (induction d par ks rule: nodes_ok.induct)
  case (2 d par a np n ps ks r)
  have "agree d d' (set (pfoot ps))" "agree d d' (set (foot ks))" "agree d d' (set (foot r))"
    using 2(4) by (auto simp: agree_def)
  with 2 props_ok_agree [of d ps d'] show ?case by (simp add: agree_def)
qed simp

lemma str_at_name: "dt_bytes d p = n @ [0] \<Longrightarrow> 0 \<notin> set n \<Longrightarrow> str_at d p = n"
  by (simp add: str_at_def takeWhile_append)

section \<open>Freeing\<close>

lemma held_perm:
  assumes "mset L = mset L'" "held d B L N"
  shows "held d B L' N"
  using mset_eq_setD [OF assms(1)] mset_eq_imp_distinct_iff [OF assms(1)] assms(2) by (simp add: held_def)

lemma dt_free_first: "held d B (p # L) 0 \<Longrightarrow> \<exists>h. dt_free p d = Some (d\<lparr>dt_heap := h\<rparr>) \<and> held (d\<lparr>dt_heap := h\<rparr>) B L 0"
  using dt_free_held [of d B "[]" p L] by simp

lemma props_ok_heap [simp]: "props_ok (d\<lparr>dt_heap := h\<rparr>) ps = props_ok d ps"
  by (induction ps rule: pfoot.induct) auto

lemma nodes_ok_heap [simp]: "nodes_ok (d\<lparr>dt_heap := h\<rparr>) par ks = nodes_ok d par ks"
  by (induction ks arbitrary: par rule: foot.induct) auto

lemma free_property_held:
  assumes "held d B (a # np # vp # L) 0" "pr_name (dt_prop d a) = np" "pr_value (dt_prop d a) = vp"
  shows "\<exists>h. free_property a d = Some (d\<lparr>dt_heap := h\<rparr>) \<and> held (d\<lparr>dt_heap := h\<rparr>) B L 0"
proof -
  have "held d B (np # vp # a # L) 0" by (rule held_perm [OF _ assms(1)]) simp
  from dt_free_first [OF this] obtain h1 where
    1: "dt_free np d = Some (d\<lparr>dt_heap := h1\<rparr>)" "held (d\<lparr>dt_heap := h1\<rparr>) B (vp # a # L) 0" by blast
  from dt_free_first [OF 1(2)] obtain h2 where
    2: "dt_free vp (d\<lparr>dt_heap := h1\<rparr>) = Some (d\<lparr>dt_heap := h2\<rparr>)" "held (d\<lparr>dt_heap := h2\<rparr>) B (a # L) 0" by auto
  from dt_free_first [OF 2(2)] 1(1) 2(1) assms(2,3) show ?thesis by (auto simp: free_property_def)
qed

lemma free_properties_held:
  "props_ok d ps \<Longrightarrow> held d B (pfoot ps @ L) 0 \<Longrightarrow>
     \<exists>h. free_properties (phead ps) d = Some (d\<lparr>dt_heap := h\<rparr>) \<and> held (d\<lparr>dt_heap := h\<rparr>) B L 0"
proof (induction ps arbitrary: d rule: pfoot.induct)
  case 1
  then show ?case by (auto simp: free_properties.simps intro!: exI [of _ "dt_heap d"])
next
  case (2 a np vp n v ps)
  from free_property_held [of d B a np vp "pfoot ps @ L"] 2(2,3) obtain h where
    h: "free_property a d = Some (d\<lparr>dt_heap := h\<rparr>)" "held (d\<lparr>dt_heap := h\<rparr>) B (pfoot ps @ L) 0" by auto
  from 2(1) [OF _ h(2)] 2(2) obtain h' where
    "free_properties (phead ps) (d\<lparr>dt_heap := h\<rparr>) = Some (d\<lparr>dt_heap := h'\<rparr>)" "held (d\<lparr>dt_heap := h'\<rparr>) B L 0" by auto
  with h(1) 2(2) show ?case by (auto simp: free_properties.simps [of a])
qed

lemma free_device_node_held:
  assumes "dt_node d a = \<lparr>dn_name = np, dn_parent = par, dn_child = c, dn_sibling = s, dn_properties = phead ps\<rparr>"
    "props_ok d ps" "held d B (a # np # pfoot ps @ L) 0"
  shows "\<exists>h. free_device_node a d = Some (d\<lparr>dt_heap := h\<rparr>) \<and> held (d\<lparr>dt_heap := h\<rparr>) B L 0"
proof -
  have "held d B (pfoot ps @ np # a # L) 0" by (rule held_perm [OF _ assms(3)]) simp
  from free_properties_held [OF assms(2) this] obtain h1 where
    1: "free_properties (phead ps) d = Some (d\<lparr>dt_heap := h1\<rparr>)" "held (d\<lparr>dt_heap := h1\<rparr>) B (np # a # L) 0" by blast
  from dt_free_first [OF 1(2)] obtain h2 where
    2: "dt_free np (d\<lparr>dt_heap := h1\<rparr>) = Some (d\<lparr>dt_heap := h2\<rparr>)" "held (d\<lparr>dt_heap := h2\<rparr>) B (a # L) 0" by auto
  from dt_free_first [OF 2(2)] 1(1) 2(1) assms(1) show ?thesis by (auto simp: free_device_node_def)
qed

lemma free_siblings_held:
  "nodes_ok d par ks \<Longrightarrow> held d B (foot ks @ L) 0 \<Longrightarrow>
     \<exists>h. free_siblings (khead ks) d = Some (d\<lparr>dt_heap := h\<rparr>) \<and> held (d\<lparr>dt_heap := h\<rparr>) B L 0"
proof (induction ks arbitrary: d par L rule: foot.induct)
  case 1
  then show ?case by (auto simp: free_siblings.simps intro!: exI [of _ "dt_heap d"])
next
  case (2 a np n ps ks r)
  have "held d B (foot ks @ (a # np # pfoot ps @ foot r @ L)) 0" by (rule held_perm [OF _ 2(4)]) simp
  from 2(1) [OF _ this, of a] 2(3) obtain h1 where
    1: "free_siblings (khead ks) d = Some (d\<lparr>dt_heap := h1\<rparr>)" "held (d\<lparr>dt_heap := h1\<rparr>) B (a # np # pfoot ps @ foot r @ L) 0" by auto
  from free_device_node_held [OF _ _ 1(2)] 2(3) obtain h2 where
    h2: "free_device_node a (d\<lparr>dt_heap := h1\<rparr>) = Some (d\<lparr>dt_heap := h2\<rparr>)" "held (d\<lparr>dt_heap := h2\<rparr>) B (foot r @ L) 0" by fastforce
  from 2(2) [OF _ h2(2), of par] 2(3) obtain h3 where
    "free_siblings (khead r) (d\<lparr>dt_heap := h2\<rparr>) = Some (d\<lparr>dt_heap := h3\<rparr>)" "held (d\<lparr>dt_heap := h3\<rparr>) B L 0" by auto
  with 1(1) h2(1) 2(3) show ?case by (auto simp: free_siblings.simps [of a])
qed

lemma held_less: "held d B L N \<Longrightarrow> M \<le> N \<Longrightarrow> held d B L M"
  by (auto simp: held_def roomy_def intro: order_trans)

lemma free_device_tree_held:
  assumes "nodes_ok d 0 [t]" "held d B (foot [t] @ L) N"
  shows "\<exists>h. free_device_tree (an t) d = Some (d\<lparr>dt_heap := h\<rparr>) \<and> held (d\<lparr>dt_heap := h\<rparr>) B L 0"
proof (cases t)
  case (ANode a np n ps ks)
  have "held d B (foot ks @ (a # np # pfoot ps @ L)) 0"
    by (rule held_perm [OF _ held_less [OF assms(2)]]) (simp_all add: ANode)
  from free_siblings_held [OF _ this, of a] assms(1) obtain h1 where
    1: "free_siblings (khead ks) d = Some (d\<lparr>dt_heap := h1\<rparr>)" "held (d\<lparr>dt_heap := h1\<rparr>) B (a # np # pfoot ps @ L) 0"
    by (auto simp: ANode)
  from free_device_node_held [OF _ _ 1(2)] assms(1) obtain h2 where
    "free_device_node a (d\<lparr>dt_heap := h1\<rparr>) = Some (d\<lparr>dt_heap := h2\<rparr>)" "held (d\<lparr>dt_heap := h2\<rparr>) B L 0" by (fastforce simp: ANode)
  with 1(1) assms(1) show ?thesis by (auto simp: free_device_tree_def free_device_tree_node_def ANode)
qed

end
