(* ===== verification/DtParse.thy ===== *)
theory DtParse
  imports DtRep
begin

text \<open>
  The flattened form of a device tree and its parser: the bytes of a tree, what the parser does with
  each token, and that it rebuilds the tree.  Children and properties are linked in at the head, so
  that their order in the store is the reverse of the order in the file.
\<close>

section \<open>The flattened tree\<close>

datatype fdt = Fdt (f_nm: "u8 list") (f_ps: "(u8 list \<times> u8 list) list") (f_ks: "fdt list")

definition be32 :: "u32 \<Rightarrow> u8 list" where
  "be32 v = [ucast (drop_bit 24 v), ucast (drop_bit 16 v), ucast (drop_bit 8 v), ucast v]"

definition pad4 :: "u8 list \<Rightarrow> u8 list" where "pad4 xs = xs @ replicate ((4 - length xs mod 4) mod 4) 0"

text \<open>The names of properties are offsets into the block of strings, given by \<open>off\<close>.\<close>

fun enc_props :: "(u8 list \<Rightarrow> u32) \<Rightarrow> (u8 list \<times> u8 list) list \<Rightarrow> u8 list" where
  "enc_props off [] = []"
| "enc_props off ((n, v) # ps) = be32 FDT_PROP @ be32 (of_nat (length v)) @ be32 (off n) @ pad4 v @ enc_props off ps"

fun enc :: "(u8 list \<Rightarrow> u32) \<Rightarrow> fdt list \<Rightarrow> u8 list" where
  "enc off [] = []"
| "enc off (Fdt n ps ks # r) =
     be32 FDT_BEGIN_NODE @ pad4 (n @ [0]) @ enc_props off ps @ enc off ks @ be32 FDT_END_NODE @ enc off r"

definition bytes_at :: "memory \<Rightarrow> u64 \<Rightarrow> u8 list \<Rightarrow> bool" where
  "bytes_at m a xs \<longleftrightarrow> (\<forall>i < length xs. m (a + of_nat i) = xs ! i)"

lemma bytes_at_append: "bytes_at m a (xs @ ys) \<longleftrightarrow> bytes_at m a xs \<and> bytes_at m (a + of_nat (length xs)) ys"
proof -
  have "(\<forall>i < length (xs @ ys). m (a + of_nat i) = (xs @ ys) ! i) \<longleftrightarrow>
    (\<forall>i < length xs. m (a + of_nat i) = xs ! i) \<and> (\<forall>i < length ys. m (a + of_nat (length xs) + of_nat i) = ys ! i)"
    (is "?L \<longleftrightarrow> ?R")
  proof
    assume L: ?L
    have "m (a + of_nat (length xs) + of_nat i) = ys ! i" if "i < length ys" for i
      using L [rule_format, of "length xs + i"] that by (simp add: add.assoc)
    with L show ?R by (auto simp: nth_append)
  next
    assume R: ?R
    show ?L
    proof (intro allI impI)
      fix i
      assume "i < length (xs @ ys)"
      then show "m (a + of_nat i) = (xs @ ys) ! i"
        using R by (cases "i < length xs") (auto simp: nth_append dest!: spec [of _ "i - length xs"])
    qed
  qed
  then show ?thesis by (simp add: bytes_at_def)
qed

lemma length_be32 [simp]: "length (be32 v) = 4"
  by (simp add: be32_def)

lemma up3_div4: "((n :: nat) + 3) div 4 = (if n mod 4 = 0 then n div 4 else n div 4 + 1)"
proof -
  have e: "(n + 3) div 4 = n div 4 + (n mod 4 + 3) div 4" by (subst div_add1_eq) simp
  consider "n mod 4 = 0" | "n mod 4 = 1" | "n mod 4 = 2" | "n mod 4 = 3" by linarith
  then show ?thesis using e by cases simp_all
qed

lemma length_pad4: "length (pad4 xs) = 4 * ((length xs + 3) div 4)"
proof -
  have "n + (4 - n mod 4) mod 4 = 4 * ((n + 3) div 4)" for n :: nat
  proof -
    have e: "4 * (n div 4) + n mod 4 = n" by simp
    consider "n mod 4 = 0" | "n mod 4 = 1" | "n mod 4 = 2" | "n mod 4 = 3" by linarith
    then show ?thesis using e by cases (simp_all add: up3_div4)
  qed
  then show ?thesis by (simp add: pad4_def)
qed

lemma be32_bytes: "i < 4 \<Longrightarrow> be32 v ! i = byte_of i (ucast (swap_uint32 v))"
proof (rule bit_word_eqI)
  fix n
  assume "i < 4" "n < LENGTH(8)"
  then have "i \<in> set [0..<4]" "n \<in> set [0..<8]" by simp_all
  then show "bit (be32 v ! i) n = bit (byte_of i (ucast (swap_uint32 v))) n"
    by (simp add: upt_rec, elim disjE)
      (simp_all add: be32_def byte_of_def swap_uint32_def Let_def bit_simps, simp_all add: numeral_eq_Suc)
qed

lemma fdt32_be32:
  assumes "bytes_at m a (be32 v)"
  shows "fdt32 m a = v"
proof -
  have "load32 m a = load_le 4 (store_le 4 (\<lambda>_. 0) a (ucast (swap_uint32 v))) a"
    unfolding load32_def
  proof (rule load_le_cong)
    fix i :: nat
    assume "i < 4"
    then show "m (a + of_nat i) = store_le 4 (\<lambda>_. 0) a (ucast (swap_uint32 v)) (a + of_nat i)"
      using assms by (simp add: bytes_at_def be32_bytes store_le_apply)
  qed
  also have "\<dots> = take_bit 32 (ucast (swap_uint32 v))" using load_le_store_le_same [of 4] by simp
  finally have "ucast (load32 m a) = swap_uint32 v"
    by (simp add: bit_eq_iff bit_simps)
  then show ?thesis by (simp add: fdt32_def be32toh_def swap_uint32_twice)
qed

section \<open>Positions\<close>

definition aligned4 :: "u64 \<Rightarrow> bool" where "aligned4 a \<longleftrightarrow> unat a mod 4 = 0"

lemma unat_add_mod4: "unat (a + of_nat k :: u64) mod 4 = (unat a + k) mod 4"
proof -
  have "unat (a + of_nat k :: u64) = (unat a + k) mod 2 ^ 64"
    by (simp add: unat_word_ariths unsigned_of_nat take_bit_eq_mod mod_simps)
  then show ?thesis by (simp add: mod_mod_cancel)
qed

lemma aligned4_add: "aligned4 a \<Longrightarrow> k mod 4 = 0 \<Longrightarrow> aligned4 (a + of_nat k)"
  by (simp add: aligned4_def unat_add_mod4) (metis add_0 mod_add_left_eq)

lemma ROUND4:
  assumes "aligned4 b"
  shows "ROUND (b + of_nat k) 4 = b + of_nat (4 * ((k + 3) div 4))"
proof -
  let ?x = "b + of_nat (k + 3)"
  have m: "(3 :: u64) = mask 2" by (simp add: mask_eq_exp_minus_1)
  have "ROUND (b + of_nat k) 4 = ?x AND NOT (mask 2)" by (simp add: ROUND_def m [symmetric] algebra_simps)
  also have "\<dots> = push_bit 2 (drop_bit 2 ?x)"
  proof (rule bit_word_eqI)
    have "Suc (Suc (n - 2)) = n" if "2 \<le> n" for n using that by simp
    then show "bit (?x AND NOT (mask 2)) n = bit (push_bit 2 (drop_bit 2 ?x)) n" for n by (auto simp: bit_simps)
  qed
  also have "\<dots> = ?x div 4 * 4" by (simp add: push_bit_eq_mult drop_bit_eq_div)
  also have "\<dots> = ?x - ?x mod 4" by (simp add: minus_mod_eq_div_mult)
  also have "?x mod 4 = of_nat ((k + 3) mod 4)"
  proof -
    have "unat (?x mod 4) = unat ?x mod 4" by (simp add: unat_mod)
    also have "\<dots> = (unat b + (k + 3)) mod 4" by (rule unat_add_mod4)
    also have "\<dots> = (k + 3) mod 4" using assms by (metis add_0 aligned4_def mod_add_left_eq)
    also have "\<dots> = unat (of_nat ((k + 3) mod 4) :: u64)" by (subst unat_of_nat64) (simp_all add: order_less_le_trans [OF mod_less_divisor])
    finally show ?thesis by (simp only: word_unat_eq_iff)
  qed
  also have "?x - of_nat ((k + 3) mod 4) = b + of_nat (4 * ((k + 3) div 4))"
  proof -
    have "of_nat (k + 3) = (of_nat (4 * ((k + 3) div 4)) + of_nat ((k + 3) mod 4) :: u64)"
      by (subst of_nat_add [symmetric]) simp
    then show ?thesis by simp
  qed
  finally show ?thesis .
qed

section \<open>Single tokens\<close>

lemma parse_go: "parse_token m str a s = Some (True, a', s') \<Longrightarrow> parse_loop m str a s = parse_loop m str a' s'"
  by (subst parse_loop.simps) simp

lemma parse_stop: "parse_token m str a s = Some (False, a', s') \<Longrightarrow> parse_loop m str a s = Some s'"
  by (subst parse_loop.simps) simp

lemma parse_padding: "fdt32 m a = 0 \<Longrightarrow> parse_loop m str a s = parse_loop m str (a + 4) s"
  by (rule parse_go) (simp add: parse_token_def)

lemmas tokens = FDT_BEGIN_NODE_def FDT_END_NODE_def FDT_PROP_def FDT_NOP_def FDT_END_def

lemma parse_end_node:
  "bytes_at m a (be32 FDT_END_NODE) \<Longrightarrow> parse_loop m str a s = parse_loop m str (a + 4) (s\<lparr>ps_top := ps_top s - 1\<rparr>)"
  by (rule parse_go) (simp add: parse_token_def fdt32_be32 tokens)

lemma parse_end: "bytes_at m a (be32 FDT_END) \<Longrightarrow> parse_loop m str a s = Some s"
  by (rule parse_stop [where a' = "a + 4"]) (simp add: parse_token_def fdt32_be32 tokens)

lemma cstring_cstr: "cstr m a xs \<Longrightarrow> cstring m a = Some xs"
  by (auto simp: cstring_def strlen_cstr cstr_iff intro!: nth_equalityI)

lemma cstr_bytes: "bytes_at m a (xs @ [0]) \<Longrightarrow> 0 \<notin> set xs \<Longrightarrow> cstr m a xs"
  by (auto simp: cstr_iff bytes_at_def nth_append All_less_Suc dest: nth_mem)

text \<open>After a name the parser may stand on its terminator, which then reads as padding.\<close>

lemma parse_after_name:
  assumes "aligned4 a" "bytes_at m a (pad4 (n @ [0]))"
  shows "parse_loop m str (ROUND (a + of_nat (length n)) 4) s = parse_loop m str (a + of_nat (length (pad4 (n @ [0])))) s"
proof (cases "length n mod 4 = 0")
  case False
  then have "(length n + 3) div 4 = (length n + 4) div 4" by (simp add: up3_div4)
  then show ?thesis by (simp add: ROUND4 [OF assms(1)] length_pad4 add.commute)
next
  case True
  then have l: "(length n + 3) div 4 = length n div 4" "4 * (length n div 4) = length n" by (auto simp: up3_div4)
  then have r: "ROUND (a + of_nat (length n)) 4 = a + of_nat (length n)" by (simp only: ROUND4 [OF assms(1)])
  from True have k: "length (n @ [0 :: u8]) mod 4 = 1" by (simp add: mod_Suc)
  have "replicate 3 (0 :: u8) = [0, 0, 0]" by code_simp
  then have "pad4 (n @ [0]) = n @ [0, 0, 0, 0]" unfolding pad4_def k by simp
  moreover have "[0, 0, 0, 0] = be32 0" by (simp add: be32_def)
  ultimately have "fdt32 m (a + of_nat (length n)) = 0" "length (pad4 (n @ [0])) = length n + 4"
    using assms(2) by (simp_all add: bytes_at_append fdt32_be32)
  then show ?thesis by (simp add: r parse_padding add.assoc)
qed

section \<open>Nodes and properties\<close>

definition node_cost :: "u8 list \<Rightarrow> nat" where "node_cost n = cost 40 + cost (length n + 1)"

definition prop_cost :: "u8 list \<times> u8 list \<Rightarrow> nat" where
  "prop_cost p = cost 32 + cost (length (fst p) + 1) + cost (length (snd p))"

lemma create_device_node_held:
  assumes "held d B L N" "node_cost n \<le> N" "length n < 2 ^ 32"
  shows "\<exists>c np d'. create_device_node n d = Some (c, d') \<and> c \<noteq> 0 \<and> np \<noteq> 0 \<and> c \<noteq> np \<and> c \<notin> set L \<and> np \<notin> set L
    \<and> held d' B (np # c # L) (N - node_cost n) \<and> agree d d' (set L)
    \<and> dt_node d' c = \<lparr>dn_name = np, dn_parent = 0, dn_child = 0, dn_sibling = 0, dn_properties = 0\<rparr>
    \<and> dt_bytes d' np = n @ [0]"
proof -
  define w :: u64 where "w = of_nat (length n + 1)"
  have c: "cost (unat sizeof_device_node) = cost 40" by (simp add: sizeof_device_node_def)
  have cw: "unat w = length n + 1" unfolding w_def using assms(3) by (intro unat_of_nat64) simp
  from dt_alloc_held [OF assms(1), of sizeof_device_node] assms(2) obtain a h where
    a: "dt_alloc sizeof_device_node d = Some (a, d\<lparr>dt_heap := h\<rparr>)" "a \<noteq> 0" "a \<notin> set L"
      "held (d\<lparr>dt_heap := h\<rparr>) B (a # L) (N - cost 40)" by (auto simp: c node_cost_def)
  have "cost (unat w) \<le> N - cost 40" using assms(2) by (simp add: cw node_cost_def)
  from dt_alloc_held [OF a(4) this] obtain np h' where
    b: "dt_alloc w (d\<lparr>dt_heap := h\<rparr>) = Some (np, d\<lparr>dt_heap := h'\<rparr>)" "np \<noteq> 0" "np \<notin> set (a # L)"
      "held (d\<lparr>dt_heap := h'\<rparr>) B (np # a # L) (N - node_cost n)" by (auto simp: cw node_cost_def)
  let ?d = "set_node a (\<lambda>_. \<lparr>dn_name = np, dn_parent = 0, dn_child = 0, dn_sibling = 0, dn_properties = 0\<rparr>)
    (set_bytes np (n @ [0]) (d\<lparr>dt_heap := h'\<rparr>))"
  have "create_device_node n d = Some (a, ?d)" using a(1) b(1) by (simp add: create_device_node_def w_def)
  moreover have "agree d ?d (set L)" using a(3) b(3) by (auto simp: agree_def set_node_def set_bytes_def)
  moreover have "held ?d B (np # a # L) (N - node_cost n)" using b(4) by simp
  ultimately show ?thesis using a(2,3) b(2,3) by (intro exI [of _ a] exI [of _ np] exI [of _ ?d]) (auto simp: set_node_def set_bytes_def)
qed

lemma insert_property_held:
  assumes "held d B L N" "prop_cost (n, v) \<le> N" "length n < 2 ^ 32" "length v < 2 ^ 32" "c \<in> set L"
  shows "\<exists>a np vp d'. device_node_insert_propertiy c n (of_nat (length v)) v d = Some d' \<and> a \<noteq> 0
    \<and> set [a, np, vp] \<inter> set L = {} \<and> distinct [a, np, vp]
    \<and> held d' B (vp # np # a # L) (N - prop_cost (n, v)) \<and> agree d d' (set L - {c})
    \<and> dt_node d' c = (dt_node d c)\<lparr>dn_properties := a\<rparr> \<and> dt_prop d' c = dt_prop d c \<and> dt_bytes d' c = dt_bytes d c
    \<and> dt_prop d' a = \<lparr>pr_name = np, pr_length = of_nat (length v), pr_value = vp, pr_next = dn_properties (dt_node d c)\<rparr>
    \<and> dt_bytes d' np = n @ [0] \<and> dt_bytes d' vp = v"
proof -
  define k :: u64 where "k = of_nat (length n + 1)"
  have w: "unat k = length n + 1" unfolding k_def using assms(3) by (intro unat_of_nat64) simp
  have "unat (of_nat (length v) :: u32) = length v" using assms(4) by (simp add: unsigned_of_nat take_bit_nat_eq_self)
  then have w': "unat (ucast (of_nat (length v) :: u32) :: u64) = length v" using assms(4) by (simp add: unsigned_ucast_eq take_bit_nat_eq_self)
  from dt_alloc_held [OF assms(1), of sizeof_property] assms(2) obtain a h where
    a: "dt_alloc sizeof_property d = Some (a, d\<lparr>dt_heap := h\<rparr>)" "a \<noteq> 0" "a \<notin> set L"
      "held (d\<lparr>dt_heap := h\<rparr>) B (a # L) (N - cost 32)" by (auto simp: sizeof_property_def prop_cost_def)
  have "cost (unat k) \<le> N - cost 32" using assms(2) by (simp add: w prop_cost_def)
  from dt_alloc_held [OF a(4) this] obtain np h2 where
    b: "dt_alloc k (d\<lparr>dt_heap := h\<rparr>) = Some (np, d\<lparr>dt_heap := h2\<rparr>)" "np \<notin> set (a # L)"
      "held (d\<lparr>dt_heap := h2\<rparr>) B (np # a # L) (N - cost 32 - cost (length n + 1))" by (auto simp: w prop_cost_def)
  let ?d = "set_bytes np (n @ [0]) (d\<lparr>dt_heap := h2\<rparr>)"
  have hd: "held ?d B (np # a # L) (N - cost 32 - cost (length n + 1))" using b(3) by simp
  have "cost (unat (ucast (of_nat (length v) :: u32) :: u64)) \<le> N - cost 32 - cost (length n + 1)"
    using assms(2) unfolding w' by (simp add: prop_cost_def)
  from dt_alloc_held [OF hd this] obtain vp h3 where
    e: "dt_alloc (ucast (of_nat (length v) :: u32)) ?d = Some (vp, ?d\<lparr>dt_heap := h3\<rparr>)" "vp \<notin> set (np # a # L)"
      "held (?d\<lparr>dt_heap := h3\<rparr>) B (vp # np # a # L) (N - prop_cost (n, v))"
    unfolding w' by (auto simp: prop_cost_def)
  let ?e = "set_bytes vp v (?d\<lparr>dt_heap := h3\<rparr>)"
  let ?f = "set_node c (\<lambda>x. x\<lparr>dn_properties := a\<rparr>) (?e\<lparr>dt_prop := (dt_prop ?e)(a :=
    \<lparr>pr_name = np, pr_length = of_nat (length v), pr_value = vp, pr_next = dn_properties (dt_node ?e c)\<rparr>)\<rparr>)"
  have "device_node_insert_propertiy c n (of_nat (length v)) v d = Some ?f"
    using a(1) b(1) e(1) by (simp add: device_node_insert_propertiy_def k_def Let_def)
  moreover have "held ?f B (vp # np # a # L) (N - prop_cost (n, v))" using e(3) by (simp only: held_contents)
  moreover have "agree d ?f (set L - {c})" using a(3) b(2) e(2) by (auto simp: agree_def set_node_def set_bytes_def)
  moreover have "c \<noteq> a" "c \<noteq> np" "c \<noteq> vp" using a(3) b(2) e(2) assms(5) by auto
  ultimately show ?thesis using a(2,3) b(2) e(2)
    by (intro exI [of _ a] exI [of _ np] exI [of _ vp] exI [of _ ?f]) (auto simp: set_node_def set_bytes_def)
qed

section \<open>Parsing a node's properties\<close>

definition prop_fits :: "memory \<Rightarrow> u64 \<Rightarrow> (u8 list \<Rightarrow> u32) \<Rightarrow> u8 list \<times> u8 list \<Rightarrow> bool" where
  "prop_fits m str off p \<longleftrightarrow> cstr m (str + ucast (off (fst p))) (fst p) \<and> length (fst p) < 2 ^ 32 \<and> length (snd p) < 2 ^ 32"

lemma bytes_at_pad4: "bytes_at m a (pad4 v) \<Longrightarrow> bytes_at m a v"
  by (simp add: pad4_def bytes_at_append)

lemma bytes_prefix: "bytes_at m a (pad4 v) \<Longrightarrow> map (\<lambda>i. m (a + of_nat i)) [0..<length v] = v"
  by (rule nth_equalityI) (auto simp: pad4_def bytes_at_def nth_append)

lemma length_enc_props_mod: "length (enc_props off ps) mod 4 = 0"
  by (induction off ps rule: enc_props.induct) (auto simp: length_pad4 mod_simps)

lemma parse_prop_go:
  assumes b: "bytes_at m a (be32 FDT_PROP @ be32 (of_nat (length v)) @ be32 (off n) @ pad4 v)" and al: "aligned4 a"
    and f: "prop_fits m str off (n, v)" and o': "open_node s = Some c" "ps_top s \<noteq> 0"
    and i: "device_node_insert_propertiy c n (of_nat (length v)) v (ps_store s) = Some d"
  shows "parse_loop m str a s = parse_loop m str (a + of_nat (12 + length (pad4 v))) (s\<lparr>ps_store := d\<rparr>)"
proof (rule parse_go)
  have w: "unat (of_nat (length v) :: u32) = length v" using f by (simp add: prop_fits_def unsigned_of_nat take_bit_nat_eq_self)
  then have w': "ucast (of_nat (length v) :: u32) = (of_nat (length v) :: u64)"
    using f by (simp add: prop_fits_def word_unat_eq_iff unsigned_ucast_eq take_bit_nat_eq_self)
  have t: "fdt32 m a = FDT_PROP" "fdt32 m (a + 4) = of_nat (length v)" "fdt32 m (a + 8) = off n" "bytes_at m (a + 12) (pad4 v)"
    using b by (auto simp: bytes_at_append add.assoc intro!: fdt32_be32)
  have cs: "cstring m (str + ucast (off n)) = Some n" using f by (simp add: cstring_cstr prop_fits_def)
  have al12: "aligned4 (a + 12)" using aligned4_add [OF al, of 12] by simp
  have r: "ROUND (a + 12 + of_nat (length v)) 4 = a + of_nat (12 + length (pad4 v))"
    by (simp only: ROUND4 [OF al12] length_pad4) simp
  have "parse_prop m str (a + 4) s = Some (True, a + of_nat (12 + length (pad4 v)), s\<lparr>ps_store := d\<rparr>)"
    using t o' i cs bytes_prefix [OF t(4)] unfolding r [symmetric]
    by (simp add: parse_prop_def Let_def add.assoc w w')
  then show "parse_token m str a s = Some (True, a + of_nat (12 + length (pad4 v)), s\<lparr>ps_store := d\<rparr>)"
    by (simp add: parse_token_def t(1) tokens)
qed

lemma parse_props:
  assumes "bytes_at m a (enc_props off ps)" "aligned4 a" "\<forall>p \<in> set ps. prop_fits m str off p"
    and "open_node s = Some c" "ps_top s \<noteq> 0" "c \<in> set L" "held (ps_store s) B L N" "sum_list (map prop_cost ps) \<le> N"
    and "props_ok (ps_store s) qs0" "set (pfoot qs0) \<subseteq> set L - {c}" "dn_properties (dt_node (ps_store s) c) = phead qs0"
  shows "\<exists>qs d. parse_loop m str a s = parse_loop m str (a + of_nat (length (enc_props off ps))) (s\<lparr>ps_store := d\<rparr>)
    \<and> props_ok d (qs @ qs0) \<and> map (\<lambda>q. (ap_name q, ap_val q)) qs = rev ps
    \<and> held d B (pfoot qs @ L) (N - sum_list (map prop_cost ps)) \<and> agree (ps_store s) d (set L - {c})
    \<and> dt_node d c = (dt_node (ps_store s) c)\<lparr>dn_properties := phead (qs @ qs0)\<rparr>
    \<and> dt_prop d c = dt_prop (ps_store s) c \<and> dt_bytes d c = dt_bytes (ps_store s) c"
  using assms
proof (induction off ps arbitrary: a s L N qs0 rule: enc_props.induct)
  case (1 off)
  then show ?case by (intro exI [of _ "[]"] exI [of _ "ps_store s"]) simp
next
  case (2 off n v ps)
  let ?k = "12 + length (pad4 v)"
  have f: "prop_fits m str off (n, v)" using 2 by simp
  have b: "bytes_at m a (be32 FDT_PROP @ be32 (of_nat (length v)) @ be32 (off n) @ pad4 v)" "bytes_at m (a + of_nat ?k) (enc_props off ps)"
    using 2(2) by (simp_all add: bytes_at_append add.assoc)
  from insert_property_held [OF 2(8) _ _ _ 2(7), of n v] 2(9) f obtain p np vp d1 where
    i: "device_node_insert_propertiy c n (of_nat (length v)) v (ps_store s) = Some d1" "p \<noteq> 0"
      "set [p, np, vp] \<inter> set L = {}" "distinct [p, np, vp]" "held d1 B (vp # np # p # L) (N - prop_cost (n, v))"
      "agree (ps_store s) d1 (set L - {c})" "dt_node d1 c = (dt_node (ps_store s) c)\<lparr>dn_properties := p\<rparr>"
      "dt_prop d1 c = dt_prop (ps_store s) c" "dt_bytes d1 c = dt_bytes (ps_store s) c"
      "dt_prop d1 p = \<lparr>pr_name = np, pr_length = of_nat (length v), pr_value = vp, pr_next = dn_properties (dt_node (ps_store s) c)\<rparr>"
      "dt_bytes d1 np = n @ [0]" "dt_bytes d1 vp = v" by (auto simp: prop_fits_def)
  let ?s = "s\<lparr>ps_store := d1\<rparr>" and ?q = "AProp p np vp n v" and ?L = "vp # np # p # L"
  have n0: "0 \<notin> set n" using f by (auto simp: prop_fits_def cstr_iff in_set_conv_nth)
  have ok: "props_ok d1 (?q # qs0)"
    using i n0 2(12) props_ok_agree [OF 2(10) agree_subset [OF i(6)]] 2(11) by simp
  have al: "aligned4 (a + of_nat ?k)" using aligned4_add [OF 2(3), of ?k] by (simp add: length_pad4)
  have "\<exists>qs d. parse_loop m str (a + of_nat ?k) ?s = parse_loop m str (a + of_nat ?k + of_nat (length (enc_props off ps))) (?s\<lparr>ps_store := d\<rparr>)
    \<and> props_ok d (qs @ ?q # qs0) \<and> map (\<lambda>q. (ap_name q, ap_val q)) qs = rev ps
    \<and> held d B (pfoot qs @ ?L) (N - prop_cost (n, v) - sum_list (map prop_cost ps)) \<and> agree (ps_store ?s) d (set ?L - {c})
    \<and> dt_node d c = (dt_node (ps_store ?s) c)\<lparr>dn_properties := phead (qs @ ?q # qs0)\<rparr>
    \<and> dt_prop d c = dt_prop (ps_store ?s) c \<and> dt_bytes d c = dt_bytes (ps_store ?s) c"
    by (rule 2(1) [OF b(2) al]) (use 2 i ok in \<open>auto simp: open_node_def\<close>)
  then obtain qs d where
    r: "parse_loop m str (a + of_nat ?k) ?s = parse_loop m str (a + of_nat ?k + of_nat (length (enc_props off ps))) (s\<lparr>ps_store := d\<rparr>)"
      "props_ok d (qs @ ?q # qs0)" "map (\<lambda>q. (ap_name q, ap_val q)) qs = rev ps"
      "held d B (pfoot qs @ ?L) (N - prop_cost (n, v) - sum_list (map prop_cost ps))" "agree d1 d (set ?L - {c})"
      "dt_node d c = (dt_node d1 c)\<lparr>dn_properties := phead (qs @ ?q # qs0)\<rparr>"
      "dt_prop d c = dt_prop d1 c" "dt_bytes d c = dt_bytes d1 c" by auto
  have "held d B (pfoot (qs @ [?q]) @ L) (N - prop_cost (n, v) - sum_list (map prop_cost ps))"
    by (rule held_perm [OF _ r(4)]) simp
  moreover have "agree (ps_store s) d (set L - {c})" by (rule agree_trans [OF i(6) r(5)]) auto
  moreover note parse_prop_go [OF b(1) 2(3) f 2(5,6) i(1)]
  ultimately show ?case using r i(7-9)
    by (intro exI [of _ "qs @ [?q]"] exI [of _ d]) (simp add: add.assoc)
qed

section \<open>Parsing nodes\<close>

lemma length_enc_mod: "length (enc off ts) mod 4 = 0"
  by (induction off ts rule: enc.induct) (auto simp: length_pad4 mod_simps length_enc_props_mod mod_add_eq [symmetric])

lemma parse_begin:
  assumes b: "bytes_at m a (be32 FDT_BEGIN_NODE @ pad4 (n @ [0]))" and al: "aligned4 a" and n: "0 \<notin> set n" "length n < 32"
    and o': "open_node s = Some par" "unat (ps_top s) < 64" and h: "held (ps_store s) B L N" "node_cost n \<le> N" "par \<noteq> 0 \<longrightarrow> par \<in> set L"
  shows "\<exists>c np d. parse_loop m str a s = parse_loop m str (a + of_nat (4 + length (pad4 (n @ [0]))))
      (s\<lparr>ps_root := (if ps_root s = 0 then c else ps_root s), ps_stack := (ps_stack s)(unat (ps_top s) := c),
         ps_top := ps_top s + 1, ps_store := d\<rparr>)
    \<and> c \<noteq> 0 \<and> c \<notin> set L \<and> np \<notin> set L \<and> c \<noteq> np \<and> held d B (np # c # L) (N - node_cost n)
    \<and> agree (ps_store s) d (set L - {par}) \<and> dt_bytes d np = n @ [0]
    \<and> dt_node d c = \<lparr>dn_name = np, dn_parent = par, dn_child = 0,
        dn_sibling = (if par = 0 then 0 else dn_child (dt_node (ps_store s) par)), dn_properties = 0\<rparr>
    \<and> (par \<noteq> 0 \<longrightarrow> dt_node d par = (dt_node (ps_store s) par)\<lparr>dn_child := c\<rparr>
        \<and> dt_prop d par = dt_prop (ps_store s) par \<and> dt_bytes d par = dt_bytes (ps_store s) par)"
proof -
  have t: "fdt32 m a = FDT_BEGIN_NODE" "bytes_at m (a + 4) (pad4 (n @ [0]))" using b by (auto simp: bytes_at_append intro!: fdt32_be32)
  have cs: "cstring m (a + 4) = Some n"
    by (rule cstring_cstr [OF cstr_bytes [OF bytes_at_pad4 [OF t(2)] n(1)]])
  from create_device_node_held [OF h(1,2)] n(2) obtain c np d where
    c: "create_device_node n (ps_store s) = Some (c, d)" "c \<noteq> 0" "c \<noteq> np" "c \<notin> set L" "np \<notin> set L"
      "held d B (np # c # L) (N - node_cost n)" "agree (ps_store s) d (set L)"
      "dt_node d c = \<lparr>dn_name = np, dn_parent = 0, dn_child = 0, dn_sibling = 0, dn_properties = 0\<rparr>"
      "dt_bytes d np = n @ [0]" by fastforce
  define e where "e = (if par \<noteq> 0 then device_node_insert_child par c d else d)"
  let ?s = "s\<lparr>ps_root := (if ps_root s = 0 then c else ps_root s), ps_stack := (ps_stack s)(unat (ps_top s) := c),
         ps_top := ps_top s + 1, ps_store := e\<rparr>"
  have "parse_begin_node m (a + 4) s = Some (True, ROUND (a + 4 + of_nat (length n)) 4, ?s)"
    using cs n(2) o' c(1) by (simp add: parse_begin_node_def NAME_BUFFER_LEN_def MAX_STACK_DEPTH_def e_def)
  then have "parse_token m str a s = Some (True, ROUND (a + 4 + of_nat (length n)) 4, ?s)"
    by (simp add: parse_token_def t(1) tokens)
  moreover have "aligned4 (a + 4)" using aligned4_add [OF al, of 4] by simp
  ultimately have "parse_loop m str a s = parse_loop m str (a + of_nat (4 + length (pad4 (n @ [0])))) ?s"
    using parse_go parse_after_name [OF _ t(2)] by (simp add: add.assoc)
  moreover have "held e B (np # c # L) (N - node_cost n)"
    using c(6) by (simp add: e_def device_node_insert_child_def Let_def)
  moreover have "agree (ps_store s) e (set L - {par})" using c(4,7)
    by (auto simp: e_def device_node_insert_child_def set_node_def agree_def)
  moreover have "dt_bytes e np = n @ [0]" using c(9) by (simp add: e_def device_node_insert_child_def set_node_def)
  moreover have "par \<noteq> 0 \<Longrightarrow> c \<noteq> par \<and> dt_node d par = dt_node (ps_store s) par" using c(4,7) h(3) by (auto simp: agree_def)
  then have "dt_node e c = \<lparr>dn_name = np, dn_parent = par, dn_child = 0,
      dn_sibling = (if par = 0 then 0 else dn_child (dt_node (ps_store s) par)), dn_properties = 0\<rparr>"
    using c(8) by (auto simp: e_def device_node_insert_child_def set_node_def)
  moreover have "par \<noteq> 0 \<longrightarrow> dt_node e par = (dt_node (ps_store s) par)\<lparr>dn_child := c\<rparr>
        \<and> dt_prop e par = dt_prop (ps_store s) par \<and> dt_bytes e par = dt_bytes (ps_store s) par"
    using c(4,7) h(3) by (auto simp: e_def device_node_insert_child_def set_node_def agree_def)
  ultimately show ?thesis using c(2-5) by blast
qed

text \<open>Trees whose names fit, their depth, the room they take, and the tree that a store represents.\<close>

fun fits :: "memory \<Rightarrow> u64 \<Rightarrow> (u8 list \<Rightarrow> u32) \<Rightarrow> fdt list \<Rightarrow> bool" where
  "fits m str off [] = True"
| "fits m str off (Fdt n ps ks # r) \<longleftrightarrow> 0 \<notin> set n \<and> length n < 32 \<and> (\<forall>p \<in> set ps. prop_fits m str off p)
     \<and> fits m str off ks \<and> fits m str off r"

fun depth :: "fdt list \<Rightarrow> nat" where
  "depth [] = 0"
| "depth (Fdt n ps ks # r) = max (Suc (depth ks)) (depth r)"

fun room_for :: "fdt list \<Rightarrow> nat" where
  "room_for [] = 0"
| "room_for (Fdt n ps ks # r) = node_cost n + sum_list (map prop_cost ps) + room_for ks + room_for r"

fun erase :: "anode list \<Rightarrow> fdt list" where
  "erase [] = []"
| "erase (ANode a np n ps ks # r) = erase r @ [Fdt n (rev (map (\<lambda>q. (ap_name q, ap_val q)) ps)) (erase ks)]"

lemma erase_append [simp]: "erase (ks @ ls) = erase ls @ erase ks"
  by (induction ks rule: erase.induct) auto

lemma agreeD:
  assumes "agree d d' X" "x \<in> X"
  shows "dt_node d' x = dt_node d x" "dt_prop d' x = dt_prop d x" "dt_bytes d' x = dt_bytes d x"
  using assms by (simp_all add: agree_def)

lemma open_node_top: "unat (ps_top s) = Suc k \<Longrightarrow> k < 64 \<Longrightarrow> open_node s = Some (ps_stack s k)"
  by (auto simp: open_node_def MAX_STACK_DEPTH_def)

lemma open_node_store [simp]: "open_node (s\<lparr>ps_store := d\<rparr>) = open_node s"
  by (simp add: open_node_def)

lemma unat_top: "unat (x :: u64) < 64 \<Longrightarrow> unat (x + 1) = Suc (unat x)"
  by (simp add: unat_word_ariths)

text \<open>The parser on the bytes of a list of siblings, inside the open node \<open>par\<close> with children \<open>kids0\<close>.\<close>

definition parsed :: "memory \<Rightarrow> u64 \<Rightarrow> (u8 list \<Rightarrow> u32) \<Rightarrow> fdt list \<Rightarrow> u64 \<Rightarrow> parser \<Rightarrow> (nat \<times> nat) set \<Rightarrow> u64 list \<Rightarrow> nat
    \<Rightarrow> u64 \<Rightarrow> anode list \<Rightarrow> bool" where
  "parsed m str off ts a s B L N par kids0 \<longleftrightarrow> (\<exists>kids s'.
     parse_loop m str a s = parse_loop m str (a + of_nat (length (enc off ts))) s'
     \<and> ps_root s' = ps_root s \<and> ps_top s' = ps_top s \<and> (\<forall>j < unat (ps_top s). ps_stack s' j = ps_stack s j)
     \<and> nodes_ok (ps_store s') par (kids @ kids0) \<and> erase kids = ts
     \<and> held (ps_store s') B (foot kids @ L) (N - room_for ts) \<and> agree (ps_store s) (ps_store s') (set L - {par})
     \<and> dt_node (ps_store s') par = (dt_node (ps_store s) par)\<lparr>dn_child := khead (kids @ kids0)\<rparr>
     \<and> dt_prop (ps_store s') par = dt_prop (ps_store s) par \<and> dt_bytes (ps_store s') par = dt_bytes (ps_store s) par)"

definition ready :: "memory \<Rightarrow> u64 \<Rightarrow> (u8 list \<Rightarrow> u32) \<Rightarrow> fdt list \<Rightarrow> u64 \<Rightarrow> parser \<Rightarrow> (nat \<times> nat) set \<Rightarrow> u64 list \<Rightarrow> nat
    \<Rightarrow> u64 \<Rightarrow> anode list \<Rightarrow> bool" where
  "ready m str off ts a s B L N par kids0 \<longleftrightarrow> bytes_at m a (enc off ts) \<and> aligned4 a \<and> fits m str off ts
     \<and> open_node s = Some par \<and> 0 < unat (ps_top s) \<and> unat (ps_top s) + depth ts \<le> 64 \<and> ps_root s \<noteq> 0
     \<and> par \<noteq> 0 \<and> par \<in> set L \<and> held (ps_store s) B L N \<and> room_for ts \<le> N
     \<and> nodes_ok (ps_store s) par kids0 \<and> set (foot kids0) \<subseteq> set L - {par}
     \<and> dn_child (dt_node (ps_store s) par) = khead kids0"

text \<open>Properties, children and the closing token of the node \<open>c\<close> that was opened last.\<close>

lemma parse_node_body:
  assumes b: "bytes_at m a (enc_props off ps @ enc off ks @ be32 FDT_END_NODE)" and al: "aligned4 a"
    and f: "\<forall>p \<in> set ps. prop_fits m str off p" "fits m str off ks" and o': "open_node s = Some c" "0 < unat (ps_top s)"
    and dep: "unat (ps_top s) + depth ks \<le> 64" and r: "ps_root s \<noteq> 0" and c: "c \<noteq> 0" "c \<in> set L"
    and h: "held (ps_store s) B L N" "sum_list (map prop_cost ps) + room_for ks \<le> N"
    and nd: "dt_node (ps_store s) c = \<lparr>dn_name = np, dn_parent = par, dn_child = 0, dn_sibling = sib, dn_properties = 0\<rparr>"
    and IH: "\<And>a s L N. ready m str off ks a s B L N c [] \<Longrightarrow> parsed m str off ks a s B L N c []"
  shows "\<exists>qs kids s'. parse_loop m str a s =
        parse_loop m str (a + of_nat (length (enc_props off ps @ enc off ks @ be32 FDT_END_NODE))) s'
    \<and> ps_root s' = ps_root s \<and> ps_top s' = ps_top s - 1 \<and> (\<forall>j < unat (ps_top s). ps_stack s' j = ps_stack s j)
    \<and> props_ok (ps_store s') qs \<and> map (\<lambda>q. (ap_name q, ap_val q)) qs = rev ps
    \<and> nodes_ok (ps_store s') c kids \<and> erase kids = ks
    \<and> held (ps_store s') B (foot kids @ pfoot qs @ L) (N - sum_list (map prop_cost ps) - room_for ks)
    \<and> agree (ps_store s) (ps_store s') (set L - {c})
    \<and> dt_node (ps_store s') c = \<lparr>dn_name = np, dn_parent = par, dn_child = khead kids, dn_sibling = sib, dn_properties = phead qs\<rparr>
    \<and> dt_bytes (ps_store s') c = dt_bytes (ps_store s) c"
proof -
  let ?P = "length (enc_props off ps)" and ?K = "length (enc off ks)"
  have bs: "bytes_at m a (enc_props off ps)" "bytes_at m (a + of_nat ?P) (enc off ks)" "bytes_at m (a + of_nat ?P + of_nat ?K) (be32 FDT_END_NODE)"
    using b by (simp_all add: bytes_at_append)
  have "ps_top s \<noteq> 0" using o'(2) by auto
  from parse_props [OF bs(1) al f(1) o'(1) this c(2) h(1), of "[]"] h(2) nd obtain qs d where
    p: "parse_loop m str a s = parse_loop m str (a + of_nat ?P) (s\<lparr>ps_store := d\<rparr>)"
      "props_ok d qs" "map (\<lambda>q. (ap_name q, ap_val q)) qs = rev ps"
      "held d B (pfoot qs @ L) (N - sum_list (map prop_cost ps))" "agree (ps_store s) d (set L - {c})"
      "dt_node d c = (dt_node (ps_store s) c)\<lparr>dn_properties := phead qs\<rparr>" "dt_bytes d c = dt_bytes (ps_store s) c" by auto
  let ?s = "s\<lparr>ps_store := d\<rparr>"
  have al': "aligned4 (a + of_nat ?P)" by (rule aligned4_add [OF al length_enc_props_mod])
  have "ready m str off ks (a + of_nat ?P) ?s B (pfoot qs @ L) (N - sum_list (map prop_cost ps)) c []"
    using bs(2) al' f(2) o' dep r c p(4,6) h(2) nd le_diff_conv2 [of "sum_list (map prop_cost ps)" N "room_for ks"]
    by (simp add: ready_def)
  from IH [OF this, unfolded parsed_def] obtain kids s2 where
    k: "parse_loop m str (a + of_nat ?P) ?s = parse_loop m str (a + of_nat ?P + of_nat ?K) s2"
      "ps_root s2 = ps_root s" "ps_top s2 = ps_top s" "\<forall>j < unat (ps_top s). ps_stack s2 j = ps_stack s j"
      "nodes_ok (ps_store s2) c kids" "erase kids = ks"
      "held (ps_store s2) B (foot kids @ pfoot qs @ L) (N - sum_list (map prop_cost ps) - room_for ks)"
      "agree d (ps_store s2) (set (pfoot qs @ L) - {c})"
      "dt_node (ps_store s2) c = (dt_node d c)\<lparr>dn_child := khead kids\<rparr>" "dt_bytes (ps_store s2) c = dt_bytes d c" by auto
  have cq: "c \<notin> set (pfoot qs)" using p(4) c(2) by (auto simp: held_def)
  have "props_ok (ps_store s2) qs" by (rule props_ok_agree [OF p(2) agree_subset [OF k(8)]]) (use cq in auto)
  moreover have "agree (ps_store s) (ps_store s2) (set L - {c})" by (rule agree_trans [OF p(5) k(8)]) auto
  moreover note parse_end_node [OF bs(3), of str s2]
  ultimately show ?thesis using p k nd
    by (intro exI [of _ qs] exI [of _ kids] exI [of _ "s2\<lparr>ps_top := ps_top s2 - 1\<rparr>"]) (simp add: add.assoc)
qed

lemma parse_forest: "ready m str off ts a s B L N par kids0 \<Longrightarrow> parsed m str off ts a s B L N par kids0"
proof (induction off ts arbitrary: a s L N par kids0 rule: enc.induct)
  case (1 off)
  then show ?case unfolding ready_def parsed_def by (intro exI [of _ "[]"] exI [of _ s]) simp
next
  case (2 off n ps ks r)
  let ?H = "4 + length (pad4 (n @ [0]))" and ?M = "length (enc_props off ps @ enc off ks @ be32 FDT_END_NODE)"
  from 2(3) have pre: "aligned4 a" "0 \<notin> set n" "length n < 32" "\<forall>p \<in> set ps. prop_fits m str off p" "fits m str off ks" "fits m str off r"
    "open_node s = Some par" "0 < unat (ps_top s)" "unat (ps_top s) + Suc (depth ks) \<le> 64" "unat (ps_top s) + depth r \<le> 64" "ps_root s \<noteq> 0"
    "par \<noteq> 0" "par \<in> set L" "held (ps_store s) B L N" "node_cost n + sum_list (map prop_cost ps) + room_for ks + room_for r \<le> N"
    "nodes_ok (ps_store s) par kids0" "set (foot kids0) \<subseteq> set L - {par}" "dn_child (dt_node (ps_store s) par) = khead kids0"
    by (auto simp: ready_def)
  have b: "bytes_at m a (be32 FDT_BEGIN_NODE @ pad4 (n @ [0]))"
    "bytes_at m (a + of_nat ?H) (enc_props off ps @ enc off ks @ be32 FDT_END_NODE)" "bytes_at m (a + of_nat ?H + of_nat ?M) (enc off r)"
    using 2(3) by (simp_all add: ready_def bytes_at_append add.assoc)
  from parse_begin [OF b(1) pre(1,2,3,7) _ pre(14), where str = str] pre(8,9,12,13,15) obtain c np d where
    c: "parse_loop m str a s = parse_loop m str (a + of_nat ?H)
          (s\<lparr>ps_stack := (ps_stack s)(unat (ps_top s) := c), ps_top := ps_top s + 1, ps_store := d\<rparr>)"
      "c \<noteq> 0" "c \<notin> set L" "np \<notin> set L" "c \<noteq> np" "held d B (np # c # L) (N - node_cost n)"
      "agree (ps_store s) d (set L - {par})" "dt_bytes d np = n @ [0]"
      "dt_node d c = \<lparr>dn_name = np, dn_parent = par, dn_child = 0, dn_sibling = khead kids0, dn_properties = 0\<rparr>"
      "dt_node d par = (dt_node (ps_store s) par)\<lparr>dn_child := c\<rparr>"
      "dt_prop d par = dt_prop (ps_store s) par" "dt_bytes d par = dt_bytes (ps_store s) par"
    using pre(11,18) by auto
  let ?s = "s\<lparr>ps_stack := (ps_stack s)(unat (ps_top s) := c), ps_top := ps_top s + 1, ps_store := d\<rparr>"
  have top: "unat (ps_top s + 1) = Suc (unat (ps_top s))" using pre(9) by (intro unat_top) simp
  have on: "open_node ?s = Some c" using open_node_top [of ?s "unat (ps_top s)"] top pre(9) by simp
  have alH: "aligned4 (a + of_nat ?H)" by (rule aligned4_add [OF pre(1)]) (simp add: length_pad4)
  have ex: "\<exists>qs kids s'. parse_loop m str (a + of_nat ?H) ?s = parse_loop m str (a + of_nat ?H + of_nat ?M) s'
    \<and> ps_root s' = ps_root ?s \<and> ps_top s' = ps_top ?s - 1 \<and> (\<forall>j < unat (ps_top ?s). ps_stack s' j = ps_stack ?s j)
    \<and> props_ok (ps_store s') qs \<and> map (\<lambda>q. (ap_name q, ap_val q)) qs = rev ps
    \<and> nodes_ok (ps_store s') c kids \<and> erase kids = ks
    \<and> held (ps_store s') B (foot kids @ pfoot qs @ np # c # L) (N - node_cost n - sum_list (map prop_cost ps) - room_for ks)
    \<and> agree (ps_store ?s) (ps_store s') (set (np # c # L) - {c})
    \<and> dt_node (ps_store s') c = \<lparr>dn_name = np, dn_parent = par, dn_child = khead kids, dn_sibling = khead kids0, dn_properties = phead qs\<rparr>
    \<and> dt_bytes (ps_store s') c = dt_bytes (ps_store ?s) c"
    by (rule parse_node_body [OF b(2) alH pre(4,5) on]) (use top pre c 2(1) in \<open>simp_all\<close>)
  then obtain qs kids s2 where
    k: "parse_loop m str (a + of_nat ?H) ?s = parse_loop m str (a + of_nat ?H + of_nat ?M) s2"
      "ps_root s2 = ps_root s" "ps_top s2 = ps_top s" "\<forall>j < unat (ps_top s). ps_stack s2 j = ps_stack s j"
      "props_ok (ps_store s2) qs" "map (\<lambda>q. (ap_name q, ap_val q)) qs = rev ps" "nodes_ok (ps_store s2) c kids" "erase kids = ks"
      "held (ps_store s2) B (foot kids @ pfoot qs @ np # c # L) (N - node_cost n - sum_list (map prop_cost ps) - room_for ks)"
      "agree d (ps_store s2) (set (np # c # L) - {c})"
      "dt_node (ps_store s2) c = \<lparr>dn_name = np, dn_parent = par, dn_child = khead kids, dn_sibling = khead kids0, dn_properties = phead qs\<rparr>"
    using top by fastforce
  let ?t = "ANode c np n qs kids" and ?N = "N - node_cost n - sum_list (map prop_cost ps) - room_for ks"
  have ag: "agree (ps_store s) (ps_store s2) (set L - {par})" by (rule agree_trans [OF c(7) k(10)]) (use c(3) in auto)
  have held2: "held (ps_store s2) B (foot [?t] @ L) ?N" by (rule held_perm [OF _ k(9)]) simp
  have par2: "dt_node (ps_store s2) par = (dt_node (ps_store s) par)\<lparr>dn_child := c\<rparr>"
    "dt_prop (ps_store s2) par = dt_prop (ps_store s) par" "dt_bytes (ps_store s2) par = dt_bytes (ps_store s) par"
    "dt_bytes (ps_store s2) np = n @ [0]"
    using agreeD [OF k(10), of par] agreeD [OF k(10), of np] c(3,5,8,10,11,12) pre(13) by auto
  have ok2: "nodes_ok (ps_store s2) par (?t # kids0)"
    using c(2) k(5,7,11) par2(4) pre(2) nodes_ok_agree [OF pre(16) agree_subset [OF ag pre(17)]] by simp
  have "par \<notin> set (foot [?t])" using held2 pre(13) by (auto simp: held_def)
  then have fo: "set (foot (?t # kids0)) \<subseteq> set (foot [?t] @ L) - {par}" using pre(17) by auto
  have "open_node s2 = open_node s" using k(3,4) pre(8) by (simp add: open_node_def)
  moreover have "aligned4 (a + of_nat ?H + of_nat ?M)"
    by (rule aligned4_add [OF alH]) (simp add: length_enc_props_mod length_enc_mod mod_add_eq [symmetric])
  ultimately have "ready m str off r (a + of_nat ?H + of_nat ?M) s2 B (foot [?t] @ L) ?N par (?t # kids0)"
    using b(3) pre k(2,3) held2 ok2 fo par2(1) by (simp add: ready_def)
  from 2(2) [OF this, unfolded parsed_def] obtain kids' s' where
    r: "parse_loop m str (a + of_nat ?H + of_nat ?M) s2 = parse_loop m str (a + of_nat ?H + of_nat ?M + of_nat (length (enc off r))) s'"
      "ps_root s' = ps_root s2" "ps_top s' = ps_top s2" "\<forall>j < unat (ps_top s2). ps_stack s' j = ps_stack s2 j"
      "nodes_ok (ps_store s') par (kids' @ ?t # kids0)" "erase kids' = r"
      "held (ps_store s') B (foot kids' @ foot [?t] @ L) (?N - room_for r)"
      "agree (ps_store s2) (ps_store s') (set (foot [?t] @ L) - {par})"
      "dt_node (ps_store s') par = (dt_node (ps_store s2) par)\<lparr>dn_child := khead (kids' @ ?t # kids0)\<rparr>"
      "dt_prop (ps_store s') par = dt_prop (ps_store s2) par" "dt_bytes (ps_store s') par = dt_bytes (ps_store s2) par" by blast
  have ag': "agree (ps_store s) (ps_store s') (set L - {par})" by (rule agree_trans [OF ag r(8)]) auto
  have "a + of_nat ?H + of_nat ?M + of_nat (length (enc off r)) = a + of_nat (length (enc off (Fdt n ps ks # r)))"
    by (simp add: add.assoc)
  then have go: "parse_loop m str a s = parse_loop m str (a + of_nat (length (enc off (Fdt n ps ks # r)))) s'"
    by (simp only: c(1) k(1) r(1))
  have er: "erase (kids' @ [?t]) = Fdt n ps ks # r" using k(6,8) r(6) by simp
  have he: "held (ps_store s') B (foot (kids' @ [?t]) @ L) (N - room_for (Fdt n ps ks # r))" using r(7) by simp
  show ?case unfolding parsed_def
    by (intro exI [of _ "kids' @ [?t]"] exI [of _ s'] conjI go er he ag') (use k(2-4) r(2-5,9-11) par2 in simp_all)
qed

end
