(* ===== verification/DtProps.thy ===== *)
theory DtProps
  imports DtParse HeapProps
begin

text \<open>
  Properties of the device tree: parsing rebuilds the flattened tree, freeing gives back all that
  parsing took, the search visits the nodes breadth first, and the cell counts of the root
  override all others.
\<close>

section \<open>Parsing\<close>

lemma skip_reserved_ends:
  "load64 m (a + of_nat (16 * k)) = 0 \<Longrightarrow> load64 m (a + of_nat (16 * k) + 8) = 0 \<Longrightarrow> \<exists>x. skip_reserved m a = Some x"
proof (induction k arbitrary: a)
  case 0
  then show ?case by (simp add: skip_reserved.simps [of m a])
next
  case (Suc k)
  have "a + of_nat (16 * Suc k) = a + 16 + of_nat (16 * k)" by simp
  with Suc.prems Suc.IH [of "a + 16"] show ?case by (subst skip_reserved.simps) (simp only: split: if_split, simp)
qed

text \<open>The tree \<open>t\<close>, flattened at \<open>start\<close>: the reserved ranges end somewhere and no name is too long.\<close>

definition blob :: "memory \<Rightarrow> u64 \<Rightarrow> (u8 list \<Rightarrow> u32) \<Rightarrow> fdt \<Rightarrow> bool" where
  "blob m start off t \<longleftrightarrow> fdt32 m start = FDT_MAGIC
     \<and> (let r = start + ucast (fdt32 m (start + 16)) in
        \<exists>k. load64 m (r + of_nat (16 * k)) = 0 \<and> load64 m (r + of_nat (16 * k) + 8) = 0)
     \<and> (let a = start + ucast (fdt32 m (start + 8)) in aligned4 a \<and> bytes_at m a (enc off [t] @ be32 FDT_END))
     \<and> fits m (start + ucast (fdt32 m (start + 12))) off [t] \<and> depth [t] \<le> 64"

lemma parse_root:
  assumes b: "bytes_at m a (enc off [t] @ be32 FDT_END)" and al: "aligned4 a" and f: "fits m str off [t]" "depth [t] \<le> 64"
    and h: "held d B [] N" "room_for [t] \<le> N"
  shows "\<exists>u s. parse_loop m str a \<lparr>ps_root = 0, ps_stack = (\<lambda>_. 0), ps_top = 0, ps_store = d\<rparr> = Some s \<and> ps_root s = an u
    \<and> nodes_ok (ps_store s) 0 [u] \<and> erase [u] = [t] \<and> held (ps_store s) B (foot [u]) (N - room_for [t])"
proof (cases t)
  case (Fdt n ps ks)
  let ?init = "\<lparr>ps_root = 0, ps_stack = (\<lambda>_. 0), ps_top = 0, ps_store = d\<rparr>"
  let ?H = "4 + length (pad4 (n @ [0]))" and ?M = "length (enc_props off ps @ enc off ks @ be32 FDT_END_NODE)"
  have bs: "bytes_at m a (be32 FDT_BEGIN_NODE @ pad4 (n @ [0]))"
    "bytes_at m (a + of_nat ?H) (enc_props off ps @ enc off ks @ be32 FDT_END_NODE)" "bytes_at m (a + of_nat ?H + of_nat ?M) (be32 FDT_END)"
    using b by (simp_all add: Fdt bytes_at_append add.assoc)
  from f have pre: "0 \<notin> set n" "length n < 32" "\<forall>p \<in> set ps. prop_fits m str off p" "fits m str off ks" "depth ks < 64" by (auto simp: Fdt)
  have "open_node ?init = Some 0" by (simp add: open_node_def)
  from parse_begin [OF bs(1) al pre(1,2) this _ _ _, of B "[]" N str] h obtain c np e where
    c: "parse_loop m str a ?init = parse_loop m str (a + of_nat ?H) \<lparr>ps_root = c, ps_stack = (\<lambda>_. 0)(0 := c), ps_top = 1, ps_store = e\<rparr>"
      "c \<noteq> 0" "c \<noteq> np" "held e B [np, c] (N - node_cost n)" "dt_bytes e np = n @ [0]"
      "dt_node e c = \<lparr>dn_name = np, dn_parent = 0, dn_child = 0, dn_sibling = 0, dn_properties = 0\<rparr>"
    by (auto simp: Fdt)
  let ?s = "\<lparr>ps_root = c, ps_stack = (\<lambda>_. 0)(0 := c), ps_top = 1, ps_store = e\<rparr>"
  have on: "open_node ?s = Some c" by (simp add: open_node_def MAX_STACK_DEPTH_def)
  have alH: "aligned4 (a + of_nat ?H)" by (rule aligned4_add [OF al]) (simp add: length_pad4)
  have "\<exists>qs kids s'. parse_loop m str (a + of_nat ?H) ?s = parse_loop m str (a + of_nat ?H + of_nat ?M) s'
    \<and> ps_root s' = ps_root ?s \<and> ps_top s' = ps_top ?s - 1 \<and> (\<forall>j < unat (ps_top ?s). ps_stack s' j = ps_stack ?s j)
    \<and> props_ok (ps_store s') qs \<and> map (\<lambda>q. (ap_name q, ap_val q)) qs = rev ps
    \<and> nodes_ok (ps_store s') c kids \<and> erase kids = ks
    \<and> held (ps_store s') B (foot kids @ pfoot qs @ [np, c]) (N - node_cost n - sum_list (map prop_cost ps) - room_for ks)
    \<and> agree (ps_store ?s) (ps_store s') (set [np, c] - {c})
    \<and> dt_node (ps_store s') c = \<lparr>dn_name = np, dn_parent = 0, dn_child = khead kids, dn_sibling = 0, dn_properties = phead qs\<rparr>
    \<and> dt_bytes (ps_store s') c = dt_bytes (ps_store ?s) c"
    by (rule parse_node_body [OF bs(2) alH pre(3,4) on]) (use pre c h(2) in \<open>simp_all add: Fdt parse_forest\<close>)
  then obtain qs kids s where
    k: "parse_loop m str (a + of_nat ?H) ?s = parse_loop m str (a + of_nat ?H + of_nat ?M) s" "ps_root s = c"
      "props_ok (ps_store s) qs" "map (\<lambda>q. (ap_name q, ap_val q)) qs = rev ps" "nodes_ok (ps_store s) c kids" "erase kids = ks"
      "held (ps_store s) B (foot kids @ pfoot qs @ [np, c]) (N - node_cost n - sum_list (map prop_cost ps) - room_for ks)"
      "agree e (ps_store s) (set [np, c] - {c})"
      "dt_node (ps_store s) c = \<lparr>dn_name = np, dn_parent = 0, dn_child = khead kids, dn_sibling = 0, dn_properties = phead qs\<rparr>" by auto
  let ?u = "ANode c np n qs kids"
  have "parse_loop m str a ?init = Some s" by (rule trans [OF c(1) trans [OF k(1) parse_end [OF bs(3)]]])
  moreover have "held (ps_store s) B (foot [?u]) (N - node_cost n - sum_list (map prop_cost ps) - room_for ks)"
    by (rule held_perm [OF _ k(7)]) simp
  moreover have "dt_bytes (ps_store s) np = n @ [0]" using agreeD(3) [OF k(8), of np] c(3,5) by auto
  ultimately show ?thesis using c(2) k pre(1) by (intro exI [of _ ?u] exI [of _ s]) (simp add: Fdt)
qed

lemma parse_blob:
  assumes "blob m start off t" "roomy (dt_heap d) B N" "room_for [t] \<le> N"
  shows "\<exists>u d'. parse_tree m start d = Some (an u, d') \<and> nodes_ok d' 0 [u] \<and> erase [u] = [t]
    \<and> held d' B (foot [u]) (N - room_for [t])"
proof -
  have h: "held d B [] N" using assms(2) by (simp add: held_def)
  from assms(1) obtain x where x: "skip_reserved m (start + ucast (fdt32 m (start + 16))) = Some x"
    using skip_reserved_ends unfolding blob_def Let_def by blast
  from parse_root [of m "start + ucast (fdt32 m (start + 8))" off t "start + ucast (fdt32 m (start + 12))" d B N] assms(1,3) h
  obtain u s where
    "parse_loop m (start + ucast (fdt32 m (start + 12))) (start + ucast (fdt32 m (start + 8)))
       \<lparr>ps_root = 0, ps_stack = (\<lambda>_. 0), ps_top = 0, ps_store = d\<rparr> = Some s"
    "ps_root s = an u" "nodes_ok (ps_store s) 0 [u]" "erase [u] = [t]" "held (ps_store s) B (foot [u]) (N - room_for [t])"
    unfolding blob_def Let_def by blast
  moreover from this have "parse_tree m start d = Some (an u, ps_store s)"
    using x assms(1) by (simp add: parse_tree_def blob_def)
  ultimately show ?thesis by blast
qed

text \<open>C33: parsing the flattened form of a tree returns a tree in the store that represents it: every
  node with its name, its properties with their values, and its children, each with a link to its
  parent.  The result needs no more than the room of its blocks, and every block of it is apart
  from all blocks in use before.
\<close>

theorem parse_tree_roundtrip:
  assumes "blob m start off t" "roomy (dt_heap d) B N" "room_for [t] \<le> N"
  shows "\<exists>u d'. parse_tree m start d = Some (an u, d') \<and> nodes_ok d' 0 [u] \<and> erase [u] = [t]
    \<and> held d' B (foot [u]) (N - room_for [t])"
  by (rule parse_blob [OF assms])

text \<open>C34: \<^verbatim>\<open>free_device_tree\<close> gives back every block of a tree, names and values included, each exactly
  once: afterwards exactly the other blocks are in use.
\<close>

theorem free_device_tree_releases_all:
  assumes "nodes_ok d 0 [u]" "held d B (foot [u]) N"
  shows "\<exists>d'. free_device_tree (an u) d = Some d' \<and> live (dt_heap d') B"
proof -
  from free_device_tree_held [OF assms(1), of B "[]" N] assms(2) obtain h where
    "free_device_tree (an u) d = Some (d\<lparr>dt_heap := h\<rparr>)" "held (d\<lparr>dt_heap := h\<rparr>) B [] 0" by auto
  moreover then have "live h B" using roomy_live by (auto simp: held_def)
  ultimately show ?thesis by auto
qed

text \<open>A small flattened tree: a root with one property and one child.\<close>

definition tree_ex :: fdt where "tree_ex = Fdt [] [([97], [0, 0, 0, 2])] [Fdt [98, 64, 49] [] []]"

definition blob_bytes :: "u8 list" where
  "blob_bytes = be32 FDT_MAGIC @ be32 0 @ be32 56 @ be32 100 @ be32 40 @ replicate 36 0 @ enc (\<lambda>_. 0) [tree_ex] @ be32 FDT_END @ [97, 0]"

definition blob_ex :: memory where "blob_ex = block_mem blob_bytes"

definition store_ex :: dtstore where
  "store_ex = \<lparr>dt_heap = sample_heap, dt_node = (\<lambda>_. \<lparr>dn_name = 0, dn_parent = 0, dn_child = 0, dn_sibling = 0, dn_properties = 0\<rparr>),
     dt_prop = (\<lambda>_. \<lparr>pr_name = 0, pr_length = 0, pr_value = 0, pr_next = 0\<rparr>), dt_bytes = (\<lambda>_. [])\<rparr>"

lemma store_ex_room: "roomy (dt_heap store_ex) {} 1073741784"
  unfolding roomy_def store_ex_def by (auto intro!: exI [of _ "[(1073741784, True)]"] simp: sample_heap_rep)

lemma blob_ex_ok: "blob blob_ex 0 (\<lambda>_. 0) tree_ex"
proof -
  have h: "fdt32 blob_ex 0 = FDT_MAGIC" "fdt32 blob_ex 16 = 40" "fdt32 blob_ex 8 = 56" "fdt32 blob_ex 12 = 100"
    by code_simp+
  have "load64 blob_ex 40 = 0" "load64 blob_ex 48 = 0" by code_simp+
  then have r: "\<exists>k. load64 blob_ex (40 + of_nat (16 * k)) = 0 \<and> load64 blob_ex (40 + of_nat (16 * k) + 8) = 0"
    by (intro exI [of _ 0]) simp
  have "list_all (\<lambda>i. blob_ex (56 + of_nat i) = (enc (\<lambda>_. 0) [tree_ex] @ be32 FDT_END) ! i) [0..<44]" by code_simp
  moreover have "length (enc (\<lambda>_. 0) [tree_ex] @ be32 FDT_END) = 44" by code_simp
  ultimately have b: "bytes_at blob_ex 56 (enc (\<lambda>_. 0) [tree_ex] @ be32 FDT_END)" by (simp add: bytes_at_def list_all_iff)
  have "cstr blob_ex 100 [97]" by code_simp
  then have "fits blob_ex 100 (\<lambda>_. 0) [tree_ex]" "depth [tree_ex] \<le> 64" "aligned4 56"
    by (simp_all add: tree_ex_def prop_fits_def aligned4_def)
  with h r b show ?thesis by (simp add: blob_def)
qed

theorem parse_tree_roundtrip_witness:
  "\<exists>u d'. parse_tree blob_ex 0 store_ex = Some (an u, d') \<and> nodes_ok d' 0 [u] \<and> erase [u] = [tree_ex]
    \<and> held d' {} (foot [u]) (1073741784 - room_for [tree_ex])"
proof (rule parse_tree_roundtrip [OF blob_ex_ok store_ex_room])
  show "room_for [tree_ex] \<le> 1073741784" by (simp add: tree_ex_def node_cost_def prop_cost_def cost_def)
qed

theorem free_device_tree_releases_all_witness:
  "\<exists>u d d'. parse_tree blob_ex 0 store_ex = Some (an u, d) \<and> free_device_tree (an u) d = Some d' \<and> live (dt_heap d') {}"
proof -
  have "room_for [tree_ex] \<le> 1073741784" by (simp add: tree_ex_def node_cost_def prop_cost_def cost_def)
  from parse_blob [OF blob_ex_ok store_ex_room this] obtain u d where
    "parse_tree blob_ex 0 store_ex = Some (an u, d)" "nodes_ok d 0 [u]" "held d {} (foot [u]) (1073741784 - room_for [tree_ex])" by blast
  with free_device_tree_releases_all [of d u "{}"] show ?thesis by blast
qed

section \<open>Searching\<close>

text \<open>Breadth-first order, and the number of nodes.\<close>

fun count_nodes :: "anode list \<Rightarrow> nat" where
  "count_nodes [] = 0"
| "count_nodes (ANode a np n ps ks # r) = Suc (count_nodes ks + count_nodes r)"

lemma count_append [simp]: "count_nodes (xs @ ys) = count_nodes xs + count_nodes ys"
  by (induction xs rule: count_nodes.induct) auto

lemma length_le_count: "length ks \<le> count_nodes ks"
  by (induction ks rule: count_nodes.induct) auto

function bfs :: "anode list \<Rightarrow> anode list" where
  "bfs [] = []"
| "bfs (ANode a np n ps ks # r) = ANode a np n ps ks # bfs (r @ ks)"
  by pat_completeness auto
termination by (relation "measure count_nodes") auto

text \<open>A name is of a type when it is the type, or continues it with \<^verbatim>\<open>@\<close>.\<close>

definition of_type :: "u8 list \<Rightarrow> u8 list \<Rightarrow> bool" where
  "of_type ty n \<longleftrightarrow> n = ty \<or> (\<exists>x. n = ty @ 64 # x)"

lemma is_type_equal_iff: "is_type_equal n ty \<longleftrightarrow> of_type ty n"
  by (induction n ty rule: is_type_equal.induct) (auto simp: of_type_def Cons_eq_append_conv)

text \<open>The array holds the waiting nodes from the front index on; it has not wrapped yet.\<close>

definition qrep :: "node_queue \<Rightarrow> u64 list \<Rightarrow> bool" where
  "qrep q xs \<longleftrightarrow> nq_count q = length xs \<and> nq_front q + length xs \<le> 64 \<and> nq_rear q = (nq_front q + length xs + 63) mod 64
     \<and> (\<forall>i < length xs. nq q (nq_front q + i) = xs ! i)"

lemma qrep_push:
  assumes "qrep q xs" "nq_front q + length xs < 64"
  shows "qrep (nq_push x q) (xs @ [x])" "nq_front (nq_push x q) = nq_front q"
proof -
  have "(nq_rear q + 1) mod 64 = nq_front q + length xs"
    using assms by (simp add: qrep_def mod_Suc_eq)
  moreover have "nq_front q + Suc (length xs) + 63 = nq_front q + length xs + 64" by simp
  then have "(nq_front q + Suc (length xs) + 63) mod 64 = nq_front q + length xs" using assms(2) by (simp only: mod_add_self2 mod_less)
  ultimately show "qrep (nq_push x q) (xs @ [x])" "nq_front (nq_push x q) = nq_front q"
    using assms by (auto simp: qrep_def nq_push_def ITER_MAX_QUEUE_LEN_def nth_append less_Suc_eq Let_def)
qed

lemma push_children_kids:
  assumes "nodes_ok d par ks" "qrep q xs" "nq_front q + length xs + length ks \<le> 64"
  shows "\<exists>q'. push_children d (khead ks) q = Some (False, q') \<and> qrep q' (xs @ map an ks) \<and> nq_front q' = nq_front q"
  using assms
proof (induction d par ks arbitrary: q xs rule: nodes_ok.induct)
  case (1 d par)
  then show ?case by (simp add: push_children.simps)
next
  case (2 d par a np n ps ks r)
  have p: "qrep (nq_push a q) (xs @ [a])" "nq_front (nq_push a q) = nq_front q"
    using qrep_push [OF 2(4)] 2(5) by auto
  have "\<not> nq_count q \<ge> ITER_MAX_QUEUE_LEN" using 2(4,5) by (simp add: qrep_def ITER_MAX_QUEUE_LEN_def)
  moreover from 2(2) [OF _ p(1)] p(2) 2(3,5) obtain q' where
    "push_children d (khead r) (nq_push a q) = Some (False, q')" "qrep q' (xs @ [a] @ map an r)" "nq_front q' = nq_front q" by auto
  ultimately show ?case using 2(3) by (subst push_children.simps) auto
qed

text \<open>A node of the tree, whatever its siblings.\<close>

definition node_in :: "dtstore \<Rightarrow> anode \<Rightarrow> bool" where "node_in d u \<longleftrightarrow> (\<exists>par r. nodes_ok d par (u # r))"

lemma nodes_in: "nodes_ok d par ks \<Longrightarrow> u \<in> set ks \<Longrightarrow> node_in d u"
  by (induction d par ks rule: nodes_ok.induct) (auto simp: node_in_def)

lemma find_type_loop_bfs:
  assumes "\<forall>u \<in> set ws. node_in d u" "qrep q (map an ws)" "nq_front q + count_nodes ws \<le> 64" "length out \<le> max_count"
  shows "find_type_loop d ty max_count q out
    = Some (take max_count (out @ map an (filter (\<lambda>v. of_type ty (an_name v)) (bfs ws))))"
  using assms
proof (induction ws arbitrary: q out rule: bfs.induct)
  case 1
  then show ?case by (simp add: find_type_loop.simps qrep_def)
next
  case (2 a np n ps ks r)
  from 2(2) obtain par r' where u: "nodes_ok d par (ANode a np n ps ks # r')" by (auto simp: node_in_def)
  let ?q = "q\<lparr>nq_front := nq_front q + 1, nq_count := nq_count q - 1\<rparr>"
  have q: "nq_count q = Suc (length r)" "nq_front q < 64" "nq q (nq_front q) = a" "qrep ?q (map an r)"
    using 2(3) by (auto simp: qrep_def)
  have pop: "nq_pop q = Some (a, ?q)" using q by (simp add: nq_pop_def ITER_MAX_QUEUE_LEN_def)
  have hit: "is_type_equal (str_at d (dn_name (dt_node d a))) ty \<longleftrightarrow> of_type ty n"
    using u by (simp add: str_at_name is_type_equal_iff)
  show ?case
  proof (cases "of_type ty n \<and> length out \<ge> max_count")
    case True
    with 2(5) q(1) pop hit show ?thesis by (subst find_type_loop.simps) simp
  next
    case False
    let ?out = "if of_type ty n then out @ [a] else out"
    have "nq_front ?q + length (map an r) + length ks \<le> 64"
      using 2(4) length_le_count [of r] length_le_count [of ks] by simp
    from push_children_kids [OF _ q(4) this, of d a] u obtain q' where
      q': "push_children d (khead ks) ?q = Some (False, q')" "qrep q' (map an (r @ ks))" "nq_front q' = nq_front q + 1" by auto
    have "\<forall>v \<in> set (r @ ks). node_in d v" using 2(2) u nodes_in [of d a ks] by auto
    moreover have "nq_front q' + count_nodes (r @ ks) \<le> 64" using 2(4) q'(3) by simp
    moreover have "length ?out \<le> max_count" using False 2(5) by auto
    ultimately have "find_type_loop d ty max_count q' ?out
      = Some (take max_count (?out @ map an (filter (\<lambda>v. of_type ty (an_name v)) (bfs (r @ ks)))))" using 2(1) q'(2) by blast
    with False q(1) pop hit q'(1) u show ?thesis by (subst find_type_loop.simps) (auto simp: Let_def take_Cons')
  qed
qed

text \<open>on a tree of at most 64 nodes \<^verbatim>\<open>find_by_type\<close> returns, in breadth-first order, the first
  \<open>max_count\<close> nodes whose name is the type or the type followed by \<^verbatim>\<open>@\<close>.
\<close>

theorem find_by_type_bfs:
  assumes "nodes_ok d 0 [u]" "count_nodes [u] \<le> 64"
  shows "find_by_type d (an u) ty max_count
    = Some (take max_count (map an (filter (\<lambda>v. of_type ty (an_name v)) (bfs [u]))))"
proof -
  have "an u \<noteq> 0" using assms(1) by (cases u) simp
  moreover have "qrep (nq_init (an u)) (map an [u])" "nq_front (nq_init (an u)) = 0"
    by (simp_all add: qrep_def nq_init_def nq_push_def ITER_MAX_QUEUE_LEN_def)
  ultimately show ?thesis
    using find_type_loop_bfs [of "[u]" d "nq_init (an u)" "[]" max_count ty] assms nodes_in [OF assms(1), of u]
    by (simp add: find_by_type_def)
qed

fun count_fdt :: "fdt list \<Rightarrow> nat" where
  "count_fdt [] = 0"
| "count_fdt (Fdt n ps ks # r) = Suc (count_fdt ks + count_fdt r)"

lemma count_fdt_append [simp]: "count_fdt (xs @ ys) = count_fdt xs + count_fdt ys"
  by (induction xs rule: count_fdt.induct) auto

lemma count_erase: "count_nodes ks = count_fdt (erase ks)"
  by (induction ks rule: count_nodes.induct) auto

theorem find_by_type_bfs_witness:
  "\<exists>u d. parse_tree blob_ex 0 store_ex = Some (an u, d)
    \<and> find_by_type d (an u) [98] 5 = Some (take 5 (map an (filter (\<lambda>v. of_type [98] (an_name v)) (bfs [u]))))"
proof -
  have "room_for [tree_ex] \<le> 1073741784" by (simp add: tree_ex_def node_cost_def prop_cost_def cost_def)
  from parse_blob [OF blob_ex_ok store_ex_room this] obtain u d where
    u: "parse_tree blob_ex 0 store_ex = Some (an u, d)" "nodes_ok d 0 [u]" "erase [u] = [tree_ex]" by blast
  have "count_nodes [u] \<le> 64" using u(3) by (simp add: count_erase tree_ex_def del: erase.simps)
  with find_by_type_bfs [OF u(2)] u(1) show ?thesis by blast
qed

section \<open>Cell counts\<close>

text \<open>The count that a node itself gives, if any.\<close>

definition own_cells :: "dtstore \<Rightarrow> u8 list \<Rightarrow> u64 \<Rightarrow> u32 option option" where
  "own_cells d name node =
     do { p \<leftarrow> get_property d node name;
          if p = 0 then Some None else map_option Some (block_be32 d (pr_value (dt_prop d p)) 0) }"

fun parents :: "dtstore \<Rightarrow> u64 \<Rightarrow> u64 list \<Rightarrow> bool" where
  "parents d a [] \<longleftrightarrow> a = 0"
| "parents d a (b # bs) \<longleftrightarrow> a = b \<and> a \<noteq> 0 \<and> parents d (dn_parent (dt_node d a)) bs"

lemma cells_loop_outermost:
  assumes "parents d a (as @ [root])" "\<forall>x \<in> set as. own_cells d name x \<noteq> None" "own_cells d name root = Some (Some v)"
  shows "cells_loop d name a c = Some v"
  using assms
proof (induction as arbitrary: a c)
  case Nil
  then have a: "a = root" "a \<noteq> 0" "dn_parent (dt_node d a) = 0" by auto
  from Nil(3) obtain p where "get_property d root name = Some p" "p \<noteq> 0" "block_be32 d (pr_value (dt_prop d p)) 0 = Some v"
    by (auto simp: own_cells_def split: if_splits)
  with a show ?case by (subst cells_loop.simps) (simp add: cells_loop.simps [of d name 0])
next
  case (Cons x as)
  then have a: "a = x" "a \<noteq> 0" "parents d (dn_parent (dt_node d a)) (as @ [root])" by auto
  from Cons(3) obtain y where "own_cells d name a = Some y" using a(1) by auto
  then obtain p c' where "get_property d a name = Some p"
    "(if p \<noteq> 0 then block_be32 d (pr_value (dt_prop d p)) 0 else Some c) = Some c'"
    by (auto simp: own_cells_def split: if_splits)
  with Cons.IH [OF a(3), of c'] Cons.prems a(2) show ?case by (subst cells_loop.simps) simp
qed

text \<open>
  the cell counts that a node's registers are read with are those of the root whenever the
  root has them, whatever its parent and the other nodes on the way say.
\<close>

theorem cells_count_outermost:
  assumes "parents d (dn_parent (dt_node d node)) (as @ [root])" "\<forall>x \<in> set as. own_cells d name x \<noteq> None"
    and "own_cells d name root = Some (Some v)" "v \<noteq> 0"
  shows "cells_count name d node = Some v"
proof -
  have "dn_parent (dt_node d node) \<noteq> 0" using assms(1) by (cases as) auto
  with cells_loop_outermost [OF assms(1-3), of 0] assms(4) show ?thesis by (simp add: cells_count_def)
qed

text \<open>A root at 100 with two cells, a bus at 200 with one, and a device at 300 on the bus.\<close>

definition cells_ex :: dtstore where
  "cells_ex = store_ex\<lparr>
     dt_node := (\<lambda>a. \<lparr>dn_name = 0, dn_parent = (if a = 300 then 200 else if a = 200 then 100 else 0), dn_child = 0, dn_sibling = 0,
                      dn_properties = (if a = 100 then 110 else if a = 200 then 210 else 0)\<rparr>),
     dt_prop := (\<lambda>a. \<lparr>pr_name = 111, pr_length = 4, pr_value = (if a = 110 then 112 else 212), pr_next = 0\<rparr>),
     dt_bytes := (\<lambda>a. if a = 111 then s_reg @ [0] else if a = 112 then [0, 0, 0, 2] else [0, 0, 0, 1])\<rparr>"

theorem cells_count_outermost_witness: "cells_count s_reg cells_ex 300 = Some 2"
proof (rule cells_count_outermost [where as = "[200]" and root = 100])
  have f: "byte_compare (str_at cells_ex 111) s_reg = 0" by code_simp
  have g: "get_property cells_ex 200 s_reg = Some 210" "get_property cells_ex 100 s_reg = Some 110"
    using f by (simp_all add: get_property_def cells_ex_def find_property.simps)
  have b: "block_be32 cells_ex 112 0 = Some 2" "block_be32 cells_ex 212 0 = Some 1" by code_simp+
  show "\<forall>x \<in> set [200]. own_cells cells_ex s_reg x \<noteq> None" "own_cells cells_ex s_reg 100 = Some (Some 2)"
    using g b by (simp_all add: own_cells_def cells_ex_def)
qed (simp_all add: cells_ex_def)

end
