(* ===== verification/DtFlatten.thy ===== *)
theory DtFlatten
  imports DtProps
begin

text \<open>
  Flattened device trees: big-endian values, lists of strings, and for every tree a flattened form
  that the parser accepts.
\<close>

section \<open>Big-endian values in properties\<close>

definition be64 :: "u64 \<Rightarrow> u8 list" where "be64 v = be32 (ucast (drop_bit 32 v)) @ be32 (ucast v)"

lemma length_be64 [simp]: "length (be64 v) = 8"
  by (simp add: be64_def)

lemma be64_bytes: "i < 8 \<Longrightarrow> be64 v ! i = byte_of i (swap_uint64 v)"
proof (rule bit_word_eqI)
  fix n
  assume "i < 8" "n < LENGTH(8)"
  then have "i \<in> set [0..<8]" "n \<in> set [0..<8]" by simp_all
  then show "bit (be64 v ! i) n = bit (byte_of i (swap_uint64 v)) n"
    by (simp add: upt_rec, elim disjE)
      (simp_all add: be64_def be32_def byte_of_def swap_uint64_def Let_def bit_simps, simp_all add: numeral_eq_Suc)
qed

lemma bit_swap_uint64: "n < 64 \<Longrightarrow> bit (swap_uint64 v) n = bit v (56 - 8 * (n div 8) + n mod 8)"
proof -
  assume "n < 64"
  then have "n \<in> set [0..<64]" by simp
  then show ?thesis
    by (simp add: upt_rec, elim disjE) (simp_all add: swap_uint64_def Let_def bit_simps, simp_all add: numeral_eq_Suc)
qed

lemma swap_uint64_twice: "swap_uint64 (swap_uint64 v) = v"
proof (rule bit_word_eqI)
  fix n
  assume "n < LENGTH(64)"
  then have q: "n div 8 < 8" "n mod 8 < 8" "n < 64" by simp_all
  let ?m = "56 - 8 * (n div 8) + n mod 8"
  have "?m = 8 * (7 - n div 8) + n mod 8" using q by simp
  then have "?m div 8 = 7 - n div 8" "?m mod 8 = n mod 8" by (simp_all add: div_mult_self4)
  moreover have "?m < 64" using q by linarith
  moreover have "56 - 8 * (7 - n div 8) + n mod 8 = n" using q(1) by (simp add: right_diff_distrib')
  ultimately show "bit (swap_uint64 (swap_uint64 v)) n = bit v n" using q(3) by (simp add: bit_swap_uint64)
qed

lemma load64_be64:
  assumes "bytes_at m a (be64 v)"
  shows "be64toh (load64 m a) = v"
proof -
  have "load64 m a = load_le 8 (store_le 8 (\<lambda>_. 0) a (swap_uint64 v)) a"
    unfolding load64_def
  proof (rule load_le_cong)
    fix i :: nat
    assume "i < 8"
    then show "m (a + of_nat i) = store_le 8 (\<lambda>_. 0) a (swap_uint64 v) (a + of_nat i)"
      using assms by (simp add: bytes_at_def be64_bytes store_le_apply)
  qed
  also have "\<dots> = swap_uint64 v" using load_le_store_le_same [of 8] by (simp add: take_bit_word_eq_self)
  finally show ?thesis by (simp add: be64toh_def swap_uint64_twice)
qed

lemma load64_zero: "bytes_at m a (be64 0) \<Longrightarrow> load64 m a = 0"
proof -
  assume "bytes_at m a (be64 0)"
  then have "swap_uint64 (load64 m a) = 0" using load64_be64 [of m a 0] by (simp add: be64toh_def)
  then have "load64 m a = swap_uint64 0" using swap_uint64_twice [of "load64 m a"] by simp
  then show ?thesis by (simp add: swap_uint64_def)
qed

lemma bytes_at_block: "length (xs @ ys @ zs) < 2 ^ 32 \<Longrightarrow> bytes_at (block_mem (xs @ ys @ zs)) (of_nat (length xs)) ys"
proof -
  assume "length (xs @ ys @ zs) < 2 ^ 32"
  then have "unat (of_nat (length xs) + of_nat i :: u64) = length xs + i" if "i < length ys" for i
    using that unat_of_nat64 [of "length xs + i"] by simp
  then show ?thesis by (auto simp: bytes_at_def block_mem_def nth_append)
qed

lemma block_be32_at:
  "dt_bytes d p = xs @ be32 v @ zs \<Longrightarrow> length (dt_bytes d p) < 2 ^ 32 \<Longrightarrow> block_be32 d p (length xs) = Some v"
  using fdt32_be32 [OF bytes_at_block, of xs v zs] by (simp add: block_be32_def fdt32_def)

lemma block_be64_at:
  "dt_bytes d p = xs @ be64 v @ zs \<Longrightarrow> length (dt_bytes d p) < 2 ^ 32 \<Longrightarrow> block_be64 d p (length xs) = Some v"
  using load64_be64 [OF bytes_at_block, of xs v zs] by (simp add: block_be64_def)

lemmas block_be32_first = block_be32_at [where xs = "[]", simplified]

declare unat_of_nat32 [simp]

section \<open>Lists of strings\<close>

declare contains_string.simps [simp del]

definition stringlist :: "u8 list list \<Rightarrow> u8 list" where "stringlist ss = concat (map (\<lambda>s. s @ [0]) ss)"

lemma contains_stringlist: "\<forall>s \<in> set ss. 0 \<notin> set s \<Longrightarrow> contains_string (stringlist ss) t = Some (t \<in> set ss)"
proof (induction ss)
  case Nil
  then show ?case by (subst contains_string.simps) (simp add: stringlist_def)
next
  case (Cons s ss)
  then have "takeWhile (\<lambda>b. b \<noteq> 0) (stringlist (s # ss)) = s" "drop (length s + 1) (stringlist (s # ss)) = stringlist ss"
    by (simp_all add: stringlist_def takeWhile_append)
  with Cons show ?case by (subst contains_string.simps) (auto simp: Let_def byte_compare_0 stringlist_def)
qed

section \<open>The flattened form of a tree\<close>

text \<open>The offset of a name in the block of strings, which holds the names one after the other.\<close>

definition name_off :: "u8 list list \<Rightarrow> u8 list \<Rightarrow> u32" where
  "name_off names n = of_nat (length (stringlist (takeWhile (\<lambda>x. x \<noteq> n) names)))"

text \<open>The header, no reserved ranges, the structure and the strings.\<close>

definition flat_struct :: "u8 list list \<Rightarrow> fdt \<Rightarrow> u8 list" where
  "flat_struct names t = enc (name_off names) [t] @ be32 FDT_END"

definition flatten :: "u8 list list \<Rightarrow> fdt \<Rightarrow> u8 list" where
  "flatten names t =
     be32 FDT_MAGIC @ be32 0 @ be32 56 @ be32 (of_nat (56 + length (flat_struct names t))) @ be32 40 @ replicate 20 0
     @ be64 0 @ be64 0 @ flat_struct names t @ stringlist names"

fun well_named :: "u8 list list \<Rightarrow> fdt list \<Rightarrow> bool" where
  "well_named names [] = True"
| "well_named names (Fdt n ps ks # r) \<longleftrightarrow> 0 \<notin> set n \<and> length n < 32 \<and> (\<forall>p \<in> set ps. fst p \<in> set names \<and> length (snd p) < 2 ^ 32)
     \<and> well_named names ks \<and> well_named names r"

lemma well_named_fits:
  "well_named names ts \<Longrightarrow> \<forall>n \<in> set names. cstr m (s + ucast (off n)) n \<and> length n < 2 ^ 32 \<Longrightarrow> fits m s off ts"
  by (induction names ts rule: well_named.induct) (auto simp: prop_fits_def)

lemma stringlist_append [simp]: "stringlist (xs @ ys) = stringlist xs @ stringlist ys" "stringlist (x # xs) = x @ 0 # stringlist xs"
  by (simp_all add: stringlist_def)

lemma ucast_of_nat32: "n < 2 ^ 32 \<Longrightarrow> (ucast (of_nat n :: u32) :: u64) = of_nat n"
  by (simp add: unsigned_of_nat take_bit_nat_eq_self)

lemma block_names:
  assumes "length (pre @ stringlist names) < 2 ^ 32" "\<forall>n \<in> set names. 0 \<notin> set n" "n \<in> set names"
  shows "cstr (block_mem (pre @ stringlist names)) (of_nat (length pre) + ucast (name_off names n)) n \<and> length n < 2 ^ 32"
proof -
  let ?tw = "takeWhile (\<lambda>x. x \<noteq> n) names"
  have "dropWhile (\<lambda>x. x \<noteq> n) names \<noteq> []" using assms(3) by (simp add: dropWhile_eq_Nil_conv)
  then obtain rest where "dropWhile (\<lambda>x. x \<noteq> n) names = n # rest"
    using hd_dropWhile [of "\<lambda>x. x \<noteq> n" names] by (metis list.exhaust_sel)
  then have "names = ?tw @ n # rest" using takeWhile_dropWhile_id [of "\<lambda>x. x \<noteq> n" names] by metis
  then have e: "pre @ stringlist names = (pre @ stringlist ?tw) @ (n @ [0]) @ stringlist rest"
    by (metis append.assoc append_Cons append_Nil stringlist_append)
  have l: "length (pre @ stringlist ?tw) + length n < 2 ^ 32" using assms(1) unfolding e by simp
  have "bytes_at (block_mem (pre @ stringlist names)) (of_nat (length (pre @ stringlist ?tw))) (n @ [0])"
    unfolding e using assms(1) by (intro bytes_at_block) (simp only: e)
  moreover have "(of_nat (length pre) + ucast (name_off names n) :: u64) = of_nat (length (pre @ stringlist ?tw))"
    using l by (simp add: name_off_def ucast_of_nat32)
  ultimately show ?thesis using cstr_bytes assms(2,3) l by (metis add_lessD1 add.commute)
qed

theorem blob_flatten:
  assumes "well_named names [t]" "\<forall>n \<in> set names. 0 \<notin> set n" "depth [t] \<le> 64" "length (flatten names t) < 2 ^ 32"
  shows "blob (block_mem (flatten names t)) 0 (name_off names) t"
proof -
  let ?F = "flatten names t" and ?m = "block_mem (flatten names t)" and ?s = "flat_struct names t"
  have at: "bytes_at ?m (of_nat (length xs)) ys" if "?F = xs @ ys @ zs" for xs ys zs
    using bytes_at_block [of xs ys zs] assms(4) that by simp
  have h: "fdt32 ?m 0 = FDT_MAGIC" "fdt32 ?m 8 = 56" "fdt32 ?m 12 = of_nat (56 + length ?s)" "fdt32 ?m 16 = 40"
    using at [of "[]" "be32 FDT_MAGIC"] at [of "be32 FDT_MAGIC @ be32 0" "be32 56"]
      at [of "be32 FDT_MAGIC @ be32 0 @ be32 56" "be32 (of_nat (56 + length ?s))"]
      at [of "be32 FDT_MAGIC @ be32 0 @ be32 56 @ be32 (of_nat (56 + length ?s))" "be32 40"]
    by (simp_all add: flatten_def fdt32_be32)
  let ?H = "be32 FDT_MAGIC @ be32 0 @ be32 56 @ be32 (of_nat (56 + length ?s)) @ be32 40 @ replicate 20 0"
  have z: "load64 ?m 40 = 0" "load64 ?m 48 = 0"
    using at [of ?H "be64 0"] at [of "?H @ be64 0" "be64 0"] by (simp_all add: flatten_def load64_zero)
  have b: "bytes_at ?m 56 ?s" using at [of "?H @ be64 0 @ be64 0" ?s] by (simp add: flatten_def)
  have F: "?F = (?H @ be64 0 @ be64 0 @ ?s) @ stringlist names" by (simp add: flatten_def)
  have len: "length (?H @ be64 0 @ be64 0 @ ?s) = 56 + length ?s" by simp
  have "fits ?m (of_nat (56 + length ?s)) (name_off names) [t]"
    using block_names [of "?H @ be64 0 @ be64 0 @ ?s" names] assms(2,4) unfolding F len by (intro well_named_fits [OF assms(1)]) blast
  moreover have "56 + length ?s < 2 ^ 32" using assms(4) by (simp add: flatten_def)
  ultimately have f: "fits ?m (ucast (fdt32 ?m 12)) (name_off names) [t]" by (simp only: h(3) ucast_of_nat32)
  have "\<exists>k. load64 ?m (40 + of_nat (16 * k)) = 0 \<and> load64 ?m (40 + of_nat (16 * k) + 8) = 0"
    using z by (intro exI [of _ 0]) simp
  with h f b assms(3) show ?thesis by (simp add: blob_def aligned4_def flat_struct_def)
qed

end
