(* ===== verification/DiscoveryProps.thy ===== *)
theory DiscoveryProps
  imports Discovery DtFlatten
begin

text \<open>
  Properties of device discovery: what the initialisers register is what the flattened device tree
  says, from its bytes to the call of the registration.
\<close>

section \<open>Properties of a node\<close>

definition pval :: "aprop list \<Rightarrow> u8 list \<Rightarrow> u8 list option" where
  "pval qs = map_of (map (\<lambda>q. (ap_name q, ap_val q)) qs)"

lemma find_property_rep:
  assumes "props_ok d qs"
  shows "case pval qs name of None \<Rightarrow> find_property d name (phead qs) = Some 0
    | Some v \<Rightarrow> \<exists>p. p \<noteq> 0 \<and> find_property d name (phead qs) = Some p \<and> pr_length (dt_prop d p) = of_nat (length v)
        \<and> dt_bytes d (pr_value (dt_prop d p)) = v"
  using assms
proof (induction d qs rule: props_ok.induct)
  case (1 d)
  then show ?case by (simp add: pval_def find_property.simps)
next
  case (2 d a np vp n v ps)
  then have s: "str_at d np = n" by (simp add: str_at_name)
  show ?case
  proof (cases "n = name")
    case True
    with 2 s show ?thesis by (auto simp: pval_def find_property.simps [of d name a] byte_compare_0 intro!: exI [of _ a])
  next
    case False
    with 2 s have "find_property d name a = find_property d name (phead ps)" "pval (AProp a np vp n v # ps) name = pval ps name"
      by (simp_all add: pval_def find_property.simps [of d name a] byte_compare_0)
    with 2 show ?thesis by (cases "pval ps name") simp_all
  qed
qed

lemma node_in_rep:
  assumes "node_in d w"
  shows "an w \<noteq> 0" "dn_properties (dt_node d (an w)) = phead (an_props w)" "props_ok d (an_props w)" "nodes_ok d (an w) (an_kids w)"
  using assms by (cases w; auto simp: node_in_def)+

lemma get_property_none: "node_in d w \<Longrightarrow> pval (an_props w) name = None \<Longrightarrow> get_property d (an w) name = Some 0"
  using find_property_rep [OF node_in_rep(3), of d w name] by (simp add: get_property_def node_in_rep)

lemma get_property_some:
  assumes "node_in d w" "pval (an_props w) name = Some v"
  obtains p where "p \<noteq> 0" "get_property d (an w) name = Some p" "pr_length (dt_prop d p) = of_nat (length v)"
    "dt_bytes d (pr_value (dt_prop d p)) = v"
  using find_property_rep [OF node_in_rep(3) [OF assms(1)], of name] assms by (auto simp: get_property_def node_in_rep)

section \<open>Cells and registers\<close>

text \<open>A node whose cell counts, if it has them, are words.\<close>

definition cells_fine :: "(u8 list \<Rightarrow> u8 list option) \<Rightarrow> bool" where
  "cells_fine f \<longleftrightarrow> (\<forall>v. f s_address_cells = Some v \<longrightarrow> 4 \<le> length v) \<and> (\<forall>v. f s_size_cells = Some v \<longrightarrow> 4 \<le> length v)"

lemma own_cells_fine:
  assumes "node_in d w" "cells_fine (pval (an_props w))" "name = s_address_cells \<or> name = s_size_cells"
  shows "own_cells d name (an w) \<noteq> None"
proof (cases "pval (an_props w) name")
  case None
  with assms(1) show ?thesis by (simp add: own_cells_def get_property_none)
next
  case (Some v)
  then have "4 \<le> length v" using assms(2,3) by (auto simp: cells_fine_def)
  moreover obtain p where "p \<noteq> 0" "get_property d (an w) name = Some p" "dt_bytes d (pr_value (dt_prop d p)) = v"
    using get_property_some [OF assms(1) Some] by blast
  ultimately show ?thesis by (simp add: own_cells_def block_be32_def)
qed

lemma own_cells_word:
  assumes "node_in d w" "pval (an_props w) name = Some (be32 c)"
  shows "own_cells d name (an w) = Some (Some c)"
proof -
  obtain p where p: "p \<noteq> 0" "get_property d (an w) name = Some p" "dt_bytes d (pr_value (dt_prop d p)) = be32 c"
    using get_property_some [OF assms] by blast
  from block_be32_first [where zs = "[]", simplified, OF p(3)] p show ?thesis by (simp add: own_cells_def)
qed

text \<open>Every node below the root has a chain of parents up to it.\<close>

definition below :: "dtstore \<Rightarrow> u64 \<Rightarrow> anode \<Rightarrow> bool" where
  "below d root v \<longleftrightarrow> node_in d v \<and> (\<exists>as. parents d (dn_parent (dt_node d (an v))) (map an as @ [root])
     \<and> (\<forall>w \<in> set as. node_in d w \<and> cells_fine (pval (an_props w))))"

lemma kids_parent: "nodes_ok d par ks \<Longrightarrow> k \<in> set ks \<Longrightarrow> dn_parent (dt_node d (an k)) = par"
  by (induction d par ks rule: nodes_ok.induct) auto

lemma below_kids:
  assumes "below d root v" "cells_fine (pval (an_props v))" "k \<in> set (an_kids v)"
  shows "below d root k"
proof -
  from assms(1) obtain as where as: "node_in d v" "parents d (dn_parent (dt_node d (an v))) (map an as @ [root])"
    "\<forall>w \<in> set as. node_in d w \<and> cells_fine (pval (an_props w))" by (auto simp: below_def)
  note v = node_in_rep [OF as(1)]
  have "parents d (dn_parent (dt_node d (an k))) (map an (v # as) @ [root])"
    using as(2) v kids_parent [OF v(4) assms(3)] by simp
  with as assms(2) v(1) nodes_in [OF v(4) assms(3)] show ?thesis unfolding below_def
    by (intro conjI exI [of _ "v # as"]) simp_all
qed

lemma bfs_below:
  "\<forall>v \<in> set ws. below d root v \<Longrightarrow> \<forall>v \<in> set (bfs ws). cells_fine (pval (an_props v)) \<Longrightarrow> \<forall>v \<in> set (bfs ws). below d root v"
proof (induction ws rule: bfs.induct)
  case (2 a np n ps ks r)
  let ?v = "ANode a np n ps ks"
  have v: "below d root ?v" "cells_fine (pval (an_props ?v))" using 2(2,3) by simp_all
  have "\<forall>v \<in> set (r @ ks). below d root v" using 2(2) below_kids [OF v] by auto
  with 2 v(1) show ?case by simp
qed simp

lemma root_below:
  assumes "nodes_ok d 0 [u]" "\<forall>v \<in> set (bfs [u]). cells_fine (pval (an_props v))" "v \<in> set (bfs (an_kids u))"
  shows "below d (an u) v"
proof -
  have u: "node_in d u" using nodes_in [OF assms(1)] by simp
  have p: "parents d (an u) (map an [] @ [an u])" using assms(1) by (cases u) simp
  have "\<forall>k \<in> set (an_kids u). below d (an u) k"
    using kids_parent [OF node_in_rep(4) [OF u]] nodes_in [OF node_in_rep(4) [OF u]] p
    unfolding below_def by (metis empty_iff empty_set)
  moreover have "\<forall>v \<in> set (bfs (an_kids u)). cells_fine (pval (an_props v))" using assms(2) by (cases u) simp
  ultimately show ?thesis using bfs_below assms(3) by blast
qed

lemma below_cells:
  assumes "below d (an u) v" "node_in d u" "pval (an_props u) name = Some (be32 c)" "c \<noteq> 0"
    "name = s_address_cells \<or> name = s_size_cells"
  shows "cells_count name d (an v) = Some c"
proof -
  from assms(1) obtain as where as: "parents d (dn_parent (dt_node d (an v))) (map an as @ [an u])"
    "\<forall>w \<in> set as. node_in d w \<and> cells_fine (pval (an_props w))" by (auto simp: below_def)
  have "\<forall>x \<in> set (map an as). own_cells d name x \<noteq> None" using as(2) own_cells_fine assms(5) by auto
  from cells_count_outermost [OF as(1) this own_cells_word [OF assms(2,3)] assms(4)] show ?thesis .
qed

text \<open>A root that gives two cells to addresses and to sizes.\<close>

definition two_cells :: "(u8 list \<Rightarrow> u8 list option) \<Rightarrow> bool" where
  "two_cells f \<longleftrightarrow> f s_address_cells = Some (be32 2) \<and> f s_size_cells = Some (be32 2)"

lemma get_reg_item_word:
  assumes "below d (an u) v" "node_in d u" "two_cells (pval (an_props u))" "pval (an_props v) s_reg = Some (be64 pa @ be64 len)"
  shows "get_reg_item d (an v) 0 a l = Some (0, pa, len)"
proof -
  have v: "node_in d v" using assms(1) by (simp add: below_def)
  have c: "get_address_cells_count d (an v) = Some 2" "get_size_cells_count d (an v) = Some 2"
    using assms(3) below_cells [OF assms(1,2)] by (simp_all add: two_cells_def get_address_cells_count_def get_size_cells_count_def)
  obtain p where p: "p \<noteq> 0" "get_property d (an v) s_reg = Some p" "pr_length (dt_prop d p) = 16"
    "dt_bytes d (pr_value (dt_prop d p)) = be64 pa @ be64 len" using get_property_some [OF v assms(4)] by auto
  from p(4) have "block_be64 d (pr_value (dt_prop d p)) 0 = Some pa" "block_be64 d (pr_value (dt_prop d p)) 8 = Some len"
    using block_be64_at [of d "pr_value (dt_prop d p)" "[]" pa "be64 len"] block_be64_at [of d "pr_value (dt_prop d p)" "be64 pa" len "[]"]
    by simp_all
  with c p show ?thesis by (simp add: get_reg_item_def read_cells_def)
qed

section \<open>Descriptions of devices\<close>

text \<open>What the properties \<open>f\<close> of a node say of a device with registers and an interrupt.\<close>

definition describes :: "u8 list \<Rightarrow> (u8 list \<Rightarrow> u8 list option) \<Rightarrow> u32 \<Rightarrow> u32 \<Rightarrow> u64 \<Rightarrow> u64 \<Rightarrow> bool" where
  "describes model f irq par pa len \<longleftrightarrow> (\<exists>ss rest rest'.
     f (str ''compatible'') = Some (stringlist ss) \<and> (\<forall>s \<in> set ss. 0 \<notin> set s) \<and> model \<in> set ss \<and> length (stringlist ss) < 2 ^ 32
     \<and> f (str ''interrupts'') = Some (be32 irq @ rest) \<and> length rest mod 4 = 0 \<and> length rest + 4 < 2 ^ 32
     \<and> f (str ''interrupt-parent'') = Some (be32 par @ rest') \<and> length rest' + 4 < 2 ^ 32
     \<and> f s_reg = Some (be64 pa @ be64 len))"

lemma prop_be32_first:
  assumes "node_in d v" "pval (an_props v) name = Some (be32 x @ rest)" "length rest + 4 < 2 ^ 32"
  obtains p where "p \<noteq> 0" "get_property d (an v) name = Some p" "pr_length (dt_prop d p) = of_nat (length rest + 4)" "prop_be32 d p 0 = Some x"
proof -
  obtain p where p: "p \<noteq> 0" "get_property d (an v) name = Some p" "pr_length (dt_prop d p) = of_nat (length rest + 4)"
    "dt_bytes d (pr_value (dt_prop d p)) = be32 x @ rest" using get_property_some [OF assms(1,2)] by (auto simp: add.commute)
  from block_be32_first [OF p(4)] assms(3) p(4) have "prop_be32 d p 0 = Some x" by (simp add: prop_be32_def)
  with p that show ?thesis by blast
qed

lemma prop_words:
  assumes "n mod 4 = 0" "n + 4 < 2 ^ 32"
  shows "(of_nat (n + 4) :: u32) mod 4 = 0" "(of_nat (n + 4) :: u32) \<noteq> 0"
proof -
  have u: "unat (of_nat (n + 4) :: u32) = n + 4" using assms(2) by (intro unat_of_nat32) simp
  then have "unat ((of_nat (n + 4) :: u32) mod 4) = 0" using assms(1) by (simp only: unat_mod) simp
  then show "(of_nat (n + 4) :: u32) mod 4 = 0" by (simp only: unat_eq_zero)
  show "(of_nat (n + 4) :: u32) \<noteq> 0" using u by (metis add_is_0 unat_0 zero_neq_numeral)
qed

text \<open>The readings that the parsers of the serial line and of virtio share.\<close>

lemma describes_reads:
  assumes "below d (an u) v" "node_in d u" "two_cells (pval (an_props u))" "describes model (pval (an_props v)) irq par pa len"
  obtains c i p where "c \<noteq> 0" "get_property d (an v) (str ''compatible'') = Some c" "contains_string (prop_bytes d c) model = Some True"
    "i \<noteq> 0" "get_property d (an v) (str ''interrupts'') = Some i" "pr_length (dt_prop d i) mod 4 = 0" "pr_length (dt_prop d i) \<noteq> 0"
    "prop_be32 d i 0 = Some irq"
    "p \<noteq> 0" "get_property d (an v) (str ''interrupt-parent'') = Some p" "prop_be32 d p 0 = Some par"
    "\<And>a l. get_reg_item d (an v) 0 a l = Some (0, pa, len)"
proof -
  have v: "node_in d v" using assms(1) by (simp add: below_def)
  from assms(4) obtain ss rest rest' where f:
    "pval (an_props v) (str ''compatible'') = Some (stringlist ss)" "\<forall>s \<in> set ss. 0 \<notin> set s" "model \<in> set ss" "length (stringlist ss) < 2 ^ 32"
    "pval (an_props v) (str ''interrupts'') = Some (be32 irq @ rest)" "length rest mod 4 = 0" "length rest + 4 < 2 ^ 32"
    "pval (an_props v) (str ''interrupt-parent'') = Some (be32 par @ rest')" "length rest' + 4 < 2 ^ 32"
    "pval (an_props v) s_reg = Some (be64 pa @ be64 len)" unfolding describes_def by (elim exE conjE)
  obtain c where c: "c \<noteq> 0" "get_property d (an v) (str ''compatible'') = Some c"
    "pr_length (dt_prop d c) = of_nat (length (stringlist ss))" "dt_bytes d (pr_value (dt_prop d c)) = stringlist ss"
    using get_property_some [OF v f(1)] by blast
  have "prop_bytes d c = stringlist ss" using c(3,4) f(4) by (simp add: prop_bytes_def)
  obtain i where i: "i \<noteq> 0" "get_property d (an v) (str ''interrupts'') = Some i" "pr_length (dt_prop d i) = of_nat (length rest + 4)"
    "prop_be32 d i 0 = Some irq" using prop_be32_first [OF v f(5,7)] by blast
  obtain p where p: "p \<noteq> 0" "get_property d (an v) (str ''interrupt-parent'') = Some p" "prop_be32 d p 0 = Some par"
    using prop_be32_first [OF v f(8,9)] by blast
  have "contains_string (prop_bytes d c) model = Some True" using contains_stringlist [OF f(2)] f(3) \<open>prop_bytes d c = stringlist ss\<close> by simp
  moreover note get_reg_item_word [OF assms(1-3) f(10)]
  ultimately show ?thesis using that c i p prop_words [OF f(6,7)] by metis
qed

lemma parse_virtio_described:
  assumes "below d (an u) v" "node_in d u" "two_cells (pval (an_props u))"
    and "describes (str ''virtio,mmio'') (pval (an_props v)) (vd_interrupt_id x) (vd_interrupt_parent_id x) (vd_begin_pa x) (vd_len x)"
  shows "parse_virtio_device d (an v) zero_virtio = Some (0, x)"
  by (rule describes_reads [OF assms]) (simp add: parse_virtio_device_def zero_virtio_def)


section \<open>The flattened tree, searched\<close>

text \<open>Children are linked in front of each other, so the search meets them last first.\<close>

lemma count_fdt_rev [simp]: "count_fdt (rev ks) = count_fdt ks"
proof (induction ks)
  case (Cons k ks)
  then show ?case by (cases k) simp
qed simp

function fbfs :: "fdt list \<Rightarrow> fdt list" where
  "fbfs [] = []"
| "fbfs (Fdt n ps ks # r) = Fdt n ps ks # fbfs (r @ rev ks)"
  by pat_completeness auto
termination by (relation "measure count_fdt") auto

definition conv :: "anode \<Rightarrow> fdt" where
  "conv v = Fdt (an_name v) (rev (map (\<lambda>q. (ap_name q, ap_val q)) (an_props v))) (erase (an_kids v))"

lemma erase_conv: "erase ks = rev (map conv ks)"
  by (induction ks rule: erase.induct) (simp_all add: conv_def)

lemma fbfs_conv: "fbfs (map conv ws) = map conv (bfs ws)"
proof (induction ws rule: bfs.induct)
  case (2 a np n ps ks r)
  then show ?case by (simp add: conv_def [of "ANode a np n ps ks"] erase_conv)
qed simp

text \<open>The value of a property; where a name occurs twice the last one counts.\<close>

definition fval :: "fdt \<Rightarrow> u8 list \<Rightarrow> u8 list option" where "fval t = map_of (rev (f_ps t))"

lemma conv_sel [simp]: "f_nm (conv v) = an_name v" "fval (conv v) = pval (an_props v)"
  by (simp_all add: conv_def fval_def pval_def)

definition below_of_type :: "u8 list \<Rightarrow> fdt \<Rightarrow> fdt list" where
  "below_of_type ty t = filter (\<lambda>v. of_type ty (f_nm v)) (fbfs (rev (f_ks t)))"

text \<open>A tree that can be searched to its end, with cells that can be read.\<close>

definition discoverable :: "fdt \<Rightarrow> bool" where
  "discoverable t \<longleftrightarrow> count_fdt [t] \<le> 64 \<and> two_cells (fval t) \<and> (\<forall>v \<in> set (fbfs [t]). cells_fine (fval v))"

lemma length_bfs: "length (bfs ws) = count_nodes ws"
  by (induction ws rule: bfs.induct) auto

text \<open>The parsed tree: where its root is, what a search finds, and how the found nodes lie below the root.\<close>

lemma parsed_search:
  assumes "blob m start off t" "roomy (dt_heap d) B N" "room_for [t] \<le> N" "discoverable t"
  obtains u d' where "parse_tree m start d = Some (an u, d')" "node_in d' u" "two_cells (pval (an_props u))"
    "\<And>ty k. \<not> of_type ty (f_nm t) \<Longrightarrow> \<exists>vs. find_by_type d' (an u) ty k = Some (take k (map an vs)) \<and> map conv vs = below_of_type ty t
      \<and> (\<forall>v \<in> set vs. below d' (an u) v) \<and> length vs \<le> 64"
proof -
  from parse_blob [OF assms(1-3)] obtain u d' where
    u: "parse_tree m start d = Some (an u, d')" "nodes_ok d' 0 [u]" "erase [u] = [t]" by blast
  then have t: "t = conv u" by (simp add: erase_conv)
  have "count_nodes [u] = count_fdt (erase [u])" by (rule count_erase)
  then have n: "count_nodes [u] \<le> 64" using u(3) assms(4) by (simp add: discoverable_def)
  have bu: "bfs [u] = u # bfs (an_kids u)" by (cases u) simp
  have fine: "\<forall>v \<in> set (bfs [u]). cells_fine (pval (an_props v))"
    using assms(4) fbfs_conv [of "[u]"] t by (auto simp: discoverable_def)
  have in_u: "node_in d' u" using nodes_in [OF u(2)] by simp
  have "\<exists>vs. find_by_type d' (an u) ty k = Some (take k (map an vs)) \<and> map conv vs = below_of_type ty t
      \<and> (\<forall>v \<in> set vs. below d' (an u) v) \<and> length vs \<le> 64" if "\<not> of_type ty (f_nm t)" for ty k
  proof (intro exI conjI)
    let ?vs = "filter (\<lambda>v. of_type ty (an_name v)) (bfs (an_kids u))"
    show "find_by_type d' (an u) ty k = Some (take k (map an ?vs))" using find_by_type_bfs [OF u(2) n, of ty k] that by (simp add: bu t)
    have "rev (f_ks t) = map conv (an_kids u)" by (simp add: t conv_def erase_conv)
    then have "fbfs (rev (f_ks t)) = map conv (bfs (an_kids u))" by (simp add: fbfs_conv)
    then show "map conv ?vs = below_of_type ty t" by (simp add: below_of_type_def filter_map comp_def)
    show "\<forall>v \<in> set ?vs. below d' (an u) v" using root_below [OF u(2) fine] by simp
    have "length ?vs \<le> length (bfs [u])" using length_filter_le [of _ "bfs (an_kids u)"] by (simp add: bu le_SucI)
    then show "length ?vs \<le> 64" using n by (simp only: length_bfs)
  qed
  with u(1) in_u show ?thesis using that assms(4) t by (simp add: discoverable_def)
qed

section \<open>The registry\<close>

lemma kmmap_alloc_devices: "kmmap_alloc pa sz perm s = Some (va, s') \<Longrightarrow> devices s' = devices s"
  by (auto simp: kmmap_alloc_def Let_def split: if_splits option.splits bind_splits)

lemma grow_devices_list:
  "grow_devices s = Some s' \<Longrightarrow> dev_list (devices s') = dev_list (devices s) \<and> global_device_id s' = global_device_id s"
  by (auto simp: grow_devices_def Let_def split: if_splits bind_splits)

lemma register_data_appends:
  assumes "register_data ty bytes n s = Some (i, s')"
  shows "i = length (dev_list (devices s)) \<and> (\<exists>p. dev_list (devices s') = dev_list (devices s)
    @ [\<lparr>device_type = ty, device_id = global_device_id s, mmio_range_list = [], device_data = p, device_data_len = n\<rparr>])"
  using assms
  by (auto simp: register_data_def add_device_def get_next_device_id_def dest!: grow_devices_list split: if_splits bind_splits)

lemma add_mmio_range_adds:
  assumes "add_mmio_range i pa len s = Some s'"
  shows "\<exists>va. dev_list (devices s') = (dev_list (devices s))[i := (dev_list (devices s) ! i)
    \<lparr>mmio_range_list := \<lparr>range_pa = pa, range_len = len, mapped_va = va\<rparr> # mmio_range_list (dev_list (devices s) ! i)\<rparr>]"
  using assms by (auto simp: add_mmio_range_def Let_def dest!: kmmap_alloc_devices split: if_splits bind_splits)

text \<open>A device of a type with one range of registers.\<close>

definition device_at :: "u8 list \<Rightarrow> u64 \<Rightarrow> u64 \<Rightarrow> Device \<Rightarrow> bool" where
  "device_at ty pa len e \<longleftrightarrow> device_type e = ty \<and> map (\<lambda>r. (range_pa r, range_len r)) (mmio_range_list e) = [(pa, len)]"

lemma register_range_appends:
  assumes "Option.bind (register_data ty bytes n s) (\<lambda>(i, s). add_mmio_range i pa len s) = Some s'"
  shows "\<exists>e. dev_list (devices s') = dev_list (devices s) @ [e] \<and> device_at ty pa len e"
proof -
  from assms obtain i s1 where 1: "register_data ty bytes n s = Some (i, s1)" "add_mmio_range i pa len s1 = Some s'"
    by (auto split: bind_splits)
  from register_data_appends [OF 1(1)] add_mmio_range_adds [OF 1(2)] show ?thesis by (auto simp: device_at_def)
qed


lemma register_virtio_all:
  "for_each xs register_virtio_device s = Some s' \<Longrightarrow>
     \<exists>es. dev_list (devices s') = dev_list (devices s) @ es
       \<and> list_all2 (\<lambda>x. device_at (str ''virtio_mmio'') (vd_begin_pa x) (vd_len x)) xs es"
proof (induction xs arbitrary: s)
  case (Cons x xs)
  from Cons.prems obtain s1 where 1: "register_virtio_device x s = Some s1" "for_each xs register_virtio_device s1 = Some s'"
    by (auto split: bind_splits)
  from 1(1) obtain e where e: "dev_list (devices s1) = dev_list (devices s) @ [e]"
    "device_at (str ''virtio_mmio'') (vd_begin_pa x) (vd_len x) e"
    unfolding register_virtio_device_def using register_range_appends by blast
  from Cons.IH [OF 1(2)] obtain es where "dev_list (devices s') = dev_list (devices s1) @ es"
    "list_all2 (\<lambda>x. device_at (str ''virtio_mmio'') (vd_begin_pa x) (vd_len x)) xs es" by blast
  with e show ?case by (intro exI [of _ "e # es"]) simp
qed simp

section \<open>The initialisers\<close>

definition describes_virtio :: "fdt \<Rightarrow> VirtioDeviceData \<Rightarrow> bool" where
  "describes_virtio v x \<longleftrightarrow>
     describes (str ''virtio,mmio'') (fval v) (vd_interrupt_id x) (vd_interrupt_parent_id x) (vd_begin_pa x) (vd_len x)"

definition describes_serial :: "fdt \<Rightarrow> SerialDeviceData \<Rightarrow> bool" where
  "describes_serial v x \<longleftrightarrow>
     describes (str ''ns16550a'') (fval v) (sd_interrupt_id x) (sd_interrupt_parent_id x) (sd_begin_pa x) (sd_len x)
     \<and> fval v (str ''clock-frequency'') = Some (be32 (sd_clock_frequency x))"

lemma virtio_nodes_registered:
  assumes "list_all2 describes_virtio (map conv vs) xs" "\<forall>v \<in> set vs. below d (an u) v" "node_in d u" "two_cells (pval (an_props u))"
  shows "for_each (map an vs) (\<lambda>node s. do { (_, data) \<leftarrow> parse_virtio_device d node zero_virtio; register_virtio_device data s }) s
    = for_each xs register_virtio_device s"
  using assms(1,2)
proof (induction vs arbitrary: xs s)
  case (Cons v vs)
  then obtain x ys where x: "xs = x # ys" "describes_virtio (conv v) x" "list_all2 describes_virtio (map conv vs) ys"
    by (auto simp: list_all2_Cons1)
  have "parse_virtio_device d (an v) zero_virtio = Some (0, x)"
    using parse_virtio_described [OF _ assms(3,4)] Cons.prems(2) x(2) by (simp add: describes_virtio_def)
  with Cons.IH [OF x(3)] Cons.prems(2) x(1) show ?case by (cases "register_virtio_device x s") simp_all
qed simp

text \<open>C35: From the bytes of the flattened device tree to the registry: when every virtio node of the tree
  describes its device, \<^verbatim>\<open>virtio_init\<close> on the parsed tree registers exactly these descriptions, in the
  order of the search, and when no allocation makes it panic the registry has gained, behind the
  devices it had, one device for each of them with the described range of registers.
\<close>

theorem virtio_init_registers:
  assumes "blob m start off t" "roomy (dt_heap d) B N" "room_for [t] \<le> N" "discoverable t"
    and "\<not> of_type (str ''virtio_mmio'') (f_nm t)" "list_all2 describes_virtio (below_of_type (str ''virtio_mmio'') t) xs"
  shows "\<exists>root d'. parse_tree m start d = Some (root, d') \<and> virtio_init d' root s = for_each xs register_virtio_device s
    \<and> (\<forall>s'. virtio_init d' root s = Some s' \<longrightarrow> (\<exists>es. dev_list (devices s') = dev_list (devices s) @ es
         \<and> list_all2 (\<lambda>x. device_at (str ''virtio_mmio'') (vd_begin_pa x) (vd_len x)) xs es))"
proof (rule parsed_search [OF assms(1-4)])
  fix u d'
  assume p: "parse_tree m start d = Some (an u, d')" "node_in d' u" "two_cells (pval (an_props u))"
    and f: "\<And>ty k. \<not> of_type ty (f_nm t) \<Longrightarrow> \<exists>vs. find_by_type d' (an u) ty k = Some (take k (map an vs))
      \<and> map conv vs = below_of_type ty t \<and> (\<forall>v \<in> set vs. below d' (an u) v) \<and> length vs \<le> 64"
  from f [OF assms(5), of MAX_VIRTIO_COUNT] obtain vs where
    vs: "find_by_type d' (an u) (str ''virtio_mmio'') MAX_VIRTIO_COUNT = Some (map an vs)"
      "map conv vs = below_of_type (str ''virtio_mmio'') t" "\<forall>v \<in> set vs. below d' (an u) v" by (auto simp: MAX_VIRTIO_COUNT_def)
  have "virtio_init d' (an u) s = for_each xs register_virtio_device s"
    using virtio_nodes_registered [OF _ vs(3) p(2,3), of xs s] vs(1,2) assms(6) by (simp add: virtio_init_def)
  with p(1) register_virtio_all [of xs s] show ?thesis by auto
qed


section \<open>A tree with one serial line and one virtio device\<close>

definition serial_node_ex :: fdt where
  "serial_node_ex = Fdt (str ''serial@10000000'')
     [(str ''compatible'', stringlist [str ''ns16550a'']), (str ''interrupts'', be32 10), (str ''interrupt-parent'', be32 3),
      (s_reg, be64 0x10000000 @ be64 256), (str ''clock-frequency'', be32 3686400)] []"

definition virtio_node_ex :: fdt where
  "virtio_node_ex = Fdt (str ''virtio_mmio@10001000'')
     [(str ''compatible'', stringlist [str ''virtio,mmio'']), (str ''interrupts'', be32 1), (str ''interrupt-parent'', be32 3),
      (s_reg, be64 0x10001000 @ be64 4096)] []"

definition board_ex :: fdt where
  "board_ex = Fdt [] [(s_address_cells, be32 2), (s_size_cells, be32 2)] [serial_node_ex, virtio_node_ex]"

definition names_ex :: "u8 list list" where
  "names_ex = [s_address_cells, s_size_cells, s_reg, str ''compatible'', str ''interrupts'', str ''interrupt-parent'', str ''clock-frequency'']"

definition serial_ex :: SerialDeviceData where
  "serial_ex = \<lparr>sd_interrupt_id = 10, sd_interrupt_parent_id = 3, sd_clock_frequency = 3686400, sd_begin_pa = 0x10000000, sd_len = 256\<rparr>"

definition virtio_ex :: VirtioDeviceData where
  "virtio_ex = \<lparr>vd_interrupt_id = 1, vd_interrupt_parent_id = 3, vd_begin_pa = 0x10001000, vd_len = 4096\<rparr>"

lemma board_blob: "blob (block_mem (flatten names_ex board_ex)) 0 (name_off names_ex) board_ex"
proof (rule blob_flatten)
  have "list_all (\<lambda>n. 0 \<notin> set n) names_ex" by code_simp
  then show "\<forall>n \<in> set names_ex. 0 \<notin> set n" by (simp add: list_all_iff)
  have l: "length (stringlist names_ex) < 200" "length (flat_struct names_ex board_ex) < 1000" by code_simp+
  then show "length (flatten names_ex board_ex) < 2 ^ 32" by (simp add: flatten_def)
  have "list_all (\<lambda>(k, v). k \<in> set names_ex \<and> length v < 50) (f_ps board_ex @ f_ps serial_node_ex @ f_ps virtio_node_ex)" by code_simp
  moreover have "0 \<notin> set (f_nm serial_node_ex)" "0 \<notin> set (f_nm virtio_node_ex)" "length (f_nm serial_node_ex) = 15"
    "length (f_nm virtio_node_ex) = 20" by code_simp+
  ultimately show "well_named names_ex [board_ex]"
    by (simp add: board_ex_def serial_node_ex_def virtio_node_ex_def)
qed (simp add: board_ex_def serial_node_ex_def virtio_node_ex_def)

lemma board_fvals:
  "fval board_ex s_address_cells = Some (be32 2)" "fval board_ex s_size_cells = Some (be32 2)"
  "fval serial_node_ex s_address_cells = None" "fval serial_node_ex s_size_cells = None"
  "fval virtio_node_ex s_address_cells = None" "fval virtio_node_ex s_size_cells = None"
  by code_simp+

lemma board_search: "fbfs [board_ex] = [board_ex, virtio_node_ex, serial_node_ex]" "fbfs (rev (f_ks board_ex)) = [virtio_node_ex, serial_node_ex]"
  by (simp_all add: board_ex_def serial_node_ex_def virtio_node_ex_def)

lemma board_discoverable: "discoverable board_ex"
proof -
  have "count_fdt [board_ex] \<le> 64" by (simp add: board_ex_def serial_node_ex_def virtio_node_ex_def)
  then show ?thesis using board_fvals unfolding discoverable_def board_search by (simp add: two_cells_def cells_fine_def)
qed

lemma board_types:
  "below_of_type (str ''serial'') board_ex = [serial_node_ex]" "below_of_type (str ''virtio_mmio'') board_ex = [virtio_node_ex]"
  "\<not> of_type (str ''serial'') (f_nm board_ex)" "\<not> of_type (str ''virtio_mmio'') (f_nm board_ex)"
proof -
  have "is_type_equal (f_nm serial_node_ex) (str ''serial'')" "\<not> is_type_equal (f_nm virtio_node_ex) (str ''serial'')"
    "\<not> is_type_equal (f_nm serial_node_ex) (str ''virtio_mmio'')" "is_type_equal (f_nm virtio_node_ex) (str ''virtio_mmio'')"
    "\<not> is_type_equal (f_nm board_ex) (str ''serial'')" "\<not> is_type_equal (f_nm board_ex) (str ''virtio_mmio'')"
    by code_simp+
  then show "below_of_type (str ''serial'') board_ex = [serial_node_ex]" "below_of_type (str ''virtio_mmio'') board_ex = [virtio_node_ex]"
    "\<not> of_type (str ''serial'') (f_nm board_ex)" "\<not> of_type (str ''virtio_mmio'') (f_nm board_ex)"
    by (simp_all only: below_of_type_def board_search is_type_equal_iff filter.simps if_True if_False not_False_eq_True)
qed

lemma board_described: "describes_serial serial_node_ex serial_ex" "describes_virtio virtio_node_ex virtio_ex"
proof -
  have s: "fval serial_node_ex (str ''compatible'') = Some (stringlist [str ''ns16550a''])" "fval serial_node_ex (str ''interrupts'') = Some (be32 10)"
    "fval serial_node_ex (str ''interrupt-parent'') = Some (be32 3)" "fval serial_node_ex s_reg = Some (be64 0x10000000 @ be64 256)"
    "fval serial_node_ex (str ''clock-frequency'') = Some (be32 3686400)" by code_simp+
  have v: "fval virtio_node_ex (str ''compatible'') = Some (stringlist [str ''virtio,mmio''])" "fval virtio_node_ex (str ''interrupts'') = Some (be32 1)"
    "fval virtio_node_ex (str ''interrupt-parent'') = Some (be32 3)" "fval virtio_node_ex s_reg = Some (be64 0x10001000 @ be64 4096)" by code_simp+
  have z: "0 \<notin> set (str ''ns16550a'')" "0 \<notin> set (str ''virtio,mmio'')" "length (stringlist [str ''ns16550a'']) = 9"
    "length (stringlist [str ''virtio,mmio'']) = 12" by code_simp+
  have "describes (str ''ns16550a'') (fval serial_node_ex) 10 3 0x10000000 256" unfolding describes_def
    using s z by (intro exI [of _ "[str ''ns16550a'']"] exI [of _ "[]"]) simp
  then show "describes_serial serial_node_ex serial_ex" using s(5) by (simp add: describes_serial_def serial_ex_def)
  have "describes (str ''virtio,mmio'') (fval virtio_node_ex) 1 3 0x10001000 4096" unfolding describes_def
    using v z by (intro exI [of _ "[str ''virtio,mmio'']"] exI [of _ "[]"]) simp
  then show "describes_virtio virtio_node_ex virtio_ex" by (simp add: describes_virtio_def virtio_ex_def)
qed

lemma board_room: "room_for [board_ex] \<le> 1073741784"
proof -
  have "room_for [board_ex] < 5000" by code_simp
  then show ?thesis by simp
qed

theorem virtio_init_registers_witness:
  "\<forall>s. \<exists>root d'. parse_tree (block_mem (flatten names_ex board_ex)) 0 store_ex = Some (root, d')
    \<and> virtio_init d' root s = register_virtio_device virtio_ex s"
proof
  fix s
  show "\<exists>root d'. parse_tree (block_mem (flatten names_ex board_ex)) 0 store_ex = Some (root, d')
    \<and> virtio_init d' root s = register_virtio_device virtio_ex s"
    using virtio_init_registers [OF board_blob store_ex_room board_room board_discoverable board_types(4), of "[virtio_ex]" s]
      board_described(2) by (auto simp: board_types)
qed


section \<open>Interrupt enabling\<close>

text \<open>
  \<^verbatim>\<open>enable_interrupt\<close> combines \<^verbatim>\<open>sie\<close> with the number of the interrupt instead of its bit: the bit that
  enables an interrupt is never set by enabling it.
\<close>

lemma enable_interrupt_own_bit: "bit (sie_csr (enable_interrupt c b)) (unat c) = bit (sie_csr b) (unat c)"
proof -
  have "\<not> bit (unat c) (unat c)" by (simp add: bit_iff_odd)
  then have "\<not> bit c (unat c)" by (simp add: bit_unsigned_iff)
  then show ?thesis by (simp add: enable_interrupt_def bit_or_iff)
qed

end
