(* ===== verification/SerialDrv.thy ===== *)
theory SerialDrv
  imports Ring Mmu
begin

text \<open>
  The serial driver, a user process (\<^verbatim>\<open>driver/serial/serial.c\<close>, \<^verbatim>\<open>regs.h\<close>, \<^verbatim>\<open>user/include/serialreq.h\<close>).

  The main loop serves requests; the interrupt handler runs in between.  An interrupt may arrive
  before and after every queue operation, test and system call of the main loop: \<open>point\<close> is such a place, and \<open>irqs\<close>
  says at which of them one arrives.  The handler itself is not interrupted, because the kernel sets the priority of
  the interrupt to 0 until the handler returns.  Interrupts inside \<^verbatim>\<open>enqueue\<close> are the subject of the section on its steps.

  The UART is outside the source: \<open>dev_read\<close> and \<open>dev_write\<close> answer \<^verbatim>\<open>syscall_read_dev\<close> and \<^verbatim>\<open>syscall_write_dev\<close> from the
  accesses made so far, newest first, with the result and, for a read that succeeds, the byte.  The page at \<^verbatim>\<open>REQVA\<close> is
  \<open>req_page\<close>; touching it when it is not mapped makes the kernel map a zero page.  \<^verbatim>\<open>ipc_send\<close> repeats until the
  receiver takes the message and appears by its effect.  Messages are left out.
\<close>

section \<open>Registers and requests\<close>

definition RBR_THR_DLL_OFFSET :: u64 where "RBR_THR_DLL_OFFSET = 0x00"
definition IER_DLM_OFFSET :: u64 where "IER_DLM_OFFSET = 0x01"
definition IER_ETBEI :: u8 where "IER_ETBEI = 0x2"
definition IER_ALL :: u8 where "IER_ALL = 0xF"
definition IIR_FCR_OFFSET :: u64 where "IIR_FCR_OFFSET = 0x02"
definition IIR_INTP_MASK :: u8 where "IIR_INTP_MASK = 0x01"
definition IIR_IID_OFFSET :: nat where "IIR_IID_OFFSET = 1"
definition IIR_IID_MASK :: u8 where "IIR_IID_MASK = 0x07"
definition IIR_INTP_NO_INTERRUPT_PENDING :: u8 where "IIR_INTP_NO_INTERRUPT_PENDING = 1"
definition IIR_IID_MODEM_STATUS :: u8 where "IIR_IID_MODEM_STATUS = 0"
definition IIR_IID_TRANSMITTER_HOLDING_REGISTER_EMPTY :: u8 where "IIR_IID_TRANSMITTER_HOLDING_REGISTER_EMPTY = 1"
definition IIR_IID_RECEIVED_DATA_AVAILABLE :: u8 where "IIR_IID_RECEIVED_DATA_AVAILABLE = 2"
definition IIR_IID_LINE_STATUS :: u8 where "IIR_IID_LINE_STATUS = 3"
definition IIR_IID_CHARACTER_TIMEOUT :: u8 where "IIR_IID_CHARACTER_TIMEOUT = 6"
definition LCR :: u64 where "LCR = 0x03"
definition LSR :: u64 where "LSR = 0x05"
definition LSR_DR :: u8 where "LSR_DR = 0x01"
definition LSR_THRE :: u8 where "LSR_THRE = push_bit 5 1"
definition MSR :: u64 where "MSR = 0x06"

definition SERIALREQ_SUCCESS :: u64 where "SERIALREQ_SUCCESS = 0"
definition SERIALREQ_INVAL :: u64 where "SERIALREQ_INVAL = 1"
definition SERIALREQ_NO_FUNC :: u64 where "SERIALREQ_NO_FUNC = 2"
definition SERIALREQ_NO_PAYLOAD :: u64 where "SERIALREQ_NO_PAYLOAD = 3"
definition MAX_PAYLOAD_SIZE :: u64 where "MAX_PAYLOAD_SIZE = PAGE_SIZE - 8"
definition SERIALREQ_READ :: u64 where "SERIALREQ_READ = 0"
definition SERIALREQ_WRITE :: u64 where "SERIALREQ_WRITE = 1"
definition MAX_SERIALREQNO :: u64 where "MAX_SERIALREQNO = 2"

section \<open>State\<close>

datatype dev_op = Dev_read u64 u8 | Dev_write u64 u8

record sreply =
  re_whom :: u32
  re_val :: u64
  re_page :: "u8 list option"

record sdrv =
  tx_queue :: CharQueue
  rx_queue :: CharQueue
  base_addr :: u64
  dev_read :: "dev_op list \<Rightarrow> u64 \<Rightarrow> int \<times> u8"
  dev_write :: "dev_op list \<Rightarrow> u64 \<Rightarrow> u8 \<Rightarrow> int"
  dev_log :: "dev_op list"
  irqs :: "nat \<Rightarrow> bool"
  points :: nat
  req_page :: "u8 list option"
  req_whom :: u32
  req_val :: u64
  req_perm :: u64
  replies :: "sreply list"

text \<open>One byte from or to a register; a read that fails leaves the variable \<open>old\<close> alone.\<close>

definition syscall_read_dev :: "u64 \<Rightarrow> u8 \<Rightarrow> sdrv \<Rightarrow> int \<times> u8 \<times> sdrv" where
  "syscall_read_dev off old s =
     (let (ret, b) = dev_read s (dev_log s) (base_addr s + off) in
      if ret < 0 then (ret, old, s)
      else (ret, b, s\<lparr>dev_log := Dev_read (base_addr s + off) b # dev_log s\<rparr>))"

definition syscall_write_dev :: "u64 \<Rightarrow> u8 \<Rightarrow> sdrv \<Rightarrow> int \<times> sdrv" where
  "syscall_write_dev off b s =
     (let ret = dev_write s (dev_log s) (base_addr s + off) b in
      if ret < 0 then (ret, s) else (ret, s\<lparr>dev_log := Dev_write (base_addr s + off) b # dev_log s\<rparr>))"

section \<open>The interrupt handler\<close>

definition enable_serial_interrupt :: "u8 \<Rightarrow> sdrv \<Rightarrow> sdrv" where
  "enable_serial_interrupt interrupt_mask s = snd (syscall_write_dev IER_DLM_OFFSET interrupt_mask s)"

definition disable_serial_interrupt :: "sdrv \<Rightarrow> sdrv" where
  "disable_serial_interrupt s = snd (syscall_write_dev IER_DLM_OFFSET 0 s)"

definition disable_specific_interrupt :: "u8 \<Rightarrow> sdrv \<Rightarrow> sdrv" where
  "disable_specific_interrupt interrupt_flag s =
     (let (_, mask, s) = syscall_read_dev IER_DLM_OFFSET 0 s in enable_serial_interrupt (mask AND NOT interrupt_flag) s)"

definition handle_modem_status :: "sdrv \<Rightarrow> sdrv" where
  "handle_modem_status s = (let (_, _, s) = syscall_read_dev MSR 0 s in s)"

definition handle_line_status_interrupt :: "sdrv \<Rightarrow> sdrv" where
  "handle_line_status_interrupt s = (let (_, _, s) = syscall_read_dev LSR 0 s in s)"

text \<open>The result of writing the data register is ignored.\<close>

partial_function (option) send_loop :: "u8 \<Rightarrow> sdrv \<Rightarrow> sdrv option" where
  "send_loop lsr s =
     (if is_empty (tx_queue s) then Some s
      else
        (let (_, lsr, s) = syscall_read_dev LSR lsr s in
         if lsr AND LSR_THRE = 0 then Some s
         else
           (let (data, q) = dequeue (tx_queue s);
                (_, s) = syscall_write_dev RBR_THR_DLL_OFFSET data (s\<lparr>tx_queue := q\<rparr>)
            in send_loop lsr s)))"

definition handle_transmitter_holding_register_empty :: "sdrv \<Rightarrow> sdrv option" where
  "handle_transmitter_holding_register_empty s =
     (if is_empty (tx_queue s) then Some (disable_specific_interrupt IER_ETBEI s)
      else
        do { s \<leftarrow> send_loop 0 s;
             Some (if is_empty (tx_queue s) then disable_specific_interrupt IER_ETBEI s else s) })"

partial_function (option) receive_loop :: "u8 \<Rightarrow> sdrv \<Rightarrow> sdrv option" where
  "receive_loop lsr s =
     (let (_, lsr, s) = syscall_read_dev LSR lsr s in
      if lsr AND LSR_DR = 0 then Some s
      else
        (let (ret, data, s) = syscall_read_dev RBR_THR_DLL_OFFSET 0 s in
         if ret < 0 then Some s
         else receive_loop lsr (if \<not> is_full (rx_queue s) then s\<lparr>rx_queue := enqueue data (rx_queue s)\<rparr> else s)))"

definition handle_received_data :: "sdrv \<Rightarrow> sdrv option" where
  "handle_received_data s = receive_loop 0 s"

partial_function (option) handle_interrupt :: "sdrv \<Rightarrow> sdrv option" where
  "handle_interrupt s =
     (let (ret, iir, s) = syscall_read_dev IIR_FCR_OFFSET 0 s in
      if ret < 0 then Some s
      else if iir AND IIR_INTP_MASK = IIR_INTP_NO_INTERRUPT_PENDING then Some s
      else
        (let interrupt_code = drop_bit IIR_IID_OFFSET (iir AND IIR_IID_MASK) in
         do { s \<leftarrow> (if interrupt_code = IIR_IID_MODEM_STATUS then Some (handle_modem_status s)
                    else if interrupt_code = IIR_IID_TRANSMITTER_HOLDING_REGISTER_EMPTY
                    then handle_transmitter_holding_register_empty s
                    else if interrupt_code = IIR_IID_RECEIVED_DATA_AVAILABLE then handle_received_data s
                    else if interrupt_code = IIR_IID_LINE_STATUS then Some (handle_line_status_interrupt s)
                    else if interrupt_code = IIR_IID_CHARACTER_TIMEOUT then handle_received_data s
                    else Some s);
              handle_interrupt s }))"

text \<open>A place of the main loop where an interrupt may arrive.\<close>

definition point :: "sdrv \<Rightarrow> sdrv option" where
  "point s =
     (let s' = s\<lparr>points := points s + 1\<rparr> in if irqs s (points s) then handle_interrupt s' else Some s')"

section \<open>The main loop\<close>

definition enable_specific_interrupt :: "u8 \<Rightarrow> sdrv \<Rightarrow> sdrv option" where
  "enable_specific_interrupt interrupt_flag s =
     do { s \<leftarrow> point s;
          let (_, mask, s) = syscall_read_dev IER_DLM_OFFSET 0 s;
          s \<leftarrow> point s;
          point (enable_serial_interrupt (mask OR interrupt_flag) s) }"

partial_function (option) wait_room :: "sdrv \<Rightarrow> sdrv option" where
  "wait_room s =
     (if is_full (tx_queue s) then do { s \<leftarrow> enable_specific_interrupt IER_ETBEI s; wait_room s } else point s)"

fun serial_write :: "u8 list \<Rightarrow> sdrv \<Rightarrow> sdrv option" where
  "serial_write [] s = enable_specific_interrupt IER_ETBEI s"
| "serial_write (b # buf) s =
     do { s \<leftarrow> wait_room s;
          s \<leftarrow> point (s\<lparr>tx_queue := enqueue b (tx_queue s)\<rparr>);
          serial_write buf s }"

text \<open>The bytes stored in the buffer, at most \<open>len\<close>.\<close>

fun serial_read :: "nat \<Rightarrow> sdrv \<Rightarrow> (u8 list \<times> sdrv) option" where
  "serial_read 0 s = Some ([], s)"
| "serial_read (Suc len) s =
     (if is_empty (rx_queue s) then Some ([], s)
      else
        do { s \<leftarrow> point s;
             let (data, q) = dequeue (rx_queue s);
             s \<leftarrow> point (s\<lparr>rx_queue := q\<rparr>);
             (ds, s) \<leftarrow> serial_read len s;
             Some (data # ds, s) })"

definition ipc_reply :: "u64 \<Rightarrow> u8 list option \<Rightarrow> sdrv \<Rightarrow> sdrv" where
  "ipc_reply val pg s = s\<lparr>replies := replies s @ [\<lparr>re_whom = req_whom s, re_val = val, re_page = pg\<rparr>]\<rparr>"

text \<open>The request page, mapped when it is touched: \<^verbatim>\<open>max_len\<close> in the first 8 bytes, then \<^verbatim>\<open>buf\<close>.\<close>

definition payload :: "sdrv \<Rightarrow> u8 list" where
  "payload s = (case req_page s of None \<Rightarrow> replicate 4096 0 | Some pg \<Rightarrow> pg)"

definition max_len :: "u8 list \<Rightarrow> u64" where
  "max_len pg = fold (\<lambda>i v. v + push_bit (8 * i) (ucast (pg ! i))) [0..<8] 0"

text \<open>The bytes read go to the start of the page, over \<^verbatim>\<open>max_len\<close>.\<close>

definition serial_serve_read :: "sdrv \<Rightarrow> sdrv option" where
  "serial_serve_read s =
     (let pg = payload s; s = s\<lparr>req_page := Some pg\<rparr> in
      if max_len pg > MAX_PAYLOAD_SIZE then Some (ipc_reply (- SERIALREQ_INVAL) None s)
      else
        do { (ds, s) \<leftarrow> serial_read (unat (max_len pg)) s;
             let pg = ds @ drop (length ds) pg;
             Some (ipc_reply (of_nat (length ds)) (Some pg) (s\<lparr>req_page := Some pg\<rparr>)) })"

definition serial_serve_write :: "sdrv \<Rightarrow> sdrv option" where
  "serial_serve_write s =
     (let pg = payload s; s = s\<lparr>req_page := Some pg\<rparr> in
      if max_len pg > MAX_PAYLOAD_SIZE then Some (ipc_reply (- SERIALREQ_INVAL) None s)
      else
        do { s \<leftarrow> serial_write (take (unat (max_len pg)) (drop 8 pg)) s;
             Some (ipc_reply SERIALREQ_SUCCESS None s) })"

definition serial_unmap :: "sdrv \<Rightarrow> sdrv" where "serial_unmap s = s\<lparr>req_page := None\<rparr>"

text \<open>What \<^verbatim>\<open>ipc_recv\<close> delivers: its result and, when that is 0, the message with the page it maps.\<close>

record smessage =
  sm_ret :: int
  sm_whom :: u32
  sm_val :: u64
  sm_perm :: u64
  sm_page :: "u8 list option"

text \<open>One round of the loop.  A receive that fails leaves the variables of the last message.\<close>

definition take_message :: "smessage \<Rightarrow> sdrv \<Rightarrow> sdrv" where
  "take_message m s =
     (if sm_ret m = 0
      then s\<lparr>req_whom := sm_whom m, req_val := sm_val m, req_perm := sm_perm m,
             req_page := (case sm_page m of None \<Rightarrow> req_page s | Some pg \<Rightarrow> Some pg)\<rparr>
      else s)"

definition serial_round :: "smessage \<Rightarrow> sdrv \<Rightarrow> sdrv option" where
  "serial_round m s =
     do { s \<leftarrow> point s;
          if sm_ret m = - E_INTR then Some s
          else
            do { let s = take_message m s;
                 if req_val s \<ge> MAX_SERIALREQNO then Some (serial_unmap (ipc_reply (- SERIALREQ_NO_FUNC) None s))
                 else if req_perm s AND PTE_V = 0 then Some (ipc_reply (- SERIALREQ_NO_PAYLOAD) None s)
                 else map_option serial_unmap (if req_val s = SERIALREQ_READ then serial_serve_read s else serial_serve_write s) } }"

text \<open>
  The start of \<^verbatim>\<open>main\<close>: \<open>begin_pa\<close> is what \<^verbatim>\<open>syscall_get_device\<close> stored, 0 when there is no device.  The
  registers are read in this order to be printed.
\<close>

definition read_register :: "u64 \<Rightarrow> sdrv \<Rightarrow> sdrv" where
  "read_register off s = (let (_, _, s) = syscall_read_dev off 0 s in s)"

definition serial_start :: "u64 \<Rightarrow> sdrv \<Rightarrow> sdrv option" where
  "serial_start begin_pa s =
     (let s = s\<lparr>tx_queue := queue_init (tx_queue s), rx_queue := queue_init (rx_queue s), base_addr := begin_pa\<rparr>;
          s = fold read_register [LSR, LCR, IIR_FCR_OFFSET, MSR, IER_DLM_OFFSET] s
      in do { s \<leftarrow> point s;
              s \<leftarrow> point (read_register IIR_FCR_OFFSET s);
              s \<leftarrow> point (enable_serial_interrupt IER_ALL s);
              s \<leftarrow> point (read_register IER_DLM_OFFSET s);
              point (read_register IIR_FCR_OFFSET s) })"

end
