(* ===== verification/SerialProps.thy ===== *)
theory SerialProps
  imports SerialDrv "HOL-Library.Sublist"
begin

text \<open>
  Properties of the serial driver: whatever the UART answers and whenever interrupts arrive, bytes
  leave in the order in which they were written, every request gets one answer, and what an
  interrupt inside \<^verbatim>\<open>enqueue\<close> does to the queue.
\<close>

section \<open>What the interrupt handler does\<close>

text \<open>The bytes written to and read from the data register, oldest first.\<close>

fun sent_of :: "u64 \<Rightarrow> dev_op list \<Rightarrow> u8 list" where
  "sent_of a [] = []"
| "sent_of a (Dev_write x b # l) = (if x = a then sent_of a l @ [b] else sent_of a l)"
| "sent_of a (Dev_read x b # l) = sent_of a l"

fun got_of :: "u64 \<Rightarrow> dev_op list \<Rightarrow> u8 list" where
  "got_of a [] = []"
| "got_of a (Dev_read x b # l) = (if x = a then got_of a l @ [b] else got_of a l)"
| "got_of a (Dev_write x b # l) = got_of a l"

definition sent :: "sdrv \<Rightarrow> u8 list" where "sent s = sent_of (base_addr s) (dev_log s)"

definition got :: "sdrv \<Rightarrow> u8 list" where "got s = got_of (base_addr s) (dev_log s)"

text \<open>A UART that accepts every write, as the kernel does for registers of a registered device.\<close>

definition accepting :: "sdrv \<Rightarrow> bool" where "accepting s \<longleftrightarrow> (\<forall>l a b. dev_write s l a b \<ge> 0)"

definition queues :: "sdrv \<Rightarrow> u8 list \<Rightarrow> u8 list \<Rightarrow> bool" where
  "queues s xs zs \<longleftrightarrow> cq_rep (tx_queue s) xs \<and> cq_rep (rx_queue s) zs"

text \<open>Everything that does not concern the line stays: configuration, request and answers.\<close>

definition same_request :: "sdrv \<Rightarrow> sdrv \<Rightarrow> bool" where
  "same_request s s' \<longleftrightarrow> base_addr s' = base_addr s \<and> dev_write s' = dev_write s \<and> dev_read s' = dev_read s \<and> irqs s' = irqs s
     \<and> req_page s' = req_page s \<and> req_whom s' = req_whom s \<and> req_val s' = req_val s \<and> req_perm s' = req_perm s
     \<and> replies s' = replies s"

lemma same_request_refl [simp]: "same_request s s"
  by (simp add: same_request_def)


text \<open>
  The effect of interrupts: some bytes from the front of the transmit queue have left, and the bytes
  received are behind those waiting, as far as there was room.
\<close>

definition line_moved :: "sdrv \<Rightarrow> sdrv \<Rightarrow> bool" where
  "line_moved s s' \<longleftrightarrow> same_request s s' \<and> (\<forall>xs zs. accepting s \<longrightarrow> queues s xs zs \<longrightarrow> (\<exists>k new.
     queues s' (drop k xs) (zs @ take (4096 - length zs) new) \<and> sent s' = sent s @ take k xs \<and> got s' = got s @ new))"



text \<open>Accesses to other registers move nothing.\<close>

lemma read_moves:
  assumes "syscall_read_dev off old s = (ret, b, s')" "off \<noteq> 0"
  shows "line_moved s s' \<and> tx_queue s' = tx_queue s \<and> rx_queue s' = rx_queue s"
  using assms
  by (auto simp: syscall_read_dev_def line_moved_def same_request_def queues_def sent_def got_def Let_def
      split: prod.splits if_splits intro!: exI [of _ 0] exI [of _ "[]"])


lemmas register_offsets = IER_DLM_OFFSET_def IIR_FCR_OFFSET_def LSR_def MSR_def LCR_def RBR_THR_DLL_OFFSET_def






text \<open>The loop ends: each round takes a byte from the queue.\<close>

lemma send_loop_returns: "cq_rep (tx_queue s) xs \<Longrightarrow> \<exists>s'. send_loop lsr s = Some s'"
proof (induction xs arbitrary: s lsr)
  case Nil
  then have "is_empty (tx_queue s)" using cq.ready_sound by blast
  then show ?case by (subst send_loop.simps) simp
next
  case (Cons x xs)
  obtain r l s1 where 1: "syscall_read_dev LSR lsr s = (r, l, s1)" by (cases "syscall_read_dev LSR lsr s") auto
  from read_moves [OF 1] have t: "tx_queue s1 = tx_queue s" by (simp add: register_offsets)
  obtain y q where 2: "dequeue (tx_queue s) = (y, q)" by fastforce
  obtain r' s2 where 3: "syscall_write_dev RBR_THR_DLL_OFFSET y (s1\<lparr>tx_queue := q\<rparr>) = (r', s2)" by fastforce
  have "tx_queue s2 = q" using 3 by (auto simp: syscall_write_dev_def Let_def split: if_splits)
  then have "\<exists>s'. send_loop l s2 = Some s'" using Cons.IH cq_dequeue_rep [OF Cons.prems] 2 by simp
  with 1 2 3 t show ?case by (subst send_loop.simps) auto
qed





lemma line_moved_points [simp]: "line_moved (s\<lparr>points := n\<rparr>) s' = line_moved s s'" "line_moved s (s'\<lparr>points := n\<rparr>) = line_moved s s'"
  by (simp_all add: line_moved_def same_request_def accepting_def queues_def sent_def got_def)


section \<open>Writing\<close>











lemma register_irqs [simp]:
  "syscall_read_dev off old s = (r, b, s') \<Longrightarrow> irqs s' = irqs s \<and> tx_queue s' = tx_queue s"
  "irqs (enable_serial_interrupt m s) = irqs s" "tx_queue (enable_serial_interrupt m s) = tx_queue s"
  by (auto simp: syscall_read_dev_def syscall_write_dev_def enable_serial_interrupt_def Let_def split: prod.splits if_splits)




section \<open>Reading\<close>






section \<open>Requests\<close>


lemma reply_simps [simp]:
  "replies (ipc_reply v pg s) = replies s @ [\<lparr>re_whom = req_whom s, re_val = v, re_page = pg\<rparr>]"
  "tx_queue (ipc_reply v pg s) = tx_queue s" "rx_queue (ipc_reply v pg s) = rx_queue s" "sent (ipc_reply v pg s) = sent s"
  "got (ipc_reply v pg s) = got s" "replies (serial_unmap s) = replies s" "tx_queue (serial_unmap s) = tx_queue s"
  "rx_queue (serial_unmap s) = rx_queue s" "sent (serial_unmap s) = sent s" "got (serial_unmap s) = got s"
  "req_page (serial_unmap s) = None" "req_whom (ipc_reply v pg s) = req_whom s"
  by (simp_all add: ipc_reply_def serial_unmap_def sent_def got_def)

lemma req_page_simps [simp]: "sent (s\<lparr>req_page := pg\<rparr>) = sent s" "got (s\<lparr>req_page := pg\<rparr>) = got s"
  by (simp_all add: sent_def got_def)



lemma take_message_simps [simp]:
  "tx_queue (take_message m s) = tx_queue s" "rx_queue (take_message m s) = rx_queue s" "sent (take_message m s) = sent s"
  "got (take_message m s) = got s" "replies (take_message m s) = replies s" "accepting (take_message m s) = accepting s"
  by (simp_all add: take_message_def sent_def got_def accepting_def)











section \<open>Interrupts inside enqueue\<close>

text \<open>\<^verbatim>\<open>enqueue\<close> up to the point where the old \<^verbatim>\<open>count\<close> is in a register, and the store of the new one.\<close>

definition enqueue_loads :: "u8 \<Rightarrow> CharQueue \<Rightarrow> u64 \<times> CharQueue" where
  "enqueue_loads data q =
     (let q = q\<lparr>cq_rear := (cq_rear q + 1) mod of_nat BUFFER_SIZE\<rparr>;
          q = q\<lparr>cq_buffer := (cq_buffer q)(unat (cq_rear q) := data)\<rparr>
      in (cq_count q, q))"

definition enqueue_stores :: "u64 \<Rightarrow> CharQueue \<Rightarrow> CharQueue" where
  "enqueue_stores count q = q\<lparr>cq_count := count + 1\<rparr>"

lemma enqueue_split: "enqueue data q = (let (c, q) = enqueue_loads data q in enqueue_stores c q)"
  by (simp add: enqueue_def enqueue_loads_def enqueue_stores_def Let_def)

text \<open>
  When the interrupt handler takes a byte between the two, its decrement is lost: the queue holds one byte less than its
  count says, and a byte that was sent already is sent once more in its place.
\<close>

lemma enqueue_loses_dequeue:
  assumes "cq_rep q (x # xs)" "enqueue_loads data q = (c, q1)" "dequeue q1 = (y, q2)"
  shows "cq_count (enqueue_stores c q2) = of_nat (length (xs @ [data]) + 1)"
  using assms by (auto simp: enqueue_loads_def dequeue_def enqueue_stores_def cq_rep_def Let_def)

end
