(* ===== verification/Spec2Isabelle.thy ===== *)
theory Spec2Isabelle
  imports MemProps ProcProps SyscallProps HeapProps DispatchProps PrintProps FsProps ServProps PipeProps FdProps DiscoveryProps SerialProps
begin

text \<open>
  A verification library for the MOS operating system on RISC-V (\<^verbatim>\<open>src/\<close>): the kernel
  (\<^verbatim>\<open>kern/\<close>, \<^verbatim>\<open>lib/\<close>, \<^verbatim>\<open>include/\<close>), the file-system server (\<^verbatim>\<open>fs/\<close>) and the files, descriptors and
  pipes of the user library (\<^verbatim>\<open>user/lib/\<close>).

  \<^bold>\<open>The program.\<close>  The kernel manages physical pages and three-level Sv39 page tables, processes
  with their identifiers and ASIDs, a scheduler, a heap, devices and interrupts, and serves system
  calls.  Everything else is a process: the file-system server keeps a cache of disk blocks in its
  own address space and answers requests for files; the user library turns its shared pages into
  descriptors that other processes read and write.

  \<^bold>\<open>How the model is written.\<close>  C integers are words of their width; memory is a function from
  64-bit addresses to bytes (\<^verbatim>\<open>CString\<close>), wide accesses are little-endian.  Kernel state is passed
  explicitly in records: \<open>pstate\<close> (memory, page pool, TLB log; \<^verbatim>\<open>kern/pmap.c\<close>), \<open>kstate\<close> (process table,
  queues, trap frame; \<^verbatim>\<open>kern/env.c\<close>), \<open>kheap\<close> (\<^verbatim>\<open>kern/kmalloc.c\<close>), \<open>machine\<close> (kernel, heap, devices and their
  accesses; \<^verbatim>\<open>kern/device.c\<close>), \<open>fsstate\<close> (the server's memory, its mapped pages and the disk), \<open>client\<close> (the pages of a user
  process, and what the server, the kernel and the keyboard answer).  A panic is
  \<^term>\<open>None\<close>; an error code is a negative \<open>int\<close> or the left side of a sum.  Loops are structural
  recursions over the range they run through, \<open>function\<close>s with a measure, or
  \<open>partial_function (option)\<close> where the C loop may not end (the string loops), in which case the
  theorems show that they do return.

  \<^bold>\<open>Theories and sources.\<close>
  \<^item> \<^verbatim>\<open>Prelude\<close>: error codes (\<^verbatim>\<open>include/error.h\<close>), rounding (\<^verbatim>\<open>types.h\<close>), masks (\<^verbatim>\<open>bitops.h\<close>), counting loops.
  \<^item> \<^verbatim>\<open>Queue\<close>: the LIST and TAILQ macros of \<^verbatim>\<open>include/queue.h\<close> on their link fields; \<open>LIST_rep\<close> and \<open>TAILQ_rep\<close>
    relate them to lists; the locales \<open>intrusive_list\<close> and \<open>intrusive_queue\<close> are the contract their clients
    use, interpreted on both.
  \<^item> \<^verbatim>\<open>CString\<close>: \<^verbatim>\<open>lib/string.c\<close> and \<^verbatim>\<open>kern/endian.c\<close>; the word-wise copies equal the byte-wise ones.
  \<^item> \<^verbatim>\<open>Mmu\<close>, \<^verbatim>\<open>Pmap\<close>: \<^verbatim>\<open>include/mmu.h\<close>, \<^verbatim>\<open>kern/pmap.c\<close>, \<^verbatim>\<open>kern/tlbex.c\<close>.  \<^verbatim>\<open>PageEntry\<close>, \<^verbatim>\<open>Pool\<close>, \<^verbatim>\<open>PageTable\<close>, \<^verbatim>\<open>Walk\<close>,
    \<^verbatim>\<open>PageMap\<close> build the abstract address space \<open>translate\<close>, the pool and table invariants and the
    refinement of \<^verbatim>\<open>page_insert\<close> and \<^verbatim>\<open>page_remove\<close>; \<^verbatim>\<open>MemProps\<close> states the properties.
  \<^item> \<^verbatim>\<open>Elf\<close>, \<^verbatim>\<open>Env\<close>, \<^verbatim>\<open>EnvVm\<close>, \<^verbatim>\<open>Sched\<close>: \<^verbatim>\<open>lib/elfloader.c\<close>, \<^verbatim>\<open>kern/env.c\<close>, \<^verbatim>\<open>kern/sched.c\<close>; \<^verbatim>\<open>ProcProps\<close> has identifiers,
    allocation of processes, and the fairness and time slices of the scheduler.
  \<^item> \<^verbatim>\<open>Userspace\<close>, \<^verbatim>\<open>Syscall\<close>: \<^verbatim>\<open>kern/userspace.c\<close>, \<^verbatim>\<open>kern/fork.c\<close>, \<^verbatim>\<open>kern/traps.c\<close> and the calls of
    \<^verbatim>\<open>kern/syscall_all.c\<close> on processes, memory and messages; \<^verbatim>\<open>SyscallProps\<close> the queue invariant and messages.
  \<^item> \<^verbatim>\<open>Kmalloc\<close>: \<^verbatim>\<open>kern/kmalloc.c\<close> refines a list of blocks; the locale \<open>allocator\<close> is its contract;
    \<^verbatim>\<open>HeapProps\<close> first fit, round trip and wrap-around.
  \<^item> \<^verbatim>\<open>DeviceTree\<close>: \<^verbatim>\<open>kern/device_tree.c\<close> on blocks of that heap.  \<^verbatim>\<open>DtRep\<close> says which trees the blocks represent and
    that freeing a tree gives them all back; \<^verbatim>\<open>DtParse\<close> that the parser rebuilds a flattened tree whenever the
    heap has room; \<^verbatim>\<open>DtProps\<close> states these and the breadth-first search; \<^verbatim>\<open>DtFlatten\<close> gives every tree a
    flattened form that the parser accepts.
  \<^item> \<^verbatim>\<open>Device\<close>, \<^verbatim>\<open>Interrupt\<close>, \<^verbatim>\<open>Dispatch\<close>: \<^verbatim>\<open>kern/device.c\<close>, \<^verbatim>\<open>kern/kmmap.c\<close>, \<^verbatim>\<open>kern/plic.c\<close>, \<^verbatim>\<open>kern/env_interrupt.c\<close>, and
    \<^verbatim>\<open>do_syscall\<close> with its table; \<^verbatim>\<open>DispatchProps\<close> isolation between processes, error behaviour of the
    dispatcher, device writes, interrupts.
  \<^item> \<^verbatim>\<open>Discovery\<close>: the initialisers in \<^verbatim>\<open>kern/serial.c\<close>, \<^verbatim>\<open>kern/virtio.c\<close> and \<^verbatim>\<open>kern/plic.c\<close>, \<^verbatim>\<open>kern/interrupt.c\<close>, and the choice
    of the handler of a trap (\<^verbatim>\<open>kern/traps.c\<close>, \<^verbatim>\<open>kern/entry.S\<close>).  \<^verbatim>\<open>DiscoveryProps\<close> follows a device from the bytes of
    the flattened device tree to the registry.
  \<^item> \<^verbatim>\<open>Print\<close>: \<^verbatim>\<open>lib/print.c\<close>; \<^verbatim>\<open>PrintProps\<close> the printed numeral and that it parses back.
  \<^item> \<^verbatim>\<open>Fs\<close>: \<^verbatim>\<open>fs/fs.c\<close> and \<^verbatim>\<open>fs/block.c\<close>.  \<^verbatim>\<open>FsBlock\<close> gives the block layer closed forms under the invariant
    \<open>fs_ok\<close> of a mounted disk; \<^verbatim>\<open>FsFile\<close> and \<^verbatim>\<open>FsMap\<close> specify the block pointers of a file against the set
    of free blocks; \<^verbatim>\<open>FsDir\<close> relates lookups to the list of entries and paths to their names;
    \<^verbatim>\<open>FsProps\<close> states the properties on a sample disk.
  \<^item> \<^verbatim>\<open>Serv\<close>: the requests of \<^verbatim>\<open>fs/serv.c\<close>.  The locale \<open>request_handler\<close> of \<^verbatim>\<open>ServInv\<close> is the contract of its
    seven handlers (one answer, open files survive); \<^verbatim>\<open>ServProps\<close> states the protocol.
  \<^item> \<^verbatim>\<open>Ring\<close>: the ring buffers of \<^verbatim>\<open>driver/serial/char_queue.c\<close> and of pipes under the locales \<open>byte_ring\<close> and
    \<open>bounded_queue\<close>.  \<^verbatim>\<open>Pipe\<close>: \<^verbatim>\<open>user/lib/pipe.c\<close> as a step relation with every interleaving of a reader and a
    writer; \<^verbatim>\<open>PipeProps\<close> the order of the stream, the closed check, and the executions where the
    code fails.
  \<^item> \<^verbatim>\<open>SerialDrv\<close>: the serial driver \<^verbatim>\<open>driver/serial/serial.c\<close> on these queues, with interrupts between the steps of its
    main loop; \<^verbatim>\<open>SerialProps\<close> the order of the bytes on the line, one answer for every request, and the race inside
    \<^verbatim>\<open>enqueue\<close>.
  \<^item> \<^verbatim>\<open>Client\<close>, \<^verbatim>\<open>Fd\<close>: the address space of a user process, and \<^verbatim>\<open>user/lib/fd.c\<close>, \<^verbatim>\<open>file.c\<close>, \<^verbatim>\<open>fsipc.c\<close>, \<^verbatim>\<open>console.c\<close> and
    the creation of pipes on it.  \<^verbatim>\<open>FdMem\<close> reasons about physical cells, which several addresses may share;
    \<^verbatim>\<open>FdProps\<close> has the round trip of write and read, opening, sharing by \<^verbatim>\<open>dup\<close>, the rollback of \<^verbatim>\<open>pipe\<close>, and
    two checks that fall short.

  \<^bold>\<open>Bounds.\<close>  The page pool has at most \<open>2 ^ 32\<close> pages (\<open>max_pages\<close>), so that page addresses do not wrap;
  print widths are below \<open>2 ^ 31\<close>; the disk has at most 262144 blocks, which \<^verbatim>\<open>read_super\<close> checks;
  a device tree is at most 64 levels deep, as the parser's stack, and the search is specified for at most 64 nodes, as
  its queue.  The descriptions of devices use two cells for addresses and sizes, given by the root.

  \<^bold>\<open>Not modelled.\<close>  Assembly (boot, the saving of registers at a trap, \<^verbatim>\<open>tlb_asm.S\<close>: its effect is the TLB log), firmware calls,
  and code that only prints.  The disk driver appears by its effect on the disk.  The process
  functions of the user library, the protocol of the disk driver, and the host tools are not
  modelled.
\<close>

end
